(* ===== verification/Prelude.thy ===== *)
theory Prelude
  imports Main "HOL-Library.Word" "HOL-Library.Char_ord" "HOL-Library.List_Lexorder"
begin

unbundle bit_operations_syntax

text \<open>
  Shared vocabulary of the Raft-KV development.

  \<^item> \<open>bytes\<close>: a C++ \<open>std::string\<close> is a list of 8-bit characters.
  \<^item> \<open>exn\<close>: the exceptions the program throws, with the message it passes.
  \<^item> \<open>('s, 'a) res\<close>: the outcome of a C++ member function that mutates an object of type \<open>'s\<close>.
    An exception keeps the object as it was when the exception left the function, because the
    program mutates in place; \<open>bindR\<close> is the semicolon of C++, \<open>foldR\<close> its range-based \<open>for\<close>
    and \<open>catchR\<close> its \<open>try\<close>/\<open>catch\<close>. \<open>wp\<close> is the weakest precondition of such an
    outcome: one postcondition for the normal return, one for the exception.
  \<^item> Numbers in decimal (\<open>std::to_string\<close>, \<open>std::from_chars\<close>), substring search
    (\<open>std::string::find\<close>) and big-endian and little-endian byte images of machine words, each with
    its round trip.
\<close>

named_theorems wp_simps \<open>rewrite rules for weakest preconditions\<close>
named_theorems bytes_simps \<open>lengths and round trips of byte encodings\<close>

type_synonym bytes = string

abbreviation CR :: char where "CR \<equiv> CHR 0x0D"
abbreviation LF :: char where "LF \<equiv> CHR 0x0A"
abbreviation NUL :: char where "NUL \<equiv> CHR 0x00"
abbreviation QUOTE :: char where "QUOTE \<equiv> CHR 0x27"
abbreviation CRLF :: bytes where "CRLF \<equiv> [CR, LF]"

abbreviation INT32_MAX :: int where "INT32_MAX \<equiv> 2147483647"
abbreviation INT64_MAX :: int where "INT64_MAX \<equiv> 9223372036854775807"
abbreviation UINT64_MAX :: nat where "UINT64_MAX \<equiv> 18446744073709551615"
abbreviation UINT32_MAX :: nat where "UINT32_MAX \<equiv> 4294967295"

section \<open>Exceptions and outcomes\<close>

datatype exn =
    Runtime_error string
  | Invalid_argument string
  | Length_error string
  | Overflow_error string
  | Out_of_range string
  | Undefined_behaviour string

datatype ('s, 'a) res = Ok 'a 's | Throw exn 's

fun bindR :: "('s, 'a) res \<Rightarrow> ('a \<Rightarrow> 's \<Rightarrow> ('s, 'b) res) \<Rightarrow> ('s, 'b) res" where
  "bindR (Ok x s) f = f x s"
| "bindR (Throw e s) f = Throw e s"

fun catchR :: "('s, 'a) res \<Rightarrow> (exn \<Rightarrow> 's \<Rightarrow> ('s, 'a) res) \<Rightarrow> ('s, 'a) res" where
  "catchR (Ok x s) h = Ok x s"
| "catchR (Throw e s) h = h e s"

fun foldR :: "('b \<Rightarrow> 's \<Rightarrow> ('s, unit) res) \<Rightarrow> 'b list \<Rightarrow> 's \<Rightarrow> ('s, unit) res" where
  "foldR f [] s = Ok () s"
| "foldR f (x # xs) s = bindR (f x s) (\<lambda>_ s. foldR f xs s)"

text \<open>A pure fallible computation, lifted into an outcome that leaves the object alone.\<close>

definition liftR :: "exn + 'a \<Rightarrow> 's \<Rightarrow> ('s, 'a) res" where
  "liftR m s = (case m of Inl e \<Rightarrow> Throw e s | Inr x \<Rightarrow> Ok x s)"

fun bindE :: "exn + 'a \<Rightarrow> ('a \<Rightarrow> exn + 'b) \<Rightarrow> exn + 'b" where
  "bindE (Inl e) f = Inl e"
| "bindE (Inr x) f = f x"

fun res_state :: "('s, 'a) res \<Rightarrow> 's" where
  "res_state (Ok x s) = s"
| "res_state (Throw e s) = s"

definition wp :: "('s, 'a) res \<Rightarrow> ('a \<Rightarrow> 's \<Rightarrow> bool) \<Rightarrow> (exn \<Rightarrow> 's \<Rightarrow> bool) \<Rightarrow> bool" where
  "wp r Q E = (case r of Ok x s \<Rightarrow> Q x s | Throw e s \<Rightarrow> E e s)"

lemma liftR_simps [simp]:
  "liftR (Inl e) s = Throw e s" "liftR (Inr x) s = Ok x s"
  by (simp_all add: liftR_def)

lemma wp_Ok [wp_simps, simp]: "wp (Ok x s) Q E = Q x s"
  by (simp add: wp_def)

lemma wp_Throw [wp_simps, simp]: "wp (Throw e s) Q E = E e s"
  by (simp add: wp_def)

lemma wp_bindR [wp_simps]: "wp (bindR m f) Q E = wp m (\<lambda>x s. wp (f x s) Q E) E"
  by (cases m) simp_all

lemma wp_catchR [wp_simps]: "wp (catchR m h) Q E = wp m Q (\<lambda>e s. wp (h e s) Q E)"
  by (cases m) simp_all

lemma wp_liftR [wp_simps]:
  "wp (liftR m s) Q E = (case m of Inl e \<Rightarrow> E e s | Inr x \<Rightarrow> Q x s)"
  by (cases m) simp_all

lemma wp_mono:
  assumes "wp r Q E" and "\<And>x s. Q x s \<Longrightarrow> Q' x s" and "\<And>e s. E e s \<Longrightarrow> E' e s"
  shows "wp r Q' E'"
  using assms by (cases r) auto

lemma wp_conj: "wp r Q E \<Longrightarrow> wp r Q' E' \<Longrightarrow> wp r (\<lambda>x s. Q x s \<and> Q' x s) (\<lambda>e s. E e s \<and> E' e s)"
  by (cases r) auto

lemma wp_if: "wp (if b then r else r') Q E = (if b then wp r Q E else wp r' Q E)"
  by simp

lemma wp_foldR:
  assumes "I s" and "\<And>x s. x \<in> set xs \<Longrightarrow> I s \<Longrightarrow> wp (f x s) (\<lambda>_. I) E"
  shows "wp (foldR f xs s) (\<lambda>_. I) E"
  using assms
proof (induction xs arbitrary: s)
  case Nil
  then show ?case by simp
next
  case (Cons x xs)
  have "wp (f x s) (\<lambda>_. I) E" using Cons.prems by simp
  then have "wp (f x s) (\<lambda>_ t. wp (foldR f xs t) (\<lambda>_. I) E) E"
  proof (rule wp_mono)
    fix t assume "I t"
    then show "wp (foldR f xs t) (\<lambda>_. I) E" by (rule Cons.IH) (simp add: Cons.prems(2))
  qed
  then show ?case by (simp add: wp_bindR)
qed

lemma bindE_eq_Inr: "bindE m f = Inr y \<longleftrightarrow> (\<exists>x. m = Inr x \<and> f x = Inr y)"
  by (cases m) auto

lemma bindR_assoc: "bindR (bindR m f) g = bindR m (\<lambda>x s. bindR (f x s) g)"
  by (cases m) auto

lemma foldR_append: "foldR f (xs @ ys) s = bindR (foldR f xs s) (\<lambda>_. foldR f ys)"
proof (induction xs arbitrary: s)
  case (Cons a xs)
  then show ?case by (cases "f a s") simp_all
qed simp

lemma bindR_eq_Ok: "bindR m f = Ok y s' \<longleftrightarrow> (\<exists>x s. m = Ok x s \<and> f x s = Ok y s')"
  by (cases m) auto

section \<open>Decimal numbers\<close>

definition digit_char :: "nat \<Rightarrow> char" where
  "digit_char d = char_of (48 + d)"

definition is_digit :: "char \<Rightarrow> bool" where
  "is_digit c \<longleftrightarrow> 48 \<le> (of_char c :: nat) \<and> (of_char c :: nat) \<le> 57"

definition digit_value :: "char \<Rightarrow> nat" where
  "digit_value c = (of_char c :: nat) - 48"

text \<open>\<open>std::to_string\<close> on unsigned and signed integers.\<close>

fun to_string_nat :: "nat \<Rightarrow> string" where
  "to_string_nat n =
     (if n < 10 then [digit_char n] else to_string_nat (n div 10) @ [digit_char (n mod 10)])"

declare to_string_nat.simps [simp del]

definition to_string :: "int \<Rightarrow> string" where
  "to_string i = (if i < 0 then CHR ''-'' # to_string_nat (nat (- i)) else to_string_nat (nat i))"

definition dec_value :: "string \<Rightarrow> nat" where
  "dec_value s = foldl (\<lambda>v c. v * 10 + digit_value c) 0 s"

text \<open>
  \<open>std::from_chars\<close> into a \<open>size_t\<close> on a non-empty run of digits: an out-of-range value is an
  error, otherwise the whole run is consumed.
\<close>

definition from_chars_size :: "string \<Rightarrow> nat option" where
  "from_chars_size s = (if dec_value s \<le> UINT64_MAX then Some (dec_value s) else None)"

lemma digit_char_numerals [simp]:
  "digit_char 0 = CHR ''0''" "digit_char (Suc 0) = CHR ''1''" "digit_char 1 = CHR ''1''"
  "digit_char 2 = CHR ''2''" "digit_char 3 = CHR ''3''" "digit_char 4 = CHR ''4''"
  "digit_char 5 = CHR ''5''" "digit_char 6 = CHR ''6''" "digit_char 7 = CHR ''7''"
  "digit_char 8 = CHR ''8''" "digit_char 9 = CHR ''9''"
  by code_simp+

lemma digit_char_Suc [simp]:
  "digit_char (Suc (Suc 0)) = CHR ''2''"
  "digit_char (Suc (Suc (Suc 0))) = CHR ''3''"
  "digit_char (Suc (Suc (Suc (Suc 0)))) = CHR ''4''"
  "digit_char (Suc (Suc (Suc (Suc (Suc 0))))) = CHR ''5''"
  "digit_char (Suc (Suc (Suc (Suc (Suc (Suc 0)))))) = CHR ''6''"
  "digit_char (Suc (Suc (Suc (Suc (Suc (Suc (Suc 0))))))) = CHR ''7''"
  "digit_char (Suc (Suc (Suc (Suc (Suc (Suc (Suc (Suc 0)))))))) = CHR ''8''"
  "digit_char (Suc (Suc (Suc (Suc (Suc (Suc (Suc (Suc (Suc 0))))))))) = CHR ''9''"
  by code_simp+

lemma is_digit_digit_char [simp]: "d < 10 \<Longrightarrow> is_digit (digit_char d)"
  by (simp add: is_digit_def digit_char_def of_char_of)

lemma digit_value_digit_char [simp]: "d < 10 \<Longrightarrow> digit_value (digit_char d) = d"
  by (simp add: digit_value_def digit_char_def of_char_of)

lemma dec_value_snoc [simp]: "dec_value (s @ [c]) = dec_value s * 10 + digit_value c"
  by (simp add: dec_value_def)

lemma dec_value_to_string_nat [simp]: "dec_value (to_string_nat n) = n"
proof (induction n rule: to_string_nat.induct)
  case (1 n)
  show ?case
  proof (cases "n < 10")
    case True
    then show ?thesis by (simp add: to_string_nat.simps [of n] dec_value_def)
  next
    case False
    with 1 show ?thesis by (simp add: to_string_nat.simps [of n])
  qed
qed

lemma to_string_nat_digits: "c \<in> set (to_string_nat n) \<Longrightarrow> is_digit c"
proof (induction n rule: to_string_nat.induct)
  case (1 n)
  then show ?case
    by (cases "n < 10") (auto simp: to_string_nat.simps [of n])
qed

lemma to_string_nat_nonempty [simp]: "to_string_nat n \<noteq> []"
  by (simp add: to_string_nat.simps [of n])

lemma length_to_string_nat:
  "n < 10 ^ k \<Longrightarrow> 0 < k \<Longrightarrow> length (to_string_nat n) \<le> k"
proof (induction n arbitrary: k rule: to_string_nat.induct)
  case (1 n)
  show ?case
  proof (cases "n < 10")
    case True
    with 1 show ?thesis by (simp add: to_string_nat.simps [of n])
  next
    case False
    with 1 obtain k' where k: "k = Suc k'" "0 < k'"
      by (cases k; cases "k - 1") auto
    with 1 False have "length (to_string_nat (n div 10)) \<le> k'"
      by (intro "1.IH") auto
    with k False show ?thesis by (simp add: to_string_nat.simps [of n])
  qed
qed

lemma not_digit_CR [simp]: "\<not> is_digit CR" "\<not> is_digit LF" "\<not> is_digit (CHR ''-'')"
  by (simp_all add: is_digit_def)

lemma to_string_nat_no_CR [simp]: "CR \<notin> set (to_string_nat n)"
  using to_string_nat_digits not_digit_CR by blast

lemma to_string_nat_inject [simp]: "to_string_nat m = to_string_nat n \<longleftrightarrow> m = n"
  by (metis dec_value_to_string_nat)

section \<open>Substring search\<close>

fun find_from :: "string \<Rightarrow> string \<Rightarrow> nat option" where
  "find_from p [] = (if p = [] then Some 0 else None)"
| "find_from p (c # s) =
     (if take (length p) (c # s) = p then Some 0 else map_option Suc (find_from p s))"

text \<open>\<open>std::string_view::find(p, pos)\<close>: the least position at or after \<open>pos\<close>, or \<open>npos\<close>.\<close>

definition find_pos :: "string \<Rightarrow> string \<Rightarrow> nat \<Rightarrow> nat option" where
  "find_pos s p pos =
     (if pos \<le> length s then map_option (\<lambda>i. pos + i) (find_from p (drop pos s)) else None)"

definition substr :: "string \<Rightarrow> nat \<Rightarrow> nat \<Rightarrow> string" where
  "substr s pos n = take n (drop pos s)"

lemma find_from_Some_match:
  "find_from p s = Some i \<Longrightarrow> take (length p) (drop i s) = p"
  by (induction s arbitrary: i) (auto split: if_splits)

lemma find_from_Some_le: "find_from p s = Some i \<Longrightarrow> i + length p \<le> length s"
proof (induction s arbitrary: i)
  case Nil
  then show ?case by (simp split: if_splits)
next
  case (Cons c s)
  show ?case
  proof (cases "take (length p) (c # s) = p")
    case True
    then have "length p \<le> length (c # s)" by (metis length_take min.cobounded1)
    with Cons.prems True show ?thesis by simp
  next
    case False
    with Cons show ?thesis by auto
  qed
qed

lemma find_from_append:
  "find_from p s = Some i \<Longrightarrow> find_from p (s @ t) = Some i"
proof (induction s arbitrary: i)
  case Nil
  then show ?case by (cases t) (auto split: if_splits)
next
  case (Cons c s)
  show ?case
  proof (cases "take (length p) (c # s) = p")
    case True
    then have "length p \<le> length (c # s)" by (metis length_take min.cobounded1)
    with True have "take (length p) (c # s @ t) = p"
      by (metis append_Cons take_all_iff take_append diff_is_0_eq' take_0 append_Nil2)
    with Cons.prems True show ?thesis by simp
  next
    case False
    then obtain j where j: "find_from p s = Some j" "i = Suc j"
      using Cons.prems by auto
    have ne: "take (length p) (c # s @ t) \<noteq> p"
    proof
      assume a: "take (length p) (c # s @ t) = p"
      from j(1) have "length p \<le> length s" using find_from_Some_le by fastforce
      with a have "take (length p) (c # s) = p"
        by (metis append_Cons append_Nil2 diff_is_0_eq' le_Suc_eq length_Cons take_0 take_append)
      with False show False by simp
    qed
    with j Cons.IH show ?thesis by simp
  qed
qed

lemma find_from_None_append:
  "find_from p s = None \<Longrightarrow> find_from p (s @ t) = Some i \<Longrightarrow> length s < i + length p"
proof (induction s arbitrary: i)
  case Nil
  then show ?case by (cases p) auto
next
  case (Cons c s)
  show ?case
  proof (cases "take (length p) (c # s @ t) = p")
    case True
    have "\<not> length p \<le> length (c # s)"
    proof
      assume "length p \<le> length (c # s)"
      with True have "take (length p) (c # s) = p"
        by (metis append_Cons append_Nil2 diff_is_0_eq' take_0 take_append)
      with Cons.prems(1) show False by simp
    qed
    then show ?thesis by simp
  next
    case False
    with Cons.prems obtain j where "find_from p (s @ t) = Some j" "i = Suc j" by auto
    with Cons show ?thesis by (auto split: if_splits)
  qed
qed

lemma find_from_CRLF:
  "CR \<notin> set d \<Longrightarrow> find_from CRLF (d @ CRLF @ rest) = Some (length d)"
  by (induction d) auto

section \<open>Byte images of machine words\<close>

text \<open>
  The big-endian writers of the program fill the buffer from its last byte:
  \<open>out[i] = value & 0xff; value >>= 8\<close>; the readers fold
  \<open>value = (value << 8) | byte\<close> from the first byte. The hard state is little-endian.
\<close>

fun be_bytes :: "nat \<Rightarrow> 'a::len word \<Rightarrow> bytes" where
  "be_bytes 0 v = []"
| "be_bytes (Suc n) v = be_bytes n (drop_bit 8 v) @ [char_of (unat (v AND 0xff))]"

definition read_be :: "bytes \<Rightarrow> 'a::len word" where
  "read_be bs = foldl (\<lambda>v c. push_bit 8 v OR word_of_nat (of_char c)) 0 bs"

fun le_bytes :: "nat \<Rightarrow> 'a::len word \<Rightarrow> bytes" where
  "le_bytes 0 v = []"
| "le_bytes (Suc n) v = char_of (unat (v AND 0xff)) # le_bytes n (drop_bit 8 v)"

fun read_le :: "bytes \<Rightarrow> 'a::len word" where
  "read_le [] = 0"
| "read_le (c # cs) = word_of_nat (of_char c) OR push_bit 8 (read_le cs)"

lemma length_be_bytes [simp, bytes_simps]: "length (be_bytes n v) = n"
  by (induction n arbitrary: v) auto

lemma length_le_bytes [simp, bytes_simps]: "length (le_bytes n v) = n"
  by (induction n arbitrary: v) auto

lemma low_byte: "word_of_nat (unat (v AND 255) mod 256) = take_bit 8 (v :: 'a::len word)"
proof -
  have *: "v AND 255 = take_bit 8 v"
    by (simp add: take_bit_eq_mask mask_eq_exp_minus_1)
  have "take_bit 8 (unat (take_bit 8 v)) = unat (take_bit 8 v)"
    by (simp only: unsigned_take_bit_eq take_bit_take_bit min.idem)
  then have "unat (take_bit 8 v) mod 256 = unat (take_bit 8 v)"
    by (simp add: take_bit_eq_mod)
  then show ?thesis by (simp add: *)
qed

lemma push_bit_or_take_bit:
  "push_bit 8 (take_bit n (drop_bit 8 v)) OR take_bit 8 v = take_bit (n + 8) (v :: 'a::len word)"
  by (rule bit_word_eqI) (auto simp: bit_simps)

lemma foldl_be_bytes:
  "foldl (\<lambda>v c. push_bit 8 v OR word_of_nat (of_char c)) a (be_bytes n v) =
   push_bit (8 * n) a OR take_bit (8 * n) (v :: 'a::len word)"
proof (induction n arbitrary: v)
  case 0
  then show ?case by simp
next
  case (Suc n)
  have "foldl (\<lambda>v c. push_bit 8 v OR word_of_nat (of_char c)) a (be_bytes (Suc n) v) =
        push_bit 8 (push_bit (8 * n) a OR take_bit (8 * n) (drop_bit 8 v)) OR take_bit 8 v"
    by (simp add: Suc.IH low_byte of_char_of)
  also have "\<dots> = push_bit (8 * Suc n) a OR take_bit (8 * Suc n) v"
    using push_bit_or_take_bit [of "8 * n" v]
    by (simp add: push_bit_or or.assoc add.commute)
  finally show ?case .
qed

lemma read_be_be_bytes [simp, bytes_simps]:
  "LENGTH('a) \<le> 8 * n \<Longrightarrow> read_be (be_bytes n v) = (v :: 'a::len word)"
  unfolding read_be_def foldl_be_bytes
  by simp (metis take_bit_word_eq_self)

lemma read_le_le_bytes_take: "read_le (le_bytes n v) = take_bit (8 * n) (v :: 'a::len word)"
proof (induction n arbitrary: v)
  case 0
  then show ?case by simp
next
  case (Suc n)
  then show ?case
    using push_bit_or_take_bit [of "8 * n" v] by (simp add: low_byte of_char_of ac_simps)
qed

lemma read_le_le_bytes [simp, bytes_simps]:
  "LENGTH('a) \<le> 8 * n \<Longrightarrow> read_le (le_bytes n v) = (v :: 'a::len word)"
  by (simp add: read_le_le_bytes_take take_bit_word_eq_self)

lemma be_bytes_inject:
  "LENGTH('a) \<le> 8 * n \<Longrightarrow> be_bytes n v = be_bytes n w \<longleftrightarrow> v = (w :: 'a::len word)"
  by (metis read_be_be_bytes)

lemma unat_max_64: "unat (w :: 64 word) \<le> UINT64_MAX"
  using unsigned_less [of w, where ?'a = nat] by simp

lemma sint_bound_uint:
  "0 \<le> i \<Longrightarrow> i < 2 ^ LENGTH('a) \<Longrightarrow> uint (word_of_int i :: 'a::len word) = i"
  by (simp add: uint_word_of_int)

lemma bit_byte: "bit (word_of_nat (of_char c) :: 'a::len word) k \<Longrightarrow> k < 8"
proof -
  assume a: "bit (word_of_nat (of_char c) :: 'a::len word) k"
  have "take_bit 8 (of_char c :: nat) = of_char c" by (simp add: take_bit_nat_eq_self)
  with a show ?thesis by (metis bit_of_nat_iff bit_take_bit_iff)
qed

lemma bit_read_be: "bit (read_be bs :: 'a::len word) k \<Longrightarrow> k < 8 * length bs"
proof (induction bs arbitrary: k rule: rev_induct)
  case Nil
  then show ?case by (simp add: read_be_def)
next
  case (snoc c bs)
  have "read_be (bs @ [c]) = push_bit 8 (read_be bs) OR (word_of_nat (of_char c) :: 'a word)"
    by (simp add: read_be_def)
  with snoc.prems have "bit (push_bit 8 (read_be bs :: 'a word)) k \<or> bit (word_of_nat (of_char c) :: 'a word) k"
    by (simp add: bit_or_iff)
  then show ?case
    using snoc.IH [of "k - 8"] bit_byte [of c k, where ?'a = 'a] by (auto simp: bit_push_bit_iff)
qed

lemma low_byte_char:
  assumes "8 \<le> LENGTH('a)"
  shows "char_of (unat ((push_bit 8 w OR word_of_nat (of_char c) :: 'a::len word) AND 255)) = c"
proof -
  have "(push_bit 8 w OR word_of_nat (of_char c) :: 'a word) AND 255 = word_of_nat (of_char c)"
  proof (rule bit_word_eqI)
    fix k assume k: "k < LENGTH('a)"
    have m: "(255 :: 'a word) = mask 8" by (simp add: mask_eq_exp_minus_1)
    show "bit ((push_bit 8 w OR word_of_nat (of_char c) :: 'a word) AND 255) k =
          bit (word_of_nat (of_char c) :: 'a word) k"
      unfolding m using bit_byte [of c k, where ?'a = 'a] k
      by (auto simp: bit_and_iff bit_or_iff bit_push_bit_iff bit_mask_iff)
  qed
  moreover have "unat (word_of_nat (of_char c) :: 'a word) = of_char c"
  proof -
    have "(of_char c :: nat) < 256" by simp
    also have "(256 :: nat) \<le> 2 ^ LENGTH('a)" using power_increasing [OF assms, of "2 :: nat"] by simp
    finally show ?thesis by (simp add: unat_of_nat)
  qed
  ultimately show ?thesis by simp
qed

lemma be_bytes_read_be:
  assumes "8 * length bs \<le> LENGTH('a)"
  shows "be_bytes (length bs) (read_be bs :: 'a::len word) = bs"
  using assms
proof (induction bs rule: rev_induct)
  case Nil
  then show ?case by simp
next
  case (snoc c bs)
  have r: "read_be (bs @ [c]) = push_bit 8 (read_be bs) OR (word_of_nat (of_char c) :: 'a word)"
    by (simp add: read_be_def)
  have "drop_bit 8 (push_bit 8 (read_be bs) OR word_of_nat (of_char c)) = (read_be bs :: 'a word)"
  proof (rule bit_word_eqI)
    fix k assume "k < LENGTH('a)"
    show "bit (drop_bit 8 (push_bit 8 (read_be bs) OR word_of_nat (of_char c)) :: 'a word) k =
          bit (read_be bs :: 'a word) k"
      using bit_read_be [of bs k, where ?'a = 'a] bit_byte [of c "8 + k", where ?'a = 'a] snoc.prems
      by (auto simp: bit_drop_bit_eq bit_or_iff bit_push_bit_iff)
  qed
  moreover have "8 \<le> LENGTH('a)" using snoc.prems by simp
  ultimately show ?case using snoc r by (simp add: low_byte_char)
qed

lemma bit_read_le: "bit (read_le bs :: 'a::len word) k \<Longrightarrow> k < 8 * length bs"
proof (induction bs arbitrary: k)
  case Nil
  then show ?case by simp
next
  case (Cons c bs)
  from Cons.prems have "bit (push_bit 8 (read_le bs :: 'a word)) k \<or> bit (word_of_nat (of_char c) :: 'a word) k"
    by (auto simp: bit_or_iff)
  then show ?case
    using Cons.IH [of "k - 8"] bit_byte [of c k, where ?'a = 'a] by (auto simp: bit_push_bit_iff)
qed

lemma le_bytes_read_le:
  assumes "8 * length bs \<le> LENGTH('a)"
  shows "le_bytes (length bs) (read_le bs :: 'a::len word) = bs"
  using assms
proof (induction bs)
  case Nil
  then show ?case by simp
next
  case (Cons c bs)
  have r: "(read_le (c # bs) :: 'a word) = push_bit 8 (read_le bs) OR word_of_nat (of_char c)"
    by (simp add: ac_simps)
  have "drop_bit 8 (push_bit 8 (read_le bs) OR word_of_nat (of_char c)) = (read_le bs :: 'a word)"
  proof (rule bit_word_eqI)
    fix k assume "k < LENGTH('a)"
    show "bit (drop_bit 8 (push_bit 8 (read_le bs) OR word_of_nat (of_char c)) :: 'a word) k =
          bit (read_le bs :: 'a word) k"
      using bit_read_le [of bs k, where ?'a = 'a] bit_byte [of c "8 + k", where ?'a = 'a] Cons.prems
      by (auto simp: bit_drop_bit_eq bit_or_iff bit_push_bit_iff)
  qed
  moreover have "8 \<le> LENGTH('a)" using Cons.prems by simp
  ultimately show ?case
    using Cons low_byte_char [of "read_le bs :: 'a word" c]
    unfolding list.size(4) add_Suc_right le_bytes.simps r by simp
qed

end
