(* ===== verification/Resp.thy ===== *)
theory Resp
  imports Prelude
begin

text \<open>
  The RESP command decoder (\<open>src/src/common/resp_parser.h\<close>), the per-connection input buffer
  (\<open>src/src/common/command_buffer.h\<close>) and the RESP writers of \<open>src/src/server/main.cpp\<close>.

  \<open>resp_number\<close> is the lambda \<open>number\<close> of \<open>TryParseOne\<close>: the out parameters \<open>value\<close> and
  \<open>pos\<close> are results. Positions are \<open>size_t\<close> in the program; every subtraction of the parser is
  guarded, so natural numbers do not truncate where the code would wrap. The lemmas show that
  a serialised command parses back, that a verdict of the parser never changes when more bytes
  arrive, and that the buffer is the unread suffix of the stream.
\<close>

section \<open>The decoder\<close>

datatype parse_state = Complete | NeedMore | Invalid

record parse_result =
  pr_state :: parse_state
  pr_consumed :: nat
  pr_args :: "bytes list"
  pr_error :: string

abbreviation kMaxCommandBytes :: nat where "kMaxCommandBytes \<equiv> 1048576"
abbreviation kMaxArguments :: nat where "kMaxArguments \<equiv> 1024"

definition resp_number :: "bytes \<Rightarrow> nat \<Rightarrow> char \<Rightarrow> nat \<Rightarrow> parse_state \<times> nat \<times> nat" where
  "resp_number raw pos prefix limit =
     (if pos = length raw then (NeedMore, 0, pos)
      else if raw ! pos \<noteq> prefix then (Invalid, 0, pos)
      else case find_pos raw CRLF pos of
        None \<Rightarrow> (if length raw - pos > 22 then Invalid else NeedMore, 0, pos)
      | Some e \<Rightarrow>
          (let digits = substr raw (pos + 1) (e - pos - 1) in
           if digits = [] \<or> length digits > 20 then (Invalid, 0, pos)
           else if list_ex (\<lambda>c. \<not> is_digit c) digits then (Invalid, 0, pos)
           else case from_chars_size digits of
                  None \<Rightarrow> (Invalid, 0, pos)
                | Some v \<Rightarrow> if v > limit then (Invalid, 0, pos) else (Complete, v, e + 2)))"

definition resp_invalid :: "string \<Rightarrow> parse_result" where
  "resp_invalid err = \<lparr>pr_state = Invalid, pr_consumed = 0, pr_args = [], pr_error = err\<rparr>"

definition resp_need_more :: "bytes list \<Rightarrow> parse_result" where
  "resp_need_more args = \<lparr>pr_state = NeedMore, pr_consumed = 0, pr_args = args, pr_error = []\<rparr>"

fun parse_bulks :: "bytes \<Rightarrow> nat \<Rightarrow> nat \<Rightarrow> bytes list \<Rightarrow> parse_result" where
  "parse_bulks raw 0 pos args =
     \<lparr>pr_state = Complete, pr_consumed = pos, pr_args = args, pr_error = []\<rparr>"
| "parse_bulks raw (Suc n) pos args =
     (case resp_number raw pos (CHR ''$'') kMaxCommandBytes of
        (Invalid, _, _) \<Rightarrow> resp_invalid ''invalid bulk length''
      | (NeedMore, _, _) \<Rightarrow> resp_need_more args
      | (Complete, len, pos') \<Rightarrow>
          if pos' > kMaxCommandBytes - 2 \<or> len > kMaxCommandBytes - pos' - 2
            then resp_invalid ''command too large''
          else if length raw - pos' < len + 2 then resp_need_more args
          else if raw ! (pos' + len) \<noteq> CR \<or> raw ! (pos' + len + 1) \<noteq> LF
            then resp_invalid ''invalid bulk terminator''
          else parse_bulks raw n (pos' + len + 2) (args @ [substr raw pos' len]))"

definition TryParseOne :: "bytes \<Rightarrow> parse_result" where
  "TryParseOne raw =
     (case resp_number raw 0 (CHR ''*'') kMaxArguments of
        (Invalid, _, _) \<Rightarrow> resp_invalid ''invalid array length''
      | (NeedMore, _, _) \<Rightarrow> resp_need_more []
      | (Complete, count, pos) \<Rightarrow>
          if count = 0 then resp_invalid ''empty command'' else parse_bulks raw count pos [])"

section \<open>The writers of the server\<close>

definition Error :: "string \<Rightarrow> bytes" where
  "Error message = ''-ERR '' @ message @ CRLF"

definition Bulk :: "bytes \<Rightarrow> bytes" where
  "Bulk value = ''$'' @ to_string_nat (length value) @ CRLF @ value @ CRLF"

definition SerializeCommand :: "bytes list \<Rightarrow> bytes" where
  "SerializeCommand args =
     foldl (\<lambda>result arg. result @ Bulk arg) (''*'' @ to_string_nat (length args) @ CRLF) args"

section \<open>The input buffer\<close>

record command_buffer =
  cb_bytes :: bytes
  cb_offset :: nat

abbreviation kMaxBufferedBytes :: nat where "kMaxBufferedBytes \<equiv> 4194304"

definition UnreadBytes :: "command_buffer \<Rightarrow> nat" where
  "UnreadBytes b = length (cb_bytes b) - cb_offset b"

definition CommandBuffer_Append :: "bytes \<Rightarrow> command_buffer \<Rightarrow> bool \<times> command_buffer" where
  "CommandBuffer_Append chunk b =
     (if chunk = [] then (True, b)
      else if length chunk > kMaxBufferedBytes - UnreadBytes b then (False, b)
      else
        (let b = (if cb_offset b \<noteq> 0
                  then b\<lparr>cb_bytes := drop (cb_offset b) (cb_bytes b), cb_offset := 0\<rparr> else b)
         in (True, b\<lparr>cb_bytes := cb_bytes b @ chunk\<rparr>)))"

text \<open>
  \<open>Next\<close>: clearing the string and swapping it with a fresh one differ in capacity only, so both
  are the empty string here.
\<close>

definition CommandBuffer_Next :: "command_buffer \<Rightarrow> parse_result \<times> command_buffer" where
  "CommandBuffer_Next b =
     (let result = TryParseOne (drop (cb_offset b) (cb_bytes b)) in
      if pr_state result = Complete then
        (let b = b\<lparr>cb_offset := cb_offset b + pr_consumed result\<rparr> in
         (result,
          if cb_offset b = length (cb_bytes b) then b\<lparr>cb_bytes := [], cb_offset := 0\<rparr>
          else if cb_offset b \<ge> 64 * 1024 \<and> UnreadBytes b \<le> 64 * 1024
            then b\<lparr>cb_bytes := drop (cb_offset b) (cb_bytes b), cb_offset := 0\<rparr>
          else b))
      else (result, b))"

section \<open>Facts about \<open>number\<close>\<close>

lemma resp_number_cases:
  assumes "resp_number raw pos p lim = (st, v, pos')" and "pos \<le> length raw"
  shows "(st = Complete \<and> pos + 3 < pos' \<and> pos' \<le> length raw \<and> v \<le> lim \<and> raw ! pos = p) \<or>
         (st \<noteq> Complete \<and> v = 0 \<and> pos' = pos)"
proof -
  have "pos + 3 < e + 2 \<and> e + 2 \<le> length raw"
    if "find_pos raw CRLF pos = Some e" "substr raw (pos + 1) (e - pos - 1) \<noteq> []" for e
    using that by (auto simp: find_pos_def substr_def split: if_splits dest!: find_from_Some_le)
  with assms show ?thesis
    by (auto simp: resp_number_def Let_def split: if_splits option.splits)
qed

lemma find_pos_append:
  "find_pos raw p pos = Some e \<Longrightarrow> find_pos (raw @ later) p pos = Some e"
  by (auto simp: find_pos_def split: if_splits dest: find_from_append [where t = later])

lemma find_pos_None_append:
  assumes "find_pos raw p pos = None" "pos \<le> length raw" "find_pos (raw @ later) p pos = Some e"
  shows "length raw < e + length p"
  using assms find_from_None_append [of p "drop pos raw" later]
  by (auto simp: find_pos_def)

lemma find_pos_bounds:
  "find_pos raw p pos = Some e \<Longrightarrow> pos \<le> e \<and> e + length p \<le> length raw"
  by (auto simp: find_pos_def split: if_splits dest!: find_from_Some_le)

lemma substr_append:
  "pos + n \<le> length raw \<Longrightarrow> substr (raw @ later) pos n = substr raw pos n"
  by (simp add: substr_def)

lemma length_substr: "length (substr raw pos n) = min n (length raw - pos)"
  by (simp add: substr_def)

text \<open>
  The 22-byte bound is exact: a header with no terminator in its first 23 bytes can only continue
  into a length field of more than 20 characters.
\<close>

lemma resp_number_append:
  assumes "resp_number raw pos p lim = (st, v, pos')" and "st \<noteq> NeedMore" and "pos \<le> length raw"
  shows "resp_number (raw @ later) pos p lim = (st, v, pos')"
proof (cases "pos = length raw")
  case True
  with assms show ?thesis by (simp add: resp_number_def)
next
  case False
  then have pos: "pos < length raw" using assms(3) by simp
  show ?thesis
  proof (cases "find_pos raw CRLF pos")
    case (Some e)
    then have "substr (raw @ later) (pos + 1) (e - pos - 1) = substr raw (pos + 1) (e - pos - 1)"
      using find_pos_bounds [OF Some] pos by (cases "e = pos") (auto simp: substr_append substr_def)
    moreover have "find_pos (raw @ later) CRLF pos = Some e" using Some by (rule find_pos_append)
    ultimately have "resp_number (raw @ later) pos p lim = resp_number raw pos p lim"
      using Some pos unfolding resp_number_def by (simp add: nth_append)
    then show ?thesis using assms(1) by simp
  next
    case None
    show ?thesis
    proof (cases "raw ! pos = p")
      case False
      with assms pos show ?thesis by (simp add: resp_number_def nth_append)
    next
      case True
      with assms pos None have long: "length raw - pos > 22" "st = Invalid" "v = 0" "pos' = pos"
        by (auto simp: resp_number_def split: if_splits)
      show ?thesis
      proof (cases "find_pos (raw @ later) CRLF pos")
        case None
        with True pos long show ?thesis by (simp add: resp_number_def nth_append)
      next
        case (Some e)
        from find_pos_None_append [OF None _ Some] find_pos_bounds [OF Some] pos long
        have "length (substr (raw @ later) (pos + 1) (e - pos - 1)) > 20"
          by (auto simp: length_substr)
        with True pos long Some show ?thesis by (simp add: resp_number_def nth_append Let_def)
      qed
    qed
  qed
qed

lemma resp_number_print:
  assumes "n \<le> lim" and "n \<le> UINT64_MAX" and "CR \<noteq> p"
  shows "resp_number (pre @ p # to_string_nat n @ CRLF @ rest) (length pre) p lim =
         (Complete, n, length pre + length (to_string_nat n) + 3)"
proof -
  let ?d = "to_string_nat n"
  have len: "length ?d \<le> 20"
    by (rule length_to_string_nat) (use assms(2) in auto)
  have "CR \<notin> set (p # ?d)" using assms(3) by simp
  from find_from_CRLF [OF this, of rest]
  have find: "find_pos (pre @ p # ?d @ CRLF @ rest) CRLF (length pre) =
              Some (length pre + length ?d + 1)"
    by (simp add: find_pos_def del: find_from.simps)
  have digits: "list_ex (\<lambda>c. \<not> is_digit c) ?d = False"
    by (auto simp: list_ex_iff dest: to_string_nat_digits)
  show ?thesis
    unfolding resp_number_def find
    using len digits assms by (simp add: substr_def from_chars_size_def Let_def)
qed

section \<open>A verdict is final\<close>

lemma parse_bulks_append:
  assumes "pr_state (parse_bulks raw n pos args) \<noteq> NeedMore" and "pos \<le> length raw"
  shows "parse_bulks (raw @ later) n pos args = parse_bulks raw n pos args"
  using assms
proof (induction raw n pos args rule: parse_bulks.induct)
  case (1 raw pos args)
  then show ?case by simp
next
  case (2 raw n pos args)
  obtain st len pos' where num: "resp_number raw pos (CHR ''$'') kMaxCommandBytes = (st, len, pos')"
    by (metis prod_cases3)
  show ?case
  proof (cases st)
    case NeedMore
    with 2 num show ?thesis by (simp add: resp_need_more_def)
  next
    case Invalid
    with num resp_number_append [OF num] 2 show ?thesis by simp
  next
    case Complete
    with resp_number_cases [OF num] 2 have pos': "pos' \<le> length raw" by simp
    note num' = resp_number_append [OF num, of later]
    show ?thesis
    proof (cases "length raw - pos' < len + 2")
      case True
      with 2 num num' Complete show ?thesis
        by (auto simp: resp_need_more_def resp_invalid_def split: if_splits)
    next
      case False
      then have "pos' + len + 1 < length raw" using pos' by simp
      then have nth: "(raw @ later) ! (pos' + len) = raw ! (pos' + len)"
        "(raw @ later) ! (pos' + len + 1) = raw ! (pos' + len + 1)"
        by (simp_all add: nth_append)
      have sub: "substr (raw @ later) pos' len = substr raw pos' len"
        using False pos' by (intro substr_append) simp
      from False pos' have "\<not> length (raw @ later) - pos' < len + 2" by simp
      moreover from 2 num Complete False pos'
      have "parse_bulks (raw @ later) n (pos' + len + 2) (args @ [substr raw pos' len]) =
            parse_bulks raw n (pos' + len + 2) (args @ [substr raw pos' len])"
        if "\<not> (pos' > kMaxCommandBytes - 2 \<or> len > kMaxCommandBytes - pos' - 2)"
           "\<not> (raw ! (pos' + len) \<noteq> CR \<or> raw ! (pos' + len + 1) \<noteq> LF)"
        using that by auto
      ultimately show ?thesis
        using 2(3) num num' Complete False nth sub by simp
    qed
  qed
qed

lemma parse_stable:
  assumes "pr_state (TryParseOne raw) \<noteq> NeedMore"
  shows "TryParseOne (raw @ later) = TryParseOne raw"
proof -
  obtain st count pos where num: "resp_number raw 0 (CHR ''*'') kMaxArguments = (st, count, pos)"
    by (metis prod_cases3)
  show ?thesis
  proof (cases st)
    case NeedMore
    with assms num show ?thesis by (simp add: TryParseOne_def resp_need_more_def)
  next
    case Invalid
    with num resp_number_append [OF num, of later] show ?thesis by (simp add: TryParseOne_def)
  next
    case Complete
    with resp_number_cases [OF num] have "pos \<le> length raw" by simp
    with Complete num resp_number_append [OF num, of later] assms show ?thesis
      by (auto simp: TryParseOne_def parse_bulks_append)
  qed
qed

text \<open>
  C27. Chunking never changes a verdict: once \<open>TryParseOne\<close> reports a complete command or a
  malformed frame for the bytes received so far, it reports exactly the same result, arguments,
  consumed length and error text included, whatever bytes arrive later.
\<close>

theorem TryParseOne_append:
  assumes "pr_state (TryParseOne raw) \<noteq> NeedMore"
  shows "TryParseOne (raw @ later) = TryParseOne raw"
  using assms by (rule parse_stable)

lemmas resp_eval = TryParseOne_def resp_number_def find_pos_def substr_def is_digit_def
  from_chars_size_def dec_value_def digit_value_def Let_def

theorem TryParseOne_append_witness:
  "pr_state (TryParseOne (''*1'' @ CRLF @ ''$4'' @ CRLF @ ''PING'' @ CRLF)) \<noteq> NeedMore \<and>
   TryParseOne ((''*1'' @ CRLF @ ''$4'' @ CRLF @ ''PING'' @ CRLF) @ ''*x'') =
   TryParseOne (''*1'' @ CRLF @ ''$4'' @ CRLF @ ''PING'' @ CRLF)"
proof -
  have c: "pr_state (TryParseOne (''*1'' @ CRLF @ ''$4'' @ CRLF @ ''PING'' @ CRLF)) \<noteq> NeedMore"
    by (simp add: resp_eval)
  then show ?thesis
    using TryParseOne_append [OF c, of "''*x''"] by simp
qed

section \<open>Round trip\<close>

lemma SerializeCommand_concat:
  "SerializeCommand args = ''*'' @ to_string_nat (length args) @ CRLF @ concat (map Bulk args)"
proof -
  have "foldl (\<lambda>result arg. result @ Bulk arg) acc args = acc @ concat (map Bulk args)" for acc
    by (induction args arbitrary: acc) auto
  then show ?thesis by (simp add: SerializeCommand_def)
qed

lemma substr_mid: "substr (p @ a @ q) (length p) (length a) = a"
  by (simp add: substr_def)

lemma parse_bulks_Bulk:
  assumes "length pre + length (Bulk a) \<le> kMaxCommandBytes"
  shows "parse_bulks (pre @ Bulk a @ rest) (Suc n) (length pre) acc =
         parse_bulks (pre @ Bulk a @ rest) n (length pre + length (Bulk a)) (acc @ [a])"
proof -
  let ?raw = "pre @ Bulk a @ rest"
  let ?d = "to_string_nat (length a)"
  let ?pos = "length pre + length ?d + 3"
  have len: "length (Bulk a) = length ?d + length a + 5" by (simp add: Bulk_def)
  have "resp_number (pre @ CHR ''$'' # ?d @ CRLF @ (a @ CRLF @ rest)) (length pre) (CHR ''$'')
          kMaxCommandBytes = (Complete, length a, ?pos)"
    by (rule resp_number_print) (use assms len in auto)
  then have num: "resp_number ?raw (length pre) (CHR ''$'') kMaxCommandBytes =
                  (Complete, length a, ?pos)"
    by (simp add: Bulk_def)
  have fits: "\<not> (?pos > kMaxCommandBytes - 2 \<or> length a > kMaxCommandBytes - ?pos - 2)"
    "\<not> length ?raw - ?pos < length a + 2"
    using assms len by auto
  have raw: "?raw = (pre @ ''$'' @ ?d @ CRLF) @ a @ CRLF @ rest" by (simp add: Bulk_def)
  have nth: "?raw ! (?pos + length a) = CR" "?raw ! (?pos + length a + 1) = LF"
    unfolding raw by (simp_all add: nth_append)
  have "?pos = length (pre @ ''$'' @ ?d @ CRLF)" by simp
  then have sub: "substr ?raw ?pos (length a) = a"
    unfolding raw by (simp only: substr_mid)
  show ?thesis
    using num fits nth sub by (simp add: len add.assoc add.commute add.left_commute)
qed

lemma parse_bulks_print:
  assumes "length pre + length (concat (map Bulk as)) \<le> kMaxCommandBytes"
  shows "parse_bulks (pre @ concat (map Bulk as) @ rest) (length as) (length pre) acc =
         \<lparr>pr_state = Complete, pr_consumed = length pre + length (concat (map Bulk as)),
          pr_args = acc @ as, pr_error = []\<rparr>"
  using assms
proof (induction as arbitrary: pre acc)
  case Nil
  then show ?case by simp
next
  case (Cons a as)
  let ?tail = "concat (map Bulk as) @ rest"
  have "parse_bulks (pre @ Bulk a @ ?tail) (Suc (length as)) (length pre) acc =
        parse_bulks (pre @ Bulk a @ ?tail) (length as) (length pre + length (Bulk a)) (acc @ [a])"
    by (rule parse_bulks_Bulk) (use Cons.prems in simp)
  also have "\<dots> = parse_bulks ((pre @ Bulk a) @ ?tail) (length as) (length (pre @ Bulk a)) (acc @ [a])"
    by simp
  also have "\<dots> = \<lparr>pr_state = Complete,
        pr_consumed = length (pre @ Bulk a) + length (concat (map Bulk as)),
        pr_args = (acc @ [a]) @ as, pr_error = []\<rparr>"
    by (rule Cons.IH) (use Cons.prems in simp)
  finally show ?case by (simp add: add.assoc)
qed

lemma parse_serialized:
  assumes "args \<noteq> []" and "length args \<le> kMaxArguments"
    and "length (SerializeCommand args) \<le> kMaxCommandBytes"
  shows "TryParseOne (SerializeCommand args @ rest) =
         \<lparr>pr_state = Complete, pr_consumed = length (SerializeCommand args),
          pr_args = args, pr_error = []\<rparr>"
proof -
  let ?d = "to_string_nat (length args)"
  let ?body = "concat (map Bulk args)"
  let ?pre = "''*'' @ ?d @ CRLF"
  have raw: "SerializeCommand args @ rest = CHR ''*'' # ?d @ CRLF @ (?body @ rest)"
    by (simp add: SerializeCommand_concat)
  have num: "resp_number (SerializeCommand args @ rest) 0 (CHR ''*'') kMaxArguments =
             (Complete, length args, length ?pre)"
    using resp_number_print [of "length args" kMaxArguments "CHR ''*''" "[]"] assms(2)
    by (simp add: raw)
  have "parse_bulks (?pre @ ?body @ rest) (length args) (length ?pre) [] =
        \<lparr>pr_state = Complete, pr_consumed = length ?pre + length ?body,
         pr_args = [] @ args, pr_error = []\<rparr>"
    by (rule parse_bulks_print) (use assms(3) in \<open>simp add: SerializeCommand_concat\<close>)
  then have "parse_bulks (SerializeCommand args @ rest) (length args) (length ?pre) [] =
        \<lparr>pr_state = Complete, pr_consumed = length (SerializeCommand args),
         pr_args = args, pr_error = []\<rparr>"
    by (simp add: SerializeCommand_concat)
  with num assms(1) show ?thesis by (simp add: TryParseOne_def)
qed

text \<open>
  C26. Round trip of the command encoding: a non-empty command of at most 1024 arguments whose
  serialised form fits the 1 MiB limit is parsed back by \<open>TryParseOne\<close> into exactly its arguments,
  consuming exactly its own bytes, whatever bytes follow it in the stream. Values are arbitrary
  bytes, CR and LF included.
\<close>

theorem TryParseOne_SerializeCommand:
  assumes "args \<noteq> []" and "length args \<le> kMaxArguments"
    and "length (SerializeCommand args) \<le> kMaxCommandBytes"
  shows "TryParseOne (SerializeCommand args @ rest) =
         \<lparr>pr_state = Complete, pr_consumed = length (SerializeCommand args),
          pr_args = args, pr_error = []\<rparr>"
  using assms by (rule parse_serialized)

theorem TryParseOne_SerializeCommand_witness:
  "TryParseOne (SerializeCommand [''SET'', ''k'', CRLF] @ ''*1'') =
   \<lparr>pr_state = Complete, pr_consumed = length (SerializeCommand [''SET'', ''k'', CRLF]),
    pr_args = [''SET'', ''k'', CRLF], pr_error = []\<rparr>"
  by (rule TryParseOne_SerializeCommand)
    (simp_all add: SerializeCommand_def Bulk_def to_string_nat.simps)

section \<open>Bounds\<close>

lemma parse_bulks_bounds:
  assumes "parse_bulks raw n pos args = r" and "pr_state r = Complete" and "pos \<le> length raw"
  shows "pr_consumed r \<le> length raw \<and>
         (0 < n \<longrightarrow> pr_consumed r \<le> kMaxCommandBytes) \<and>
         length (pr_args r) = length args + n \<and>
         pos + sum_list (map length (pr_args r)) \<le> pr_consumed r + sum_list (map length args)"
  using assms
proof (induction raw n pos args arbitrary: r rule: parse_bulks.induct)
  case (1 raw pos args)
  then show ?case by auto
next
  case (2 raw n pos args)
  obtain st len pos' where num: "resp_number raw pos (CHR ''$'') kMaxCommandBytes = (st, len, pos')"
    by (metis prod_cases3)
  with "2.prems" have st: "st = Complete"
    by (cases st) (auto simp: resp_invalid_def resp_need_more_def)
  with resp_number_cases [OF num] "2.prems"(3) have pos': "pos < pos'" "pos' \<le> length raw" by auto
  from "2.prems" num st have guards:
    "\<not> (pos' > kMaxCommandBytes - 2 \<or> len > kMaxCommandBytes - pos' - 2)"
    "\<not> length raw - pos' < len + 2"
    "\<not> (raw ! (pos' + len) \<noteq> CR \<or> raw ! (pos' + len + 1) \<noteq> LF)"
    and r: "r = parse_bulks raw n (pos' + len + 2) (args @ [substr raw pos' len])"
    by (auto simp: resp_invalid_def resp_need_more_def split: if_splits)
  have le: "pos' + len + 2 \<le> length raw" using guards pos' by simp
  have "length (substr raw pos' len) = len" using le by (simp add: length_substr)
  moreover have "pr_consumed r \<le> length raw \<and>
        (0 < n \<longrightarrow> pr_consumed r \<le> kMaxCommandBytes) \<and>
        length (pr_args r) = length (args @ [substr raw pos' len]) + n \<and>
        pos' + len + 2 + sum_list (map length (pr_args r)) \<le>
          pr_consumed r + sum_list (map length (args @ [substr raw pos' len]))"
    by (rule "2.IH" [OF num [symmetric] st refl guards r [symmetric] "2.prems"(2) le])
  moreover have "pr_consumed r \<le> kMaxCommandBytes" if "n = 0"
    using that r guards(1) by auto
  ultimately show ?case using pos' by (cases n) auto
qed

lemma parse_bounds:
  assumes "pr_state (TryParseOne raw) = Complete"
  shows "pr_consumed (TryParseOne raw) \<le> length raw \<and>
         pr_consumed (TryParseOne raw) \<le> kMaxCommandBytes \<and>
         pr_args (TryParseOne raw) \<noteq> [] \<and>
         length (pr_args (TryParseOne raw)) \<le> kMaxArguments \<and>
         sum_list (map length (pr_args (TryParseOne raw))) < pr_consumed (TryParseOne raw)"
proof -
  obtain st count pos where num: "resp_number raw 0 (CHR ''*'') kMaxArguments = (st, count, pos)"
    by (metis prod_cases3)
  with assms have st: "st = Complete" "count \<noteq> 0"
    by (cases st; auto simp: TryParseOne_def resp_invalid_def resp_need_more_def split: if_splits)+
  with resp_number_cases [OF num] have n: "3 < pos" "pos \<le> length raw" "count \<le> kMaxArguments"
    by auto
  have eq: "TryParseOne raw = parse_bulks raw count pos []"
    using num st by (simp add: TryParseOne_def)
  from parse_bulks_bounds [OF refl, of raw count pos "[]"] assms n st show ?thesis
    unfolding eq by auto
qed

text \<open>
  C30. Bounds of the decoder: a complete command never reads past the input, occupies between 1 byte
  and 1 MiB, has between 1 and 1024 arguments, and its argument bytes are strictly fewer than the
  bytes it consumed.
\<close>

theorem TryParseOne_bounds:
  assumes "pr_state (TryParseOne raw) = Complete"
  shows "pr_consumed (TryParseOne raw) \<le> length raw \<and>
         pr_consumed (TryParseOne raw) \<le> kMaxCommandBytes \<and>
         pr_args (TryParseOne raw) \<noteq> [] \<and>
         length (pr_args (TryParseOne raw)) \<le> kMaxArguments \<and>
         sum_list (map length (pr_args (TryParseOne raw))) < pr_consumed (TryParseOne raw)"
  using assms by (rule parse_bounds)

theorem TryParseOne_bounds_witness:
  "pr_state (TryParseOne (''*1'' @ CRLF @ ''$4'' @ CRLF @ ''PING'' @ CRLF)) = Complete \<and>
   pr_args (TryParseOne (''*1'' @ CRLF @ ''$4'' @ CRLF @ ''PING'' @ CRLF)) \<noteq> []"
proof -
  have c: "pr_state (TryParseOne (''*1'' @ CRLF @ ''$4'' @ CRLF @ ''PING'' @ CRLF)) = Complete"
    by (simp add: resp_eval)
  then show ?thesis using TryParseOne_bounds [OF c] by blast
qed

section \<open>The buffer is the unread stream\<close>

definition buffer_ok :: "command_buffer \<Rightarrow> bool" where
  "buffer_ok b \<longleftrightarrow> cb_offset b \<le> length (cb_bytes b) \<and> UnreadBytes b \<le> kMaxBufferedBytes"

definition unread :: "command_buffer \<Rightarrow> bytes" where
  "unread b = drop (cb_offset b) (cb_bytes b)"

lemma length_unread: "length (unread b) = UnreadBytes b"
  by (simp add: unread_def UnreadBytes_def)

lemma Append_unread:
  "CommandBuffer_Append chunk b = (ok, b') \<Longrightarrow> buffer_ok b \<Longrightarrow>
     buffer_ok b' \<and> unread b' = (if ok then unread b @ chunk else unread b) \<and>
     (ok \<longleftrightarrow> length (unread b @ chunk) \<le> kMaxBufferedBytes)"
  by (auto simp: CommandBuffer_Append_def buffer_ok_def UnreadBytes_def unread_def Let_def
      split: if_splits)

lemma Next_unread:
  assumes "CommandBuffer_Next b = (r, b')" and "buffer_ok b"
  shows "buffer_ok b' \<and> r = TryParseOne (unread b) \<and>
         unread b' = (if pr_state r = Complete then drop (pr_consumed r) (unread b) else unread b)"
proof (cases "pr_state (TryParseOne (unread b)) = Complete")
  case True
  from parse_bounds [OF True]
  have "cb_offset b + pr_consumed (TryParseOne (unread b)) \<le> length (cb_bytes b)"
    using assms(2) by (auto simp: unread_def buffer_ok_def)
  with True assms show ?thesis
    by (auto simp: CommandBuffer_Next_def unread_def buffer_ok_def UnreadBytes_def Let_def
        add.commute split: if_splits)
next
  case False
  with assms show ?thesis
    by (auto simp: CommandBuffer_Next_def unread_def Let_def)
qed

text \<open>The client of the buffer: take \<open>n\<close> commands from it.\<close>

fun take_commands :: "nat \<Rightarrow> command_buffer \<Rightarrow> bytes list list \<times> command_buffer" where
  "take_commands 0 b = ([], b)"
| "take_commands (Suc n) b =
     (case CommandBuffer_Next b of (r, b') \<Rightarrow>
        if pr_state r = Complete
        then (case take_commands n b' of (cs, b'') \<Rightarrow> (pr_args r # cs, b''))
        else ([], b'))"

definition sendable :: "bytes list \<Rightarrow> bool" where
  "sendable args \<longleftrightarrow> args \<noteq> [] \<and> length args \<le> kMaxArguments \<and>
     length (SerializeCommand args) \<le> kMaxCommandBytes"

lemma take_commands_pipeline:
  assumes "buffer_ok b" and "\<forall>c\<in>set cs. sendable c"
    and "unread b = concat (map SerializeCommand cs) @ rest"
  shows "fst (take_commands (length cs) b) = cs \<and>
         unread (snd (take_commands (length cs) b)) = rest \<and>
         buffer_ok (snd (take_commands (length cs) b))"
  using assms
proof (induction cs arbitrary: b)
  case Nil
  then show ?case by simp
next
  case (Cons c cs)
  obtain r b' where n: "CommandBuffer_Next b = (r, b')" by (cases "CommandBuffer_Next b")
  let ?tail = "concat (map SerializeCommand cs) @ rest"
  have r: "r = \<lparr>pr_state = Complete, pr_consumed = length (SerializeCommand c),
                pr_args = c, pr_error = []\<rparr>"
    using Next_unread [OF n Cons.prems(1)] Cons.prems(2,3)
      parse_serialized [of c ?tail]
    by (simp add: sendable_def)
  with Next_unread [OF n Cons.prems(1)] Cons.prems(3)
  have "buffer_ok b'" "unread b' = ?tail" by auto
  from Cons.IH [OF this(1) _ this(2)] Cons.prems(2) show ?case
    using n r by (auto split: prod.splits)
qed

text \<open>
  C28. Pipelining across TCP chunks: appending any chunk to a buffer whose unread bytes together with
  the chunk are the concatenation of serialised commands and a remainder, then calling \<open>Next\<close> once
  per command, returns exactly those commands in order and leaves exactly the remainder unread. The
  chunk boundary plays no role, and the buffer stays within its 4 MiB limit.
\<close>

theorem buffer_pipeline:
  assumes "buffer_ok b" and "\<forall>c\<in>set cs. sendable c"
    and "unread b @ chunk = concat (map SerializeCommand cs) @ rest"
    and "CommandBuffer_Append chunk b = (True, b')"
  shows "fst (take_commands (length cs) b') = cs \<and>
         unread (snd (take_commands (length cs) b')) = rest \<and>
         buffer_ok (snd (take_commands (length cs) b'))"
  using take_commands_pipeline [of b' cs rest] Append_unread [OF assms(4,1)] assms(2,3) by simp

theorem buffer_pipeline_witness:
  "fst (take_commands (length [[''PING''], [''INFO'']]) (snd (CommandBuffer_Append (CRLF @ ''$4'' @ CRLF @ ''PING'' @ CRLF @
          ''*1'' @ CRLF @ ''$4'' @ CRLF @ ''INFO'' @ CRLF @ ''*'')
        \<lparr>cb_bytes = ''xx*1'', cb_offset = 2\<rparr>))) = [[''PING''], [''INFO'']]"
proof -
  let ?b = "\<lparr>cb_bytes = ''xx*1'', cb_offset = 2\<rparr>"
  let ?c = "CRLF @ ''$4'' @ CRLF @ ''PING'' @ CRLF @ ''*1'' @ CRLF @ ''$4'' @ CRLF @ ''INFO'' @ CRLF @ ''*''"
  show ?thesis
    by (rule buffer_pipeline [of ?b _ ?c "''*''", THEN conjunct1])
      (simp_all add: buffer_ok_def UnreadBytes_def unread_def sendable_def SerializeCommand_def
        Bulk_def to_string_nat.simps CommandBuffer_Append_def)
qed

end
