(* ===== verification/Commands.thy ===== *)
theory Commands
  imports Resp
begin

text \<open>
  Command classification (\<open>src/src/common/command_type.h\<close>).

  \<open>ParseRequestId\<close> works on \<open>uint64_t\<close>, so its accumulator is a \<open>64 word\<close> and its overflow
  guard is the one the code computes; the lemmas show it accepts exactly the decimal numbers from 1
  to the largest \<open>uint64_t\<close> without leading zeros. Out parameters are option results, the
  \<open>valid\<close>/\<open>error\<close> pair of \<open>IdempotentCommand\<close> is kept as the code has it.
\<close>

section \<open>Definitions\<close>

datatype command_kind = READ | WRITE | ERROR

record command_class =
  cc_type :: command_kind
  cc_error :: string

fun ParseRequestId_loop :: "string \<Rightarrow> 64 word \<Rightarrow> 64 word option" where
  "ParseRequestId_loop [] value = Some value"
| "ParseRequestId_loop (c # cs) value =
     (if \<not> is_digit c then None
      else
        (let digit = word_of_nat (digit_value c) in
         if value > (word_of_nat UINT64_MAX - digit) div 10 then None
         else ParseRequestId_loop cs (value * 10 + digit)))"

definition ParseRequestId :: "string \<Rightarrow> 64 word option" where
  "ParseRequestId text =
     (if text = [] \<or> length text > 20 \<or> text ! 0 = CHR ''0'' then None
      else ParseRequestId_loop text 0)"

record idempotent_command =
  ic_valid :: bool
  ic_client_id :: bytes
  ic_request_id :: "64 word"
  ic_op :: string
  ic_key :: bytes
  ic_value :: bytes
  ic_error :: string

definition toupper :: "char \<Rightarrow> char" where
  "toupper c = (if 97 \<le> (of_char c :: nat) \<and> (of_char c :: nat) \<le> 122
                then char_of ((of_char c :: nat) - 32) else c)"

definition UpperCommand :: "string \<Rightarrow> string" where
  "UpperCommand text = map toupper text"

definition no_idempotent :: idempotent_command where
  "no_idempotent = \<lparr>ic_valid = False, ic_client_id = [], ic_request_id = 0, ic_op = [],
                    ic_key = [], ic_value = [], ic_error = []\<rparr>"

definition quoted :: "string \<Rightarrow> string" where
  "quoted s = QUOTE # s @ [QUOTE]"

definition ParseIdempotentCommand :: "bytes list \<Rightarrow> idempotent_command" where
  "ParseIdempotentCommand args =
     (let parsed = no_idempotent in
      if args = [] \<or> UpperCommand (args ! 0) \<noteq> ''IDEMP''
        then parsed\<lparr>ic_error := ''ERR unknown command''\<rparr>
      else if length args \<noteq> 5 \<and> length args \<noteq> 6
        then parsed\<lparr>ic_error := ''ERR wrong number of arguments for '' @ quoted ''IDEMP'' @ '' command''\<rparr>
      else if args ! 1 = [] \<or> length (args ! 1) > 128
        then parsed\<lparr>ic_error := ''ERR invalid client id''\<rparr>
      else case ParseRequestId (args ! 2) of
        None \<Rightarrow> parsed\<lparr>ic_error := ''ERR invalid request id''\<rparr>
      | Some rid \<Rightarrow>
          (let inner = UpperCommand (args ! 3);
               finish = (\<lambda>parsed. parsed\<lparr>ic_client_id := args ! 1, ic_request_id := rid, ic_key := args ! 4\<rparr>)
           in
           if inner = ''SET'' \<and> length args = 6
             then finish (parsed\<lparr>ic_valid := True, ic_op := ''SET'', ic_value := args ! 5\<rparr>)
           else if inner = ''DEL'' \<and> length args = 5
             then finish (parsed\<lparr>ic_valid := True, ic_op := ''DEL''\<rparr>)
           else if inner = ''SET'' \<or> inner = ''DEL''
             then parsed\<lparr>ic_error := ''ERR wrong number of arguments for '' @ quoted inner @ '' command''\<rparr>
           else parsed\<lparr>ic_error := ''ERR unknown command '' @ quoted (args ! 3)\<rparr>))"

definition WriteKeyIndex :: "bytes list \<Rightarrow> nat" where
  "WriteKeyIndex args = (if args \<noteq> [] \<and> args ! 0 = ''IDEMP'' then 4 else 1)"

definition wrong_arity :: "string \<Rightarrow> command_class" where
  "wrong_arity op = \<lparr>cc_type = ERROR,
     cc_error = ''ERR wrong number of arguments for '' @ quoted op @ '' command''\<rparr>"

definition ClassifyCommand :: "bytes list \<Rightarrow> command_class" where
  "ClassifyCommand args =
     (if args = [] then \<lparr>cc_type = ERROR, cc_error = ''ERR empty command''\<rparr>
      else
        (let op = args ! 0 in
         if op = ''SET'' \<and> length args = 3 then \<lparr>cc_type = WRITE, cc_error = []\<rparr>
         else if op = ''DEL'' \<and> length args = 2 then \<lparr>cc_type = WRITE, cc_error = []\<rparr>
         else if op = ''IDEMP'' then
           (let parsed = ParseIdempotentCommand args in
            if \<not> ic_valid parsed then \<lparr>cc_type = ERROR, cc_error = ic_error parsed\<rparr>
            else \<lparr>cc_type = WRITE, cc_error = []\<rparr>)
         else if op = ''PING'' \<or> op = ''SELECT'' \<or> op = ''GET'' \<or> op = ''INFO'' then
           (if (op = ''PING'' \<and> length args \<noteq> 1) \<or> (op = ''SELECT'' \<and> length args \<noteq> 2) \<or>
               (op = ''GET'' \<and> length args \<noteq> 2) \<or> (op = ''INFO'' \<and> length args \<noteq> 1)
            then wrong_arity op
            else \<lparr>cc_type = READ, cc_error = []\<rparr>)
         else if op = ''SET'' \<or> op = ''DEL'' then wrong_arity op
         else \<lparr>cc_type = ERROR, cc_error = ''ERR unknown command '' @ quoted op\<rparr>))"

definition IsReadIndexRedirectError :: "string \<Rightarrow> bool" where
  "IsReadIndexRedirectError err \<longleftrightarrow>
     err = ''not leader'' \<or> err = ''no leader'' \<or> err = ''leadership lost'' \<or> err = ''server stopped''"

datatype linearizable_get_action = Serve | Redirect | Fail

definition DecideLinearizableGet :: "bool \<Rightarrow> bool \<Rightarrow> string \<Rightarrow> linearizable_get_action" where
  "DecideLinearizableGet success still_leader err =
     (if success \<and> still_leader then Serve
      else if \<not> success \<and> still_leader \<and> \<not> IsReadIndexRedirectError err then Fail
      else Redirect)"

section \<open>Request ids\<close>

lemma digit_value_le: "is_digit c \<Longrightarrow> digit_value c \<le> 9"
  by (auto simp: is_digit_def digit_value_def)

lemma foldl_dec_mono:
  "n \<le> foldl (\<lambda>v c. v * 10 + digit_value c) n cs"
proof (induction cs arbitrary: n)
  case (Cons c cs)
  have "n \<le> n * 10 + digit_value c" by simp
  also have "\<dots> \<le> foldl (\<lambda>v c. v * 10 + digit_value c) (n * 10 + digit_value c) cs" by (rule Cons.IH)
  finally show ?case by simp
qed simp

text \<open>One step of the loop: the guard rejects exactly the values that would overflow.\<close>

lemma overflow_guard:
  assumes "d \<le> 9"
  shows "v > (word_of_nat UINT64_MAX - word_of_nat d) div (10 :: 64 word) \<longleftrightarrow>
         unat v * 10 + d > UINT64_MAX"
proof -
  have d: "unat (word_of_nat d :: 64 word) = d"
    using assms by (simp add: unat_of_nat)
  have max: "unat (word_of_nat UINT64_MAX :: 64 word) = UINT64_MAX" by simp
  have "unat (word_of_nat UINT64_MAX - word_of_nat d :: 64 word) = UINT64_MAX - d"
    using assms d max by (subst unat_sub) (auto simp: word_le_nat_alt)
  then have "unat ((word_of_nat UINT64_MAX - word_of_nat d) div (10 :: 64 word)) = (UINT64_MAX - d) div 10"
    by (simp add: unat_div)
  then show ?thesis using assms by (auto simp: word_less_nat_alt)
qed

lemma ParseRequestId_loop_iff:
  "ParseRequestId_loop cs v = Some w \<longleftrightarrow>
     (\<forall>c\<in>set cs. is_digit c) \<and>
     foldl (\<lambda>v c. v * 10 + digit_value c) (unat v) cs = unat w"
proof (induction cs arbitrary: v)
  case Nil
  then show ?case by (auto simp: word_unat_eq_iff)
next
  case (Cons c cs)
  show ?case
  proof (cases "is_digit c")
    case False
    then show ?thesis by simp
  next
    case True
    let ?d = "digit_value c"
    note guard = overflow_guard [OF digit_value_le [OF True], of v]
    show ?thesis
    proof (cases "unat v * 10 + ?d > UINT64_MAX")
      case over: True
      have "unat w \<le> UINT64_MAX" by (rule unat_max_64)
      then have "foldl (\<lambda>v c. v * 10 + digit_value c) (unat v * 10 + ?d) cs \<noteq> unat w"
        using foldl_dec_mono [of "unat v * 10 + ?d" cs] over by linarith
      then show ?thesis using True over guard by (simp add: Let_def)
    next
      case fits: False
      then have "unat (v * 10 + word_of_nat ?d) = unat v * 10 + ?d"
        using True digit_value_le [OF True] by (simp add: unat_word_ariths unat_of_nat)
      then show ?thesis using True fits guard Cons.IH by (simp add: Let_def)
    qed
  qed
qed

lemma dec_value_lower:
  "cs \<noteq> [] \<Longrightarrow> \<forall>c\<in>set cs. is_digit c \<Longrightarrow> hd cs \<noteq> CHR ''0'' \<Longrightarrow>
     10 ^ (length cs - 1) \<le> dec_value cs"
proof (induction cs rule: rev_induct)
  case Nil
  then show ?case by simp
next
  case (snoc c cs)
  show ?case
  proof (cases cs)
    case Nil
    with snoc.prems have "(of_char c :: nat) \<noteq> 48"
      by (auto simp: is_digit_def) (metis char_of_char digit_char_def digit_char_numerals(1) add_0_right)
    with Nil snoc.prems show ?thesis
      by (auto simp: dec_value_def digit_value_def is_digit_def)
  next
    case (Cons a list)
    with snoc have "10 ^ (length cs - 1) \<le> dec_value cs" by simp
    then have "10 * 10 ^ (length cs - 1) \<le> dec_value cs * 10" by simp
    moreover have "10 * 10 ^ (length cs - 1) = (10::nat) ^ length cs"
      using Cons by simp
    ultimately show ?thesis by simp
  qed
qed

lemma dec_value_size:
  assumes "cs \<noteq> []" "\<forall>c\<in>set cs. is_digit c" "hd cs \<noteq> CHR ''0''" "dec_value cs \<le> UINT64_MAX"
  shows "length cs \<le> 20"
proof (rule ccontr)
  assume "\<not> length cs \<le> 20"
  then have "(10::nat) ^ 20 \<le> 10 ^ (length cs - 1)" by (intro power_increasing) auto
  with dec_value_lower [OF assms(1-3)] assms(4) show False by simp
qed

lemma ParseRequestId_pos: "ParseRequestId s = Some w \<Longrightarrow> w \<noteq> 0"
proof
  assume a: "ParseRequestId s = Some w" and "w = 0"
  then have s: "s \<noteq> []" "\<forall>c\<in>set s. is_digit c" "hd s \<noteq> CHR ''0''" "dec_value s = unat w"
    by (auto simp: ParseRequestId_def ParseRequestId_loop_iff dec_value_def hd_conv_nth split: if_splits)
  have "(1::nat) \<le> 10 ^ (length s - 1)" by simp
  with dec_value_lower [OF s(1-3)] s(4) \<open>w = 0\<close> show False by simp
qed

text \<open>What the fields of a valid idempotent command are.\<close>

lemma ParseIdempotentCommand_valid:
  assumes "ic_valid (ParseIdempotentCommand args)"
  shows "args \<noteq> [] \<and> ic_request_id (ParseIdempotentCommand args) \<noteq> 0 \<and>
         ic_client_id (ParseIdempotentCommand args) = args ! 1 \<and>
         ic_key (ParseIdempotentCommand args) = args ! 4 \<and>
         (ic_op (ParseIdempotentCommand args) = ''SET'' \<and> length args = 6 \<or>
          ic_op (ParseIdempotentCommand args) = ''DEL'' \<and> length args = 5)"
  using assms
  by (auto simp: ParseIdempotentCommand_def no_idempotent_def Let_def ParseRequestId_pos
      split: if_splits option.splits)

text \<open>
  C31. Request ids: \<open>ParseRequestId\<close> accepts exactly the non-empty decimal strings without a leading
  zero whose value fits a \<open>uint64_t\<close>, and returns that value. The running overflow check on 64-bit
  words never wraps and the 20-character limit rejects nothing that fits.
\<close>

theorem ParseRequestId_correct:
  "ParseRequestId s = Some w \<longleftrightarrow>
     s \<noteq> [] \<and> list_all is_digit s \<and> hd s \<noteq> CHR ''0'' \<and> dec_value s = unat w"
proof -
  have "unat w \<le> UINT64_MAX" by (rule unat_max_64)
  then show ?thesis
    using dec_value_size [of s]
    by (auto simp: ParseRequestId_def ParseRequestId_loop_iff list_all_iff dec_value_def hd_conv_nth)
qed

end
