(* ===== verification/SessionQueue.thy ===== *)
theory SessionQueue
  imports Commands
begin

text \<open>
  The per-connection command queue (\<open>src/src/common/session_queue.h\<close>).

  Times are integers of the steady clock and enter as arguments. \<open>PopFront\<close> on an empty deque is
  undefined behaviour in C++; the model returns \<open>None\<close> there, and the server only calls it after
  \<open>Empty()\<close> was false. The lemmas show the byte account, the queue limits, and that draining moves a
  prefix of the input stream into the queue without losing, reordering or duplicating a command.
\<close>

section \<open>Definitions\<close>

abbreviation kMaxCommands :: nat where "kMaxCommands \<equiv> 1000"
abbreviation kMaxQueueBytes :: nat where "kMaxQueueBytes \<equiv> 4194304"
abbreviation kMaxCommandsPerTurn :: nat where "kMaxCommandsPerTurn \<equiv> 128"

definition AccountedBytes :: "nat \<Rightarrow> bytes list \<Rightarrow> nat" where
  "AccountedBytes consumed args =
     (let retained = foldl (\<lambda>r arg. r + length arg) 0 args in
      if consumed > retained then consumed else retained)"

definition Limits_IsFull :: "nat \<Rightarrow> nat \<Rightarrow> bool" where
  "Limits_IsFull queued_commands queued_bytes \<longleftrightarrow>
     queued_commands \<ge> kMaxCommands \<or> queued_bytes \<ge> kMaxQueueBytes"

record queued_command =
  qc_type :: command_kind
  qc_args :: "bytes list"
  qc_enqueued_at :: int
  qc_error_message :: string
  qc_bytes :: nat

record session_queue =
  sq_items :: "queued_command list"
  sq_queued_bytes :: nat

definition SessionQueue_IsFull :: "session_queue \<Rightarrow> bool" where
  "SessionQueue_IsFull q = Limits_IsFull (length (sq_items q)) (sq_queued_bytes q)"

definition upper_verb :: "bytes list \<Rightarrow> bytes list" where
  "upper_verb args = (if args \<noteq> [] then args[0 := map toupper (args ! 0)] else args)"

definition make_queued :: "int \<Rightarrow> bytes list \<Rightarrow> nat \<Rightarrow> queued_command" where
  "make_queued now args consumed =
     (let args = upper_verb args; classified = ClassifyCommand args in
      \<lparr>qc_type = cc_type classified, qc_args = args, qc_enqueued_at = now,
       qc_error_message = cc_error classified, qc_bytes = AccountedBytes consumed args\<rparr>)"

definition Enqueue :: "int \<Rightarrow> bytes list \<Rightarrow> nat \<Rightarrow> session_queue \<Rightarrow> bool \<times> session_queue" where
  "Enqueue now args consumed q =
     (if SessionQueue_IsFull q then (False, q)
      else
        (let cmd = make_queued now args consumed in
         (True, q\<lparr>sq_queued_bytes := sq_queued_bytes q + qc_bytes cmd,
                  sq_items := sq_items q @ [cmd]\<rparr>)))"

definition PopFront :: "session_queue \<Rightarrow> (queued_command \<times> session_queue) option" where
  "PopFront q =
     (case sq_items q of
        [] \<Rightarrow> None
      | cmd # rest \<Rightarrow>
          Some (cmd, q\<lparr>sq_items := rest, sq_queued_bytes := sq_queued_bytes q - qc_bytes cmd\<rparr>))"

definition ShouldReplyInvalidFrame :: "bool \<Rightarrow> bool \<Rightarrow> bool \<Rightarrow> bool" where
  "ShouldReplyInvalidFrame executing waiting queue_empty \<longleftrightarrow>
     \<not> executing \<and> \<not> waiting \<and> queue_empty"

definition CanDeliverClientReply :: "bool \<Rightarrow> bool \<Rightarrow> bool" where
  "CanDeliverClientReply connected closing \<longleftrightarrow> connected \<and> \<not> closing"

record drain_outcome =
  dr_stop_read :: bool
  dr_invalid :: bool
  dr_invalid_error :: string
  dr_enqueued :: nat
  dr_consumed_bytes :: nat

definition drain_start :: drain_outcome where
  "drain_start = \<lparr>dr_stop_read = False, dr_invalid = False, dr_invalid_error = [],
                  dr_enqueued = 0, dr_consumed_bytes = 0\<rparr>"

text \<open>The loop of \<open>DrainCommands\<close>; the first argument counts the turns left.\<close>

fun drain_loop ::
  "nat \<Rightarrow> int \<Rightarrow> command_buffer \<Rightarrow> session_queue \<Rightarrow> drain_outcome \<Rightarrow>
   command_buffer \<times> session_queue \<times> drain_outcome" where
  "drain_loop 0 now input queue out = (input, queue, out)"
| "drain_loop (Suc n) now input queue out =
     (if SessionQueue_IsFull queue then (input, queue, out\<lparr>dr_stop_read := True\<rparr>)
      else
        (case CommandBuffer_Next input of (parsed, input) \<Rightarrow>
          if pr_state parsed = NeedMore then (input, queue, out)
          else if pr_state parsed = Invalid then
            (input, queue,
             out\<lparr>dr_stop_read := True, dr_invalid := True, dr_invalid_error := pr_error parsed\<rparr>)
          else
            (case Enqueue now (pr_args parsed) (pr_consumed parsed) queue of
               (False, queue) \<Rightarrow> (input, queue, out\<lparr>dr_stop_read := True\<rparr>)
             | (True, queue) \<Rightarrow>
                 drain_loop n now input queue
                   (out\<lparr>dr_consumed_bytes := dr_consumed_bytes out + pr_consumed parsed,
                        dr_enqueued := dr_enqueued out + 1\<rparr>))))"

definition DrainCommands ::
  "nat \<Rightarrow> bool \<Rightarrow> int \<Rightarrow> command_buffer \<Rightarrow> session_queue \<Rightarrow>
   command_buffer \<times> session_queue \<times> drain_outcome" where
  "DrainCommands max_per_turn keep_reading now input queue =
     (if \<not> keep_reading then (input, queue, drain_start)
      else drain_loop max_per_turn now input queue drain_start)"

section \<open>The queue account\<close>

definition queue_ok :: "session_queue \<Rightarrow> bool" where
  "queue_ok q \<longleftrightarrow>
     sq_queued_bytes q = sum_list (map qc_bytes (sq_items q)) \<and>
     length (sq_items q) \<le> kMaxCommands \<and>
     sq_queued_bytes q < kMaxQueueBytes + kMaxCommandBytes"

lemma retained_sum: "foldl (\<lambda>r arg. r + length arg) n args = n + sum_list (map length args)"
  by (induction args arbitrary: n) auto

lemma length_upper_verb [simp]: "map length (upper_verb args) = map length args"
  by (cases args) (auto simp: upper_verb_def)

lemma make_queued_bytes:
  assumes "sum_list (map length args) < consumed"
  shows "qc_bytes (make_queued now args consumed) = consumed"
  using assms by (simp add: make_queued_def AccountedBytes_def retained_sum Let_def)

lemma Enqueue_ok:
  assumes "queue_ok q" and "Enqueue now args consumed q = (b, q')"
    and "sum_list (map length args) < consumed" and "consumed \<le> kMaxCommandBytes"
  shows "queue_ok q' \<and>
         (b \<longrightarrow> sq_items q' = sq_items q @ [make_queued now args consumed] \<and>
              sq_queued_bytes q' = sq_queued_bytes q + consumed) \<and>
         (\<not> b \<longrightarrow> q' = q)"
  using assms make_queued_bytes [OF assms(3), of now]
  by (auto simp: Enqueue_def SessionQueue_IsFull_def Limits_IsFull_def queue_ok_def Let_def
      split: if_splits)

lemma PopFront_ok:
  "queue_ok q \<Longrightarrow> PopFront q = Some (c, q') \<Longrightarrow>
     queue_ok q' \<and> sq_items q = c # sq_items q' \<and>
     sq_queued_bytes q' + qc_bytes c = sq_queued_bytes q"
  by (auto simp: PopFront_def queue_ok_def split: list.splits)

section \<open>Draining moves a prefix of the stream\<close>

text \<open>
  \<open>frames raw n\<close> is the reference: parse \<open>n\<close> commands off the front of a byte stream, with the
  arguments and the length of each frame, and return what is left.
\<close>

fun frames :: "bytes \<Rightarrow> nat \<Rightarrow> (bytes list \<times> nat) list \<times> bytes" where
  "frames raw 0 = ([], raw)"
| "frames raw (Suc n) =
     (let r = TryParseOne raw in
      if pr_state r = Complete
      then (case frames (drop (pr_consumed r) raw) n of
              (fs, rest) \<Rightarrow> ((pr_args r, pr_consumed r) # fs, rest))
      else ([], raw))"

lemma frames_more:
  "frames raw k = (fs, rest) \<Longrightarrow> length fs = k \<Longrightarrow> frames (raw @ later) k = (fs, rest @ later)"
proof (induction k arbitrary: raw fs)
  case (Suc k)
  let ?r = "TryParseOne raw"
  have c: "pr_state ?r = Complete" using Suc.prems by (auto simp: Let_def split: if_splits)
  then have same: "TryParseOne (raw @ later) = ?r" by (intro parse_stable) simp
  obtain gs where gs: "frames (drop (pr_consumed ?r) raw) k = (gs, rest)" "fs = (pr_args ?r, pr_consumed ?r) # gs"
    using Suc.prems(1) c by (auto simp: Let_def split: prod.splits)
  have "pr_consumed ?r \<le> length raw" using parse_bounds [OF c] by simp
  with Suc.IH [OF gs(1)] gs(2) Suc.prems(2) c same show ?case by (simp add: Let_def)
qed simp

lemma frames_frames:
  "frames raw k = (fs, rest) \<Longrightarrow> length fs = k \<Longrightarrow> frames rest j = (gs, rest') \<Longrightarrow> frames raw (k + j) = (fs @ gs, rest')"
proof (induction k arbitrary: raw fs)
  case (Suc k)
  then have c: "pr_state (TryParseOne raw) = Complete" by (auto simp: Let_def split: if_splits)
  with Suc show ?case by (fastforce simp: Let_def split: prod.splits)
qed simp

lemma drain_loop_spec:
  assumes "drain_loop n now input queue out = (input', queue', out')"
    and "buffer_ok input" and "queue_ok queue"
  shows "buffer_ok input' \<and> queue_ok queue' \<and>
    (\<exists>k fs. k \<le> n \<and> frames (unread input) k = (fs, unread input') \<and> length fs = k \<and>
       sq_items queue' = sq_items queue @ map (\<lambda>(args, len). make_queued now args len) fs \<and>
       dr_enqueued out' = dr_enqueued out + k \<and>
       dr_consumed_bytes out' = dr_consumed_bytes out + sum_list (map snd fs) \<and>
       UnreadBytes input = UnreadBytes input' + sum_list (map snd fs))"
  using assms
proof (induction n now input queue out rule: drain_loop.induct)
  case (1 now input queue out)
  then show ?case by (intro conjI exI [of _ 0]) auto
next
  case (2 n now input queue out)
  show ?case
  proof (cases "SessionQueue_IsFull queue")
    case True
    with 2 show ?thesis by (auto intro!: exI [of _ 0])
  next
    case open_: False
    obtain r b where nx: "CommandBuffer_Next input = (r, b)" by (cases "CommandBuffer_Next input")
    note nu = Next_unread [OF nx "2.prems"(2)]
    show ?thesis
    proof (cases "pr_state r = Complete")
      case False
      with 2 nx nu open_ have "input' = b" "queue' = queue" "dr_enqueued out' = dr_enqueued out"
        "dr_consumed_bytes out' = dr_consumed_bytes out"
        by (cases "pr_state r"; auto)+
      moreover from False nu have "unread b = unread input" by simp
      ultimately show ?thesis
        using nu "2.prems" length_unread [of b] length_unread [of input]
        by (intro conjI exI [of _ 0]) auto
    next
      case True
      with nu have st: "pr_state (TryParseOne (unread input)) = Complete" by simp
      note bounds = parse_bounds [OF st]
      obtain q where en: "Enqueue now (pr_args r) (pr_consumed r) queue = (True, q)"
        using open_ by (auto simp: Enqueue_def Let_def)
      from Enqueue_ok [OF "2.prems"(3) en] bounds nu
      have q: "queue_ok q" "sq_items q = sq_items queue @ [make_queued now (pr_args r) (pr_consumed r)]"
        by auto
      let ?out = "out\<lparr>dr_consumed_bytes := dr_consumed_bytes out + pr_consumed r,
                      dr_enqueued := dr_enqueued out + 1\<rparr>"
      have rec: "drain_loop n now b q ?out = (input', queue', out')"
        using "2.prems"(1) open_ nx True en by simp
      from "2.IH" [OF open_ nx [symmetric] _ _ en [symmetric] refl rec] True nu q
      obtain k fs where k: "buffer_ok input'" "queue_ok queue'" "k \<le> n"
        "frames (unread b) k = (fs, unread input')" "length fs = k"
        "sq_items queue' = sq_items q @ map (\<lambda>(args, len). make_queued now args len) fs"
        "dr_enqueued out' = dr_enqueued ?out + k"
        "dr_consumed_bytes out' = dr_consumed_bytes ?out + sum_list (map snd fs)"
        "UnreadBytes b = UnreadBytes input' + sum_list (map snd fs)"
        by auto
      have ub: "unread b = drop (pr_consumed r) (unread input)" using nu True by simp
      then have "frames (unread input) (Suc k) =
                 ((pr_args r, pr_consumed r) # fs, unread input')"
        using k(4) st nu by (simp add: Let_def)
      moreover have "UnreadBytes input = UnreadBytes b + pr_consumed r"
        using ub bounds nu length_unread [of b] length_unread [of input] by auto
      ultimately show ?thesis
        using k q by (intro conjI exI [of _ "Suc k"]
            exI [of _ "(pr_args r, pr_consumed r) # fs"]) auto
    qed
  qed
qed

text \<open>
  Why the loop stops: the turn's budget is spent, the queue is full, or no further command can be read
  off the stream; the flags of the outcome say which.
\<close>

lemma drain_loop_stops:
  assumes "drain_loop n now input queue out = (input', queue', out')"
    and "buffer_ok input" and "queue_ok queue"
  shows "dr_enqueued out' = dr_enqueued out + n \<and>
      dr_stop_read out' = dr_stop_read out \<and> dr_invalid out' = dr_invalid out \<or>
    dr_enqueued out' < dr_enqueued out + n \<and>
    (if SessionQueue_IsFull queue' then dr_stop_read out' \<and> dr_invalid out' = dr_invalid out
     else if pr_state (TryParseOne (unread input')) = NeedMore
       then dr_stop_read out' = dr_stop_read out \<and> dr_invalid out' = dr_invalid out
     else pr_state (TryParseOne (unread input')) = Invalid \<and> dr_stop_read out' \<and> dr_invalid out' \<and>
       dr_invalid_error out' = pr_error (TryParseOne (unread input')))"
  using assms
proof (induction n now input queue out rule: drain_loop.induct)
  case (2 n now input queue out)
  show ?case
  proof (cases "SessionQueue_IsFull queue")
    case True
    with 2 show ?thesis by auto
  next
    case open_: False
    obtain r b where nx: "CommandBuffer_Next input = (r, b)" by (cases "CommandBuffer_Next input")
    note nu = Next_unread [OF nx "2.prems"(2)]
    show ?thesis
    proof (cases "pr_state r = Complete")
      case False
      then have "unread b = unread input" "TryParseOne (unread input) = r" using nu by auto
      with False "2.prems"(1) nx open_ show ?thesis by (cases "pr_state r") auto
    next
      case True
      with nu have st: "pr_state (TryParseOne (unread input)) = Complete" by simp
      note bounds = parse_bounds [OF st]
      obtain q where en: "Enqueue now (pr_args r) (pr_consumed r) queue = (True, q)"
        using open_ by (auto simp: Enqueue_def Let_def)
      from Enqueue_ok [OF "2.prems"(3) en] bounds nu have q: "queue_ok q" by auto
      have rec: "drain_loop n now b q (out\<lparr>dr_consumed_bytes := dr_consumed_bytes out + pr_consumed r,
                      dr_enqueued := dr_enqueued out + 1\<rparr>) = (input', queue', out')"
        using "2.prems"(1) open_ nx True en by simp
      have "pr_state r \<noteq> NeedMore" "pr_state r \<noteq> Invalid" "buffer_ok b" using True nu by auto
      from "2.IH" [OF open_ nx [symmetric] this(1,2) en [symmetric] refl rec this(3) q]
      show ?thesis by (auto split: if_splits)
    qed
  qed
qed auto

text \<open>
  C29. Admission is lossless, in order and stops only for a reason: one call of \<open>DrainCommands\<close> on a
  consistent session takes the commands off the front of the unread stream and appends exactly
  those, classified and in stream order, to the queue; the input keeps exactly the rest, the
  reported counters are the number of commands and the bytes removed, and the queue stays within its
  limits with an exact byte account. It takes as many as the per-turn limit, unless the queue is full
  after them (reading is to stop), the rest holds no complete command (nothing is flagged), or
  the rest starts with an invalid frame (reading is to stop and the parser's error is reported).
\<close>

theorem DrainCommands_prefix:
  assumes "buffer_ok input" and "queue_ok queue"
    and "DrainCommands max_per_turn True now input queue = (input', queue', out)"
  shows "buffer_ok input' \<and> queue_ok queue' \<and>
    (\<exists>fs. frames (unread input) (dr_enqueued out) = (fs, unread input') \<and>
       length fs = dr_enqueued out \<and> dr_enqueued out \<le> max_per_turn \<and>
       sq_items queue' = sq_items queue @ map (\<lambda>(args, len). make_queued now args len) fs \<and>
       dr_consumed_bytes out = sum_list (map snd fs) \<and>
       UnreadBytes input = UnreadBytes input' + dr_consumed_bytes out) \<and>
    (if dr_enqueued out = max_per_turn then \<not> dr_stop_read out \<and> \<not> dr_invalid out
     else if SessionQueue_IsFull queue' then dr_stop_read out \<and> \<not> dr_invalid out
     else if pr_state (TryParseOne (unread input')) = NeedMore then \<not> dr_stop_read out \<and> \<not> dr_invalid out
     else pr_state (TryParseOne (unread input')) = Invalid \<and> dr_stop_read out \<and> dr_invalid out \<and>
       dr_invalid_error out = pr_error (TryParseOne (unread input')))"
proof -
  have d: "drain_loop max_per_turn now input queue drain_start = (input', queue', out)"
    using assms(3) by (simp add: DrainCommands_def)
  have start: "dr_enqueued drain_start = 0" "dr_stop_read drain_start = False" "dr_invalid drain_start = False"
    "dr_consumed_bytes drain_start = 0"
    by (simp_all add: drain_start_def)
  from drain_loop_stops [OF d assms(1,2)] drain_loop_spec [OF d assms(1,2)] show ?thesis
    unfolding start by (auto split: if_splits)
qed

theorem DrainCommands_prefix_witness:
  "\<exists>input' queue' out.
     DrainCommands (Suc (Suc 0)) True 7 \<lparr>cb_bytes = ''*1'' @ CRLF @ ''$4'' @ CRLF @ ''ping'' @ CRLF @ ''*2'',
         cb_offset = 0\<rparr> \<lparr>sq_items = [], sq_queued_bytes = 0\<rparr> = (input', queue', out) \<and>
     dr_enqueued out = 1 \<and> unread input' = ''*2'' \<and> \<not> dr_stop_read out \<and>
     UnreadBytes \<lparr>cb_bytes = ''*1'' @ CRLF @ ''$4'' @ CRLF @ ''ping'' @ CRLF @ ''*2'', cb_offset = 0\<rparr> =
       UnreadBytes input' + dr_consumed_bytes out"
proof -
  let ?b = "\<lparr>cb_bytes = ''*1'' @ CRLF @ ''$4'' @ CRLF @ ''ping'' @ CRLF @ ''*2'', cb_offset = 0\<rparr>"
  let ?q = "\<lparr>sq_items = [], sq_queued_bytes = 0\<rparr>"
  obtain input' queue' out where d: "DrainCommands (Suc (Suc 0)) True 7 ?b ?q = (input', queue', out)"
    by (metis prod_cases3)
  have "dr_enqueued out = 1 \<and> unread input' = ''*2'' \<and> \<not> dr_stop_read out"
    using d [symmetric]
    by (simp add: DrainCommands_def drain_start_def SessionQueue_IsFull_def
        Limits_IsFull_def CommandBuffer_Next_def resp_eval resp_need_more_def Enqueue_def
        make_queued_def unread_def UnreadBytes_def AccountedBytes_def retained_sum)
  moreover have "buffer_ok ?b" "queue_ok ?q"
    by (simp_all add: buffer_ok_def queue_ok_def UnreadBytes_def)
  then have "UnreadBytes ?b = UnreadBytes input' + dr_consumed_bytes out"
    using DrainCommands_prefix [OF _ _ d] by blast
  ultimately show ?thesis using d by blast
qed

end
