(* ===== verification/Namespaces.thy ===== *)
theory Namespaces
  imports Prelude
begin

text \<open>
  Namespaces of client connections (\<open>src/src/namespace/namespace_manager.cc\<close>): the private map
  \<open>_ns\<close> from connection names to namespace names, and the storage key \<open>{namespace}:{raw_key}\<close>.
\<close>

section \<open>Definitions\<close>

type_synonym namespaces = "string \<Rightarrow> string option"

definition kDefaultNs :: string where
  "kDefaultNs = ''default''"

definition kSep :: char where
  "kSep = CHR '':''"

definition char_in :: "char \<Rightarrow> char \<Rightarrow> char \<Rightarrow> bool" where
  "char_in lo hi c \<longleftrightarrow> (of_char lo :: nat) \<le> of_char c \<and> (of_char c :: nat) \<le> of_char hi"

definition valid_ns_char :: "char \<Rightarrow> bool" where
  "valid_ns_char c \<longleftrightarrow>
     char_in (CHR ''a'') (CHR ''z'') c \<or> char_in (CHR ''A'') (CHR ''Z'') c \<or>
     char_in (CHR ''0'') (CHR ''9'') c \<or> c = CHR ''_'' \<or> c = CHR ''-''"

definition IsValidName :: "string \<Rightarrow> bool" where
  "IsValidName name \<longleftrightarrow> \<not> (name = [] \<or> length name > 63) \<and> list_all valid_ns_char name"

definition SetNs :: "string \<Rightarrow> string \<Rightarrow> namespaces \<Rightarrow> namespaces" where
  "SetNs conn_name ns m = m(conn_name := Some ns)"

definition GetNs :: "namespaces \<Rightarrow> string \<Rightarrow> string" where
  "GetNs m conn_name = (case m conn_name of Some ns \<Rightarrow> ns | None \<Rightarrow> kDefaultNs)"

definition MakeKey :: "namespaces \<Rightarrow> string \<Rightarrow> bytes \<Rightarrow> bytes" where
  "MakeKey m conn_name raw_key = GetNs m conn_name @ [kSep] @ raw_key"

definition RemoveNs :: "string \<Rightarrow> namespaces \<Rightarrow> namespaces" where
  "RemoveNs conn_name m = m(conn_name := None)"

section \<open>Isolation\<close>

text \<open>Every name ever stored passed \<open>IsValidName\<close>: \<open>SELECT\<close> checks before it calls \<open>SetNs\<close>.\<close>

definition ns_ok :: "namespaces \<Rightarrow> bool" where
  "ns_ok m \<longleftrightarrow> (\<forall>c. case m c of None \<Rightarrow> True | Some ns \<Rightarrow> IsValidName ns)"

lemma ns_ok_empty [simp]: "ns_ok (\<lambda>_. None)"
  by (simp add: ns_ok_def)

lemma ns_ok_SetNs: "ns_ok m \<Longrightarrow> IsValidName ns \<Longrightarrow> ns_ok (SetNs c ns m)"
  by (simp add: ns_ok_def SetNs_def)

lemma ns_ok_RemoveNs: "ns_ok m \<Longrightarrow> ns_ok (RemoveNs c m)"
  by (simp add: ns_ok_def RemoveNs_def)

lemma IsValidName_default: "IsValidName kDefaultNs"
  by (simp add: IsValidName_def kDefaultNs_def valid_ns_char_def char_in_def)

lemma IsValidName_GetNs: "ns_ok m \<Longrightarrow> IsValidName (GetNs m c)"
  unfolding ns_ok_def
  by (drule spec [of _ c]) (auto simp: GetNs_def IsValidName_default split: option.splits)

lemma sep_not_valid: "\<not> valid_ns_char kSep"
  by (simp add: valid_ns_char_def kSep_def char_in_def)

lemma sep_not_in_name: "IsValidName ns \<Longrightarrow> kSep \<notin> set ns"
  using sep_not_valid by (auto simp: IsValidName_def list_all_iff)

lemma sep_split:
  "kSep \<notin> set a \<Longrightarrow> kSep \<notin> set b \<Longrightarrow> a @ kSep # x = b @ kSep # y \<longleftrightarrow> a = b \<and> x = y"
proof (induction a arbitrary: b)
  case Nil
  then show ?case by (cases b) auto
next
  case (Cons c a)
  then show ?case by (cases b) auto
qed

text \<open>
  C32. Namespace isolation: two storage keys are equal only when both the namespaces and the raw keys
  are equal, for any raw keys, separators in them included. Two connections share a key exactly when
  they selected the same namespace and name the same raw key.
\<close>

theorem MakeKey_isolation:
  assumes "ns_ok m"
  shows "MakeKey m c k = MakeKey m c' k' \<longleftrightarrow> GetNs m c = GetNs m c' \<and> k = k'"
  using sep_split sep_not_in_name [OF IsValidName_GetNs [OF assms]]
  by (simp add: MakeKey_def)

theorem MakeKey_isolation_witness:
  "ns_ok (SetNs ''conn1'' ''team-a'' (\<lambda>_. None)) \<and>
   MakeKey (SetNs ''conn1'' ''team-a'' (\<lambda>_. None)) ''conn1'' ''b:k'' \<noteq>
   MakeKey (SetNs ''conn1'' ''team-a'' (\<lambda>_. None)) ''conn2'' ''b:k''"
proof -
  have ok: "ns_ok (SetNs ''conn1'' ''team-a'' (\<lambda>_. None))"
    by (rule ns_ok_SetNs) (simp_all add: IsValidName_def valid_ns_char_def char_in_def)
  show ?thesis
    using ok MakeKey_isolation [OF ok, of "''conn1''" "''b:k''" "''conn2''" "''b:k''"]
    by (simp add: GetNs_def SetNs_def kDefaultNs_def)
qed

text \<open>
  Storage keys of clients start with a character of a namespace name, never with the NUL byte that
  marks the program's own records.
\<close>

definition user_key :: "bytes \<Rightarrow> bool" where
  "user_key k \<longleftrightarrow> (case k of [] \<Rightarrow> False | c # _ \<Rightarrow> c \<noteq> NUL)"

lemma user_key_MakeKey: "ns_ok m \<Longrightarrow> user_key (MakeKey m c k)"
proof -
  assume "ns_ok m"
  then have v: "IsValidName (GetNs m c)" by (rule IsValidName_GetNs)
  then obtain x xs where x: "GetNs m c = x # xs" by (cases "GetNs m c") (auto simp: IsValidName_def)
  with v have "valid_ns_char x" by (simp add: IsValidName_def)
  then have "x \<noteq> NUL" by (auto simp: valid_ns_char_def char_in_def)
  with x show ?thesis by (simp add: MakeKey_def user_key_def)
qed

end
