(* ===== verification/Codec.thy ===== *)
theory Codec
  imports Prelude
begin

text \<open>
  The frame codec of the Raft peers (\<open>src/src/raft/raft_codec.h\<close>): a 4-byte big-endian length that
  counts everything after itself, a type byte, a 4-byte sender id and the payload.
  \<open>TryDecode\<close> returns \<open>Inl\<close> for the exception it throws, \<open>Inr None\<close> for an incomplete frame, and
  otherwise the message with the number of bytes it occupies.
\<close>

section \<open>Definitions\<close>

datatype raft_msg_type =
    kRequestVote | kRequestVoteResponse | kAppendEntries | kAppendEntriesResponse
  | kInstallSnapshot | kInstallSnapshotResponse

fun type_code :: "raft_msg_type \<Rightarrow> 8 word" where
  "type_code kRequestVote = 0"
| "type_code kRequestVoteResponse = 1"
| "type_code kAppendEntries = 2"
| "type_code kAppendEntriesResponse = 3"
| "type_code kInstallSnapshot = 4"
| "type_code kInstallSnapshotResponse = 5"

definition msg_type_of :: "8 word \<Rightarrow> raft_msg_type" where
  "msg_type_of t =
     (if t = 0 then kRequestVote else if t = 1 then kRequestVoteResponse
      else if t = 2 then kAppendEntries else if t = 3 then kAppendEntriesResponse
      else if t = 4 then kInstallSnapshot else kInstallSnapshotResponse)"

record decoded_raft_msg =
  dm_type :: raft_msg_type
  dm_sender_id :: int
  dm_payload :: bytes

abbreviation kHeaderSize :: nat where "kHeaderSize \<equiv> 9"
abbreviation kMaxFrameSize :: nat where "kMaxFrameSize \<equiv> 10485760"

definition IsValidType :: "8 word \<Rightarrow> bool" where
  "IsValidType t \<longleftrightarrow> t \<le> type_code kInstallSnapshotResponse"

definition ReadU32 :: "bytes \<Rightarrow> 32 word" where
  "ReadU32 data = read_be (take 4 data)"

definition WriteU32 :: "32 word \<Rightarrow> bytes" where
  "WriteU32 value = be_bytes 4 value"

definition Encode :: "raft_msg_type \<Rightarrow> int \<Rightarrow> bytes \<Rightarrow> exn + bytes" where
  "Encode type sender payload =
     (if sender < 0 \<or> \<not> IsValidType (type_code type)
        then Inl (Invalid_argument ''invalid Raft frame header'')
      else if length payload > kMaxFrameSize - 5 then Inl (Length_error ''Raft frame too large'')
      else Inr (WriteU32 (word_of_nat (length payload + 5)) @ [char_of (unat (type_code type))] @
                WriteU32 (word_of_int sender) @ payload))"

definition TryDecode :: "bytes \<Rightarrow> exn + (decoded_raft_msg \<times> nat) option" where
  "TryDecode data =
     (if length data < 4 then Inr None
      else
        (let payload_length = unat (ReadU32 data) in
         if payload_length < 5 \<or> payload_length > kMaxFrameSize
           then Inl (Invalid_argument ''invalid Raft frame length'')
         else if length data < 4 + payload_length then Inr None
         else
           (let type = word_of_nat (of_char (data ! 4)) :: 8 word;
                sender = ReadU32 (drop 5 data)
            in
            if \<not> IsValidType type \<or> unat sender > nat INT32_MAX
              then Inl (Invalid_argument ''invalid Raft frame header'')
            else Inr (Some (\<lparr>dm_type = msg_type_of type, dm_sender_id = uint sender,
                             dm_payload = take (payload_length - 5) (drop kHeaderSize data)\<rparr>,
                            4 + payload_length)))))"

section \<open>Round trip\<close>

lemma ReadU32_WriteU32 [simp]: "ReadU32 (WriteU32 v @ rest) = v"
  by (simp add: ReadU32_def WriteU32_def)

lemma length_WriteU32 [simp]: "length (WriteU32 v) = 4"
  by (simp add: WriteU32_def)

lemma type_byte [simp]:
  "word_of_nat (unat (type_code t) mod 256) = type_code t"
  by (cases t) simp_all

lemma msg_type_of_code [simp]: "msg_type_of (type_code t) = t"
  by (cases t) (simp_all add: msg_type_of_def)

lemma IsValidType_code [simp]: "IsValidType (type_code t)"
  by (cases t) (simp_all add: IsValidType_def)

lemma Encode_Inr:
  "Encode t s p = Inr f \<longleftrightarrow> 0 \<le> s \<and> length p \<le> kMaxFrameSize - 5 \<and>
     f = WriteU32 (word_of_nat (length p + 5)) @ [char_of (unat (type_code t))] @
         WriteU32 (word_of_int s) @ p"
  by (auto simp: Encode_def)

lemma decode_frame:
  assumes "Encode t s p = Inr f" and "s \<le> INT32_MAX"
  shows "TryDecode (f @ rest) =
         Inr (Some (\<lparr>dm_type = t, dm_sender_id = s, dm_payload = p\<rparr>, length f))"
proof -
  from assms have s: "0 \<le> s" and p: "length p \<le> kMaxFrameSize - 5"
    and f: "f = WriteU32 (word_of_nat (length p + 5)) @ [char_of (unat (type_code t))] @
                WriteU32 (word_of_int s) @ p"
    by (simp_all add: Encode_Inr)
  have plen: "unat (ReadU32 (f @ rest)) = length p + 5"
    using p by (simp add: f unat_of_nat del: of_nat_add)
  have type: "word_of_nat (of_char ((f @ rest) ! 4)) = type_code t"
    by (simp add: f nth_append of_char_of)
  have "drop 5 (f @ rest) = WriteU32 (word_of_int s) @ p @ rest"
    by (simp add: f)
  then have send: "ReadU32 (drop 5 (f @ rest)) = word_of_int s" by simp
  have sint: "uint (word_of_int s :: 32 word) = s"
    using s assms(2) by (intro sint_bound_uint) simp_all
  have "drop kHeaderSize (f @ rest) = p @ rest" by (simp add: f)
  moreover have "unat (word_of_int s :: 32 word) \<le> nat INT32_MAX"
    using sint assms(2) s by (metis nat_mono unat_eq_nat_uint)
  moreover have "length f = length p + 9" by (simp add: f)
  ultimately show ?thesis
    unfolding TryDecode_def
    using plen type send sint p by (simp add: Let_def)
qed

text \<open>
  C33. Round trip of the peer framing: a frame that \<open>Encode\<close> produced for a sender id in the
  \<open>int32_t\<close> range is decoded by \<open>TryDecode\<close>, whatever bytes follow it on the stream, to the same
  type, sender and payload, and consumes exactly the frame.
\<close>

theorem TryDecode_Encode:
  assumes "Encode t s p = Inr f" and "s \<le> INT32_MAX"
  shows "TryDecode (f @ rest) =
         Inr (Some (\<lparr>dm_type = t, dm_sender_id = s, dm_payload = p\<rparr>, length f))"
  by (rule decode_frame [OF assms])

theorem TryDecode_Encode_witness:
  "\<exists>f. Encode kAppendEntries 2 ''abc'' = Inr f \<and>
     TryDecode (f @ ''zz'') =
       Inr (Some (\<lparr>dm_type = kAppendEntries, dm_sender_id = 2, dm_payload = ''abc''\<rparr>, length f))"
proof -
  obtain f where f: "Encode kAppendEntries 2 ''abc'' = Inr f"
    by (simp add: Encode_def IsValidType_def)
  show ?thesis using f TryDecode_Encode [OF f, of "''zz''"] by auto
qed

section \<open>A verdict is final\<close>

lemma decode_verdict:
  "TryDecode data = Inr None \<or>
   TryDecode (data @ later) = TryDecode data \<and>
   (case TryDecode data of
      Inr (Some (m, n)) \<Rightarrow> kHeaderSize \<le> n \<and> n \<le> kMaxFrameSize + 4 \<and> n \<le> length data \<and>
        n = kHeaderSize + length (dm_payload m) \<and> 0 \<le> dm_sender_id m \<and> dm_sender_id m \<le> INT32_MAX
    | _ \<Rightarrow> True)"
proof (cases "length data < 4")
  case True
  then show ?thesis by (simp add: TryDecode_def)
next
  case False
  then have len: "ReadU32 (data @ later) = ReadU32 data" by (simp add: ReadU32_def)
  show ?thesis
  proof (cases "length data < 4 + unat (ReadU32 data) \<or> unat (ReadU32 data) < 5 \<or>
                unat (ReadU32 data) > kMaxFrameSize")
    case True
    with False len show ?thesis by (auto simp: TryDecode_def Let_def)
  next
    case long: False
    then have "data \<noteq> []" "4 < length data" "9 \<le> length data" by auto
    then have "ReadU32 (drop 5 (data @ later)) = ReadU32 (drop 5 data)"
      "(data @ later) ! 4 = data ! 4"
      by (simp_all add: ReadU32_def nth_append)
    moreover have "uint w \<le> INT32_MAX" if "unat (w :: 32 word) \<le> nat INT32_MAX" for w
      using that by (metis nat_le_eq_zle int_nat_eq of_nat_0_le_iff order_trans uint_nat
          zle_int unat_eq_nat_uint zero_le_numeral)
    ultimately show ?thesis
      using False long len by (auto simp: TryDecode_def Let_def)
  qed
qed

text \<open>
  C34. Framing does not depend on how TCP splits the stream: once \<open>TryDecode\<close> has returned a message
  or rejected the stream, more bytes do not change that answer; and a decoded frame occupies between
  9 bytes and the 10 MiB frame limit plus the length field, all of them received.
\<close>

theorem TryDecode_final:
  "TryDecode data = Inr None \<or>
   TryDecode (data @ later) = TryDecode data \<and>
   (case TryDecode data of
      Inr (Some (m, n)) \<Rightarrow> kHeaderSize \<le> n \<and> n \<le> kMaxFrameSize + 4 \<and> n \<le> length data \<and>
        n = kHeaderSize + length (dm_payload m) \<and> 0 \<le> dm_sender_id m \<and> dm_sender_id m \<le> INT32_MAX
    | _ \<Rightarrow> True)"
  by (rule decode_verdict)

end
