(* ===== verification/Policies.thy ===== *)
theory Policies
  imports Prelude
begin

text \<open>
  The owner-thread policies and counters: \<open>src/src/common/batch_flush_policy.h\<close>,
  \<open>src/src/common/peer_retry_policy.h\<close> and \<open>src/src/common/metrics.h\<close>.
  Tokens and counters are \<open>uint64_t\<close>, so they are 64-bit words; times are integers of the steady
  clock in nanoseconds.
\<close>

section \<open>BatchFlushPolicy\<close>

datatype flush_action = ActNone | Delayed | Immediate

record flush_policy =
  bf_pending :: flush_action
  bf_generation :: "64 word"

record flush_plan =
  fp_action :: flush_action
  fp_token :: "64 word"

abbreviation kFlushMaxEntries :: nat where "kFlushMaxEntries \<equiv> 128"
abbreviation kFlushMaxBytes :: nat where "kFlushMaxBytes \<equiv> 1048576"

definition flush_init :: flush_policy where
  "flush_init = \<lparr>bf_pending = ActNone, bf_generation = 0\<rparr>"

definition no_plan :: flush_plan where
  "no_plan = \<lparr>fp_action = ActNone, fp_token = 0\<rparr>"

definition Flush_Request ::
  "nat \<Rightarrow> nat \<Rightarrow> bool \<Rightarrow> flush_policy \<Rightarrow> (flush_policy, flush_plan) res" where
  "Flush_Request queued_entries queued_bytes delay_elapsed_or_zero p =
     (if queued_entries = 0 \<or> bf_pending p = Immediate then Ok no_plan p
      else
        (let immediate = queued_entries \<ge> kFlushMaxEntries \<or> queued_bytes \<ge> kFlushMaxBytes \<or>
                         delay_elapsed_or_zero
         in
         if bf_pending p = Delayed \<and> \<not> immediate then Ok no_plan p
         else if bf_generation p = - 1 then Throw (Overflow_error ''batch flush token overflow'') p
         else
           (let p = p\<lparr>bf_pending := if immediate then Immediate else Delayed,
                      bf_generation := bf_generation p + 1\<rparr>
            in Ok \<lparr>fp_action = bf_pending p, fp_token = bf_generation p\<rparr> p)))"

definition Flush_Consume :: "64 word \<Rightarrow> flush_policy \<Rightarrow> bool \<times> flush_policy" where
  "Flush_Consume token p =
     (if bf_pending p = ActNone \<or> token \<noteq> bf_generation p then (False, p)
      else (True, p\<lparr>bf_pending := ActNone\<rparr>))"

section \<open>PeerRetryPolicy\<close>

record retry_policy =
  rp_connected_at :: int
  rp_generation :: "64 word"
  rp_next_delay_ms :: int
  rp_connected :: bool
  rp_pending :: bool

record retry_plan =
  rpl_token :: "64 word"
  rpl_delay_ms :: int

definition retry_init :: retry_policy where
  "retry_init = \<lparr>rp_connected_at = 0, rp_generation = 0, rp_next_delay_ms = 500,
                 rp_connected = False, rp_pending = False\<rparr>"

abbreviation seconds :: "int \<Rightarrow> int" where "seconds n \<equiv> n * 1000000000"

definition Retry_Connected :: "int \<Rightarrow> retry_policy \<Rightarrow> retry_policy" where
  "Retry_Connected now p =
     p\<lparr>rp_connected := True, rp_connected_at := now, rp_pending := False,
       rp_generation := rp_generation p + 1\<rparr>"

definition Retry_Disconnected :: "int \<Rightarrow> retry_policy \<Rightarrow> retry_plan \<times> retry_policy" where
  "Retry_Disconnected now p =
     (if \<not> rp_connected p then (\<lparr>rpl_token = 0, rpl_delay_ms = 0\<rparr>, p)
      else
        (let p = p\<lparr>rp_connected := False\<rparr>;
             p = (if now - rp_connected_at p \<ge> seconds 10 then p\<lparr>rp_next_delay_ms := 500\<rparr> else p);
             delay = rp_next_delay_ms p;
             p = p\<lparr>rp_next_delay_ms := min 2000 (rp_next_delay_ms p * 2), rp_pending := True,
                   rp_generation := rp_generation p + 1\<rparr>
         in (\<lparr>rpl_token = rp_generation p, rpl_delay_ms = delay\<rparr>, p)))"

definition Retry_Consume :: "64 word \<Rightarrow> retry_policy \<Rightarrow> bool \<times> retry_policy" where
  "Retry_Consume token p =
     (if \<not> rp_pending p \<or> token \<noteq> rp_generation p then (False, p)
      else (True, p\<lparr>rp_pending := False\<rparr>))"

section \<open>Latency counters\<close>

definition ElapsedMicros :: "int \<Rightarrow> int \<Rightarrow> 64 word" where
  "ElapsedMicros start finish = (if finish \<le> start then 0 else word_of_int ((finish - start) div 1000))"

record latency_stats =
  ls_count :: "64 word"
  ls_total_us :: "64 word"
  ls_max_us :: "64 word"

definition latency_init :: latency_stats where
  "latency_init = \<lparr>ls_count = 0, ls_total_us = 0, ls_max_us = 0\<rparr>"

definition Latency_Observe :: "64 word \<Rightarrow> latency_stats \<Rightarrow> latency_stats" where
  "Latency_Observe us s =
     (let s = s\<lparr>ls_count := ls_count s + 1, ls_total_us := ls_total_us s + us\<rparr> in
      if us > ls_max_us s then s\<lparr>ls_max_us := us\<rparr> else s)"

definition to_string_u64 :: "64 word \<Rightarrow> string" where
  "to_string_u64 w = to_string_nat (unat w)"

definition info_line :: "string \<Rightarrow> string \<Rightarrow> bytes" where
  "info_line name v = name @ '':'' @ v @ CRLF"

definition Latency_ToInfo :: "string \<Rightarrow> latency_stats \<Rightarrow> bytes" where
  "Latency_ToInfo prefix s =
     info_line (prefix @ ''_count'') (to_string_u64 (ls_count s)) @
     info_line (prefix @ ''_total_us'') (to_string_u64 (ls_total_us s)) @
     info_line (prefix @ ''_max_us'') (to_string_u64 (ls_max_us s)) @
     info_line (prefix @ ''_avg_us'')
       (to_string_u64 (if ls_count s \<noteq> 0 then ls_total_us s div ls_count s else 0))"

record batch_stats =
  bs_latency :: latency_stats
  bs_entries :: "64 word"
  bs_bytes :: "64 word"

definition batch_init :: batch_stats where
  "batch_init = \<lparr>bs_latency = latency_init, bs_entries = 0, bs_bytes = 0\<rparr>"

definition Batch_Observe :: "64 word \<Rightarrow> nat \<Rightarrow> nat \<Rightarrow> batch_stats \<Rightarrow> batch_stats" where
  "Batch_Observe us n byte_count s =
     s\<lparr>bs_latency := Latency_Observe us (bs_latency s),
       bs_entries := bs_entries s + word_of_nat n, bs_bytes := bs_bytes s + word_of_nat byte_count\<rparr>"

definition Batch_ToInfo :: "string \<Rightarrow> batch_stats \<Rightarrow> bytes" where
  "Batch_ToInfo prefix s =
     Latency_ToInfo prefix (bs_latency s) @
     info_line (prefix @ ''_entries'') (to_string_u64 (bs_entries s)) @
     info_line (prefix @ ''_bytes'') (to_string_u64 (bs_bytes s)) @
     info_line (prefix @ ''_avg_entries'')
       (to_string_u64 (if ls_count (bs_latency s) \<noteq> 0
                       then bs_entries s div ls_count (bs_latency s) else 0))"

section \<open>Flush tokens fire at most once\<close>

text \<open>
  The event loop interleaves requests and timer callbacks freely. A step is one call of the policy
  that returns; \<open>flush_steps\<close> is any sequence of such calls.
\<close>

inductive flush_step :: "flush_policy \<Rightarrow> flush_policy \<Rightarrow> bool" where
  request: "Flush_Request n b d p = Ok plan p' \<Longrightarrow> flush_step p p'"
| consume: "Flush_Consume t p = (r, p') \<Longrightarrow> flush_step p p'"

abbreviation flush_steps :: "flush_policy \<Rightarrow> flush_policy \<Rightarrow> bool" where
  "flush_steps \<equiv> rtranclp flush_step"

definition token_spent :: "64 word \<Rightarrow> flush_policy \<Rightarrow> bool" where
  "token_spent t p \<longleftrightarrow> t < bf_generation p \<or> (t = bf_generation p \<and> bf_pending p = ActNone)"

lemma word_less_Suc: "(w :: 64 word) \<noteq> - 1 \<Longrightarrow> w < w + 1"
proof -
  assume "w \<noteq> - 1"
  then have "1 + w \<noteq> 0" by (metis add_eq_0_iff add.commute minus_minus)
  then have "unat (1 + w) = Suc (unat w)" by (rule unatSuc)
  then show ?thesis by (simp add: word_less_nat_alt add.commute)
qed

lemma token_spent_step: "flush_step p p' \<Longrightarrow> token_spent t p \<Longrightarrow> token_spent t p'"
proof (induction rule: flush_step.induct)
  case (request n b d p plan p')
  then show ?case
    using word_less_Suc [of "bf_generation p"]
    by (auto simp: Flush_Request_def token_spent_def Let_def split: if_splits)
next
  case (consume t p r p')
  then show ?case by (auto simp: Flush_Consume_def token_spent_def split: if_splits)
qed

lemma token_spent_steps: "flush_steps p p' \<Longrightarrow> token_spent t p \<Longrightarrow> token_spent t p'"
  by (induction rule: rtranclp_induct) (auto intro: token_spent_step)

lemma token_spent_Consume: "token_spent t p \<Longrightarrow> Flush_Consume t p = (False, p)"
  by (auto simp: token_spent_def Flush_Consume_def)

text \<open>
  C38. Flush callbacks fire at most once: after \<open>Consume\<close> accepted a token, no later call of
  \<open>Consume\<close> with that token is accepted, whatever requests and callbacks happen in between; and
  when a request replaces a pending delayed plan by an immediate one, the token of the replaced plan
  is never accepted again.
\<close>

theorem flush_token_once:
  assumes "Flush_Consume t p = (True, p') \<or>
           (bf_pending p = Delayed \<and> t = bf_generation p \<and>
            (\<exists>n b d plan. Flush_Request n b d p = Ok plan p' \<and> fp_action plan = Immediate))"
    and "flush_steps p' p''"
  shows "Flush_Consume t p'' = (False, p'')"
proof -
  have "token_spent t p'"
    using assms(1) word_less_Suc [of "bf_generation p"]
    by (auto simp: Flush_Consume_def Flush_Request_def token_spent_def no_plan_def Let_def
        split: if_splits)
  with assms(2) have "token_spent t p''" by (rule token_spent_steps)
  then show ?thesis by (rule token_spent_Consume)
qed

theorem flush_token_once_witness:
  "Flush_Consume 1 \<lparr>bf_pending = Immediate, bf_generation = 2\<rparr> =
   (False, \<lparr>bf_pending = Immediate, bf_generation = 2\<rparr>)"
proof (rule flush_token_once)
  let ?p = "\<lparr>bf_pending = Delayed, bf_generation = 1\<rparr>"
  have "Flush_Request 200 0 False ?p =
        Ok \<lparr>fp_action = Immediate, fp_token = 2\<rparr> \<lparr>bf_pending = Immediate, bf_generation = 2\<rparr>"
    by (simp add: Flush_Request_def Let_def)
  then show "Flush_Consume 1 ?p = (True, \<lparr>bf_pending = Immediate, bf_generation = 2\<rparr>) \<or>
     (bf_pending ?p = Delayed \<and> 1 = bf_generation ?p \<and>
      (\<exists>n b d plan. Flush_Request n b d ?p = Ok plan \<lparr>bf_pending = Immediate, bf_generation = 2\<rparr> \<and>
         fp_action plan = Immediate))"
    by fastforce
qed simp

section \<open>Reconnect backoff\<close>

text \<open>\<open>k\<close> connections in a row that each live for less than ten seconds.\<close>

fun short_cycles :: "nat \<Rightarrow> int \<Rightarrow> int \<Rightarrow> retry_policy \<Rightarrow> int list \<times> retry_policy" where
  "short_cycles 0 now life p = ([], p)"
| "short_cycles (Suc k) now life p =
     (case Retry_Disconnected (now + life) (Retry_Connected now p) of
        (plan, p') \<Rightarrow> (case short_cycles k (now + life) life p' of
           (ds, p'') \<Rightarrow> (rpl_delay_ms plan # ds, p'')))"

lemma short_cycles_delays:
  assumes "0 \<le> life" and "life < seconds 10"
  shows "rp_next_delay_ms p = min 2000 (500 * 2 ^ j) \<Longrightarrow>
     fst (short_cycles k now life p) = map (\<lambda>i. min 2000 (500 * 2 ^ i)) [j ..< j + k]"
proof (induction k arbitrary: p now j)
  case 0
  then show ?case by simp
next
  case (Suc k)
  let ?p = "snd (Retry_Disconnected (now + life) (Retry_Connected now p))"
  have "rp_next_delay_ms ?p = min 2000 (2 * min 2000 (500 * 2 ^ j))"
    using assms Suc.prems by (simp add: Retry_Disconnected_def Retry_Connected_def Let_def)
  also have "\<dots> = min 2000 (500 * 2 ^ Suc j)"
  proof (cases "500 * 2 ^ j \<le> (2000::int)")
    case True
    then show ?thesis by simp
  next
    case False
    then have "min 2000 (500 * 2 ^ j) = (2000::int)" "min 2000 (500 * 2 ^ Suc j) = (2000::int)"
      by simp_all
    then show ?thesis by simp
  qed
  finally have "fst (short_cycles k (now + life) life ?p) =
                map (\<lambda>i. min 2000 (500 * 2 ^ i)) [Suc j ..< Suc j + k]"
    by (rule Suc.IH)
  moreover have "[j ..< j + Suc k] = j # [Suc j ..< Suc j + k]"
    by (simp add: upt_conv_Cons)
  ultimately show ?case
    using assms Suc.prems
    by (auto simp: Retry_Disconnected_def Retry_Connected_def Let_def split: prod.splits)
qed

text \<open>
  C39. Reconnect backoff: from the initial policy, connections that each close within ten seconds
  are retried after 500, 1000, 2000, 2000, \<dots> milliseconds, and the first connection that lasts ten
  seconds or more brings the delay back to 500 milliseconds whatever happened before.
\<close>

theorem retry_backoff:
  assumes "0 \<le> life" and "life < seconds 10"
  shows "fst (short_cycles k now life retry_init) = map (\<lambda>i. min 2000 (500 * 2 ^ i)) [0 ..< k] \<and>
         (\<forall>p t d. seconds 10 \<le> d \<longrightarrow> rpl_delay_ms (fst (Retry_Disconnected (t + d) (Retry_Connected t p))) = 500)"
  using short_cycles_delays [OF assms, of retry_init 0 k now]
  by (simp add: retry_init_def Retry_Disconnected_def Retry_Connected_def Let_def)

theorem retry_backoff_witness:
  "fst (short_cycles 4 0 (seconds 1) retry_init) = [500, 1000, 2000, 2000]"
  using retry_backoff [of "seconds 1" 4 0] by (simp add: upt_rec)

end
