(* ===== verification/Storage.thy ===== *)
theory Storage
  imports Prelude
begin

text \<open>
  The storage layer both databases of a node rest on: \<open>src/src/storage/storage_error.h\<close> and the
  RocksDB calls of \<open>raft_log.cc\<close> and \<open>rocksdb_store.cpp\<close>.

  RocksDB itself is not part of the repository. It enters the development as a record of operations
  \<open>'db rocksdb_ops\<close>, an argument of every definition that reads or writes a database. What the
  program relies on is the locale \<open>rocksdb\<close>: reads return the stored value, a synced batch is
  atomic and durable, an iterator lists the keys in bytewise order, opening keeps the contents. An
  operation may fail at any time; a failed write may or may not have reached the disk.
  The locale is interpreted on an in-memory store with fault flags, the counterpart of the contract
  double in \<open>src/tests/test_support/rocksdb/db.h\<close>.
\<close>

section \<open>Status values and batches\<close>

datatype status = St_ok | St_not_found string | St_error string

fun status_ok :: "status \<Rightarrow> bool" where
  "status_ok St_ok = True"
| "status_ok _ = False"

fun IsNotFound :: "status \<Rightarrow> bool" where
  "IsNotFound (St_not_found _) = True"
| "IsNotFound _ = False"

fun status_text :: "status \<Rightarrow> string" where
  "status_text St_ok = ''OK''"
| "status_text (St_not_found t) = t"
| "status_text (St_error t) = t"

datatype write_op = PutOp bytes bytes | DeleteOp bytes

record write_options =
  sync :: bool

fun apply_op :: "write_op \<Rightarrow> (bytes \<Rightarrow> bytes option) \<Rightarrow> (bytes \<Rightarrow> bytes option)" where
  "apply_op (PutOp k v) m = m(k := Some v)"
| "apply_op (DeleteOp k) m = m(k := None)"

definition apply_ops :: "write_op list \<Rightarrow> (bytes \<Rightarrow> bytes option) \<Rightarrow> (bytes \<Rightarrow> bytes option)" where
  "apply_ops ops m = fold apply_op ops m"

lemma apply_ops_simps [simp]:
  "apply_ops [] m = m"
  "apply_ops (op # ops) m = apply_ops ops (apply_op op m)"
  "apply_ops (xs @ ys) m = apply_ops ys (apply_ops xs m)"
  by (simp_all add: apply_ops_def)

section \<open>The RocksDB operations\<close>

record 'db rocksdb_ops =
  db_open :: "'db \<Rightarrow> status \<times> 'db"
  db_get :: "'db \<Rightarrow> bytes \<Rightarrow> status \<times> bytes"
  db_put :: "'db \<Rightarrow> write_options \<Rightarrow> bytes \<Rightarrow> bytes \<Rightarrow> status \<times> 'db"
  db_write :: "'db \<Rightarrow> write_options \<Rightarrow> write_op list \<Rightarrow> status \<times> 'db"
  db_scan :: "'db \<Rightarrow> status \<times> (bytes \<times> bytes) list"

text \<open>\<open>storage_error.h\<close>.\<close>

definition RequireStorageOK :: "status \<Rightarrow> string \<Rightarrow> exn + unit" where
  "RequireStorageOK st op =
     (if \<not> status_ok st then Inl (Runtime_error (op @ '': '' @ status_text st)) else Inr ())"

definition DurableWriteOptions :: write_options where
  "DurableWriteOptions = \<lparr>sync = True\<rparr>"

text \<open>
  The three call patterns of the program: a read where a missing key is an answer, a read where it
  is an error, and a durable write.
\<close>

definition read_opt :: "'db rocksdb_ops \<Rightarrow> 'db \<Rightarrow> bytes \<Rightarrow> string \<Rightarrow> exn + bytes option" where
  "read_opt R d k op =
     (case db_get R d k of (st, v) \<Rightarrow>
        if IsNotFound st then Inr None
        else bindE (RequireStorageOK st op) (\<lambda>_. Inr (Some v)))"

definition read_req :: "'db rocksdb_ops \<Rightarrow> 'db \<Rightarrow> bytes \<Rightarrow> string \<Rightarrow> exn + bytes" where
  "read_req R d k op =
     (case db_get R d k of (st, v) \<Rightarrow> bindE (RequireStorageOK st op) (\<lambda>_. Inr v))"

definition write_req :: "'db rocksdb_ops \<Rightarrow> write_op list \<Rightarrow> string \<Rightarrow> 'db \<Rightarrow> ('db, unit) res" where
  "write_req R ops op d =
     (case db_write R d DurableWriteOptions ops of (st, d') \<Rightarrow> liftR (RequireStorageOK st op) d')"

definition put_req :: "'db rocksdb_ops \<Rightarrow> bytes \<Rightarrow> bytes \<Rightarrow> string \<Rightarrow> 'db \<Rightarrow> ('db, unit) res" where
  "put_req R k v op d =
     (case db_put R d DurableWriteOptions k v of (st, d') \<Rightarrow> liftR (RequireStorageOK st op) d')"

definition scan_req :: "'db rocksdb_ops \<Rightarrow> 'db \<Rightarrow> string \<Rightarrow> exn + (bytes \<times> bytes) list" where
  "scan_req R d op =
     (case db_scan R d of (st, kvs) \<Rightarrow> bindE (RequireStorageOK st op) (\<lambda>_. Inr kvs))"

text \<open>Every read of this state succeeds: no injected fault, no corruption below the interface.\<close>

definition reads_ok :: "'db rocksdb_ops \<Rightarrow> ('db \<Rightarrow> bytes \<Rightarrow> bytes option) \<Rightarrow> 'db \<Rightarrow> bool" where
  "reads_ok R view d \<longleftrightarrow>
     (\<forall>k. case view d k of
            Some v \<Rightarrow> db_get R d k = (St_ok, v)
          | None \<Rightarrow> IsNotFound (fst (db_get R d k)))"

text \<open>Every write, scan and open of this state succeeds.\<close>

definition writes_ok :: "'db rocksdb_ops \<Rightarrow> 'db \<Rightarrow> bool" where
  "writes_ok R d \<longleftrightarrow>
     (\<forall>w ops. fst (db_write R d w ops) = St_ok) \<and> (\<forall>w k v. fst (db_put R d w k v) = St_ok)"

definition scans_ok :: "'db rocksdb_ops \<Rightarrow> 'db \<Rightarrow> bool" where
  "scans_ok R d \<longleftrightarrow> fst (db_scan R d) = St_ok"

definition opens_ok :: "'db rocksdb_ops \<Rightarrow> ('db \<Rightarrow> bytes \<Rightarrow> bytes option) \<Rightarrow> 'db \<Rightarrow> bool" where
  "opens_ok R view d \<longleftrightarrow>
     (case db_open R d of (st, d') \<Rightarrow> st = St_ok \<and> reads_ok R view d' \<and> scans_ok R d')"

section \<open>The contract\<close>

locale rocksdb =
  fixes R :: "'db rocksdb_ops"
    and view :: "'db \<Rightarrow> bytes \<Rightarrow> bytes option"
  assumes get_ok: "db_get R d k = (St_ok, v) \<Longrightarrow> view d k = Some v"
    and get_not_found: "db_get R d k = (St_not_found t, v) \<Longrightarrow> view d k = None"
    and write_ok: "db_write R d w ops = (St_ok, d') \<Longrightarrow> sync w \<Longrightarrow> view d' = apply_ops ops (view d)"
    and write_atomic: "db_write R d w ops = (st, d') \<Longrightarrow> sync w \<Longrightarrow>
          view d' = view d \<or> view d' = apply_ops ops (view d)"
    and put_ok: "db_put R d w k v = (St_ok, d') \<Longrightarrow> sync w \<Longrightarrow> view d' = (view d)(k := Some v)"
    and put_atomic: "db_put R d w k v = (st, d') \<Longrightarrow> sync w \<Longrightarrow>
          view d' = view d \<or> view d' = (view d)(k := Some v)"
    and scan_ok: "db_scan R d = (St_ok, kvs) \<Longrightarrow>
          sorted_wrt (<) (map fst kvs) \<and> map_of kvs = view d"
    and open_ok: "db_open R d = (St_ok, d') \<Longrightarrow> view d' = view d"
begin

lemma read_opt_Inr: "read_opt R d k op = Inr v \<Longrightarrow> v = view d k"
  by (auto simp: read_opt_def RequireStorageOK_def split: prod.splits if_splits
      elim!: status_ok.elims IsNotFound.elims dest: get_ok get_not_found)

lemma read_req_Inr: "read_req R d k op = Inr v \<Longrightarrow> view d k = Some v"
  by (auto simp: read_req_def RequireStorageOK_def split: prod.splits if_splits
      elim!: status_ok.elims dest: get_ok)

lemma write_req_Ok: "write_req R ops op d = Ok u d' \<Longrightarrow> view d' = apply_ops ops (view d)"
  by (auto simp: write_req_def RequireStorageOK_def DurableWriteOptions_def
      split: prod.splits if_splits elim!: status_ok.elims dest: write_ok)

lemma write_req_Throw:
  "write_req R ops op d = Throw e d' \<Longrightarrow> view d' = view d \<or> view d' = apply_ops ops (view d)"
  by (auto simp: write_req_def RequireStorageOK_def DurableWriteOptions_def
      split: prod.splits if_splits dest: write_atomic)

lemma put_req_Ok: "put_req R k v op d = Ok u d' \<Longrightarrow> view d' = (view d)(k := Some v)"
  by (auto simp: put_req_def RequireStorageOK_def DurableWriteOptions_def
      split: prod.splits if_splits elim!: status_ok.elims dest: put_ok)

lemma put_req_Throw:
  "put_req R k v op d = Throw e d' \<Longrightarrow> view d' = view d \<or> view d' = (view d)(k := Some v)"
  by (auto simp: put_req_def RequireStorageOK_def DurableWriteOptions_def
      split: prod.splits if_splits dest: put_atomic)

lemma scan_req_Inr:
  "scan_req R d op = Inr kvs \<Longrightarrow> sorted_wrt (<) (map fst kvs) \<and> map_of kvs = view d"
  by (auto simp: scan_req_def RequireStorageOK_def split: prod.splits if_splits
      elim!: status_ok.elims dest: scan_ok)

lemma wp_write_req:
  assumes "\<And>d'. view d' = apply_ops ops (view d) \<Longrightarrow> Q () d'"
    and "\<And>e d'. view d' = view d \<or> view d' = apply_ops ops (view d) \<Longrightarrow> E e d'"
  shows "wp (write_req R ops op d) Q E"
  using assms by (cases "write_req R ops op d") (auto dest: write_req_Ok write_req_Throw)

lemma wp_put_req:
  assumes "\<And>d'. view d' = (view d)(k := Some v) \<Longrightarrow> Q () d'"
    and "\<And>e d'. view d' = view d \<or> view d' = (view d)(k := Some v) \<Longrightarrow> E e d'"
  shows "wp (put_req R k v op d) Q E"
  using assms by (cases "put_req R k v op d") (auto dest: put_req_Ok put_req_Throw)

lemma read_opt_ok: "reads_ok R view d \<Longrightarrow> read_opt R d k op = Inr (view d k)"
  unfolding reads_ok_def
  by (drule spec [of _ k])
    (auto simp: read_opt_def RequireStorageOK_def split: prod.splits option.splits)

lemma read_req_ok: "reads_ok R view d \<Longrightarrow> view d k = Some v \<Longrightarrow> read_req R d k op = Inr v"
  unfolding reads_ok_def
  by (drule spec [of _ k]) (auto simp: read_req_def RequireStorageOK_def)

lemma write_req_ok:
  assumes "writes_ok R d"
  shows "\<exists>d'. write_req R ops op d = Ok () d' \<and> view d' = apply_ops ops (view d)"
proof -
  from assms obtain d' where "db_write R d \<lparr>sync = True\<rparr> ops = (St_ok, d')"
    by (metis writes_ok_def prod.collapse)
  then show ?thesis
    by (auto simp: write_req_def RequireStorageOK_def DurableWriteOptions_def dest: write_ok)
qed

lemma put_req_ok:
  assumes "writes_ok R d"
  shows "\<exists>d'. put_req R k v op d = Ok () d' \<and> view d' = (view d)(k := Some v)"
proof -
  from assms obtain d' where "db_put R d \<lparr>sync = True\<rparr> k v = (St_ok, d')"
    by (metis writes_ok_def prod.collapse)
  then show ?thesis
    by (auto simp: put_req_def RequireStorageOK_def DurableWriteOptions_def dest: put_ok)
qed

lemma scan_req_ok:
  "scans_ok R d \<Longrightarrow> \<exists>kvs. scan_req R d op = Inr kvs \<and> sorted_wrt (<) (map fst kvs) \<and> map_of kvs = view d"
  by (cases "db_scan R d") (auto simp: scans_ok_def scan_req_def RequireStorageOK_def dest: scan_ok)

end

section \<open>An in-memory store\<close>

record memdb =
  mem_data :: "(bytes \<times> bytes) list"
  fail_reads :: bool
  fail_writes :: bool
  fail_opens :: bool
  fail_iterators :: bool

fun map_put :: "'k::linorder \<Rightarrow> 'v \<Rightarrow> ('k \<times> 'v) list \<Rightarrow> ('k \<times> 'v) list" where
  "map_put k v [] = [(k, v)]"
| "map_put k v ((k', v') # m) =
     (if k < k' then (k, v) # (k', v') # m
      else if k = k' then (k, v) # m
      else (k', v') # map_put k v m)"

fun map_erase :: "'k \<Rightarrow> ('k \<times> 'v) list \<Rightarrow> ('k \<times> 'v) list" where
  "map_erase k [] = []"
| "map_erase k ((k', v') # m) = (if k = k' then m else (k', v') # map_erase k m)"

abbreviation sorted_keys :: "('k::linorder \<times> 'v) list \<Rightarrow> bool" where
  "sorted_keys m \<equiv> sorted_wrt (<) (map fst m)"

lemma set_map_put: "fst ` set (map_put k v m) = insert k (fst ` set m)"
  by (induction k v m rule: map_put.induct) auto

lemma set_map_erase: "set (map_erase k m) \<subseteq> set m"
  by (induction k m rule: map_erase.induct) auto

lemma sorted_map_put: "sorted_keys m \<Longrightarrow> sorted_keys (map_put k v m)"
proof (induction k v m rule: map_put.induct)
  case (1 k v)
  then show ?case by simp
next
  case (2 k v k' v' m)
  then show ?case by (auto simp: set_map_put)
qed

lemma sorted_map_erase: "sorted_keys m \<Longrightarrow> sorted_keys (map_erase k m)"
  by (induction k m rule: map_erase.induct) (auto dest: set_map_erase [THEN subsetD])

lemma map_of_map_put: "sorted_keys m \<Longrightarrow> map_of (map_put k v m) = (map_of m)(k := Some v)"
  by (induction k v m rule: map_put.induct) auto

lemma map_of_None_if_less: "\<forall>y\<in>set m. k < fst y \<Longrightarrow> map_of m (k::'k::linorder) = None"
  by (induction m) auto

lemma map_of_map_erase: "sorted_keys m \<Longrightarrow> map_of (map_erase k m) = (map_of m)(k := None)"
proof (induction k m rule: map_erase.induct)
  case (1 k)
  then show ?case by auto
next
  case (2 k k' v' m)
  then show ?case by (auto simp: fun_eq_iff map_of_None_if_less)
qed

fun mem_apply_op :: "write_op \<Rightarrow> (bytes \<times> bytes) list \<Rightarrow> (bytes \<times> bytes) list" where
  "mem_apply_op (PutOp k v) m = map_put k v m"
| "mem_apply_op (DeleteOp k) m = map_erase k m"

definition mem_canon :: "memdb \<Rightarrow> (bytes \<times> bytes) list" where
  "mem_canon d = (if sorted_keys (mem_data d) then mem_data d else [])"

definition mem_view :: "memdb \<Rightarrow> bytes \<Rightarrow> bytes option" where
  "mem_view d = map_of (mem_canon d)"

definition mem_get :: "memdb \<Rightarrow> bytes \<Rightarrow> status \<times> bytes" where
  "mem_get d k =
     (if fail_reads d then (St_error ''injected I/O failure'', [])
      else case map_of (mem_canon d) k of
             None \<Rightarrow> (St_not_found ''NotFound'', [])
           | Some v \<Rightarrow> (St_ok, v))"

definition mem_write :: "memdb \<Rightarrow> write_options \<Rightarrow> write_op list \<Rightarrow> status \<times> memdb" where
  "mem_write d w ops =
     (if fail_writes d then (St_error ''injected I/O failure'', d)
      else (St_ok, d\<lparr>mem_data := fold mem_apply_op ops (mem_canon d)\<rparr>))"

definition mem_put :: "memdb \<Rightarrow> write_options \<Rightarrow> bytes \<Rightarrow> bytes \<Rightarrow> status \<times> memdb" where
  "mem_put d w k v = mem_write d w [PutOp k v]"

definition mem_open :: "memdb \<Rightarrow> status \<times> memdb" where
  "mem_open d = (if fail_opens d then (St_error ''injected I/O failure'', d) else (St_ok, d))"

definition mem_scan :: "memdb \<Rightarrow> status \<times> (bytes \<times> bytes) list" where
  "mem_scan d =
     (if fail_iterators d then (St_error ''injected I/O failure'', []) else (St_ok, mem_canon d))"

definition mem_ops :: "memdb rocksdb_ops" where
  "mem_ops = \<lparr>db_open = mem_open, db_get = mem_get, db_put = mem_put,
              db_write = mem_write, db_scan = mem_scan\<rparr>"

definition mem_empty :: memdb where
  "mem_empty = \<lparr>mem_data = [], fail_reads = False, fail_writes = False,
                fail_opens = False, fail_iterators = False\<rparr>"

lemma sorted_mem_canon [simp]: "sorted_keys (mem_canon d)"
  by (simp add: mem_canon_def)

lemma fold_mem_apply_op:
  "sorted_keys m \<Longrightarrow> sorted_keys (fold mem_apply_op ops m) \<and>
     map_of (fold mem_apply_op ops m) = apply_ops ops (map_of m)"
proof (induction ops arbitrary: m)
  case Nil
  then show ?case by simp
next
  case (Cons op ops)
  then show ?case
    by (cases op) (auto simp: sorted_map_put sorted_map_erase map_of_map_put map_of_map_erase fun_upd_def)
qed

lemma mem_view_write:
  "mem_view (d\<lparr>mem_data := fold mem_apply_op ops (mem_canon d)\<rparr>) = apply_ops ops (mem_view d)"
  using fold_mem_apply_op [of "mem_canon d" ops] by (simp add: mem_view_def mem_canon_def)

lemmas mem_defs = mem_ops_def mem_open_def mem_get_def mem_put_def mem_write_def mem_scan_def

interpretation mem: rocksdb mem_ops mem_view
proof (unfold_locales, goal_cases)
  case (1 d k v)
  then show ?case by (auto simp: mem_defs mem_view_def split: if_splits option.splits)
next
  case (2 d k t v)
  then show ?case by (auto simp: mem_defs mem_view_def split: if_splits option.splits)
next
  case (3 d w ops d')
  then show ?case by (auto simp: mem_defs mem_view_write split: if_splits)
next
  case (4 d w ops st d')
  then show ?case by (auto simp: mem_defs mem_view_write split: if_splits)
next
  case (5 d w k v d')
  then show ?case
    using mem_view_write [of "[PutOp k v]" d] by (auto simp: mem_defs split: if_splits)
next
  case (6 d w k v st d')
  then show ?case
    using mem_view_write [of "[PutOp k v]" d] by (auto simp: mem_defs split: if_splits)
next
  case (7 d kvs)
  then show ?case by (auto simp: mem_defs mem_view_def split: if_splits)
next
  case (8 d d')
  then show ?case by (auto simp: mem_defs split: if_splits)
qed

lemma mem_reads_ok: "\<not> fail_reads d \<Longrightarrow> reads_ok mem_ops mem_view d"
  by (auto simp: reads_ok_def mem_defs mem_view_def split: option.splits)

lemma mem_writes_ok: "\<not> fail_writes d \<Longrightarrow> writes_ok mem_ops d"
  by (simp add: writes_ok_def mem_defs)

lemma mem_scans_ok: "\<not> fail_iterators d \<Longrightarrow> scans_ok mem_ops d"
  by (simp add: scans_ok_def mem_defs)

lemma mem_opens_ok:
  "\<not> fail_opens d \<Longrightarrow> \<not> fail_reads d \<Longrightarrow> \<not> fail_iterators d \<Longrightarrow> opens_ok mem_ops mem_view d"
  using mem_reads_ok [of d] mem_scans_ok [of d] by (simp add: opens_ok_def mem_defs)

end
