(* ===== verification/RaftLog.thy ===== *)
theory RaftLog
  imports Storage
begin

text \<open>
  The durable Raft log (\<open>src/src/raftcore/raft_log.cc\<close>): entries, hard state, snapshot, the tail
  record and the redo intent of a snapshot installation, all in one database.

  The protobuf serialisation of a \<open>LogEntry\<close> is generated code, hence the parameter \<open>C\<close> with the
  contract \<open>entry_codec\<close>: what was serialised parses back. Indices and terms are integers; the code
  checks their ranges before it encodes them. Loops over an index range are recursions over the list
  of indices.

  The abstract log \<open>alog\<close> is a snapshot, a list of entries after it, a hard state and a pending
  installation. \<open>represents\<close> says that a database stores it, \<open>log_rel\<close> that an object in memory
  agrees too. Every operation refines its abstract counterpart, every failed write leaves the old or
  the new log, and opening a database that represents a log gives that log.
\<close>

section \<open>Definitions\<close>

record log_entry =
  le_index :: int
  le_term :: int
  le_command :: bytes

record entry_codec =
  ec_ser :: "log_entry \<Rightarrow> bytes option"
  ec_parse :: "bytes \<Rightarrow> log_entry option"

record 'db raft_log =
  rl_db :: 'db
  rl_last_index :: int
  rl_last_term :: int
  rl_snapshot_index :: int
  rl_snapshot_term :: int
  rl_snapshot_data :: bytes

abbreviation kMaxSnapshotBytes :: nat where "kMaxSnapshotBytes \<equiv> 33554432"

definition SnapshotMetaKey :: bytes where "SnapshotMetaKey = ''raftkv-snapshot-meta''"
definition SnapshotDataKey :: bytes where "SnapshotDataKey = ''raftkv-snapshot-data''"
definition TailKey :: bytes where "TailKey = ''raftkv-log-tail''"
definition SnapshotIntentKey :: bytes where "SnapshotIntentKey = ''raftkv-install-intent-v1''"

definition EncodeTail :: "int \<Rightarrow> int \<Rightarrow> bytes" where
  "EncodeTail index term = be_bytes 8 (word_of_int index :: 64 word) @ be_bytes 8 (word_of_int term :: 64 word)"

definition PutTail :: "int \<Rightarrow> int \<Rightarrow> write_op" where
  "PutTail index term = PutOp TailKey (EncodeTail index term)"

definition IndexToKey :: "int \<Rightarrow> bytes" where
  "IndexToKey index = be_bytes 8 (word_of_int index :: 64 word)"

text \<open>The two 64-bit fields of a 16-byte record.\<close>

definition two_fields :: "bytes \<Rightarrow> int \<times> int" where
  "two_fields raw = (uint (read_be (take 8 raw) :: 64 word), uint (read_be (take 8 (drop 8 raw)) :: 64 word))"

text \<open>A durable batch, and what the object records when it succeeded.\<close>

definition log_write ::
  "'db rocksdb_ops \<Rightarrow> write_op list \<Rightarrow> string \<Rightarrow> ('db raft_log \<Rightarrow> 'db raft_log) \<Rightarrow> 'db raft_log \<Rightarrow>
   ('db raft_log, unit) res" where
  "log_write R batch op upd l =
     (case write_req R batch op (rl_db l) of
        Throw e d \<Rightarrow> Throw e (l\<lparr>rl_db := d\<rparr>)
      | Ok _ d \<Rightarrow> Ok () (upd (l\<lparr>rl_db := d\<rparr>)))"

fun append_loop ::
  "entry_codec \<Rightarrow> log_entry list \<Rightarrow> int \<Rightarrow> write_op list \<Rightarrow> exn + write_op list \<times> int" where
  "append_loop C [] prev batch = Inr (batch, prev)"
| "append_loop C (e # es) prev batch =
     (if prev = INT64_MAX \<or> le_index e \<noteq> prev + 1 \<or> le_term e \<le> 0
      then Inl (Runtime_error ''invalid Raft append index or term'')
      else case ec_ser C e of
             None \<Rightarrow> Inl (Runtime_error ''serialize Raft log'')
           | Some b \<Rightarrow> append_loop C es (le_index e) (batch @ [PutOp (IndexToKey (le_index e)) b]))"

definition AppendBatch ::
  "'db rocksdb_ops \<Rightarrow> entry_codec \<Rightarrow> log_entry list \<Rightarrow> 'db raft_log \<Rightarrow> ('db raft_log, unit) res" where
  "AppendBatch R C entries l =
     (if entries = [] then Ok () l
      else
        bindR (liftR (append_loop C entries (rl_last_index l) []) l) (\<lambda>(batch, prev).
          log_write R (batch @ [PutTail prev (le_term (last entries))]) ''append Raft log batch''
            (\<lambda>l. l\<lparr>rl_last_index := prev, rl_last_term := le_term (last entries)\<rparr>)))"

definition Append ::
  "'db rocksdb_ops \<Rightarrow> entry_codec \<Rightarrow> log_entry \<Rightarrow> 'db raft_log \<Rightarrow> ('db raft_log, unit) res" where
  "Append R C entry = AppendBatch R C [entry]"

definition Log_Get ::
  "'db rocksdb_ops \<Rightarrow> entry_codec \<Rightarrow> 'db raft_log \<Rightarrow> int \<Rightarrow> exn + log_entry option" where
  "Log_Get R C l index =
     (if index \<le> rl_snapshot_index l \<or> index > rl_last_index l then Inr None
      else
        bindE (read_req R (rl_db l) (IndexToKey index) ''read Raft log'') (\<lambda>v.
          case ec_parse C v of
            None \<Rightarrow> Inl (Runtime_error ''corrupt Raft log entry'')
          | Some e \<Rightarrow>
              if le_index e \<noteq> index \<or> le_term e \<le> 0
              then Inl (Runtime_error ''corrupt Raft log entry'') else Inr (Some e)))"

definition GetTerm :: "'db rocksdb_ops \<Rightarrow> entry_codec \<Rightarrow> 'db raft_log \<Rightarrow> int \<Rightarrow> exn + int" where
  "GetTerm R C l index =
     (if index = 0 then Inr 0
      else if index = rl_snapshot_index l then Inr (rl_snapshot_term l)
      else if index < rl_snapshot_index l then Inr (- 1)
      else bindE (Log_Get R C l index) (\<lambda>e.
             Inr (case e of Some e \<Rightarrow> le_term e | None \<Rightarrow> - 1)))"

definition TruncateSuffix ::
  "'db rocksdb_ops \<Rightarrow> entry_codec \<Rightarrow> int \<Rightarrow> 'db raft_log \<Rightarrow> ('db raft_log, unit) res" where
  "TruncateSuffix R C start l =
     (if start \<le> rl_snapshot_index l then Throw (Runtime_error ''cannot truncate snapshotted prefix'') l
      else if start > rl_last_index l then Ok () l
      else
        (let new_last = start - 1 in
         bindR (liftR (if new_last = 0 then Inr 0 else GetTerm R C l new_last) l) (\<lambda>new_term l.
           log_write R
             (map (\<lambda>i. DeleteOp (IndexToKey i)) [start .. rl_last_index l] @ [PutTail new_last new_term])
             ''truncate Raft log''
             (\<lambda>l. l\<lparr>rl_last_index := new_last, rl_last_term := new_term\<rparr>) l)))"

definition EncodeHardState :: "int \<Rightarrow> int \<Rightarrow> bytes" where
  "EncodeHardState term voted_for =
     le_bytes 4 (word_of_int term :: 32 word) @ le_bytes 4 (word_of_int voted_for :: 32 word)"

definition SaveHardState ::
  "'db rocksdb_ops \<Rightarrow> int \<Rightarrow> int \<Rightarrow> 'db raft_log \<Rightarrow> ('db raft_log, unit) res" where
  "SaveHardState R term voted_for l =
     (if term < 0 \<or> voted_for < - 1 then Throw (Runtime_error ''invalid hard state'') l
      else case put_req R (IndexToKey 0) (EncodeHardState term voted_for) ''persist Raft hard state'' (rl_db l) of
             Throw e d \<Rightarrow> Throw e (l\<lparr>rl_db := d\<rparr>)
           | Ok _ d \<Rightarrow> Ok () (l\<lparr>rl_db := d\<rparr>))"

text \<open>The result is (found, term, voted_for).\<close>

definition LoadHardState ::
  "'db rocksdb_ops \<Rightarrow> 'db raft_log \<Rightarrow> exn + bool \<times> int \<times> int" where
  "LoadHardState R l =
     (case db_get R (rl_db l) (IndexToKey 0) of (st, value) \<Rightarrow>
      if IsNotFound st \<and> rl_last_index l = 0 then Inr (False, 0, - 1)
      else
        bindE (RequireStorageOK st ''read Raft hard state'') (\<lambda>_.
          if length value \<noteq> 8 then Inl (Runtime_error ''corrupt Raft hard state'')
          else
            (let f0 = uint (read_le (take 4 value) :: 32 word);
                 f1 = uint (read_le (take 4 (drop 4 value)) :: 32 word)
             in if f0 > INT32_MAX \<or> (f1 > INT32_MAX \<and> f1 \<noteq> int UINT32_MAX)
                then Inl (Runtime_error ''invalid Raft hard state'')
                else Inr (True, f0, if f1 = int UINT32_MAX then - 1 else f1))))"

definition LoadSnapshot :: "'db rocksdb_ops \<Rightarrow> 'db raft_log \<Rightarrow> exn + 'db raft_log" where
  "LoadSnapshot R l =
     bindE (read_opt R (rl_db l) SnapshotMetaKey ''read Raft snapshot'') (\<lambda>v.
     case v of
       None \<Rightarrow> Inr l
     | Some meta \<Rightarrow>
         if length meta \<noteq> 16 then Inl (Runtime_error ''corrupt Raft snapshot metadata'')
         else
           (let (f0, f1) = two_fields meta in
            if f0 = 0 \<or> f0 > INT64_MAX \<or> f1 = 0 \<or> f1 > INT64_MAX
            then Inl (Runtime_error ''invalid Raft snapshot metadata'')
            else
              bindE (read_req R (rl_db l) SnapshotDataKey ''read Raft snapshot data'') (\<lambda>data.
                if length data > kMaxSnapshotBytes then Inl (Runtime_error ''Raft snapshot too large'')
                else Inr (l\<lparr>rl_snapshot_index := f0, rl_snapshot_term := f1, rl_snapshot_data := data\<rparr>))))"

fun verify_loop ::
  "'db rocksdb_ops \<Rightarrow> entry_codec \<Rightarrow> 'db raft_log \<Rightarrow> int list \<Rightarrow> int \<Rightarrow> exn + unit" where
  "verify_loop R C l [] previous_term = Inr ()"
| "verify_loop R C l (i # is) previous_term =
     bindE (Log_Get R C l i) (\<lambda>e.
       case e of
         None \<Rightarrow> Inl (Runtime_error ''corrupt or non-contiguous Raft log'')
       | Some e \<Rightarrow>
           if le_term e < previous_term then Inl (Runtime_error ''corrupt or non-contiguous Raft log'')
           else verify_loop R C l is (le_term e))"

text \<open>The loop counter of \<open>VerifySuffix\<close> overflows when the log ends at the largest index.\<close>

definition VerifySuffix :: "'db rocksdb_ops \<Rightarrow> entry_codec \<Rightarrow> 'db raft_log \<Rightarrow> exn + unit" where
  "VerifySuffix R C l =
     bindE (verify_loop R C l [rl_snapshot_index l + 1 .. rl_last_index l]
              (if rl_snapshot_index l = 0 then 0 else rl_snapshot_term l)) (\<lambda>_.
       if rl_last_index l = INT64_MAX then Inl (Undefined_behaviour ''signed overflow of a log index'')
       else Inr ())"

definition LoadTail ::
  "'db rocksdb_ops \<Rightarrow> entry_codec \<Rightarrow> 'db raft_log \<Rightarrow> exn + bool \<times> 'db raft_log" where
  "LoadTail R C l =
     bindE (read_opt R (rl_db l) TailKey ''read Raft log tail'') (\<lambda>v.
     case v of
       None \<Rightarrow> Inr (False, l)
     | Some raw \<Rightarrow>
         if length raw \<noteq> 16 then Inl (Runtime_error ''corrupt Raft log tail'')
         else
           (let (index, term) = two_fields raw in
            if index > INT64_MAX \<or> term > INT32_MAX then Inl (Runtime_error ''invalid Raft log tail'')
            else if index < rl_snapshot_index l
              then Inl (Runtime_error ''Raft log tail precedes its snapshot'')
            else
              bindE
                (if index = 0 then
                   (if term \<noteq> 0 \<or> rl_snapshot_index l \<noteq> 0
                    then Inl (Runtime_error ''invalid empty Raft log tail'') else Inr ())
                 else if index = rl_snapshot_index l then
                   (if term \<noteq> rl_snapshot_term l
                    then Inl (Runtime_error ''Raft log tail does not match its snapshot'') else Inr ())
                 else
                   bindE (read_req R (rl_db l) (IndexToKey index) ''read Raft log tail entry'') (\<lambda>value.
                     case ec_parse C value of
                       None \<Rightarrow> Inl (Runtime_error ''corrupt Raft log tail entry'')
                     | Some e \<Rightarrow>
                         if le_index e \<noteq> index \<or> le_term e \<noteq> term \<or> term \<le> 0
                         then Inl (Runtime_error ''corrupt Raft log tail entry'') else Inr ()))
                (\<lambda>_.
                   (let l = l\<lparr>rl_last_index := index, rl_last_term := term\<rparr>
                    in bindE (VerifySuffix R C l) (\<lambda>_. Inr (True, l))))))"

fun scan_loop ::
  "entry_codec \<Rightarrow> (bytes \<times> bytes) list \<Rightarrow> 'db raft_log \<Rightarrow> exn + 'db raft_log" where
  "scan_loop C [] l = Inr l"
| "scan_loop C ((key, value) # kvs) l =
     (if key = IndexToKey 0 \<or> key = SnapshotMetaKey \<or> key = SnapshotDataKey \<or> key = TailKey \<or>
         key = SnapshotIntentKey
      then scan_loop C kvs l
      else if rl_last_index l = INT64_MAX \<or> key \<noteq> IndexToKey (rl_last_index l + 1)
        then Inl (Runtime_error ''corrupt or non-contiguous Raft log'')
      else case ec_parse C value of
             None \<Rightarrow> Inl (Runtime_error ''corrupt or non-contiguous Raft log'')
           | Some e \<Rightarrow>
               if le_index e \<noteq> rl_last_index l + 1 \<or> le_term e \<le> 0 \<or> le_term e < rl_last_term l
               then Inl (Runtime_error ''corrupt or non-contiguous Raft log'')
               else scan_loop C kvs (l\<lparr>rl_last_index := rl_last_index l + 1, rl_last_term := le_term e\<rparr>))"

definition new_log :: "'db \<Rightarrow> 'db raft_log" where
  "new_log d = \<lparr>rl_db = d, rl_last_index = 0, rl_last_term = 0,
                rl_snapshot_index = 0, rl_snapshot_term = 0, rl_snapshot_data = []\<rparr>"

definition RaftLog_open ::
  "'db rocksdb_ops \<Rightarrow> entry_codec \<Rightarrow> 'db \<Rightarrow> ('db, 'db raft_log) res" where
  "RaftLog_open R C path =
     (case db_open R path of (st, d) \<Rightarrow>
      bindR (liftR (RequireStorageOK st ''open Raft log'') d) (\<lambda>_ d.
      bindR (liftR (LoadSnapshot R (new_log d)) d) (\<lambda>l d.
      bindR (liftR (LoadTail R C (l\<lparr>rl_last_index := rl_snapshot_index l,
                                     rl_last_term := rl_snapshot_term l\<rparr>)) d) (\<lambda>(found, l) d.
      if found then Ok l d
      else case db_scan R d of (st, kvs) \<Rightarrow>
        bindR (liftR (scan_loop C kvs l) d) (\<lambda>l d.
        bindR (liftR (RequireStorageOK st ''scan Raft log'') d) (\<lambda>_ d.
        if rl_last_index l > 0 then
          bindR (put_req R TailKey (EncodeTail (rl_last_index l) (rl_last_term l)) ''persist Raft log tail'' d)
            (\<lambda>_ d. Ok (l\<lparr>rl_db := d\<rparr>) d)
        else Ok l d))))))"

definition PersistSnapshot ::
  "'db rocksdb_ops \<Rightarrow> int \<Rightarrow> int \<Rightarrow> bytes \<Rightarrow> bool \<Rightarrow> 'db raft_log \<Rightarrow> ('db raft_log, unit) res" where
  "PersistSnapshot R index term data keep_suffix l =
     (if index \<le> 0 \<or> term \<le> 0 \<or> length data > kMaxSnapshotBytes
      then Throw (Runtime_error ''invalid Raft snapshot'') l
      else
        (let delete_through = (if keep_suffix then index else rl_last_index l) in
         log_write R
           ([PutOp SnapshotMetaKey (EncodeTail index term), PutOp SnapshotDataKey data,
             DeleteOp SnapshotIntentKey,
             PutTail (if keep_suffix then rl_last_index l else index) (if keep_suffix then rl_last_term l else term)] @
            map (\<lambda>i. DeleteOp (IndexToKey i)) [rl_snapshot_index l + 1 .. delete_through])
           ''persist Raft snapshot''
           (\<lambda>l. let l = l\<lparr>rl_snapshot_index := index, rl_snapshot_term := term, rl_snapshot_data := data\<rparr>
                in if keep_suffix then l else l\<lparr>rl_last_index := index, rl_last_term := term\<rparr>) l))"

definition CompactApplied ::
  "'db rocksdb_ops \<Rightarrow> entry_codec \<Rightarrow> int \<Rightarrow> int \<Rightarrow> bytes \<Rightarrow> 'db raft_log \<Rightarrow> ('db raft_log, unit) res" where
  "CompactApplied R C index term data l =
     (if index \<le> rl_snapshot_index l then Ok () l
      else if index > rl_last_index l then Throw (Runtime_error ''cannot snapshot an absent Raft entry'') l
      else bindR (liftR (GetTerm R C l index) l) (\<lambda>t l.
             if t \<noteq> term then Throw (Runtime_error ''cannot snapshot an absent Raft entry'') l
             else PersistSnapshot R index term data True l))"

definition StageSnapshotInstall ::
  "'db rocksdb_ops \<Rightarrow> int \<Rightarrow> int \<Rightarrow> bytes \<Rightarrow> 'db raft_log \<Rightarrow> ('db raft_log, unit) res" where
  "StageSnapshotInstall R index term data l =
     (if index \<le> rl_snapshot_index l \<or> term \<le> 0 \<or> term > INT32_MAX \<or> length data > kMaxSnapshotBytes
      then Throw (Runtime_error ''invalid pending Raft snapshot'') l
      else
        bindR (liftR (read_opt R (rl_db l) SnapshotIntentKey ''read pending Raft snapshot before staging'') l) (\<lambda>v l.
          if v \<noteq> None
          then Throw (Runtime_error ''pending Raft snapshot must recover before another install'') l
          else log_write R
                 [PutOp SnapshotIntentKey (EncodeTail index term @ data), PutTail (rl_last_index l) (rl_last_term l)]
                 ''stage Raft snapshot install'' (\<lambda>l. l) l))"

definition LoadPendingSnapshot ::
  "'db rocksdb_ops \<Rightarrow> 'db raft_log \<Rightarrow> exn + (int \<times> int \<times> bytes) option" where
  "LoadPendingSnapshot R l =
     bindE (read_opt R (rl_db l) SnapshotIntentKey ''read pending Raft snapshot'') (\<lambda>v.
     case v of
       None \<Rightarrow> Inr None
     | Some rec \<Rightarrow>
         if length rec < 16 \<or> length rec - 16 > kMaxSnapshotBytes
         then Inl (Runtime_error ''corrupt pending Raft snapshot'')
         else
           (let (f0, f1) = two_fields rec in
            if f0 \<le> rl_snapshot_index l \<or> f0 > INT64_MAX \<or> f1 = 0 \<or> f1 > INT32_MAX
            then Inl (Runtime_error ''invalid pending Raft snapshot metadata'')
            else Inr (Some (f0, f1, drop 16 rec))))"

definition Log_InstallSnapshot ::
  "'db rocksdb_ops \<Rightarrow> entry_codec \<Rightarrow> int \<Rightarrow> int \<Rightarrow> bytes \<Rightarrow> 'db raft_log \<Rightarrow> ('db raft_log, unit) res" where
  "Log_InstallSnapshot R C index term data l =
     (if index \<le> 0 \<or> term \<le> 0 then Throw (Runtime_error ''invalid Raft snapshot'') l
      else if index < rl_snapshot_index l then Throw (Runtime_error ''Raft snapshot would move backwards'') l
      else if index = rl_snapshot_index l then
        (if term \<noteq> rl_snapshot_term l then Throw (Runtime_error ''Raft snapshot term mismatch'') l else Ok () l)
      else
        bindR (liftR (if index \<le> rl_last_index l then bindE (GetTerm R C l index) (\<lambda>t. Inr (t = term))
                      else Inr False) l) (\<lambda>keep_suffix.
          PersistSnapshot R index term data keep_suffix))"

section \<open>Keys and records\<close>

lemma length_IndexToKey [simp]: "length (IndexToKey i) = 8"
  by (simp add: IndexToKey_def)

lemma length_EncodeTail [simp]: "length (EncodeTail i t) = 16"
  by (simp add: EncodeTail_def)

lemma IndexToKey_names [simp]:
  "IndexToKey i \<noteq> SnapshotMetaKey" "IndexToKey i \<noteq> SnapshotDataKey" "IndexToKey i \<noteq> TailKey"
  "IndexToKey i \<noteq> SnapshotIntentKey"
  "SnapshotMetaKey \<noteq> IndexToKey i" "SnapshotDataKey \<noteq> IndexToKey i" "TailKey \<noteq> IndexToKey i"
  "SnapshotIntentKey \<noteq> IndexToKey i"
  by (rule size_neq_size_imp_neq; simp add: SnapshotMetaKey_def SnapshotDataKey_def TailKey_def SnapshotIntentKey_def)+

lemma log_names [simp]:
  "SnapshotMetaKey \<noteq> SnapshotDataKey" "SnapshotMetaKey \<noteq> TailKey" "SnapshotMetaKey \<noteq> SnapshotIntentKey"
  "SnapshotDataKey \<noteq> TailKey" "SnapshotDataKey \<noteq> SnapshotIntentKey" "TailKey \<noteq> SnapshotIntentKey"
  "SnapshotDataKey \<noteq> SnapshotMetaKey" "TailKey \<noteq> SnapshotMetaKey" "SnapshotIntentKey \<noteq> SnapshotMetaKey"
  "TailKey \<noteq> SnapshotDataKey" "SnapshotIntentKey \<noteq> SnapshotDataKey" "SnapshotIntentKey \<noteq> TailKey"
  by (simp_all add: SnapshotMetaKey_def SnapshotDataKey_def TailKey_def SnapshotIntentKey_def)

lemma IndexToKey_inject:
  assumes "0 \<le> i" "i \<le> INT64_MAX" "0 \<le> j" "j \<le> INT64_MAX"
  shows "IndexToKey i = IndexToKey j \<longleftrightarrow> i = j"
proof
  assume "IndexToKey i = IndexToKey j"
  then have "(word_of_int i :: 64 word) = word_of_int j" by (simp add: IndexToKey_def be_bytes_inject)
  then have "uint (word_of_int i :: 64 word) = uint (word_of_int j :: 64 word)" by (rule arg_cong)
  moreover have "uint (word_of_int i :: 64 word) = i" "uint (word_of_int j :: 64 word) = j"
    using assms by (simp_all add: sint_bound_uint)
  ultimately show "i = j" by simp
qed simp

lemma IndexToKey_notin:
  assumes "0 \<le> i" "i \<le> INT64_MAX" "0 \<le> a" "b \<le> INT64_MAX" "i \<notin> {a..b}"
  shows "IndexToKey i \<notin> IndexToKey ` {a..b}"
proof
  assume "IndexToKey i \<in> IndexToKey ` {a..b}"
  then obtain j where "j \<in> {a..b}" "IndexToKey i = IndexToKey j" by blast
  with assms IndexToKey_inject [of i j] show False by auto
qed

lemma two_fields_EncodeTail:
  assumes "0 \<le> i" "i \<le> INT64_MAX" "0 \<le> t" "t \<le> INT64_MAX"
  shows "two_fields (EncodeTail i t @ d) = (i, t)"
  using assms by (simp add: two_fields_def EncodeTail_def sint_bound_uint)

section \<open>The abstract log\<close>

record alog =
  al_index :: int
  al_term :: int
  al_data :: bytes
  al_entries :: "log_entry list"
  al_hard :: "(int \<times> int) option"
  al_pending :: "(int \<times> int \<times> bytes) option"

definition al_last :: "alog \<Rightarrow> int" where
  "al_last a = al_index a + int (length (al_entries a))"

definition al_last_term :: "alog \<Rightarrow> int" where
  "al_last_term a = last (al_term a # map le_term (al_entries a))"

definition snap_ok :: "int \<Rightarrow> int \<Rightarrow> bytes \<Rightarrow> bool" where
  "snap_ok i t d \<longleftrightarrow>
     0 \<le> i \<and> (if i = 0 then t = 0 \<and> d = [] else 0 < t \<and> t \<le> INT32_MAX) \<and> length d \<le> kMaxSnapshotBytes"

definition entries_ok :: "int \<Rightarrow> int \<Rightarrow> log_entry list \<Rightarrow> bool" where
  "entries_ok i t es \<longleftrightarrow>
     (\<forall>n<length es. le_index (es ! n) = i + 1 + int n \<and> 0 < le_term (es ! n) \<and> le_term (es ! n) \<le> INT32_MAX) \<and>
     sorted (t # map le_term es)"

fun hard_ok :: "(int \<times> int) option \<Rightarrow> bool" where
  "hard_ok None = True"
| "hard_ok (Some (t, v)) = (0 \<le> t \<and> t \<le> INT32_MAX \<and> - 1 \<le> v \<and> v \<le> INT32_MAX)"

fun pending_ok :: "int \<Rightarrow> (int \<times> int \<times> bytes) option \<Rightarrow> bool" where
  "pending_ok n None = True"
| "pending_ok n (Some (i, t, d)) =
     (n < i \<and> i < INT64_MAX \<and> 0 < t \<and> t \<le> INT32_MAX \<and> length d \<le> kMaxSnapshotBytes)"

definition alog_ok :: "alog \<Rightarrow> bool" where
  "alog_ok a \<longleftrightarrow>
     snap_ok (al_index a) (al_term a) (al_data a) \<and> al_last a < INT64_MAX \<and>
     entries_ok (al_index a) (al_term a) (al_entries a) \<and>
     hard_ok (al_hard a) \<and> pending_ok (al_index a) (al_pending a)"

definition represents :: "entry_codec \<Rightarrow> (bytes \<Rightarrow> bytes option) \<Rightarrow> alog \<Rightarrow> bool" where
  "represents C V a \<longleftrightarrow>
     (if al_index a = 0 then V SnapshotMetaKey = None
      else V SnapshotMetaKey = Some (EncodeTail (al_index a) (al_term a)) \<and> V SnapshotDataKey = Some (al_data a)) \<and>
     (\<forall>i<length (al_entries a). \<exists>b. V (IndexToKey (al_index a + 1 + int i)) = Some b \<and>
        ec_parse C b = Some (al_entries a ! i)) \<and>
     (V TailKey = Some (EncodeTail (al_last a) (al_last_term a)) \<or>
      V TailKey = None \<and> al_last a = 0 \<and> (\<forall>k. k \<noteq> IndexToKey 0 \<longrightarrow> V k = None)) \<and>
     V (IndexToKey 0) = map_option (\<lambda>(t, v). EncodeHardState t v) (al_hard a) \<and>
     V SnapshotIntentKey = map_option (\<lambda>(i, t, d). EncodeTail i t @ d) (al_pending a)"

definition fields_rel :: "'db raft_log \<Rightarrow> alog \<Rightarrow> bool" where
  "fields_rel l a \<longleftrightarrow>
     rl_last_index l = al_last a \<and> rl_last_term l = al_last_term a \<and>
     rl_snapshot_index l = al_index a \<and> rl_snapshot_term l = al_term a \<and> rl_snapshot_data l = al_data a"

definition log_rel ::
  "('db \<Rightarrow> bytes \<Rightarrow> bytes option) \<Rightarrow> entry_codec \<Rightarrow> 'db raft_log \<Rightarrow> alog \<Rightarrow> bool" where
  "log_rel view C l a \<longleftrightarrow> alog_ok a \<and> represents C (view (rl_db l)) a \<and> fields_rel l a"

text \<open>
  One step of the object against one step of the abstract log: a return relates the new states, an
  exception leaves the fields alone and the database with the old or the new log.
\<close>

definition log_step ::
  "('db \<Rightarrow> bytes \<Rightarrow> bytes option) \<Rightarrow> entry_codec \<Rightarrow> ('db raft_log, unit) res \<Rightarrow> alog \<Rightarrow> alog \<Rightarrow> bool" where
  "log_step view C r a a' \<longleftrightarrow>
     wp r (\<lambda>_ l'. log_rel view C l' a')
       (\<lambda>_ l'. fields_rel l' a \<and>
          (represents C (view (rl_db l')) a \<or> alog_ok a' \<and> represents C (view (rl_db l')) a'))"

lemma al_index_bounds: "alog_ok a \<Longrightarrow> 0 \<le> al_index a \<and> al_index a \<le> al_last a \<and> al_last a < INT64_MAX"
  by (auto simp: alog_ok_def al_last_def snap_ok_def)

lemma apply_ops_deletes_keys:
  "apply_ops (map (\<lambda>i. DeleteOp (f i)) is) m = (\<lambda>k. if k \<in> f ` set is then None else m k)"
  by (induction "is" arbitrary: m) (auto simp: apply_ops_def fun_eq_iff)

locale log_storage = rocksdb R view
  for R :: "'db rocksdb_ops" and view :: "'db \<Rightarrow> bytes \<Rightarrow> bytes option" +
  fixes C :: entry_codec
  assumes parse_ser: "ec_ser C e = Some b \<Longrightarrow> ec_parse C b = Some e"
begin

lemma log_write_step:
  assumes "log_rel view C l a" and "represents C (apply_ops batch (view (rl_db l))) a'" and "alog_ok a'"
    and "\<And>d. fields_rel (upd (l\<lparr>rl_db := d\<rparr>)) a' \<and> rl_db (upd (l\<lparr>rl_db := d\<rparr>)) = d"
  shows "log_step view C (log_write R batch op upd l) a a'"
proof (cases "write_req R batch op (rl_db l)")
  case (Ok u d)
  with write_req_Ok [OF Ok] assms show ?thesis
    by (simp add: log_step_def log_write_def log_rel_def)
next
  case (Throw e d)
  with write_req_Throw [OF Throw] assms show ?thesis
    by (auto simp: log_step_def log_write_def log_rel_def fields_rel_def)
qed

lemma log_step_refl: "log_rel view C l a \<Longrightarrow> log_step view C (Ok () l) a a"
  by (simp add: log_step_def)

lemma log_step_Throw: "log_rel view C l a \<Longrightarrow> log_step view C (Throw e l) a a'"
  by (auto simp: log_step_def log_rel_def)

end

section \<open>Appending and truncating\<close>

definition al_append :: "log_entry list \<Rightarrow> alog \<Rightarrow> alog" where
  "al_append es a = a\<lparr>al_entries := al_entries a @ es\<rparr>"

definition append_ok :: "log_entry list \<Rightarrow> alog \<Rightarrow> bool" where
  "append_ok es a \<longleftrightarrow>
     al_last a + int (length es) < INT64_MAX \<and>
     list_all (\<lambda>e. le_term e \<le> INT32_MAX) es \<and> sorted (al_last_term a # map le_term es)"

definition al_truncate :: "int \<Rightarrow> alog \<Rightarrow> alog" where
  "al_truncate start a = a\<lparr>al_entries := take (nat (start - al_index a - 1)) (al_entries a)\<rparr>"

lemma sorted_glue:
  assumes "sorted (x # xs)" and "sorted (last (x # xs) # ys)"
  shows "sorted (x # xs @ ys :: 'a::linorder list)"
proof -
  have "z \<le> last (x # xs)" if "z \<in> set (x # xs)" for z
  proof -
    have "sorted (butlast (x # xs) @ [last (x # xs)])" using assms(1) by simp
    moreover have "set (x # xs) = insert (last (x # xs)) (set (butlast (x # xs)))"
      by (metis append_butlast_last_id list.distinct(1) list.simps(15) rotate1.simps(2) set_rotate1)
    ultimately show ?thesis using that unfolding sorted_append by fastforce
  qed
  moreover have "last (x # xs) \<le> y" if "y \<in> set ys" for y using assms(2) that by simp
  ultimately have "\<forall>z\<in>set (x # xs). \<forall>y\<in>set ys. z \<le> y" using order_trans by blast
  with assms show ?thesis using sorted_append [of "x # xs" ys] by simp
qed

lemma append_loop_Inr:
  assumes "append_loop C es prev batch = Inr (batch', prev')" and "0 \<le> prev"
    and "prev + int (length es) \<le> INT64_MAX"
  shows "prev' = prev + int (length es) \<and>
         (\<forall>i<length es. le_index (es ! i) = prev + 1 + int i \<and> 0 < le_term (es ! i) \<and>
            (\<exists>b. apply_ops batch' V (IndexToKey (prev + 1 + int i)) = Some b \<and> ec_ser C (es ! i) = Some b)) \<and>
         (\<forall>k. k \<notin> IndexToKey ` {prev + 1 .. prev + int (length es)} \<longrightarrow> apply_ops batch' V k = apply_ops batch V k)"
  using assms
proof (induction es arbitrary: prev batch)
  case Nil
  then show ?case by simp
next
  case (Cons e es)
  then obtain b where b: "le_index e = prev + 1" "0 < le_term e" "ec_ser C e = Some b"
    "append_loop C es (prev + 1) (batch @ [PutOp (IndexToKey (prev + 1)) b]) = Inr (batch', prev')"
    by (auto split: if_splits option.splits)
  let ?batch = "batch @ [PutOp (IndexToKey (prev + 1)) b]"
  note IH = Cons.IH [OF b(4)]
  have sub: "prev' = prev + 1 + int (length es)"
    "\<forall>i<length es. le_index (es ! i) = prev + 1 + 1 + int i \<and> 0 < le_term (es ! i) \<and>
       (\<exists>b. apply_ops batch' V (IndexToKey (prev + 1 + 1 + int i)) = Some b \<and> ec_ser C (es ! i) = Some b)"
    "\<And>k. k \<notin> IndexToKey ` {prev + 1 + 1 .. prev + 1 + int (length es)} \<Longrightarrow>
       apply_ops batch' V k = apply_ops ?batch V k"
    using IH Cons.prems by auto
  have "IndexToKey (prev + 1) \<notin> IndexToKey ` {prev + 1 + 1 .. prev + 1 + int (length es)}"
    using Cons.prems by (intro IndexToKey_notin) auto
  then have here: "apply_ops batch' V (IndexToKey (prev + 1)) = Some b" using sub(3) by simp
  have rest: "apply_ops batch' V k = apply_ops batch V k"
    if "k \<notin> IndexToKey ` {prev + 1 .. prev + int (length (e # es))}" for k
  proof -
    have "k \<noteq> IndexToKey (prev + 1)" "k \<notin> IndexToKey ` {prev + 1 + 1 .. prev + 1 + int (length es)}"
      using that by auto
    with sub(3) show ?thesis by simp
  qed
  have all: "\<forall>i<length (e # es). le_index ((e # es) ! i) = prev + 1 + int i \<and> 0 < le_term ((e # es) ! i) \<and>
      (\<exists>b. apply_ops batch' V (IndexToKey (prev + 1 + int i)) = Some b \<and> ec_ser C ((e # es) ! i) = Some b)"
  proof (intro allI impI)
    fix i assume "i < length (e # es)"
    then show "le_index ((e # es) ! i) = prev + 1 + int i \<and> 0 < le_term ((e # es) ! i) \<and>
      (\<exists>b. apply_ops batch' V (IndexToKey (prev + 1 + int i)) = Some b \<and> ec_ser C ((e # es) ! i) = Some b)"
      using b here sub(2) by (cases i) (auto simp: algebra_simps)
  qed
  from sub(1) all rest show ?case by auto
qed

text \<open>A database that agrees with another one on the keys of a log, its tail aside.\<close>

lemma represents_tail:
  assumes "represents C V a" and "alog_ok a" and "al_index a' = al_index a" and "al_term a' = al_term a"
    and "al_data a' = al_data a" and "al_hard a' = al_hard a" and "al_pending a' = al_pending a"
    and "\<And>k. k \<notin> IndexToKey ` {al_index a + 1 .. INT64_MAX} \<Longrightarrow> W k = V k"
    and "\<forall>i<length (al_entries a'). \<exists>b. W (IndexToKey (al_index a + 1 + int i)) = Some b \<and>
           ec_parse C b = Some (al_entries a' ! i)"
  shows "represents C (W(TailKey := Some (EncodeTail (al_last a') (al_last_term a')))) a'"
proof -
  have "0 \<le> al_index a" "al_index a \<le> INT64_MAX" using al_index_bounds [OF assms(2)] by auto
  then have "IndexToKey 0 \<notin> IndexToKey ` {al_index a + 1 .. INT64_MAX}"
    by (intro IndexToKey_notin) auto
  moreover have "SnapshotMetaKey \<notin> IndexToKey ` A" "SnapshotDataKey \<notin> IndexToKey ` A"
    "SnapshotIntentKey \<notin> IndexToKey ` A" for A by auto
  ultimately show ?thesis using assms by (simp add: represents_def)
qed

context log_storage
begin

lemma AppendBatch_step:
  assumes rel: "log_rel view C l a" and ok: "append_ok es a"
  shows "log_step view C (AppendBatch R C es l) a (al_append es a)"
proof (cases "es = []")
  case True
  then show ?thesis using rel by (simp add: AppendBatch_def al_append_def log_step_refl)
next
  case ne: False
  have a: "alog_ok a" and rep: "represents C (view (rl_db l)) a" and f: "fields_rel l a"
    using rel by (auto simp: log_rel_def)
  have la: "rl_last_index l = al_last a" using f by (simp add: fields_rel_def)
  show ?thesis
  proof (cases "append_loop C es (al_last a) []")
    case (Inl e)
    then show ?thesis using ne la log_step_Throw [OF rel] by (simp add: AppendBatch_def)
  next
    case (Inr bp)
    then obtain batch prev where loop: "append_loop C es (al_last a) [] = Inr (batch, prev)" by (cases bp) auto
    have bnd: "0 \<le> al_last a" "al_last a + int (length es) \<le> INT64_MAX"
      using ok al_index_bounds [OF a] by (auto simp: append_ok_def)
    note L = append_loop_Inr [OF loop bnd, of "view (rl_db l)"]
    let ?a = "al_append es a" and ?W = "apply_ops batch (view (rl_db l))"
    have ent: "al_entries ?a = al_entries a @ es" "al_index ?a = al_index a" by (simp_all add: al_append_def)
    have last: "al_last ?a = prev" "al_last_term ?a = le_term (last es)"
      using L ne by (simp_all add: al_last_def al_last_term_def ent last_map)
    have "entries_ok (al_index a) (al_term a) (al_entries a @ es)"
      using a ok L sorted_glue [of "al_term a" "map le_term (al_entries a)" "map le_term es"]
      by (auto simp: alog_ok_def entries_ok_def append_ok_def al_last_def al_last_term_def nth_append list_all_length)
    then have ok': "alog_ok ?a"
      using a ok by (simp add: alog_ok_def al_append_def append_ok_def al_last_def)
    have outside: "?W k = view (rl_db l) k" if "k \<notin> IndexToKey ` {al_index a + 1 .. INT64_MAX}" for k
    proof -
      have "{al_last a + 1 .. al_last a + int (length es)} \<subseteq> {al_index a + 1 .. INT64_MAX}"
        using bnd by (auto simp: al_last_def)
      with that have "k \<notin> IndexToKey ` {al_last a + 1 .. al_last a + int (length es)}" by blast
      with L show ?thesis by simp
    qed
    have "\<forall>i<length (al_entries ?a). \<exists>b. ?W (IndexToKey (al_index a + 1 + int i)) = Some b \<and>
           ec_parse C b = Some (al_entries ?a ! i)"
    proof (intro allI impI)
      fix i assume i: "i < length (al_entries ?a)"
      show "\<exists>b. ?W (IndexToKey (al_index a + 1 + int i)) = Some b \<and> ec_parse C b = Some (al_entries ?a ! i)"
      proof (cases "i < length (al_entries a)")
        case True
        then have "al_index a + 1 + int i \<le> al_last a" by (simp add: al_last_def)
        then have "IndexToKey (al_index a + 1 + int i) \<notin> IndexToKey ` {al_last a + 1 .. al_last a + int (length es)}"
          using bnd al_index_bounds [OF a] by (intro IndexToKey_notin) auto
        with L True rep show ?thesis by (simp add: ent nth_append represents_def)
      next
        case False
        define j where "j = i - length (al_entries a)"
        have j: "j < length es" "al_index a + 1 + int i = al_last a + 1 + int j" "al_entries ?a ! i = es ! j"
          using False i by (auto simp: j_def ent nth_append al_last_def)
        show ?thesis unfolding j(2,3) using L j(1) parse_ser by blast
      qed
    qed
    with outside have "represents C (?W(TailKey := Some (EncodeTail (al_last ?a) (al_last_term ?a)))) ?a"
      by (intro represents_tail [OF rep a]) (auto simp: al_append_def)
    then have "represents C (apply_ops (batch @ [PutTail prev (le_term (last es))]) (view (rl_db l))) ?a"
      by (simp add: PutTail_def last)
    from log_write_step [OF rel this ok'] show ?thesis
      using ne la loop last f by (simp add: AppendBatch_def fields_rel_def al_append_def)
  qed
qed

end

section \<open>Reading\<close>

definition al_get :: "alog \<Rightarrow> int \<Rightarrow> log_entry option" where
  "al_get a i =
     (if al_index a < i \<and> i \<le> al_last a then Some (al_entries a ! nat (i - al_index a - 1)) else None)"

definition al_get_term :: "alog \<Rightarrow> int \<Rightarrow> int" where
  "al_get_term a i =
     (if i = 0 then 0 else if i = al_index a then al_term a
      else case al_get a i of Some e \<Rightarrow> le_term e | None \<Rightarrow> - 1)"

lemma al_get_ok:
  assumes "alog_ok a" and "al_get a i = Some e"
  shows "le_index e = i \<and> 0 < le_term e \<and> le_term e \<le> INT32_MAX"
proof -
  have "nat (i - al_index a - 1) < length (al_entries a)"
    using assms(2) by (auto simp: al_get_def al_last_def split: if_splits)
  with assms show ?thesis
    by (auto simp: alog_ok_def entries_ok_def al_get_def split: if_splits)
qed

lemma represents_entry:
  "represents C V a \<Longrightarrow> n < length (al_entries a) \<Longrightarrow>
     \<exists>b. V (IndexToKey (al_index a + 1 + int n)) = Some b \<and> ec_parse C b = Some (al_entries a ! n)"
  by (simp add: represents_def)

lemma represents_get:
  assumes "represents C V a" and "al_get a i = Some e"
  shows "\<exists>b. V (IndexToKey i) = Some b \<and> ec_parse C b = Some e"
proof -
  define n where "n = nat (i - al_index a - 1)"
  have n: "n < length (al_entries a)" "i = al_index a + 1 + int n" "e = al_entries a ! n"
    using assms(2) by (auto simp: n_def al_get_def al_last_def split: if_splits)
  then show ?thesis using assms(1) by (auto simp: represents_def)
qed

text \<open>The highest entry has the last term.\<close>

lemma al_get_last_term:
  assumes "al_index a < al_last a"
  shows "\<exists>e. al_get a (al_last a) = Some e \<and> le_term e = al_last_term a"
proof -
  have ne: "al_entries a \<noteq> []" using assms by (auto simp: al_last_def)
  have "nat (al_last a - al_index a - 1) = length (al_entries a) - 1" by (simp add: al_last_def)
  with ne assms show ?thesis by (simp add: al_get_def al_last_term_def last_map last_conv_nth)
qed

lemma entries_ok_take:
  assumes "entries_ok i t es"
  shows "entries_ok i t (take n es)"
proof -
  have "sorted (take (Suc n) (t # map le_term es))" using assms by (intro sorted_wrt_take) (simp add: entries_ok_def)
  with assms show ?thesis by (simp add: entries_ok_def take_map)
qed

lemma entries_ok_drop:
  assumes "entries_ok i t es" and "n \<le> length es"
  shows "entries_ok (i + int n) (last (t # map le_term (take n es))) (drop n es)"
proof -
  have "drop n (t # map le_term es) = last (t # map le_term (take n es)) # map le_term (drop n es)"
  proof (cases n)
    case 0
    then show ?thesis by simp
  next
    case (Suc k)
    then have "drop n (t # map le_term es) = map le_term (drop k es)" by (simp add: drop_map)
    also have "drop k es = es ! k # drop n es" using Suc assms(2) by (simp add: Cons_nth_drop_Suc)
    finally show ?thesis using Suc assms(2) by (simp add: take_Suc_conv_app_nth)
  qed
  moreover have "sorted (drop n (t # map le_term es))" using assms(1) by (intro sorted_wrt_drop) (simp add: entries_ok_def)
  ultimately show ?thesis using assms by (auto simp: entries_ok_def)
qed

lemma al_get_term_take:
  assumes "alog_ok a" and "al_index a \<le> i" and "i \<le> al_last a"
  shows "last (al_term a # map le_term (take (nat (i - al_index a)) (al_entries a))) = al_get_term a i"
proof (cases "i = al_index a")
  case True
  with assms(1) show ?thesis by (simp add: al_get_term_def alog_ok_def snap_ok_def split: if_splits)
next
  case False
  define k where "k = nat (i - al_index a - 1)"
  have k: "nat (i - al_index a) = Suc k" "k < length (al_entries a)"
    using False assms(2,3) by (auto simp: k_def al_last_def)
  have "0 \<le> al_index a" using al_index_bounds [OF assms(1)] by simp
  with k False assms show ?thesis
    by (simp add: al_get_term_def al_get_def k_def [symmetric] take_Suc_conv_app_nth)
qed

lemma al_truncate_facts:
  assumes "alog_ok a" and "al_index a < start" and "start \<le> al_last a"
  shows "alog_ok (al_truncate start a)" and "al_last (al_truncate start a) = start - 1"
    and "al_last_term (al_truncate start a) = al_get_term a (start - 1)"
proof -
  show last: "al_last (al_truncate start a) = start - 1"
    using assms(2,3) by (simp add: al_last_def al_truncate_def)
  show "alog_ok (al_truncate start a)"
    using assms last al_index_bounds [OF assms(1)] by (simp add: alog_ok_def al_truncate_def entries_ok_take)
  have "nat (start - al_index a - 1) = nat (start - 1 - al_index a)" by simp
  with al_get_term_take [OF assms(1), of "start - 1"] assms(2,3)
  show "al_last_term (al_truncate start a) = al_get_term a (start - 1)"
    by (simp add: al_last_term_def al_truncate_def)
qed

lemma represents_truncate:
  assumes rep: "represents C V a" and a: "alog_ok a" and mid: "al_index a < start" "start \<le> al_last a"
  shows "represents C (apply_ops (map (\<lambda>i. DeleteOp (IndexToKey i)) [start .. al_last a] @
           [PutTail (start - 1) (al_get_term a (start - 1))]) V) (al_truncate start a)"
proof -
  note bnd = al_index_bounds [OF a] and facts = al_truncate_facts [OF a mid]
  let ?a = "al_truncate start a"
  define W where "W = (\<lambda>k. if k \<in> IndexToKey ` {start..al_last a} then None else V k)"
  have "represents C (W(TailKey := Some (EncodeTail (al_last ?a) (al_last_term ?a)))) ?a"
  proof (rule represents_tail [OF rep a])
    fix k assume "k \<notin> IndexToKey ` {al_index a + 1..INT64_MAX}"
    moreover have "IndexToKey ` {start..al_last a} \<subseteq> IndexToKey ` {al_index a + 1..INT64_MAX}"
      using mid bnd by (intro image_mono) auto
    ultimately show "W k = V k" unfolding W_def by auto
  next
    show "\<forall>i<length (al_entries ?a). \<exists>b. W (IndexToKey (al_index a + 1 + int i)) = Some b \<and>
            ec_parse C b = Some (al_entries ?a ! i)"
    proof (intro allI impI)
      fix i assume i: "i < length (al_entries ?a)"
      then have "IndexToKey (al_index a + 1 + int i) \<notin> IndexToKey ` {start..al_last a}"
        using mid bnd by (intro IndexToKey_notin) (auto simp: al_truncate_def)
      with i rep show "\<exists>b. W (IndexToKey (al_index a + 1 + int i)) = Some b \<and>
            ec_parse C b = Some (al_entries ?a ! i)"
        by (auto simp: W_def al_truncate_def represents_def)
    qed
  qed (simp_all add: al_truncate_def)
  then show ?thesis by (simp add: apply_ops_deletes_keys W_def [symmetric] PutTail_def facts)
qed

context log_storage
begin

lemma Log_Get_Inr:
  assumes "log_rel view C l a" and "Log_Get R C l i = Inr x"
  shows "x = al_get a i"
proof (cases "al_get a i")
  case None
  with assms show ?thesis
    by (auto simp: Log_Get_def log_rel_def fields_rel_def al_get_def split: if_splits)
next
  case (Some e)
  with assms(1) have i: "\<not> (i \<le> rl_snapshot_index l \<or> i > rl_last_index l)"
    by (auto simp: al_get_def log_rel_def fields_rel_def split: if_splits)
  from Some assms(1) obtain b where b: "view (rl_db l) (IndexToKey i) = Some b" "ec_parse C b = Some e"
    using represents_get [of C "view (rl_db l)" a i e] by (auto simp: log_rel_def)
  from assms(2) i obtain v where "read_req R (rl_db l) (IndexToKey i) ''read Raft log'' = Inr v"
    by (auto simp: Log_Get_def bindE_eq_Inr)
  with assms(2) i b Some read_req_Inr [OF this] show ?thesis
    by (auto simp: Log_Get_def split: if_splits)
qed

lemma Log_Get_ok:
  assumes "log_rel view C l a" and "reads_ok R view (rl_db l)"
  shows "Log_Get R C l i = Inr (al_get a i)"
proof (cases "al_get a i")
  case None
  with assms show ?thesis
    by (auto simp: Log_Get_def log_rel_def fields_rel_def al_get_def split: if_splits)
next
  case (Some e)
  with assms(1) have i: "\<not> (i \<le> rl_snapshot_index l \<or> i > rl_last_index l)"
    by (auto simp: al_get_def log_rel_def fields_rel_def split: if_splits)
  from Some assms(1) obtain b where b: "view (rl_db l) (IndexToKey i) = Some b" "ec_parse C b = Some e"
    using represents_get [of C "view (rl_db l)" a i e] by (auto simp: log_rel_def)
  have "le_index e = i" "0 < le_term e" using al_get_ok [OF _ Some] assms(1) by (auto simp: log_rel_def)
  with i b Some read_req_ok [OF assms(2) b(1)] show ?thesis by (simp add: Log_Get_def)
qed

lemma GetTerm_Inr:
  assumes "log_rel view C l a" and "GetTerm R C l i = Inr t"
  shows "t = al_get_term a i"
  using assms Log_Get_Inr [OF assms(1), of i]
  by (auto simp: GetTerm_def al_get_term_def log_rel_def fields_rel_def bindE_eq_Inr al_get_def split: if_splits)

lemma GetTerm_ok:
  assumes "log_rel view C l a" and "reads_ok R view (rl_db l)"
  shows "GetTerm R C l i = Inr (al_get_term a i)"
  using assms Log_Get_ok [OF assms, of i]
  by (auto simp: GetTerm_def al_get_term_def log_rel_def fields_rel_def al_get_def)

lemma TruncateSuffix_step:
  assumes rel: "log_rel view C l a"
  shows "log_step view C (TruncateSuffix R C start l) a (al_truncate start a)"
proof -
  have a: "alog_ok a" and rep: "represents C (view (rl_db l)) a" and f: "fields_rel l a"
    using rel by (auto simp: log_rel_def)
  consider (low) "start \<le> al_index a" | (high) "start > al_last a" "al_index a < start"
    | (mid) "al_index a < start" "start \<le> al_last a"
    using al_index_bounds [OF a] by linarith
  then show ?thesis
  proof cases
    case low
    then show ?thesis using f log_step_Throw [OF rel] by (simp add: TruncateSuffix_def fields_rel_def)
  next
    case high
    then have "al_truncate start a = a" by (simp add: al_truncate_def al_last_def)
    with high f log_step_refl [OF rel] show ?thesis by (simp add: TruncateSuffix_def fields_rel_def)
  next
    case mid
    let ?t = "al_get_term a (start - 1)"
    let ?get = "if start - 1 = 0 then Inr 0 else GetTerm R C l (start - 1)"
    show ?thesis
    proof (cases ?get)
      case (Inl e)
      then show ?thesis using mid f log_step_Throw [OF rel] by (simp add: TruncateSuffix_def fields_rel_def Let_def)
    next
      case (Inr t)
      then have "t = ?t" using GetTerm_Inr [OF rel, of "start - 1" t] by (auto simp: al_get_term_def split: if_splits)
      with Inr mid f have eq: "TruncateSuffix R C start l =
          log_write R (map (\<lambda>i. DeleteOp (IndexToKey i)) [start .. al_last a] @ [PutTail (start - 1) ?t])
            ''truncate Raft log'' (\<lambda>l. l\<lparr>rl_last_index := start - 1, rl_last_term := ?t\<rparr>) l"
        by (simp add: TruncateSuffix_def fields_rel_def Let_def)
      show ?thesis unfolding eq
        by (rule log_write_step [OF rel represents_truncate [OF rep a mid] al_truncate_facts(1) [OF a mid]])
          (use f al_truncate_facts [OF a mid] in \<open>simp add: fields_rel_def\<close>, simp add: al_truncate_def)
    qed
  qed
qed

end

section \<open>Snapshots, staged installations and the hard state\<close>

definition al_snapshot :: "int \<Rightarrow> int \<Rightarrow> bytes \<Rightarrow> bool \<Rightarrow> alog \<Rightarrow> alog" where
  "al_snapshot index term data keep a =
     a\<lparr>al_index := index, al_term := term, al_data := data,
       al_entries := if keep then drop (nat (index - al_index a)) (al_entries a) else [],
       al_pending := None\<rparr>"

definition snapshot_ok :: "int \<Rightarrow> int \<Rightarrow> bool \<Rightarrow> alog \<Rightarrow> bool" where
  "snapshot_ok index term keep a \<longleftrightarrow>
     al_index a < index \<and> index < INT64_MAX \<and> 0 < term \<and> term \<le> INT32_MAX \<and>
     (keep \<longrightarrow> index \<le> al_last a \<and> al_get_term a index = term)"

definition al_compact :: "int \<Rightarrow> int \<Rightarrow> bytes \<Rightarrow> alog \<Rightarrow> alog" where
  "al_compact index term data a = (if index \<le> al_index a then a else al_snapshot index term data True a)"

definition al_install :: "int \<Rightarrow> int \<Rightarrow> bytes \<Rightarrow> alog \<Rightarrow> alog" where
  "al_install index term data a =
     (if index = al_index a then a
      else al_snapshot index term data (index \<le> al_last a \<and> al_get_term a index = term) a)"

definition al_stage :: "int \<Rightarrow> int \<Rightarrow> bytes \<Rightarrow> alog \<Rightarrow> alog" where
  "al_stage index term data a = a\<lparr>al_pending := Some (index, term, data)\<rparr>"

definition al_save :: "int \<Rightarrow> int \<Rightarrow> alog \<Rightarrow> alog" where
  "al_save term voted_for a = a\<lparr>al_hard := Some (term, voted_for)\<rparr>"

lemma al_snapshot_facts:
  assumes a: "alog_ok a" and ok: "snapshot_ok index term keep a" and d: "length data \<le> kMaxSnapshotBytes"
  shows "alog_ok (al_snapshot index term data keep a)"
    and "al_last (al_snapshot index term data keep a) = (if keep then al_last a else index)"
    and "al_last_term (al_snapshot index term data keep a) = (if keep then al_last_term a else term)"
proof -
  let ?a = "al_snapshot index term data keep a" and ?n = "nat (index - al_index a)"
  note bnd = al_index_bounds [OF a]
  show last: "al_last ?a = (if keep then al_last a else index)"
    using ok by (auto simp: snapshot_ok_def al_last_def al_snapshot_def)
  have n: "?n \<le> length (al_entries a)" "al_index a + int ?n = index" if keep
    using ok that by (auto simp: snapshot_ok_def al_last_def)
  have t: "last (al_term a # map le_term (take ?n (al_entries a))) = term" if keep
    using al_get_term_take [OF a, of index] ok that by (simp add: snapshot_ok_def)
  show "al_last_term ?a = (if keep then al_last_term a else term)"
  proof (cases keep)
    case True
    have "map le_term (al_entries a) = map le_term (take ?n (al_entries a)) @ map le_term (drop ?n (al_entries a))"
      by (simp flip: map_append)
    then have "al_last_term a =
        last ((al_term a # map le_term (take ?n (al_entries a))) @ map le_term (drop ?n (al_entries a)))"
      unfolding al_last_term_def by (simp only: append_Cons)
    also have "\<dots> = last (term # map le_term (drop ?n (al_entries a)))"
      unfolding last_append t [OF True] by simp
    finally show ?thesis using True by (simp add: al_last_term_def al_snapshot_def)
  qed (simp add: al_last_term_def al_snapshot_def)
  have "entries_ok index term (if keep then drop ?n (al_entries a) else [])"
    using entries_ok_drop [of "al_index a" "al_term a" "al_entries a" ?n] a n t
    by (auto simp: alog_ok_def entries_ok_def)
  moreover have "snap_ok index term data"
    using ok d bnd by (auto simp: snapshot_ok_def snap_ok_def)
  ultimately show "alog_ok ?a"
    using a ok last bnd by (simp add: alog_ok_def al_snapshot_def snapshot_ok_def)
qed

lemma represents_snapshot:
  assumes rep: "represents C V a" and a: "alog_ok a" and ok: "snapshot_ok index term keep a"
    and d: "length data \<le> kMaxSnapshotBytes"
  shows "represents C (apply_ops
      ([PutOp SnapshotMetaKey (EncodeTail index term), PutOp SnapshotDataKey data, DeleteOp SnapshotIntentKey,
        PutTail (if keep then al_last a else index) (if keep then al_last_term a else term)] @
       map (\<lambda>i. DeleteOp (IndexToKey i)) [al_index a + 1 .. if keep then index else al_last a]) V)
     (al_snapshot index term data keep a)"
proof -
  let ?a = "al_snapshot index term data keep a" and ?n = "nat (index - al_index a)"
  let ?D = "IndexToKey ` {al_index a + 1 .. if keep then index else al_last a}"
  note bnd = al_index_bounds [OF a] and facts = al_snapshot_facts [OF a ok d]
  have zero: "IndexToKey 0 \<notin> ?D"
    using bnd ok by (intro IndexToKey_notin) (auto simp: snapshot_ok_def)
  have ents: "\<exists>b. (if IndexToKey (index + 1 + int i) \<in> ?D then None else V (IndexToKey (index + 1 + int i))) = Some b \<and>
        ec_parse C b = Some (al_entries ?a ! i)" if i: "i < length (al_entries ?a)" for i
  proof -
    have keep: keep using i by (auto simp: al_snapshot_def split: if_splits)
    have idx: "index + 1 + int i = al_index a + 1 + int (?n + i)" "?n + i < length (al_entries a)"
      using ok keep i by (auto simp: snapshot_ok_def al_snapshot_def)
    then have "index + 1 + int i \<le> INT64_MAX" using bnd unfolding al_last_def by linarith
    then have "IndexToKey (index + 1 + int i) \<notin> ?D"
      using keep bnd ok by (intro IndexToKey_notin) (auto simp: snapshot_ok_def)
    moreover have "al_entries ?a ! i = al_entries a ! (?n + i)" using keep idx(2) by (simp add: al_snapshot_def)
    ultimately show ?thesis using represents_entry [OF rep idx(2)] unfolding idx(1) by simp
  qed
  have names: "SnapshotMetaKey \<notin> ?D" "SnapshotDataKey \<notin> ?D" "SnapshotIntentKey \<notin> ?D" "TailKey \<notin> ?D" by auto
  have "index \<noteq> 0" using ok bnd by (auto simp: snapshot_ok_def)
  have fld: "al_index ?a = index" "al_term ?a = term" "al_data ?a = data" "al_hard ?a = al_hard a" "al_pending ?a = None"
    by (simp_all add: al_snapshot_def)
  have hard: "V (IndexToKey 0) = map_option (\<lambda>(t, v). EncodeHardState t v) (al_hard a)"
    using rep by (simp add: represents_def)
  define Z where "Z = (\<lambda>k. if k \<in> ?D then None else
      (V(SnapshotMetaKey := Some (EncodeTail index term), SnapshotDataKey := Some data, SnapshotIntentKey := None,
         TailKey := Some (EncodeTail (al_last ?a) (al_last_term ?a)))) k)"
  have Z: "Z SnapshotMetaKey = Some (EncodeTail index term)" "Z SnapshotDataKey = Some data"
    "Z TailKey = Some (EncodeTail (al_last ?a) (al_last_term ?a))" "Z SnapshotIntentKey = None"
    "Z (IndexToKey 0) = V (IndexToKey 0)"
    "\<And>i. Z (IndexToKey i) = (if IndexToKey i \<in> ?D then None else V (IndexToKey i))"
    using names zero by (simp_all add: Z_def)
  have "represents C Z ?a"
    unfolding represents_def fld Z(1-5) hard using ents \<open>index \<noteq> 0\<close> by (simp add: Z(6))
  then show ?thesis
    unfolding Z_def facts
    by (simp only: apply_ops_simps apply_op.simps PutTail_def apply_ops_deletes_keys set_upto)
qed

context log_storage
begin

lemma PersistSnapshot_step:
  assumes rel: "log_rel view C l a" and ok: "snapshot_ok index term keep a"
  shows "log_step view C (PersistSnapshot R index term data keep l) a (al_snapshot index term data keep a)"
proof (cases "length data \<le> kMaxSnapshotBytes")
  case False
  then show ?thesis using log_step_Throw [OF rel] by (simp add: PersistSnapshot_def)
next
  case d: True
  have a: "alog_ok a" and rep: "represents C (view (rl_db l)) a" and f: "fields_rel l a"
    using rel by (auto simp: log_rel_def)
  have pos: "\<not> (index \<le> 0 \<or> term \<le> 0 \<or> length data > kMaxSnapshotBytes)"
    using ok d al_index_bounds [OF a] by (auto simp: snapshot_ok_def)
  have eq: "PersistSnapshot R index term data keep l = log_write R
      ([PutOp SnapshotMetaKey (EncodeTail index term), PutOp SnapshotDataKey data, DeleteOp SnapshotIntentKey,
        PutTail (if keep then al_last a else index) (if keep then al_last_term a else term)] @
       map (\<lambda>i. DeleteOp (IndexToKey i)) [al_index a + 1 .. if keep then index else al_last a])
      ''persist Raft snapshot''
      (\<lambda>l. let l = l\<lparr>rl_snapshot_index := index, rl_snapshot_term := term, rl_snapshot_data := data\<rparr>
           in if keep then l else l\<lparr>rl_last_index := index, rl_last_term := term\<rparr>) l"
    using pos f unfolding PersistSnapshot_def fields_rel_def by (simp add: Let_def)
  show ?thesis unfolding eq
    by (rule log_write_step [OF rel represents_snapshot [OF rep a ok d] al_snapshot_facts(1) [OF a ok d]])
      (use f in \<open>simp add: fields_rel_def al_snapshot_facts [OF a ok d] Let_def\<close>, simp add: al_snapshot_def)
qed

lemma CompactApplied_step:
  assumes rel: "log_rel view C l a" and t: "term \<le> INT32_MAX"
  shows "log_step view C (CompactApplied R C index term data l) a (al_compact index term data a)"
proof -
  have a: "alog_ok a" and f: "fields_rel l a" using rel by (auto simp: log_rel_def)
  consider (old) "index \<le> al_index a" | (high) "index > al_last a" "al_index a < index"
    | (mid) "al_index a < index" "index \<le> al_last a"
    using al_index_bounds [OF a] by linarith
  then show ?thesis
  proof cases
    case old
    then show ?thesis using f log_step_refl [OF rel] by (simp add: CompactApplied_def al_compact_def fields_rel_def)
  next
    case high
    then show ?thesis using f log_step_Throw [OF rel] by (simp add: CompactApplied_def fields_rel_def)
  next
    case mid
    show ?thesis
    proof (cases "GetTerm R C l index = Inr term")
      case True
      have "al_get_term a index = term" using GetTerm_Inr [OF rel True] by simp
      moreover from this have "0 < term"
        using mid al_get_ok [OF a, of index] al_index_bounds [OF a]
        by (auto simp: al_get_term_def al_get_def split: if_splits)
      ultimately have "snapshot_ok index term True a"
        using mid t al_index_bounds [OF a] by (simp add: snapshot_ok_def)
      from PersistSnapshot_step [OF rel this] True mid f show ?thesis
        by (simp add: CompactApplied_def al_compact_def fields_rel_def)
    next
      case False
      then show ?thesis using mid f log_step_Throw [OF rel]
        by (cases "GetTerm R C l index") (auto simp: CompactApplied_def fields_rel_def)
    qed
  qed
qed

lemma Log_InstallSnapshot_step:
  assumes rel: "log_rel view C l a" and t: "term \<le> INT32_MAX" and i: "index < INT64_MAX"
  shows "log_step view C (Log_InstallSnapshot R C index term data l) a (al_install index term data a)"
proof -
  have a: "alog_ok a" and f: "fields_rel l a" using rel by (auto simp: log_rel_def)
  let ?keep = "index \<le> al_last a \<and> al_get_term a index = term"
  consider (bad) "index \<le> 0 \<or> term \<le> 0 \<or> index < al_index a"
    | (same) "0 < index" "0 < term" "index = al_index a" | (new) "0 < index" "0 < term" "al_index a < index"
    by linarith
  then show ?thesis
  proof cases
    case bad
    then show ?thesis using f log_step_Throw [OF rel] by (auto simp: Log_InstallSnapshot_def fields_rel_def)
  next
    case same
    then show ?thesis using f log_step_Throw [OF rel] log_step_refl [OF rel]
      by (simp add: Log_InstallSnapshot_def al_install_def fields_rel_def)
  next
    case new
    let ?get = "if index \<le> al_last a then bindE (GetTerm R C l index) (\<lambda>t. Inr (t = term)) else Inr False"
    show ?thesis
    proof (cases ?get)
      case (Inl e)
      then show ?thesis using new f log_step_Throw [OF rel] by (auto simp: Log_InstallSnapshot_def fields_rel_def)
    next
      case (Inr k)
      then have "k = ?keep" using GetTerm_Inr [OF rel, of index] by (auto simp: bindE_eq_Inr split: if_splits)
      moreover have "snapshot_ok index term ?keep a" using new t i by (simp add: snapshot_ok_def)
      ultimately show ?thesis
        using PersistSnapshot_step [OF rel, of index "term" ?keep data] Inr new f
        by (simp add: Log_InstallSnapshot_def al_install_def fields_rel_def)
    qed
  qed
qed

lemma StageSnapshotInstall_step:
  assumes rel: "log_rel view C l a" and i: "index < INT64_MAX"
  shows "log_step view C (StageSnapshotInstall R index term data l) a (al_stage index term data a)"
proof (cases "index \<le> al_index a \<or> term \<le> 0 \<or> term > INT32_MAX \<or> length data > kMaxSnapshotBytes")
  case True
  then show ?thesis using rel log_step_Throw [OF rel] by (auto simp: StageSnapshotInstall_def log_rel_def fields_rel_def)
next
  case arg: False
  have a: "alog_ok a" and rep: "represents C (view (rl_db l)) a" and f: "fields_rel l a"
    using rel by (auto simp: log_rel_def)
  let ?a = "al_stage index term data a"
  show ?thesis
  proof (cases "read_opt R (rl_db l) SnapshotIntentKey ''read pending Raft snapshot before staging'' = Inr None")
    case False
    then show ?thesis using arg f log_step_Throw [OF rel]
      by (cases "read_opt R (rl_db l) SnapshotIntentKey ''read pending Raft snapshot before staging''")
        (auto simp: StageSnapshotInstall_def fields_rel_def)
  next
    case True
    have "al_last ?a = al_last a" "al_last_term ?a = al_last_term a"
      by (simp_all add: al_stage_def al_last_def al_last_term_def)
    then have "represents C (apply_ops
        [PutOp SnapshotIntentKey (EncodeTail index term @ data), PutTail (al_last a) (al_last_term a)] (view (rl_db l))) ?a"
      using rep by (simp add: represents_def PutTail_def al_stage_def)
    moreover have "alog_ok ?a" using a arg i by (auto simp: alog_ok_def al_stage_def al_last_def)
    ultimately have "log_step view C (log_write R
        [PutOp SnapshotIntentKey (EncodeTail index term @ data), PutTail (al_last a) (al_last_term a)]
        ''stage Raft snapshot install'' (\<lambda>l. l) l) a ?a"
      by (rule log_write_step [OF rel]) (use f in \<open>simp add: fields_rel_def al_stage_def al_last_def al_last_term_def\<close>)
    with True arg f show ?thesis by (simp add: StageSnapshotInstall_def fields_rel_def)
  qed
qed

lemma SaveHardState_step:
  assumes rel: "log_rel view C l a" and "term \<le> INT32_MAX" and "voted_for \<le> INT32_MAX"
  shows "log_step view C (SaveHardState R term voted_for l) a (al_save term voted_for a)"
proof (cases "term < 0 \<or> voted_for < - 1")
  case True
  then show ?thesis using log_step_Throw [OF rel] by (simp add: SaveHardState_def)
next
  case False
  have a: "alog_ok a" and rep: "represents C (view (rl_db l)) a" and f: "fields_rel l a"
    using rel by (auto simp: log_rel_def)
  let ?a = "al_save term voted_for a" and ?V = "view (rl_db l)"
  have bnd: "0 \<le> al_index a" "al_last a \<le> INT64_MAX" using al_index_bounds [OF a] by auto
  have "IndexToKey (al_index a + 1 + int i) \<noteq> IndexToKey 0" if "i < length (al_entries a)" for i
    using that bnd by (subst IndexToKey_inject) (auto simp: al_last_def)
  then have rep': "represents C (?V(IndexToKey 0 := Some (EncodeHardState term voted_for))) ?a"
    using rep by (auto simp: represents_def al_save_def al_last_def al_last_term_def)
  have ok': "alog_ok ?a" using a False assms(2,3) by (simp add: alog_ok_def al_save_def al_last_def)
  have f': "fields_rel (l\<lparr>rl_db := d\<rparr>) ?a \<and> fields_rel (l\<lparr>rl_db := d\<rparr>) a" for d
    using f by (simp add: fields_rel_def al_save_def al_last_def al_last_term_def)
  show ?thesis
  proof (cases "put_req R (IndexToKey 0) (EncodeHardState term voted_for) ''persist Raft hard state'' (rl_db l)")
    case (Ok u d)
    with put_req_Ok [OF Ok] False rep' ok' f' show ?thesis
      by (simp add: SaveHardState_def log_step_def log_rel_def)
  next
    case (Throw e d)
    with put_req_Throw [OF Throw] False rep rep' ok' f' show ?thesis
      by (auto simp: SaveHardState_def log_step_def)
  qed
qed

end

section \<open>Opening\<close>

lemma al_get_term_nth:
  assumes "alog_ok a" and "al_index a \<le> i" and "i \<le> al_last a"
  shows "al_get_term a i = (al_term a # map le_term (al_entries a)) ! nat (i - al_index a)"
proof (cases "i = al_index a")
  case True
  with assms(1) show ?thesis by (simp add: al_get_term_def alog_ok_def snap_ok_def split: if_splits)
next
  case False
  define k where "k = nat (i - al_index a - 1)"
  have k: "nat (i - al_index a) = Suc k" "k < length (al_entries a)"
    using False assms(2,3) by (auto simp: k_def al_last_def)
  have "0 \<le> al_index a" using al_index_bounds [OF assms(1)] by simp
  with k False assms show ?thesis by (simp add: al_get_term_def al_get_def k_def [symmetric])
qed

lemma al_get_term_mono:
  assumes "alog_ok a" and "al_index a \<le> i" and "i \<le> j" and "j \<le> al_last a"
  shows "al_get_term a i \<le> al_get_term a j"
proof -
  have "sorted (al_term a # map le_term (al_entries a))" using assms(1) by (simp add: alog_ok_def entries_ok_def)
  then show ?thesis
    using assms al_get_term_nth [OF assms(1), of i] al_get_term_nth [OF assms(1), of j]
    by (auto simp: al_last_def simp del: sorted_wrt.simps intro!: sorted_nth_mono)
qed

lemma al_last_term_bounds:
  assumes "alog_ok a"
  shows "0 \<le> al_last_term a \<and> al_last_term a \<le> INT32_MAX"
proof (cases "al_index a < al_last a")
  case True
  from al_get_last_term [OF True] obtain e where e: "al_get a (al_last a) = Some e" "le_term e = al_last_term a" by blast
  with al_get_ok [OF assms e(1)] show ?thesis by simp
next
  case False
  then have "al_last_term a = al_term a" by (auto simp: al_last_def al_last_term_def)
  with assms show ?thesis by (auto simp: alog_ok_def snap_ok_def split: if_splits)
qed

context log_storage
begin

lemma verify_loop_ok:
  assumes rel: "log_rel view C l a" and rd: "reads_ok R view (rl_db l)" and i: "al_index a < i" "i \<le> al_last a + 1"
  shows "verify_loop R C l [i .. al_last a] (al_get_term a (i - 1)) = Inr ()"
  using i
proof (induction "nat (al_last a + 1 - i)" arbitrary: i)
  case 0
  then show ?case by simp
next
  case (Suc n)
  have a: "alog_ok a" using rel by (simp add: log_rel_def)
  have le: "i \<le> al_last a" using Suc.hyps(2) by simp
  obtain e where e: "al_get a i = Some e" using le Suc.prems by (simp add: al_get_def)
  have "i \<noteq> 0" "i \<noteq> al_index a" using Suc.prems al_index_bounds [OF a] by auto
  then have t: "al_get_term a i = le_term e" using e by (simp add: al_get_term_def)
  have "al_get_term a (i - 1) \<le> al_get_term a i"
    using Suc.prems le by (intro al_get_term_mono [OF a]) auto
  moreover have "verify_loop R C l [i + 1 .. al_last a] (al_get_term a i) = Inr ()"
    using Suc.hyps(1) [of "i + 1"] Suc.hyps(2) Suc.prems le by simp
  moreover have "[i .. al_last a] = i # [i + 1 .. al_last a]" using le by (simp add: upto_rec1)
  ultimately show ?case using Log_Get_ok [OF rel rd, of i] e t by simp
qed

lemma VerifySuffix_ok:
  assumes rel: "log_rel view C l a" and rd: "reads_ok R view (rl_db l)"
  shows "VerifySuffix R C l = Inr ()"
proof -
  have a: "alog_ok a" and f: "fields_rel l a" using rel by (auto simp: log_rel_def)
  have "(if rl_snapshot_index l = 0 then 0 else rl_snapshot_term l) = al_get_term a (al_index a + 1 - 1)"
    using f by (simp add: fields_rel_def al_get_term_def)
  with verify_loop_ok [OF rel rd, of "al_index a + 1"] al_index_bounds [OF a] f show ?thesis
    by (simp add: VerifySuffix_def fields_rel_def)
qed

lemma LoadSnapshot_ok:
  assumes rep: "represents C (view d) a" and a: "alog_ok a" and rd: "reads_ok R view d"
  shows "LoadSnapshot R (new_log d) = Inr ((new_log d)\<lparr>rl_snapshot_index := al_index a,
           rl_snapshot_term := al_term a, rl_snapshot_data := al_data a\<rparr>)"
proof (cases "al_index a = 0")
  case True
  then have "al_term a = 0" "al_data a = []" using a by (auto simp: alog_ok_def snap_ok_def)
  with True rep read_opt_ok [OF rd] show ?thesis
    by (simp add: LoadSnapshot_def new_log_def represents_def)
next
  case False
  have b: "0 < al_index a" "al_index a \<le> INT64_MAX" "0 < al_term a" "al_term a \<le> INT64_MAX"
    "length (al_data a) \<le> kMaxSnapshotBytes"
    using False a al_index_bounds [OF a] by (auto simp: alog_ok_def snap_ok_def)
  have m: "view d SnapshotMetaKey = Some (EncodeTail (al_index a) (al_term a))" "view d SnapshotDataKey = Some (al_data a)"
    using False rep by (auto simp: represents_def)
  have "two_fields (EncodeTail (al_index a) (al_term a)) = (al_index a, al_term a)"
    using two_fields_EncodeTail [of "al_index a" "al_term a" "[]"] b by simp
  with m b read_opt_ok [OF rd] read_req_ok [OF rd m(2)] show ?thesis
    by (simp add: LoadSnapshot_def new_log_def)
qed

lemma LoadTail_ok:
  assumes rep: "represents C (view (rl_db l)) a" and a: "alog_ok a" and rd: "reads_ok R view (rl_db l)"
    and s: "rl_snapshot_index l = al_index a" "rl_snapshot_term l = al_term a" "rl_snapshot_data l = al_data a"
    and tail: "view (rl_db l) TailKey = Some (EncodeTail (al_last a) (al_last_term a))"
  shows "LoadTail R C l = Inr (True, l\<lparr>rl_last_index := al_last a, rl_last_term := al_last_term a\<rparr>)"
proof -
  note bnd = al_index_bounds [OF a]
  let ?l = "l\<lparr>rl_last_index := al_last a, rl_last_term := al_last_term a\<rparr>"
  have rel: "log_rel view C ?l a" using rep a s by (simp add: log_rel_def fields_rel_def)
  have ver: "VerifySuffix R C ?l = Inr ()" by (rule VerifySuffix_ok [OF rel]) (simp add: rd)
  note tb = al_last_term_bounds [OF a]
  have two: "two_fields (EncodeTail (al_last a) (al_last_term a)) = (al_last a, al_last_term a)"
    using two_fields_EncodeTail [of "al_last a" "al_last_term a" "[]"] bnd tb by simp
  have chk: "(if al_last a = 0 then
                (if al_last_term a \<noteq> 0 \<or> rl_snapshot_index l \<noteq> 0
                 then Inl (Runtime_error ''invalid empty Raft log tail'') else Inr ())
              else if al_last a = rl_snapshot_index l then
                (if al_last_term a \<noteq> rl_snapshot_term l
                 then Inl (Runtime_error ''Raft log tail does not match its snapshot'') else Inr ())
              else
                bindE (read_req R (rl_db l) (IndexToKey (al_last a)) ''read Raft log tail entry'') (\<lambda>value.
                  case ec_parse C value of
                    None \<Rightarrow> Inl (Runtime_error ''corrupt Raft log tail entry'')
                  | Some e \<Rightarrow>
                      if le_index e \<noteq> al_last a \<or> le_term e \<noteq> al_last_term a \<or> al_last_term a \<le> 0
                      then Inl (Runtime_error ''corrupt Raft log tail entry'') else Inr ())) = Inr ()"
  proof (cases "al_index a < al_last a")
    case True
    from al_get_last_term [OF True] obtain e where e: "al_get a (al_last a) = Some e" "le_term e = al_last_term a" by blast
    from represents_get [OF rep e(1)] obtain b where
      b: "view (rl_db l) (IndexToKey (al_last a)) = Some b" "ec_parse C b = Some e" by blast
    from al_get_ok [OF a e(1)] read_req_ok [OF rd b(1)] b e True bnd s show ?thesis by simp
  next
    case False
    then have "al_last a = al_index a" "al_last_term a = al_term a"
      using bnd by (auto simp: al_last_def al_last_term_def)
    with s a bnd show ?thesis by (simp add: alog_ok_def snap_ok_def split: if_splits)
  qed
  show ?thesis
    using read_opt_ok [OF rd] tail two chk ver bnd tb s by (simp add: LoadTail_def Let_def)
qed

end

lemma scan_loop_skip: "\<forall>kv\<in>set kvs. fst kv = IndexToKey 0 \<Longrightarrow> scan_loop C kvs l = Inr l"
  by (induction kvs) auto

lemma read_le_EncodeHardState:
  assumes "0 \<le> t" "t \<le> INT32_MAX" "- 1 \<le> v" "v \<le> INT32_MAX"
  shows "uint (read_le (take 4 (EncodeHardState t v)) :: 32 word) = t"
    and "uint (read_le (take 4 (drop 4 (EncodeHardState t v))) :: 32 word) = (if v = - 1 then int UINT32_MAX else v)"
  using assms by (auto simp: EncodeHardState_def uint_word_of_int)

context log_storage
begin

lemma RaftLog_open_ok:
  assumes rep: "represents C (view d) a" and a: "alog_ok a" and op: "opens_ok R view d"
  shows "\<exists>l. RaftLog_open R C d = Ok l (snd (db_open R d)) \<and> rl_db l = snd (db_open R d) \<and> log_rel view C l a"
proof -
  from op obtain d' where o: "db_open R d = (St_ok, d')" and rd: "reads_ok R view d'" and sc: "scans_ok R d'"
    by (auto simp: opens_ok_def)
  have v: "view d' = view d" using o by (rule open_ok)
  have rep': "represents C (view d') a" using rep v by simp
  let ?s = "(new_log d')\<lparr>rl_snapshot_index := al_index a, rl_snapshot_term := al_term a, rl_snapshot_data := al_data a\<rparr>"
  let ?l = "?s\<lparr>rl_last_index := al_index a, rl_last_term := al_term a\<rparr>"
  have db: "rl_db ?l = d'" by (simp add: new_log_def)
  note snap = LoadSnapshot_ok [OF rep' a rd]
  from rep' consider (tail) "view d' TailKey = Some (EncodeTail (al_last a) (al_last_term a))"
    | (none) "view d' TailKey = None" "al_last a = 0" "\<And>k. k \<noteq> IndexToKey 0 \<Longrightarrow> view d' k = None"
    by (auto simp: represents_def)
  then show ?thesis
  proof cases
    case tail
    have t: "LoadTail R C ?l = Inr (True, ?l\<lparr>rl_last_index := al_last a, rl_last_term := al_last_term a\<rparr>)"
      by (rule LoadTail_ok) (use rep' a rd db tail in \<open>simp_all add: new_log_def\<close>)
    with o snap rep' a show ?thesis
      by (simp add: RaftLog_open_def RequireStorageOK_def log_rel_def fields_rel_def new_log_def)
  next
    case none
    have "al_index a = 0 \<and> length (al_entries a) = 0"
      using none(2) al_index_bounds [OF a] unfolding al_last_def by linarith
    then have z: "al_index a = 0" "al_entries a = []" "al_term a = 0"
      using a by (auto simp: alog_ok_def snap_ok_def)
    have t: "LoadTail R C ?l = Inr (False, ?l)"
      using read_opt_ok [OF rd] none(1) by (simp add: LoadTail_def new_log_def)
    from sc obtain kvs where kvs: "db_scan R d' = (St_ok, kvs)" by (cases "db_scan R d'") (auto simp: scans_ok_def)
    with scan_ok have "map_of kvs = view d'" by blast
    with none(3) have "\<forall>kv\<in>set kvs. fst kv = IndexToKey 0"
      by (metis map_of_eq_None_iff image_eqI)
    then have "scan_loop C kvs ?l = Inr ?l" by (rule scan_loop_skip)
    with o snap t kvs z none(2) rep' a show ?thesis
      by (simp add: RaftLog_open_def RequireStorageOK_def log_rel_def fields_rel_def new_log_def al_last_term_def)
  qed
qed

lemma LoadHardState_ok:
  assumes rel: "log_rel view C l a" and rd: "reads_ok R view (rl_db l)"
  shows "al_hard a = Some (t, v) \<Longrightarrow> LoadHardState R l = Inr (True, t, v)"
    and "al_hard a = None \<Longrightarrow> al_last a = 0 \<Longrightarrow> LoadHardState R l = Inr (False, 0, - 1)"
proof -
  have V: "view (rl_db l) (IndexToKey 0) = map_option (\<lambda>(t, v). EncodeHardState t v) (al_hard a)"
    using rel by (auto simp: log_rel_def represents_def)
  {
    assume h: "al_hard a = Some (t, v)"
    then have "db_get R (rl_db l) (IndexToKey 0) = (St_ok, EncodeHardState t v)"
      using rd V by (auto simp: reads_ok_def dest!: spec [of _ "IndexToKey 0"])
    moreover have b: "0 \<le> t" "t \<le> INT32_MAX" "- 1 \<le> v" "v \<le> INT32_MAX"
      using rel h by (auto simp: log_rel_def alog_ok_def)
    moreover have "length (EncodeHardState t v) = 8" by (simp add: EncodeHardState_def)
    ultimately show "LoadHardState R l = Inr (True, t, v)"
      using read_le_EncodeHardState [OF b] by (simp add: LoadHardState_def RequireStorageOK_def)
  next
    assume h: "al_hard a = None" "al_last a = 0"
    then have "IsNotFound (fst (db_get R (rl_db l) (IndexToKey 0)))"
      using rd V by (auto simp: reads_ok_def dest!: spec [of _ "IndexToKey 0"])
    with h rel show "LoadHardState R l = Inr (False, 0, - 1)"
      by (auto simp: LoadHardState_def log_rel_def fields_rel_def split: prod.splits)
  }
qed

lemma LoadPendingSnapshot_ok:
  assumes rel: "log_rel view C l a" and rd: "reads_ok R view (rl_db l)"
  shows "LoadPendingSnapshot R l = Inr (al_pending a)"
proof (cases "al_pending a")
  case None
  with rel read_opt_ok [OF rd] show ?thesis by (simp add: LoadPendingSnapshot_def log_rel_def represents_def)
next
  case (Some p)
  obtain i t d where p: "p = (i, t, d)" by (cases p)
  have b: "al_index a < i" "i < INT64_MAX" "0 < t" "t \<le> INT32_MAX" "length d \<le> kMaxSnapshotBytes" "0 \<le> al_index a"
    using rel Some p by (auto simp: log_rel_def alog_ok_def snap_ok_def)
  then have "two_fields (EncodeTail i t @ d) = (i, t)" by (intro two_fields_EncodeTail) auto
  with Some p rel read_opt_ok [OF rd] b show ?thesis
    by (simp add: LoadPendingSnapshot_def log_rel_def represents_def fields_rel_def)
qed

end

section \<open>All operations\<close>

datatype log_op =
    LAppend "log_entry list"
  | LTruncate int
  | LSave int int
  | LCompact int int bytes
  | LStage int int bytes
  | LInstall int int bytes

fun run_log_op :: "'db rocksdb_ops \<Rightarrow> entry_codec \<Rightarrow> log_op \<Rightarrow> 'db raft_log \<Rightarrow> ('db raft_log, unit) res" where
  "run_log_op R C (LAppend es) l = AppendBatch R C es l"
| "run_log_op R C (LTruncate i) l = TruncateSuffix R C i l"
| "run_log_op R C (LSave t v) l = SaveHardState R t v l"
| "run_log_op R C (LCompact i t d) l = CompactApplied R C i t d l"
| "run_log_op R C (LStage i t d) l = StageSnapshotInstall R i t d l"
| "run_log_op R C (LInstall i t d) l = Log_InstallSnapshot R C i t d l"

fun abs_log_op :: "log_op \<Rightarrow> alog \<Rightarrow> alog" where
  "abs_log_op (LAppend es) a = al_append es a"
| "abs_log_op (LTruncate i) a = al_truncate i a"
| "abs_log_op (LSave t v) a = al_save t v a"
| "abs_log_op (LCompact i t d) a = al_compact i t d a"
| "abs_log_op (LStage i t d) a = al_stage i t d a"
| "abs_log_op (LInstall i t d) a = al_install i t d a"

text \<open>What the callers guarantee: 32-bit terms, terms that do not decrease, an index space not used up.\<close>

fun log_op_ok :: "log_op \<Rightarrow> alog \<Rightarrow> bool" where
  "log_op_ok (LAppend es) a = append_ok es a"
| "log_op_ok (LTruncate i) a = True"
| "log_op_ok (LSave t v) a = (t \<le> INT32_MAX \<and> v \<le> INT32_MAX)"
| "log_op_ok (LCompact i t d) a = (t \<le> INT32_MAX)"
| "log_op_ok (LStage i t d) a = (i < INT64_MAX)"
| "log_op_ok (LInstall i t d) a = (t \<le> INT32_MAX \<and> i < INT64_MAX)"

context log_storage
begin

lemma log_op_step:
  assumes "log_rel view C l a" and "log_op_ok op a"
  shows "log_step view C (run_log_op R C op l) a (abs_log_op op a)"
  using assms
  by (cases op) (simp_all add: AppendBatch_step TruncateSuffix_step SaveHardState_step
      CompactApplied_step StageSnapshotInstall_step Log_InstallSnapshot_step)

end

text \<open>A serialisation of entries, for the concrete runs below.\<close>

definition demo_codec :: entry_codec where
  "demo_codec =
     \<lparr>ec_ser = \<lambda>e. if 0 \<le> le_index e \<and> le_index e \<le> INT64_MAX \<and> 0 \<le> le_term e \<and> le_term e \<le> INT64_MAX
                    then Some (EncodeTail (le_index e) (le_term e) @ le_command e) else None,
      ec_parse = \<lambda>b. if length b < 16 then None
                      else Some \<lparr>le_index = fst (two_fields b), le_term = snd (two_fields b), le_command = drop 16 b\<rparr>\<rparr>"

interpretation memlog: log_storage mem_ops mem_view demo_codec
  by unfold_locales (auto simp: demo_codec_def two_fields_EncodeTail split: if_splits)

text \<open>
  C10. Every operation of the Raft log refines its abstract counterpart: appending concatenates,
  truncating takes a prefix, compaction and installation cut the log at the snapshot and keep the
  suffix only behind a matching entry. An operation that throws leaves the object's view of the log
  unchanged and the database with the log of before or of after, nothing in between.
\<close>

theorem RaftLog_refinement:
  assumes "log_storage R view C" and "log_rel view C l a" and "log_op_ok op a"
  shows "wp (run_log_op R C op l)
           (\<lambda>_ l'. log_rel view C l' (abs_log_op op a))
           (\<lambda>_ l'. fields_rel l' a \<and>
              (represents C (view (rl_db l')) a \<or> represents C (view (rl_db l')) (abs_log_op op a)))"
  using log_storage.log_op_step [OF assms] by (auto simp: log_step_def elim!: wp_mono)

definition demo_alog :: alog where
  "demo_alog = \<lparr>al_index = 0, al_term = 0, al_data = [], al_entries = [], al_hard = None, al_pending = None\<rparr>"

definition demo_entry :: "int \<Rightarrow> int \<Rightarrow> bytes \<Rightarrow> log_entry" where
  "demo_entry i t c = \<lparr>le_index = i, le_term = t, le_command = c\<rparr>"

lemma demo_log_rel: "log_rel mem_view demo_codec (new_log mem_empty) demo_alog"
  by (simp add: log_rel_def alog_ok_def snap_ok_def entries_ok_def represents_def fields_rel_def demo_alog_def
      new_log_def mem_empty_def mem_view_def mem_canon_def al_last_def al_last_term_def)

theorem RaftLog_refinement_witness:
  "log_rel mem_view demo_codec (new_log mem_empty) demo_alog \<and>
   wp (run_log_op mem_ops demo_codec (LAppend [demo_entry 1 1 ''a'', demo_entry 2 1 ''b'']) (new_log mem_empty))
     (\<lambda>_ l'. log_rel mem_view demo_codec l' (demo_alog\<lparr>al_entries := [demo_entry 1 1 ''a'', demo_entry 2 1 ''b'']\<rparr>))
     (\<lambda>_ l'. fields_rel l' demo_alog)"
proof -
  have "log_op_ok (LAppend [demo_entry 1 1 ''a'', demo_entry 2 1 ''b'']) demo_alog"
    by (simp add: append_ok_def demo_alog_def demo_entry_def al_last_def al_last_term_def)
  from RaftLog_refinement [OF memlog.log_storage_axioms demo_log_rel this] demo_log_rel show ?thesis
    by (auto simp: al_append_def demo_alog_def elim!: wp_mono)
qed

text \<open>
  C11. Durability of the Raft log. After any operation, returned or failed, a new process that opens
  the database gets a well-formed log: the one after the operation, or, only if the operation threw,
  possibly the one before it. What an operation acknowledged is never lost and never half there.
\<close>

theorem RaftLog_crash_recovery:
  assumes "log_storage R view C" and "log_rel view C l a" and "log_op_ok op a"
    and "opens_ok R view (rl_db (res_state (run_log_op R C op l)))"
  shows "\<exists>l' d' a'. RaftLog_open R C (rl_db (res_state (run_log_op R C op l))) = Ok l' d' \<and>
           log_rel view C l' a' \<and> (a' = abs_log_op op a \<or> a' = a) \<and>
           ((\<exists>u l1. run_log_op R C op l = Ok u l1) \<longrightarrow> a' = abs_log_op op a)"
proof -
  have step: "log_step view C (run_log_op R C op l) a (abs_log_op op a)"
    by (rule log_storage.log_op_step [OF assms(1-3)])
  let ?d = "rl_db (res_state (run_log_op R C op l))"
  have open_ok: "\<exists>l' d'. RaftLog_open R C ?d = Ok l' d' \<and> log_rel view C l' b"
    if "represents C (view ?d) b" "alog_ok b" for b
    using log_storage.RaftLog_open_ok [OF assms(1) that assms(4)] by blast
  show ?thesis
  proof (cases "run_log_op R C op l")
    case (Ok u l1)
    with step have "represents C (view ?d) (abs_log_op op a)" "alog_ok (abs_log_op op a)"
      by (simp_all add: log_step_def log_rel_def)
    from open_ok [OF this] show ?thesis by blast
  next
    case (Throw e l1)
    with step assms(2) consider "represents C (view ?d) a" "alog_ok a"
      | "represents C (view ?d) (abs_log_op op a)" "alog_ok (abs_log_op op a)"
      by (auto simp: log_step_def log_rel_def)
    then show ?thesis using open_ok Throw by cases (metis res.distinct(1))+
  qed
qed

theorem RaftLog_crash_recovery_witness:
  "\<exists>l' d' a'. RaftLog_open mem_ops demo_codec
       (rl_db (res_state (run_log_op mem_ops demo_codec (LAppend [demo_entry 1 1 ''a'']) (new_log mem_empty)))) = Ok l' d' \<and>
     log_rel mem_view demo_codec l' a' \<and> (a' = demo_alog\<lparr>al_entries := [demo_entry 1 1 ''a'']\<rparr> \<or> a' = demo_alog)"
proof -
  have ok: "log_op_ok (LAppend [demo_entry 1 1 ''a'']) demo_alog"
    by (simp add: append_ok_def demo_alog_def demo_entry_def al_last_def al_last_term_def)
  let ?r = "run_log_op mem_ops demo_codec (LAppend [demo_entry 1 1 ''a'']) (new_log mem_empty)"
  have "\<not> fail_opens (rl_db (res_state ?r)) \<and> \<not> fail_reads (rl_db (res_state ?r)) \<and> \<not> fail_iterators (rl_db (res_state ?r))"
    by (simp add: AppendBatch_def demo_entry_def demo_codec_def new_log_def mem_empty_def log_write_def write_req_def
        mem_defs RequireStorageOK_def)
  then have "opens_ok mem_ops mem_view (rl_db (res_state ?r))" by (intro mem_opens_ok) auto
  from RaftLog_crash_recovery [OF memlog.log_storage_axioms demo_log_rel ok this] show ?thesis
    by (auto simp: al_append_def demo_alog_def)
qed

section \<open>Appending returns\<close>

definition well_indexed :: "log_entry list \<Rightarrow> int \<Rightarrow> bool" where
  "well_indexed es prev \<longleftrightarrow> (\<forall>n<length es. le_index (es ! n) = prev + 1 + int n \<and> 0 < le_term (es ! n))"

lemma append_loop_total:
  assumes "well_indexed es prev" and "prev + int (length es) \<le> INT64_MAX" and "\<forall>e\<in>set es. ec_ser C e \<noteq> None"
  shows "\<exists>b p. append_loop C es prev batch = Inr (b, p)"
  using assms
proof (induction es arbitrary: prev batch)
  case Nil
  then show ?case by simp
next
  case (Cons e es)
  have e: "le_index e = prev + 1" "0 < le_term e" using Cons.prems(1) by (auto simp: well_indexed_def)
  have "well_indexed es (prev + 1)" using Cons.prems(1) by (auto simp: well_indexed_def)
  from Cons.IH [OF this] Cons.prems e show ?case by auto
qed

lemma al_get_append:
  assumes "n < length es"
  shows "al_get (al_append es a) (al_last a + 1 + int n) = Some (es ! n)"
proof -
  have "nat (al_last a + 1 + int n - al_index a - 1) = length (al_entries a) + n" by (simp add: al_last_def)
  with assms show ?thesis by (simp add: al_get_def al_append_def al_last_def nth_append)
qed

lemma al_get_append_old: "i \<le> al_last a \<Longrightarrow> al_get (al_append es a) i = al_get a i"
proof -
  assume "i \<le> al_last a"
  then have "nat (i - al_index a - 1) < length (al_entries a)" if "al_index a < i"
    using that by (simp add: al_last_def)
  with \<open>i \<le> al_last a\<close> show ?thesis by (auto simp: al_get_def al_append_def al_last_def nth_append)
qed

context log_storage
begin

lemma AppendBatch_total:
  assumes rel: "log_rel view C l a" and ok: "append_ok es a" and wi: "well_indexed es (al_last a)"
    and ser: "\<forall>e\<in>set es. ec_ser C e \<noteq> None" and wr: "writes_ok R (rl_db l)"
  shows "\<exists>l'. AppendBatch R C es l = Ok () l' \<and> log_rel view C l' (al_append es a)"
proof -
  have la: "rl_last_index l = al_last a" using rel by (simp add: log_rel_def fields_rel_def)
  have "al_last a + int (length es) \<le> INT64_MAX" using ok by (simp add: append_ok_def)
  from append_loop_total [OF wi this ser, of "[]"] obtain b p
    where "append_loop C es (al_last a) [] = Inr (b, p)" by blast
  moreover from write_req_ok [OF wr] obtain d'
    where "write_req R (b @ [PutTail p (le_term (last es))]) ''append Raft log batch'' (rl_db l) = Ok () d'" by blast
  ultimately have "\<exists>l'. AppendBatch R C es l = Ok () l'"
    using la by (simp add: AppendBatch_def log_write_def)
  then obtain l' where "AppendBatch R C es l = Ok () l'" by blast
  with AppendBatch_step [OF rel ok] show ?thesis by (simp add: log_step_def)
qed

end

text \<open>
  C12. An append returns and is read back. Consecutive entries with positive terms, appended to a log
  whose storage works, are stored; every index of the new log then reads the appended entry, and every
  older index what it read before.
\<close>

theorem AppendBatch_then_Get:
  assumes "log_storage R view C" and "log_rel view C l a" and "append_ok es a"
    and "well_indexed es (al_last a)" and "\<forall>e\<in>set es. ec_ser C e \<noteq> None" and "writes_ok R (rl_db l)"
    and "reads_ok R view (rl_db l)"
  shows "\<exists>l'. AppendBatch R C es l = Ok () l' \<and>
           (reads_ok R view (rl_db l') \<longrightarrow>
             (\<forall>n<length es. Log_Get R C l' (al_last a + 1 + int n) = Inr (Some (es ! n))) \<and>
             (\<forall>i\<le>al_last a. Log_Get R C l' i = Log_Get R C l i))"
proof -
  from log_storage.AppendBatch_total [OF assms(1-6)] obtain l'
    where l': "AppendBatch R C es l = Ok () l'" and rel': "log_rel view C l' (al_append es a)" by blast
  have "reads_ok R view (rl_db l') \<Longrightarrow> Log_Get R C l' i = Inr (al_get (al_append es a) i)"
    "Log_Get R C l i = Inr (al_get a i)" for i
    using log_storage.Log_Get_ok [OF assms(1) rel'] log_storage.Log_Get_ok [OF assms(1,2,7)] by auto
  with l' show ?thesis by (simp add: al_get_append al_get_append_old)
qed

theorem AppendBatch_then_Get_witness:
  "\<exists>l'. AppendBatch mem_ops demo_codec [demo_entry 1 1 ''a''] (new_log mem_empty) = Ok () l' \<and>
     Log_Get mem_ops demo_codec l' 1 = Inr (Some (demo_entry 1 1 ''a''))"
proof -
  have ok: "append_ok [demo_entry 1 1 ''a''] demo_alog" "well_indexed [demo_entry 1 1 ''a''] (al_last demo_alog)"
    "\<forall>e\<in>set [demo_entry 1 1 ''a'']. ec_ser demo_codec e \<noteq> None"
    by (simp_all add: append_ok_def well_indexed_def demo_alog_def demo_entry_def al_last_def al_last_term_def demo_codec_def)
  have io: "writes_ok mem_ops (rl_db (new_log mem_empty))" "reads_ok mem_ops mem_view (rl_db (new_log mem_empty))"
    by (auto simp: new_log_def mem_empty_def intro!: mem_writes_ok mem_reads_ok)
  from AppendBatch_then_Get [OF memlog.log_storage_axioms demo_log_rel ok io] obtain l' where
    l': "AppendBatch mem_ops demo_codec [demo_entry 1 1 ''a''] (new_log mem_empty) = Ok () l'"
    "reads_ok mem_ops mem_view (rl_db l') \<Longrightarrow> Log_Get mem_ops demo_codec l' 1 = Inr (Some (demo_entry 1 1 ''a''))"
    by (auto simp: demo_alog_def al_last_def)
  have "\<not> fail_reads (rl_db l')"
    using l'(1) by (auto simp: AppendBatch_def demo_entry_def demo_codec_def new_log_def mem_empty_def log_write_def
        write_req_def mem_defs RequireStorageOK_def)
  with l' mem_reads_ok show ?thesis by blast
qed

end
