(* ===== verification/KVStore.thy ===== *)
theory KVStore
  imports Storage Namespaces
begin

text \<open>
  The key-value store under the state machine (\<open>src/src/storage/rocksdb_store.cpp\<close>): user keys and
  the \<open>lastApplied\<close> marker in one database, written together.

  \<open>present\<close>, the \<open>unordered_map\<close> that makes deletes see earlier writes of the same batch, is a
  partial map to booleans. The reference is \<open>spec_mutations\<close>, which applies the mutations one by one
  to a map; \<open>ApplyBatch_spec\<close> shows that the batch does exactly that. The callback
  \<open>after_validation\<close> of \<open>ReplaceAll\<close> is a function on a second state, the world it writes to.
\<close>

section \<open>Definitions\<close>

record 'db kv_store =
  ks_db :: 'db
  ks_last_applied :: int

datatype mutation_kind = PutKind | DeleteKind | NoopKind

record mutation =
  mu_index :: int
  mu_kind :: mutation_kind
  mu_key :: bytes
  mu_value :: bytes
  mu_session_key :: bytes
  mu_session_value :: bytes

definition AppliedKey :: bytes where
  "AppliedKey = [NUL] @ ''raftkv:last_applied''"

definition be8 :: "int \<Rightarrow> bytes" where
  "be8 i = be_bytes 8 (word_of_int i :: 64 word)"

definition RocksDBStore_open :: "'db rocksdb_ops \<Rightarrow> 'db \<Rightarrow> exn + 'db kv_store" where
  "RocksDBStore_open R path =
     (case db_open R path of (st, d) \<Rightarrow>
      bindE (RequireStorageOK st ''open KV store'') (\<lambda>_.
      bindE (read_opt R d AppliedKey ''read lastApplied'') (\<lambda>v.
      case v of
        None \<Rightarrow>
          bindE (scan_req R d ''inspect KV store'') (\<lambda>kvs.
            if kvs \<noteq> []
            then Inl (Runtime_error (''legacy KV database has no lastApplied marker; '' @
                        ''preserve it and use a fresh paired KV/log path''))
            else Inr \<lparr>ks_db = d, ks_last_applied = 0\<rparr>)
      | Some value \<Rightarrow>
          if length value \<noteq> 8 then Inl (Runtime_error ''corrupt lastApplied marker'')
          else
            (let index = uint (read_be value :: 64 word) in
             if index > INT64_MAX then Inl (Runtime_error ''invalid lastApplied'')
             else Inr \<lparr>ks_db = d, ks_last_applied = index\<rparr>))))"

definition KV_Get :: "'db rocksdb_ops \<Rightarrow> 'db kv_store \<Rightarrow> bytes \<Rightarrow> exn + bytes option" where
  "KV_Get R s k = read_opt R (ks_db s) k ''read KV''"

fun check_order :: "int \<Rightarrow> mutation list \<Rightarrow> exn + int" where
  "check_order prev [] = Inr prev"
| "check_order prev (m # ms) =
     (if prev = INT64_MAX \<or> mu_index m \<noteq> prev + 1
      then Inl (Runtime_error ''out-of-order state machine application'')
      else check_order (mu_index m) ms)"

fun build_batch ::
  "'db rocksdb_ops \<Rightarrow> 'db kv_store \<Rightarrow> mutation list \<Rightarrow> write_op list \<Rightarrow> (bytes \<Rightarrow> bool option) \<Rightarrow>
   bool list \<Rightarrow> exn + write_op list \<times> bool list" where
  "build_batch R s [] batch present existed = Inr (batch, existed)"
| "build_batch R s (m # ms) batch present existed =
     bindE
       (case mu_kind m of
          PutKind \<Rightarrow>
            Inr (batch @ [PutOp (mu_key m) (mu_value m)], present(mu_key m := Some True), False)
        | DeleteKind \<Rightarrow>
            bindE (case present (mu_key m) of
                     Some b \<Rightarrow> Inr b
                   | None \<Rightarrow> bindE (KV_Get R s (mu_key m)) (\<lambda>v. Inr (v \<noteq> None)))
              (\<lambda>b. Inr (batch @ [DeleteOp (mu_key m)], present(mu_key m := Some False), b))
        | NoopKind \<Rightarrow> Inr (batch, present, False))
       (\<lambda>(batch, present, b).
          if mu_session_key m \<noteq> [] then
            (if mu_session_key m = AppliedKey
             then Inl (Runtime_error ''client session collides with lastApplied'')
             else build_batch R s ms (batch @ [PutOp (mu_session_key m) (mu_session_value m)])
                    (present(mu_session_key m := Some True)) (existed @ [b]))
          else build_batch R s ms batch present (existed @ [b]))"

definition KV_ApplyBatch ::
  "'db rocksdb_ops \<Rightarrow> mutation list \<Rightarrow> 'db kv_store \<Rightarrow> ('db kv_store, bool list) res" where
  "KV_ApplyBatch R mutations s =
     (if mutations = [] then Ok [] s
      else
        bindR (liftR (check_order (ks_last_applied s) mutations) s) (\<lambda>prev s.
        bindR (liftR (build_batch R s mutations [] (\<lambda>_. None) []) s) (\<lambda>(batch, existed) s.
        case write_req R (batch @ [PutOp AppliedKey (be8 prev)]) ''apply KV batch'' (ks_db s) of
          Throw e d \<Rightarrow> Throw e (s\<lparr>ks_db := d\<rparr>)
        | Ok _ d \<Rightarrow> Ok existed (s\<lparr>ks_db := d, ks_last_applied := prev\<rparr>))))"

definition ApplyPut ::
  "'db rocksdb_ops \<Rightarrow> int \<Rightarrow> bytes \<Rightarrow> bytes \<Rightarrow> 'db kv_store \<Rightarrow> ('db kv_store, unit) res" where
  "ApplyPut R index k v s =
     bindR (KV_ApplyBatch R [\<lparr>mu_index = index, mu_kind = PutKind, mu_key = k, mu_value = v,
                              mu_session_key = [], mu_session_value = []\<rparr>] s) (\<lambda>_. Ok ())"

definition ApplyDelete ::
  "'db rocksdb_ops \<Rightarrow> int \<Rightarrow> bytes \<Rightarrow> 'db kv_store \<Rightarrow> ('db kv_store, bool) res" where
  "ApplyDelete R index k s =
     bindR (KV_ApplyBatch R [\<lparr>mu_index = index, mu_kind = DeleteKind, mu_key = k, mu_value = [],
                              mu_session_key = [], mu_session_value = []\<rparr>] s) (\<lambda>ex. Ok (ex ! 0))"

definition ApplyNoop :: "'db rocksdb_ops \<Rightarrow> int \<Rightarrow> 'db kv_store \<Rightarrow> ('db kv_store, unit) res" where
  "ApplyNoop R index s =
     bindR (KV_ApplyBatch R [\<lparr>mu_index = index, mu_kind = NoopKind, mu_key = [], mu_value = [],
                              mu_session_key = [], mu_session_value = []\<rparr>] s) (\<lambda>_. Ok ())"

definition ExportEntries :: "'db rocksdb_ops \<Rightarrow> 'db kv_store \<Rightarrow> exn + (bytes \<times> bytes) list" where
  "ExportEntries R s =
     bindE (scan_req R (ks_db s) ''export KV snapshot'')
       (\<lambda>kvs. Inr (filter (\<lambda>(k, v). k \<noteq> AppliedKey) kvs))"

definition replace_batch ::
  "'db rocksdb_ops \<Rightarrow> int \<Rightarrow> (bytes \<times> bytes) list \<Rightarrow> 'db kv_store \<Rightarrow> exn + write_op list" where
  "replace_batch R index entries s =
     (if index < ks_last_applied s then Inl (Runtime_error ''KV snapshot would move backwards'')
      else
        bindE (scan_req R (ks_db s) ''scan KV snapshot'') (\<lambda>kvs.
          if list_ex (\<lambda>(k, v). k = AppliedKey) entries
          then Inl (Runtime_error ''KV snapshot contains lastApplied'')
          else Inr (map (\<lambda>(k, v). DeleteOp k) (filter (\<lambda>(k, v). k \<noteq> AppliedKey) kvs) @
                    map (\<lambda>(k, v). PutOp k v) entries @ [PutOp AppliedKey (be8 index)])))"

definition ReplaceAll ::
  "'db rocksdb_ops \<Rightarrow> int \<Rightarrow> (bytes \<times> bytes) list \<Rightarrow> ('w \<Rightarrow> ('w, unit) res) \<Rightarrow>
   'db kv_store \<times> 'w \<Rightarrow> ('db kv_store \<times> 'w, unit) res" where
  "ReplaceAll R index entries after_validation sw =
     (case sw of (s, w) \<Rightarrow>
      bindR (liftR (replace_batch R index entries s) (s, w)) (\<lambda>batch _.
      case after_validation w of
        Throw e w \<Rightarrow> Throw e (s, w)
      | Ok _ w \<Rightarrow>
          (case write_req R batch ''install KV snapshot'' (ks_db s) of
             Throw e d \<Rightarrow> Throw e (s\<lparr>ks_db := d\<rparr>, w)
           | Ok _ d \<Rightarrow> Ok () (s\<lparr>ks_db := d, ks_last_applied := index\<rparr>, w))))"

section \<open>The reference: mutations one by one\<close>

definition spec_mutation :: "mutation \<Rightarrow> (bytes \<Rightarrow> bytes option) \<Rightarrow> bool \<times> (bytes \<Rightarrow> bytes option)" where
  "spec_mutation m kv =
     (let (b, kv') =
        (case mu_kind m of
           PutKind \<Rightarrow> (False, kv(mu_key m := Some (mu_value m)))
         | DeleteKind \<Rightarrow> (kv (mu_key m) \<noteq> None, kv(mu_key m := None))
         | NoopKind \<Rightarrow> (False, kv))
      in (b, if mu_session_key m \<noteq> [] then kv'(mu_session_key m := Some (mu_session_value m)) else kv'))"

fun spec_mutations ::
  "mutation list \<Rightarrow> (bytes \<Rightarrow> bytes option) \<Rightarrow> bool list \<times> (bytes \<Rightarrow> bytes option)" where
  "spec_mutations [] kv = ([], kv)"
| "spec_mutations (m # ms) kv =
     (let (b, kv') = spec_mutation m kv; (bs, kv'') = spec_mutations ms kv' in (b # bs, kv''))"

lemma be8_length [simp]: "length (be8 i) = 8"
  by (simp add: be8_def)

lemma be8_read:
  "0 \<le> i \<Longrightarrow> i \<le> INT64_MAX \<Longrightarrow> uint (read_be (be8 i) :: 64 word) = i"
  by (simp add: be8_def sint_bound_uint)

lemma be8_inject:
  assumes "0 \<le> i" "i \<le> INT64_MAX" "0 \<le> j" "j \<le> INT64_MAX"
  shows "be8 i = be8 j \<longleftrightarrow> i = j"
  by (metis assms be8_read)

lemma check_order_Inr:
  "check_order prev ms = Inr n \<longleftrightarrow>
     n = prev + int (length ms) \<and>
     (\<forall>i<length ms. mu_index (ms ! i) = prev + 1 + int i) \<and>
     (\<forall>i<length ms. prev + int i \<noteq> INT64_MAX)"
proof (induction ms arbitrary: prev)
  case Nil
  then show ?case by auto
next
  case (Cons m ms)
  show ?case
  proof (cases "prev = INT64_MAX \<or> mu_index m \<noteq> prev + 1")
    case True
    then show ?thesis by (auto dest: spec [of _ 0])
  next
    case False
    then show ?thesis
      using Cons.IH [of "prev + 1"]
      by (auto simp: less_Suc_eq_0_disj algebra_simps)
  qed
qed

lemma check_order_bound:
  "check_order prev ms = Inr n \<Longrightarrow> prev \<le> INT64_MAX \<Longrightarrow> n \<le> INT64_MAX"
proof (induction ms arbitrary: prev)
  case Nil
  then show ?case by simp
next
  case (Cons m ms)
  then show ?case by (auto split: if_splits)
qed

text \<open>The invariant of the loop: \<open>present\<close> knows the keys the batch has touched.\<close>

definition present_ok ::
  "(bytes \<Rightarrow> bool option) \<Rightarrow> (bytes \<Rightarrow> bytes option) \<Rightarrow> (bytes \<Rightarrow> bytes option) \<Rightarrow> bool" where
  "present_ok present now0 now \<longleftrightarrow>
     (\<forall>k b. present k = Some b \<longrightarrow> b = (now k \<noteq> None)) \<and>
     (\<forall>k. present k = None \<longrightarrow> now k = now0 k)"

lemma present_ok_put:
  "present_ok p m0 m \<Longrightarrow> present_ok (p(k := Some True)) m0 (m(k := Some v))"
  by (auto simp: present_ok_def)

lemma present_ok_del:
  "present_ok p m0 m \<Longrightarrow> present_ok (p(k := Some False)) m0 (m(k := None))"
  by (auto simp: present_ok_def)

lemma present_okD:
  "present_ok p m0 m \<Longrightarrow> (case p k of Some b \<Rightarrow> b | None \<Rightarrow> m0 k \<noteq> None) = (m k \<noteq> None)"
  by (auto simp: present_ok_def split: option.splits)

context rocksdb
begin

lemma delete_lookup:
  assumes "present_ok present (view (ks_db s)) m"
    and "(case present k of Some b \<Rightarrow> Inr b | None \<Rightarrow> bindE (KV_Get R s k) (\<lambda>v. Inr (v \<noteq> None))) = Inr b"
  shows "b = (m k \<noteq> None)"
  using assms(2) present_okD [OF assms(1), of k]
  by (auto simp: KV_Get_def bindE_eq_Inr dest: read_opt_Inr split: option.splits)

lemma build_batch_spec:
  assumes "build_batch R s ms batch present existed = Inr (batch', existed')"
    and "present_ok present (view (ks_db s)) (apply_ops batch (view (ks_db s)))"
  shows "apply_ops batch' (view (ks_db s)) =
           snd (spec_mutations ms (apply_ops batch (view (ks_db s)))) \<and>
         existed' = existed @ fst (spec_mutations ms (apply_ops batch (view (ks_db s))))"
  using assms
proof (induction ms arbitrary: batch present existed)
  case Nil
  then show ?case by simp
next
  case (Cons m ms)
  let ?now = "apply_ops batch (view (ks_db s))"
  define step where "step = (case mu_kind m of
      PutKind \<Rightarrow> Inr (batch @ [PutOp (mu_key m) (mu_value m)], present(mu_key m := Some True), False)
    | DeleteKind \<Rightarrow>
        bindE (case present (mu_key m) of
                 Some b \<Rightarrow> Inr b | None \<Rightarrow> bindE (KV_Get R s (mu_key m)) (\<lambda>v. Inr (v \<noteq> None)))
          (\<lambda>b. Inr (batch @ [DeleteOp (mu_key m)], present(mu_key m := Some False), b))
    | NoopKind \<Rightarrow> Inr (batch, present, False))"
  from Cons.prems(1) obtain b1 p1 ex where step: "step = Inr (b1, p1, ex)"
    by (auto simp: step_def bindE_eq_Inr)
  let ?base = "(case mu_kind m of
           PutKind \<Rightarrow> (False, ?now(mu_key m := Some (mu_value m)))
         | DeleteKind \<Rightarrow> (?now (mu_key m) \<noteq> None, ?now(mu_key m := None))
         | NoopKind \<Rightarrow> (False, ?now))"
  have one: "(ex, apply_ops b1 (view (ks_db s))) = ?base \<and>
             present_ok p1 (view (ks_db s)) (apply_ops b1 (view (ks_db s)))"
    using step Cons.prems(2) delete_lookup [OF Cons.prems(2)]
    by (auto simp: step_def bindE_eq_Inr present_ok_put present_ok_del split: mutation_kind.splits)
  let ?b2 = "if mu_session_key m \<noteq> [] then b1 @ [PutOp (mu_session_key m) (mu_session_value m)] else b1"
  let ?p2 = "if mu_session_key m \<noteq> [] then p1(mu_session_key m := Some True) else p1"
  have rec: "build_batch R s ms ?b2 ?p2 (existed @ [ex]) = Inr (batch', existed')"
    using Cons.prems(1) step by (auto simp: step_def [symmetric] split: if_splits)
  have p2: "present_ok ?p2 (view (ks_db s)) (apply_ops ?b2 (view (ks_db s)))"
    using one by (simp add: present_ok_put)
  have "spec_mutation m ?now = (ex, apply_ops ?b2 (view (ks_db s)))"
    using one [THEN conjunct1, symmetric] by (simp add: spec_mutation_def)
  with Cons.IH [OF rec p2] show ?case
    by (simp add: case_prod_beta Let_def)
qed

lemma ApplyBatch_spec:
  assumes "KV_ApplyBatch R ms s = Ok existed s'" and "ms \<noteq> []"
  shows "view (ks_db s') = (snd (spec_mutations ms (view (ks_db s))))
           (AppliedKey := Some (be8 (ks_last_applied s + int (length ms)))) \<and>
         existed = fst (spec_mutations ms (view (ks_db s))) \<and>
         ks_last_applied s' = ks_last_applied s + int (length ms) \<and>
         (\<forall>i<length ms. mu_index (ms ! i) = ks_last_applied s + 1 + int i) \<and>
         (ks_last_applied s \<le> INT64_MAX \<longrightarrow> ks_last_applied s' \<le> INT64_MAX)"
proof -
  from assms obtain prev batch where
    order: "check_order (ks_last_applied s) ms = Inr prev" and
    build: "build_batch R s ms [] (\<lambda>_. None) [] = Inr (batch, existed)" and
    wr: "\<exists>u d. write_req R (batch @ [PutOp AppliedKey (be8 prev)]) ''apply KV batch'' (ks_db s) = Ok u d \<and>
           s' = s\<lparr>ks_db := d, ks_last_applied := prev\<rparr>"
    by (cases "check_order (ks_last_applied s) ms";
        cases "build_batch R s ms [] (\<lambda>_. None) []")
      (auto simp: KV_ApplyBatch_def split: res.splits)
  from build_batch_spec [OF build] have
    "apply_ops batch (view (ks_db s)) = snd (spec_mutations ms (view (ks_db s)))"
    "existed = fst (spec_mutations ms (view (ks_db s)))"
    by (auto simp: present_ok_def)
  with order wr check_order_bound [OF order] show ?thesis
    by (auto simp: check_order_Inr dest!: write_req_Ok)
qed

text \<open>A failed batch leaves the old contents or, when the error hid a success, all of the new.\<close>

lemma ApplyBatch_atomic:
  assumes "KV_ApplyBatch R ms s = Throw e s'"
  shows "ks_last_applied s' = ks_last_applied s \<and>
         (view (ks_db s') = view (ks_db s) \<or>
          view (ks_db s') = (snd (spec_mutations ms (view (ks_db s))))
            (AppliedKey := Some (be8 (ks_last_applied s + int (length ms)))) \<and>
          (ks_last_applied s \<le> INT64_MAX \<longrightarrow> ks_last_applied s + int (length ms) \<le> INT64_MAX))"
proof (cases "ms = []")
  case True
  with assms show ?thesis by (simp add: KV_ApplyBatch_def)
next
  case ne: False
  show ?thesis
  proof (cases "check_order (ks_last_applied s) ms")
    case (Inl a)
    with assms ne show ?thesis by (simp add: KV_ApplyBatch_def)
  next
    case order: (Inr prev)
    show ?thesis
    proof (cases "build_batch R s ms [] (\<lambda>_. None) []")
      case (Inl a)
      with assms ne order show ?thesis by (simp add: KV_ApplyBatch_def)
    next
      case (Inr be)
      then obtain batch ex where be: "build_batch R s ms [] (\<lambda>_. None) [] = Inr (batch, ex)"
        by (cases be) auto
      from build_batch_spec [OF be]
      have "apply_ops batch (view (ks_db s)) = snd (spec_mutations ms (view (ks_db s)))"
        by (simp add: present_ok_def)
      with assms ne order be show ?thesis
        using check_order_bound [OF order]
        by (auto simp: KV_ApplyBatch_def check_order_Inr split: res.splits dest!: write_req_Throw)
    qed
  qed
qed

end

section \<open>The store invariant and reopening\<close>

definition kv_ok :: "('db \<Rightarrow> bytes \<Rightarrow> bytes option) \<Rightarrow> 'db kv_store \<Rightarrow> bool" where
  "kv_ok view s \<longleftrightarrow>
     0 \<le> ks_last_applied s \<and> ks_last_applied s \<le> INT64_MAX \<and>
     (view (ks_db s) AppliedKey = Some (be8 (ks_last_applied s)) \<or>
      view (ks_db s) = (\<lambda>_. None) \<and> ks_last_applied s = 0)"

context rocksdb
begin

lemma ApplyBatch_kv_ok:
  assumes "KV_ApplyBatch R ms s = Ok existed s'" and "kv_ok view s"
  shows "kv_ok view s'"
proof (cases "ms = []")
  case True
  with assms show ?thesis by (simp add: KV_ApplyBatch_def)
next
  case False
  note spec = ApplyBatch_spec [OF assms(1) False]
  with spec assms(2) show ?thesis by (auto simp: kv_ok_def)
qed

lemma scan_req_empty:
  assumes "scan_req R d op = Inr kvs"
  shows "kvs = [] \<longleftrightarrow> view d = (\<lambda>_. None)"
  using scan_req_Inr [OF assms] map_of_eq_empty_iff [of kvs] by auto

lemma open_kv_ok:
  assumes "RocksDBStore_open R d = Inr s"
  shows "kv_ok view s \<and> view (ks_db s) = view d"
proof -
  obtain st d' where o: "db_open R d = (st, d')" by (cases "db_open R d")
  with assms have "st = St_ok"
    by (cases st) (auto simp: RocksDBStore_open_def RequireStorageOK_def)
  with o have vd: "view d' = view d" by (auto dest: open_ok)
  from assms o obtain v where v: "read_opt R d' AppliedKey ''read lastApplied'' = Inr v"
    by (auto simp: RocksDBStore_open_def bindE_eq_Inr)
  have "kv_ok view s \<and> ks_db s = d'"
  proof (cases v)
    case None
    with assms o v show ?thesis
      by (auto simp: RocksDBStore_open_def bindE_eq_Inr kv_ok_def dest!: scan_req_empty split: if_splits)
  next
    case (Some x)
    with assms o v have "length x = 8" "uint (read_be x :: 64 word) \<le> INT64_MAX"
      "s = \<lparr>ks_db = d', ks_last_applied = uint (read_be x :: 64 word)\<rparr>"
      by (auto simp: RocksDBStore_open_def bindE_eq_Inr Let_def split: if_splits)
    with read_opt_Inr [OF v, symmetric] Some be_bytes_read_be [of x, where ?'a = 64] show ?thesis
      by (simp add: kv_ok_def be8_def)
  qed
  with vd show ?thesis by simp
qed

end

section \<open>Replacing the contents\<close>

lemma apply_ops_deletes:
  "apply_ops (map (\<lambda>(k, v). DeleteOp k) kvs) m = (\<lambda>k. if k \<in> fst ` set kvs then None else m k)"
  by (induction kvs arbitrary: m) (auto simp: fun_eq_iff)

lemma apply_ops_puts:
  "apply_ops (map (\<lambda>(k, v). PutOp k v) kvs) m = m ++ map_of (rev kvs)"
  by (induction kvs arbitrary: m) (auto simp: map_add_def fun_eq_iff split: option.splits)

context rocksdb
begin

lemma replace_batch_view:
  assumes "replace_batch R index entries s = Inr batch"
  shows "apply_ops batch (view (ks_db s)) = (map_of (rev entries))(AppliedKey := Some (be8 index)) \<and>
         ks_last_applied s \<le> index \<and> AppliedKey \<notin> fst ` set entries"
proof -
  from assms obtain kvs where kvs: "scan_req R (ks_db s) ''scan KV snapshot'' = Inr kvs" and
    batch: "batch = map (\<lambda>(k, v). DeleteOp k) (filter (\<lambda>(k, v). k \<noteq> AppliedKey) kvs) @
                    map (\<lambda>(k, v). PutOp k v) entries @ [PutOp AppliedKey (be8 index)]"
    and rest: "ks_last_applied s \<le> index" "\<forall>x\<in>set entries. fst x \<noteq> AppliedKey"
    by (auto simp: replace_batch_def bindE_eq_Inr list_ex_iff case_prod_beta split: if_splits)
  have "map_of kvs = view (ks_db s)" using scan_req_Inr [OF kvs] by simp
  then have dom: "k \<notin> fst ` set kvs \<Longrightarrow> view (ks_db s) k = None" for k
    by (metis map_of_eq_None_iff)
  have "apply_ops batch (view (ks_db s)) k = ((map_of (rev entries))(AppliedKey := Some (be8 index))) k" for k
    using dom [of k]
    by (force simp: batch apply_ops_deletes apply_ops_puts map_add_def image_iff split: option.splits)
  with rest show ?thesis by (auto simp: fun_eq_iff)
qed

lemma ReplaceAll_Ok:
  assumes "ReplaceAll R index entries after (s, w) = Ok u (s', w')"
  shows "view (ks_db s') = (map_of (rev entries))(AppliedKey := Some (be8 index)) \<and>
         ks_last_applied s' = index \<and> ks_last_applied s \<le> index \<and> after w = Ok () w'"
proof -
  from assms obtain batch where b: "replace_batch R index entries s = Inr batch"
    by (cases "replace_batch R index entries s") (auto simp: ReplaceAll_def)
  from assms b replace_batch_view [OF b] show ?thesis
    by (auto simp: ReplaceAll_def split: res.splits dest!: write_req_Ok)
qed

text \<open>
  A failed replacement: the callback has not run, or it failed and the contents are the old ones, or
  it succeeded and the contents are all old or all new.
\<close>

lemma ReplaceAll_Throw:
  assumes "ReplaceAll R index entries after (s, w) = Throw e (s', w')"
  shows "ks_last_applied s' = ks_last_applied s \<and>
         (s' = s \<and> w' = w \<or>
          s' = s \<and> after w = Throw e w' \<or>
          after w = Ok () w' \<and> ks_last_applied s \<le> index \<and>
            (view (ks_db s') = view (ks_db s) \<or>
             view (ks_db s') = (map_of (rev entries))(AppliedKey := Some (be8 index))))"
proof (cases "replace_batch R index entries s")
  case (Inl a)
  with assms show ?thesis by (simp add: ReplaceAll_def)
next
  case (Inr batch)
  with assms replace_batch_view [OF Inr] show ?thesis
    by (auto simp: ReplaceAll_def split: res.splits dest!: write_req_Throw)
qed

lemma ExportEntries_Inr:
  assumes "ExportEntries R s = Inr kvs"
  shows "map_of kvs = (view (ks_db s))(AppliedKey := None) \<and> sorted_keys kvs \<and> distinct (map fst kvs)"
proof -
  from assms obtain all where all: "scan_req R (ks_db s) ''export KV snapshot'' = Inr all"
    and kvs: "kvs = filter (\<lambda>(k, v). k \<noteq> AppliedKey) all"
    by (auto simp: ExportEntries_def bindE_eq_Inr)
  have "map_of kvs = (map_of all)(AppliedKey := None)"
    unfolding kvs by (induction all) (auto simp: fun_eq_iff)
  moreover have "sorted_keys kvs"
    using scan_req_Inr [OF all] unfolding kvs
    by (simp add: sorted_wrt_map sorted_wrt_filter)
  moreover from this have "distinct (map fst kvs)"
    by (simp add: strict_sorted_iff)
  ultimately show ?thesis using scan_req_Inr [OF all] by simp
qed

text \<open>Reopening reads back the marker and the contents.\<close>

lemma reopen:
  assumes "kv_ok view s" and "opens_ok R view (ks_db s)"
  shows "\<exists>d. RocksDBStore_open R (ks_db s) = Inr \<lparr>ks_db = d, ks_last_applied = ks_last_applied s\<rparr> \<and>
             view d = view (ks_db s)"
proof -
  from assms(2) obtain d where d: "db_open R (ks_db s) = (St_ok, d)" "reads_ok R view d" "scans_ok R d"
    by (auto simp: opens_ok_def)
  have vd: "view d = view (ks_db s)" using d(1) by (rule open_ok)
  have read: "read_opt R d AppliedKey op = Inr (view (ks_db s) AppliedKey)" for op
    using read_opt_ok [OF d(2)] vd by simp
  from scan_req_ok [OF d(3), of "''inspect KV store''"] obtain kvs
    where scan: "scan_req R d ''inspect KV store'' = Inr kvs" by blast
  from assms(1) consider "view (ks_db s) AppliedKey = Some (be8 (ks_last_applied s))"
    | "view (ks_db s) = (\<lambda>_. None)" "ks_last_applied s = 0"
    by (auto simp: kv_ok_def)
  then show ?thesis
  proof cases
    case 1
    then show ?thesis
      using assms(1) d vd read be8_read [of "ks_last_applied s"]
      by (simp add: RocksDBStore_open_def RequireStorageOK_def kv_ok_def)
  next
    case 2
    then show ?thesis
      using d read scan scan_req_empty [OF scan] vd
      by (simp add: RocksDBStore_open_def RequireStorageOK_def)
  qed
qed

end

section \<open>Properties\<close>

definition in_order :: "int \<Rightarrow> mutation list \<Rightarrow> bool" where
  "in_order n ms \<longleftrightarrow> n + int (length ms) \<le> INT64_MAX \<and> (\<forall>i<length ms. mu_index (ms ! i) = n + 1 + int i)"

definition no_marker_session :: "mutation list \<Rightarrow> bool" where
  "no_marker_session ms \<longleftrightarrow> list_all (\<lambda>m. mu_session_key m \<noteq> AppliedKey) ms"

lemma check_order_in_order: "in_order n ms \<Longrightarrow> check_order n ms = Inr (n + int (length ms))"
  by (auto simp: in_order_def check_order_Inr)

context rocksdb
begin

lemma build_batch_total:
  assumes "reads_ok R view (ks_db s)" and "no_marker_session ms"
  shows "\<exists>b e. build_batch R s ms batch present existed = Inr (b, e)"
  using assms(2)
proof (induction ms arbitrary: batch present existed)
  case Nil
  then show ?case by simp
next
  case (Cons m ms)
  then have m: "mu_session_key m \<noteq> AppliedKey" "no_marker_session ms"
    by (auto simp: no_marker_session_def)
  have "KV_Get R s k = Inr (view (ks_db s) k)" for k
    using read_opt_ok [OF assms(1)] by (simp add: KV_Get_def)
  then show ?case using Cons.IH [OF m(2)] m(1) by (auto split: mutation_kind.splits option.splits)
qed

lemma ApplyBatch_total:
  assumes "reads_ok R view (ks_db s)" and "writes_ok R (ks_db s)"
    and "no_marker_session ms" and "in_order (ks_last_applied s) ms"
  shows "\<exists>existed s'. KV_ApplyBatch R ms s = Ok existed s'"
proof -
  from build_batch_total [OF assms(1,3)] obtain b e
    where b: "build_batch R s ms [] (\<lambda>_. None) [] = Inr (b, e)" by blast
  with write_req_ok [OF assms(2), of "b @ [PutOp AppliedKey (be8 (ks_last_applied s + int (length ms)))]"
      "''apply KV batch''"] check_order_in_order [OF assms(4)]
  show ?thesis by (auto simp: KV_ApplyBatch_def)
qed

lemma marker_unique:
  assumes "kv_ok view s" and "view (ks_db s) AppliedKey = Some (be8 n)" and "0 \<le> n" "n \<le> INT64_MAX"
  shows "ks_last_applied s = n"
  using assms be8_inject [of n "ks_last_applied s"] by (auto simp: kv_ok_def)

lemma kv_ok_same_view:
  assumes "kv_ok view s" and "kv_ok view t" and "view (ks_db s) = view (ks_db t)"
  shows "ks_last_applied s = ks_last_applied t"
  using assms marker_unique [OF assms(1), of "ks_last_applied t"] by (auto simp: kv_ok_def)

lemma reopen_after_ApplyBatch:
  assumes "kv_ok view s" and "RocksDBStore_open R (ks_db (res_state (KV_ApplyBatch R ms s))) = Inr t"
  shows "(view (ks_db t) = view (ks_db s) \<and> ks_last_applied t = ks_last_applied s) \<or>
         (view (ks_db t) = (snd (spec_mutations ms (view (ks_db s))))
            (AppliedKey := Some (be8 (ks_last_applied s + int (length ms)))) \<and>
          ks_last_applied t = ks_last_applied s + int (length ms))"
proof -
  note t = open_kv_ok [OF assms(2)]
  show ?thesis
  proof (cases "KV_ApplyBatch R ms s")
    case (Ok ex s')
    have "kv_ok view s'" by (rule ApplyBatch_kv_ok [OF Ok assms(1)])
    with t Ok have la: "ks_last_applied t = ks_last_applied s'" "view (ks_db t) = view (ks_db s')"
      using kv_ok_same_view [of t s'] by auto
    show ?thesis
    proof (cases "ms = []")
      case True
      with Ok la show ?thesis by (simp add: KV_ApplyBatch_def)
    next
      case False
      with ApplyBatch_spec [OF Ok False] la show ?thesis by simp
    qed
  next
    case (Throw e s')
    let ?n = "ks_last_applied s + int (length ms)"
    have "0 \<le> ?n" "ks_last_applied s \<le> INT64_MAX" using assms(1) by (auto simp: kv_ok_def)
    moreover have "view (ks_db t) = view (ks_db s')" using t Throw by simp
    ultimately show ?thesis
      using ApplyBatch_atomic [OF Throw] t kv_ok_same_view [of t s] assms(1) marker_unique [of t ?n]
      by fastforce
  qed
qed

lemma spec_mutations_append:
  "spec_mutations (xs @ ys) m =
     (let (a, m') = spec_mutations xs m; (b, m'') = spec_mutations ys m' in (a @ b, m''))"
  by (induction xs arbitrary: m) (auto simp: Let_def split: prod.splits)

lemma spec_mutations_marker:
  assumes "list_all (\<lambda>m. mu_key m \<noteq> AppliedKey) ms" and "no_marker_session ms"
  shows "spec_mutations ms (kv(AppliedKey := v)) =
           (fst (spec_mutations ms kv), (snd (spec_mutations ms kv))(AppliedKey := v))"
  using assms
proof (induction ms arbitrary: kv)
  case Nil
  then show ?case by simp
next
  case (Cons m ms)
  then have m: "mu_key m \<noteq> AppliedKey" "mu_session_key m \<noteq> AppliedKey"
    and ms: "list_all (\<lambda>m. mu_key m \<noteq> AppliedKey) ms" "no_marker_session ms"
    by (auto simp: no_marker_session_def)
  have "spec_mutation m (kv(AppliedKey := v)) =
        (fst (spec_mutation m kv), (snd (spec_mutation m kv))(AppliedKey := v))"
    using m by (auto simp: spec_mutation_def Let_def fun_upd_twist split: mutation_kind.splits)
  then show ?case using Cons.IH [OF ms]
    by (simp add: case_prod_beta Let_def del: fun_upd_apply)
qed

end

text \<open>
  C19. Applying a batch of in-order mutations to a store whose reads and writes succeed returns, and
  the batch means the mutations one after the other: the contents are those of the sequential
  reference plus the new marker, and each delete reports whether its key was there at that point,
  earlier writes of the same batch included.
\<close>

theorem KV_ApplyBatch_sequential:
  assumes "rocksdb R view" and "reads_ok R view (ks_db s)" and "writes_ok R (ks_db s)"
    and "ms \<noteq> []" and "in_order (ks_last_applied s) ms" and "no_marker_session ms"
  shows "\<exists>s'. KV_ApplyBatch R ms s = Ok (fst (spec_mutations ms (view (ks_db s)))) s' \<and>
           ks_last_applied s' = ks_last_applied s + int (length ms) \<and>
           view (ks_db s') = (snd (spec_mutations ms (view (ks_db s))))
             (AppliedKey := Some (be8 (ks_last_applied s + int (length ms))))"
proof -
  from rocksdb.ApplyBatch_total [OF assms(1-3,6,5)] obtain ex s'
    where ok: "KV_ApplyBatch R ms s = Ok ex s'" by blast
  with rocksdb.ApplyBatch_spec [OF assms(1) ok assms(4)] show ?thesis by blast
qed

definition demo_mutation :: "int \<Rightarrow> mutation_kind \<Rightarrow> bytes \<Rightarrow> bytes \<Rightarrow> mutation" where
  "demo_mutation i kind k v = \<lparr>mu_index = i, mu_kind = kind, mu_key = k, mu_value = v,
                               mu_session_key = [], mu_session_value = []\<rparr>"

definition demo_store :: "memdb kv_store" where
  "demo_store = \<lparr>ks_db = mem_empty, ks_last_applied = 0\<rparr>"

lemmas demo_kv_simps = demo_store_def demo_mutation_def in_order_def no_marker_session_def
  mem_empty_def AppliedKey_def less_Suc_eq_0_disj

theorem KV_ApplyBatch_sequential_witness:
  "\<exists>s'. KV_ApplyBatch mem_ops [demo_mutation 1 PutKind ''k'' ''v'', demo_mutation 2 DeleteKind ''k'' []]
          demo_store = Ok [False, True] s' \<and> ks_last_applied s' = 2"
  using KV_ApplyBatch_sequential [of mem_ops mem_view demo_store
      "[demo_mutation 1 PutKind ''k'' ''v'', demo_mutation 2 DeleteKind ''k'' []]",
      OF mem.rocksdb_axioms mem_reads_ok mem_writes_ok]
  by (auto simp: demo_kv_simps spec_mutation_def)

text \<open>
  C8. The application marker survives a crash in any place. Whether the batch was applied, rejected
  or failed in the storage layer, a store opened on what is left either has the old marker and the old
  contents or the new marker and the effect of the whole batch: no entry is lost or applied twice.
\<close>

theorem KV_ApplyBatch_crash_atomic:
  assumes "rocksdb R view" and "kv_ok view s"
    and "RocksDBStore_open R (ks_db (res_state (KV_ApplyBatch R ms s))) = Inr t"
  shows "(view (ks_db t) = view (ks_db s) \<and> ks_last_applied t = ks_last_applied s) \<or>
         (view (ks_db t) = (snd (spec_mutations ms (view (ks_db s))))
            (AppliedKey := Some (be8 (ks_last_applied s + int (length ms)))) \<and>
          ks_last_applied t = ks_last_applied s + int (length ms))"
  by (rule rocksdb.reopen_after_ApplyBatch [OF assms])

definition demo_faulty :: "memdb kv_store" where
  "demo_faulty = \<lparr>ks_db = mem_empty\<lparr>fail_writes := True\<rparr>, ks_last_applied = 0\<rparr>"

theorem KV_ApplyBatch_crash_atomic_witness:
  "\<exists>e. KV_ApplyBatch mem_ops [demo_mutation 1 PutKind ''k'' ''v''] demo_faulty = Throw e demo_faulty \<and>
     RocksDBStore_open mem_ops (ks_db demo_faulty) = Inr demo_faulty \<and>
     (ks_last_applied demo_faulty = 0 \<or> ks_last_applied demo_faulty = 1)"
proof -
  have t: "KV_ApplyBatch mem_ops [demo_mutation 1 PutKind ''k'' ''v''] demo_faulty =
        Throw (Runtime_error (''apply KV batch: '' @ ''injected I/O failure'')) demo_faulty"
    by (simp add: KV_ApplyBatch_def demo_faulty_def demo_kv_simps write_req_def mem_defs
        RequireStorageOK_def)
  have o: "RocksDBStore_open mem_ops (ks_db demo_faulty) = Inr demo_faulty"
    by (simp add: RocksDBStore_open_def demo_faulty_def demo_kv_simps mem_defs mem_canon_def
        RequireStorageOK_def read_opt_def scan_req_def)
  have ok: "kv_ok mem_view demo_faulty"
    by (simp add: kv_ok_def demo_faulty_def demo_kv_simps mem_view_def mem_canon_def)
  show ?thesis
    using KV_ApplyBatch_crash_atomic [OF mem.rocksdb_axioms ok,
        of "[demo_mutation 1 PutKind ''k'' ''v'']" demo_faulty] t o
    by (auto simp: demo_faulty_def)
qed

end
