(* ===== verification/KVStateMachine.thy ===== *)
theory KVStateMachine
  imports KVStore Commands
begin

text \<open>
  The replicated state machine (\<open>src/src/raft/kv_state_machine.cc\<close>): committed commands become
  mutations of the store, client sessions make retries harmless, and the contents travel as snapshots.

  The locals of \<open>ApplyBatch\<close> (\<open>mutations\<close>, \<open>replies\<close>, \<open>present\<close>, \<open>sessions\<close>, \<open>index\<close>) are
  the record \<open>apply_acc\<close>; its lambdas \<open>key_present\<close> and \<open>session_for\<close> are functions on it. The
  abstract machine \<open>spec_step\<close> executes one decoded command on a data map and a session map, and the
  refinement says that a batch, with its two overlays and its late delete replies, is a run of it.
  Snapshot offsets are \<open>size_t\<close> and lengths \<open>uint32_t\<close>, with the wrap-around of the length check.
\<close>

section \<open>Definitions\<close>

definition AppendU32 :: "bytes \<Rightarrow> 32 word \<Rightarrow> bytes" where
  "AppendU32 out v = out @ be_bytes 4 v"

definition ClientSessionKey :: "bytes \<Rightarrow> bytes" where
  "ClientSessionKey client_id = [NUL] @ ''raftkv:client:'' @ client_id"

definition EncodeSession :: "64 word \<Rightarrow> bytes \<Rightarrow> bytes" where
  "EncodeSession request_id reply = be_bytes 8 request_id @ reply"

record session_record =
  sr_request_id :: "64 word"
  sr_reply :: bytes

record apply_acc =
  aa_index :: int
  aa_mutations :: "mutation list"
  aa_replies :: "bytes list"
  aa_present :: "bytes \<Rightarrow> bool option"
  aa_sessions :: "bytes \<Rightarrow> session_record option"

abbreviation reply_ok :: bytes where "reply_ok \<equiv> ''+OK'' @ CRLF"
abbreviation reply_one :: bytes where "reply_one \<equiv> '':1'' @ CRLF"
abbreviation reply_zero :: bytes where "reply_zero \<equiv> '':0'' @ CRLF"
abbreviation reply_stale :: bytes where "reply_stale \<equiv> ''-ERR stale request'' @ CRLF"

definition key_present :: "'db rocksdb_ops \<Rightarrow> 'db kv_store \<Rightarrow> bytes \<Rightarrow> apply_acc \<Rightarrow> exn + bool" where
  "key_present R s k acc =
     (case aa_present acc k of
        Some b \<Rightarrow> Inr b
      | None \<Rightarrow> bindE (KV_Get R s k) (\<lambda>v. Inr (v \<noteq> None)))"

definition session_for ::
  "'db rocksdb_ops \<Rightarrow> 'db kv_store \<Rightarrow> bytes \<Rightarrow> apply_acc \<Rightarrow> exn + session_record \<times> apply_acc" where
  "session_for R s client_id acc =
     (case aa_sessions acc client_id of
        Some r \<Rightarrow> Inr (r, acc)
      | None \<Rightarrow>
          bindE (KV_Get R s (ClientSessionKey client_id)) (\<lambda>v.
          bindE (case v of
                   None \<Rightarrow> Inr \<lparr>sr_request_id = 0, sr_reply = []\<rparr>
                 | Some raw \<Rightarrow>
                     if length raw < 8 then Inl (Runtime_error ''corrupt client session'')
                     else Inr \<lparr>sr_request_id = read_be (take 8 raw), sr_reply = drop 8 raw\<rparr>)
            (\<lambda>r. Inr (r, acc\<lparr>aa_sessions := (aa_sessions acc)(client_id := Some r)\<rparr>))))"

definition noop_at :: "int \<Rightarrow> mutation" where
  "noop_at i = \<lparr>mu_index = i, mu_kind = NoopKind, mu_key = [], mu_value = [],
                mu_session_key = [], mu_session_value = []\<rparr>"

definition apply_idempotent ::
  "'db rocksdb_ops \<Rightarrow> 'db kv_store \<Rightarrow> bytes list \<Rightarrow> mutation \<Rightarrow> apply_acc \<Rightarrow>
   exn + mutation \<times> bytes \<times> apply_acc" where
  "apply_idempotent R s parts m acc =
     (let c = ParseIdempotentCommand parts in
      if \<not> ic_valid c then Inl (Runtime_error ''unsupported command in committed Raft log'')
      else
        bindE (session_for R s (ic_client_id c) acc) (\<lambda>(record, acc).
        bindE
          (if ic_request_id c < sr_request_id record then Inr (m, reply_stale)
           else if ic_request_id c = sr_request_id record then Inr (m, sr_reply record)
           else if ic_op c = ''SET''
             then Inr (m\<lparr>mu_kind := PutKind, mu_key := ic_key c, mu_value := ic_value c\<rparr>, reply_ok)
           else bindE (key_present R s (ic_key c) acc) (\<lambda>b.
                  Inr (m\<lparr>mu_kind := DeleteKind, mu_key := ic_key c\<rparr>, if b then reply_one else reply_zero)))
          (\<lambda>(m, reply).
             if ic_request_id c > sr_request_id record then
               (let record = \<lparr>sr_request_id = ic_request_id c, sr_reply = reply\<rparr> in
                Inr (m\<lparr>mu_session_key := ClientSessionKey (ic_client_id c),
                       mu_session_value := EncodeSession (sr_request_id record) (sr_reply record)\<rparr>,
                     reply, acc\<lparr>aa_sessions := (aa_sessions acc)(ic_client_id c := Some record)\<rparr>))
             else Inr (m, reply, acc))))"

definition translate_command ::
  "'db rocksdb_ops \<Rightarrow> 'db kv_store \<Rightarrow> bytes \<Rightarrow> apply_acc \<Rightarrow> exn + mutation \<times> bytes \<times> apply_acc" where
  "translate_command R s command acc =
     (let m = noop_at (aa_index acc) in
      if command = [] then Inr (m, reply_ok, acc)
      else
        (let parsed = TryParseOne command in
         if pr_state parsed \<noteq> Complete \<or> pr_consumed parsed \<noteq> length command
           then Inl (Runtime_error ''invalid command in committed Raft log'')
         else
           (let parts = pr_args parsed; op = UpperCommand (parts ! 0) in
            if op = ''SET'' \<and> length parts = 3
              then Inr (m\<lparr>mu_kind := PutKind, mu_key := parts ! 1, mu_value := parts ! 2\<rparr>, reply_ok, acc)
            else if op = ''DEL'' \<and> length parts = 2
              then Inr (m\<lparr>mu_kind := DeleteKind, mu_key := parts ! 1\<rparr>, reply_ok, acc)
            else if op = ''IDEMP'' then apply_idempotent R s parts m acc
            else Inl (Runtime_error ''unsupported command in committed Raft log''))))"

definition track :: "mutation \<Rightarrow> apply_acc \<Rightarrow> apply_acc" where
  "track m acc = (case mu_kind m of
                    PutKind \<Rightarrow> acc\<lparr>aa_present := (aa_present acc)(mu_key m := Some True)\<rparr>
                  | DeleteKind \<Rightarrow> acc\<lparr>aa_present := (aa_present acc)(mu_key m := Some False)\<rparr>
                  | NoopKind \<Rightarrow> acc)"

definition staged_reply :: "mutation \<Rightarrow> bytes \<Rightarrow> bytes" where
  "staged_reply m reply = (if mu_kind m = DeleteKind \<and> reply = reply_ok then [] else reply)"

definition apply_command ::
  "'db rocksdb_ops \<Rightarrow> 'db kv_store \<Rightarrow> bytes \<Rightarrow> apply_acc \<Rightarrow> exn + apply_acc" where
  "apply_command R s command acc =
     bindE
       (if aa_mutations acc \<noteq> [] then
          (if aa_index acc = INT64_MAX then Inl (Runtime_error ''state machine index overflow'')
           else Inr (acc\<lparr>aa_index := aa_index acc + 1\<rparr>))
        else Inr acc) (\<lambda>acc.
     bindE (translate_command R s command acc) (\<lambda>(m, reply, acc).
       (let acc = track m acc in
        Inr (acc\<lparr>aa_mutations := aa_mutations acc @ [m],
                 aa_replies := aa_replies acc @ [staged_reply m reply]\<rparr>))))"

fun apply_commands ::
  "'db rocksdb_ops \<Rightarrow> 'db kv_store \<Rightarrow> bytes list \<Rightarrow> apply_acc \<Rightarrow> exn + apply_acc" where
  "apply_commands R s [] acc = Inr acc"
| "apply_commands R s (c # cs) acc = bindE (apply_command R s c acc) (apply_commands R s cs)"

fun fill_replies :: "bytes list \<Rightarrow> bool list \<Rightarrow> bytes list" where
  "fill_replies (r # rs) (b # bs) =
     (if r \<noteq> [] then r else if b then reply_one else reply_zero) # fill_replies rs bs"
| "fill_replies rs bs = []"

definition new_acc :: "int \<Rightarrow> apply_acc" where
  "new_acc first_index = \<lparr>aa_index = first_index, aa_mutations = [], aa_replies = [],
                          aa_present = \<lambda>_. None, aa_sessions = \<lambda>_. None\<rparr>"

definition ApplyBatch ::
  "'db rocksdb_ops \<Rightarrow> int \<Rightarrow> bytes list \<Rightarrow> 'db kv_store \<Rightarrow> ('db kv_store, bytes list) res" where
  "ApplyBatch R first_index commands s =
     bindR (liftR (apply_commands R s commands (new_acc first_index)) s) (\<lambda>acc s.
     bindR (KV_ApplyBatch R (aa_mutations acc) s) (\<lambda>existed.
       Ok (fill_replies (aa_replies acc) existed)))"

definition Apply :: "'db rocksdb_ops \<Rightarrow> int \<Rightarrow> bytes \<Rightarrow> 'db kv_store \<Rightarrow> ('db kv_store, bytes) res" where
  "Apply R index command s = bindR (ApplyBatch R index [command] s) (\<lambda>replies. Ok (replies ! 0))"

section \<open>Snapshots\<close>

definition snapshot_entry :: "bytes \<times> bytes \<Rightarrow> bytes \<Rightarrow> exn + bytes" where
  "snapshot_entry e out =
     (if length (fst e) > UINT32_MAX \<or> length (snd e) > UINT32_MAX
      then Inl (Runtime_error ''KV snapshot entry too large'')
      else Inr (AppendU32 (AppendU32 out (word_of_nat (length (fst e))) @ fst e)
                  (word_of_nat (length (snd e))) @ snd e))"

fun snapshot_entries :: "(bytes \<times> bytes) list \<Rightarrow> bytes \<Rightarrow> exn + bytes" where
  "snapshot_entries [] out = Inr out"
| "snapshot_entries (e # es) out = bindE (snapshot_entry e out) (snapshot_entries es)"

definition ExportSnapshot :: "'db rocksdb_ops \<Rightarrow> 'db kv_store \<Rightarrow> exn + bytes" where
  "ExportSnapshot R s =
     bindE (ExportEntries R s) (\<lambda>entries.
       if length entries > UINT32_MAX then Inl (Runtime_error ''KV snapshot has too many keys'')
       else snapshot_entries entries (AppendU32 [] (word_of_nat (length entries))))"

text \<open>
  Reading four bytes through \<open>data() + offset\<close>: the terminating NUL may be read, nothing behind it.
  \<open>size_sub\<close> is the subtraction of \<open>size_t\<close>.
\<close>

definition ReadU32_at :: "bytes \<Rightarrow> nat \<Rightarrow> exn + 32 word" where
  "ReadU32_at bytes offset =
     (if offset + 3 > length bytes then Inl (Undefined_behaviour ''read past the end of the snapshot'')
      else Inr (read_be (take 4 (drop offset (bytes @ [NUL])))))"

definition size_sub :: "nat \<Rightarrow> nat \<Rightarrow> nat" where
  "size_sub a b = (if b \<le> a then a - b else a + 2 ^ 64 - b)"

definition substr_at :: "bytes \<Rightarrow> nat \<Rightarrow> nat \<Rightarrow> exn + bytes" where
  "substr_at bytes pos n =
     (if pos > length bytes then Inl (Out_of_range ''basic_string::substr'') else Inr (substr bytes pos n))"

fun read_entries :: "nat \<Rightarrow> bytes \<Rightarrow> nat \<Rightarrow> (bytes \<times> bytes) list \<Rightarrow> exn + (bytes \<times> bytes) list \<times> nat" where
  "read_entries 0 bytes offset entries = Inr (entries, offset)"
| "read_entries (Suc n) bytes offset entries =
     (if size_sub (length bytes) offset < 4 then Inl (Runtime_error ''truncated KV snapshot'')
      else bindE (ReadU32_at bytes offset) (\<lambda>key_len.
        (let offset = offset + 4 in
         if size_sub (length bytes) offset < unat (key_len + 4)
           then Inl (Runtime_error ''truncated KV snapshot'')
         else bindE (substr_at bytes offset (unat key_len)) (\<lambda>key.
           (let offset = offset + unat key_len in
            bindE (ReadU32_at bytes offset) (\<lambda>value_len.
              (let offset = offset + 4 in
               if size_sub (length bytes) offset < unat value_len
                 then Inl (Runtime_error ''truncated KV snapshot'')
               else bindE (substr_at bytes offset (unat value_len)) (\<lambda>v.
                 read_entries n bytes (offset + unat value_len) (entries @ [(key, v)])))))))))"

definition decode_snapshot :: "bytes \<Rightarrow> exn + (bytes \<times> bytes) list" where
  "decode_snapshot bytes =
     (if length bytes < 4 then Inl (Runtime_error ''truncated KV snapshot'')
      else bindE (ReadU32_at bytes 0) (\<lambda>count.
        bindE (read_entries (unat count) bytes 4 []) (\<lambda>(entries, offset).
          if offset \<noteq> length bytes then Inl (Runtime_error ''KV snapshot has trailing bytes'')
          else Inr entries)))"

definition InstallSnapshot ::
  "'db rocksdb_ops \<Rightarrow> int \<Rightarrow> bytes \<Rightarrow> ('w \<Rightarrow> ('w, unit) res) \<Rightarrow>
   'db kv_store \<times> 'w \<Rightarrow> ('db kv_store \<times> 'w, unit) res" where
  "InstallSnapshot R index bytes after_validation sw =
     bindR (liftR (decode_snapshot bytes) sw) (\<lambda>entries. ReplaceAll R index entries after_validation)"

section \<open>The abstract machine\<close>

datatype kv_cmd =
    CNoop
  | CSet bytes bytes
  | CDel bytes
  | CIdemSet bytes "64 word" bytes bytes
  | CIdemDel bytes "64 word" bytes

record kv_state =
  kv_data :: "bytes \<Rightarrow> bytes option"
  kv_sessions :: "bytes \<Rightarrow> session_record option"

definition decode_args :: "bytes list \<Rightarrow> kv_cmd option" where
  "decode_args parts =
     (let op = UpperCommand (parts ! 0); c = ParseIdempotentCommand parts in
      if op = ''SET'' \<and> length parts = 3 then Some (CSet (parts ! 1) (parts ! 2))
      else if op = ''DEL'' \<and> length parts = 2 then Some (CDel (parts ! 1))
      else if op = ''IDEMP'' \<and> ic_valid c then
        Some (if ic_op c = ''SET''
              then CIdemSet (ic_client_id c) (ic_request_id c) (ic_key c) (ic_value c)
              else CIdemDel (ic_client_id c) (ic_request_id c) (ic_key c))
      else None)"

definition decode_command :: "bytes \<Rightarrow> kv_cmd option" where
  "decode_command command =
     (if command = [] then Some CNoop
      else
        (let parsed = TryParseOne command in
         if pr_state parsed \<noteq> Complete \<or> pr_consumed parsed \<noteq> length command then None
         else decode_args (pr_args parsed)))"

fun cmd_key_ok :: "kv_cmd \<Rightarrow> bool" where
  "cmd_key_ok CNoop = True"
| "cmd_key_ok (CSet k v) = user_key k"
| "cmd_key_ok (CDel k) = user_key k"
| "cmd_key_ok (CIdemSet cid rid k v) = user_key k"
| "cmd_key_ok (CIdemDel cid rid k) = user_key k"

definition del_reply :: "(bytes \<Rightarrow> bytes option) \<Rightarrow> bytes \<Rightarrow> bytes" where
  "del_reply m k = (if m k \<noteq> None then reply_one else reply_zero)"

definition current_session :: "kv_state \<Rightarrow> bytes \<Rightarrow> session_record" where
  "current_session a cid = (case kv_sessions a cid of None \<Rightarrow> \<lparr>sr_request_id = 0, sr_reply = []\<rparr> | Some r \<Rightarrow> r)"

definition once :: "bytes \<Rightarrow> 64 word \<Rightarrow> bytes \<times> (bytes \<Rightarrow> bytes option) \<Rightarrow> kv_state \<Rightarrow> bytes \<times> kv_state" where
  "once cid rid effect a =
     (let r = current_session a cid in
      if rid < sr_request_id r then (reply_stale, a)
      else if rid = sr_request_id r then (sr_reply r, a)
      else (fst effect, a\<lparr>kv_data := snd effect,
              kv_sessions := (kv_sessions a)(cid := Some \<lparr>sr_request_id = rid, sr_reply = fst effect\<rparr>)\<rparr>))"

fun spec_step :: "kv_cmd \<Rightarrow> kv_state \<Rightarrow> bytes \<times> kv_state" where
  "spec_step CNoop a = (reply_ok, a)"
| "spec_step (CSet k v) a = (reply_ok, a\<lparr>kv_data := (kv_data a)(k := Some v)\<rparr>)"
| "spec_step (CDel k) a = (del_reply (kv_data a) k, a\<lparr>kv_data := (kv_data a)(k := None)\<rparr>)"
| "spec_step (CIdemSet cid rid k v) a = once cid rid (reply_ok, (kv_data a)(k := Some v)) a"
| "spec_step (CIdemDel cid rid k) a =
     once cid rid (del_reply (kv_data a) k, (kv_data a)(k := None)) a"

fun spec_run :: "kv_cmd list \<Rightarrow> kv_state \<Rightarrow> bytes list \<times> kv_state" where
  "spec_run [] a = ([], a)"
| "spec_run (c # cs) a =
     (let (r, a') = spec_step c a; (rs, a'') = spec_run cs a' in (r # rs, a''))"

definition decode_session :: "bytes \<Rightarrow> session_record" where
  "decode_session raw = \<lparr>sr_request_id = read_be (take 8 raw), sr_reply = drop 8 raw\<rparr>"

definition abs_state :: "(bytes \<Rightarrow> bytes option) \<Rightarrow> kv_state" where
  "abs_state m = \<lparr>kv_data = \<lambda>k. if user_key k then m k else None,
                  kv_sessions = \<lambda>cid. map_option decode_session (m (ClientSessionKey cid))\<rparr>"

definition sessions_ok :: "(bytes \<Rightarrow> bytes option) \<Rightarrow> bool" where
  "sessions_ok m \<longleftrightarrow> (\<forall>cid raw. m (ClientSessionKey cid) = Some raw \<longrightarrow> length raw > 8)"

section \<open>Keys of the program and keys of clients\<close>

lemma ClientSessionKey_inject [simp]: "ClientSessionKey a = ClientSessionKey b \<longleftrightarrow> a = b"
  by (simp add: ClientSessionKey_def)

lemma ClientSessionKey_AppliedKey [simp]:
  "ClientSessionKey a \<noteq> AppliedKey" "AppliedKey \<noteq> ClientSessionKey a"
  by (simp_all add: ClientSessionKey_def AppliedKey_def)

lemma ClientSessionKey_not_empty [simp]: "ClientSessionKey a \<noteq> []"
  by (simp add: ClientSessionKey_def)

lemma AppliedKey_not_empty [simp]: "AppliedKey \<noteq> []" "[] \<noteq> AppliedKey"
  by (simp_all add: AppliedKey_def)

lemma user_key_distinct [simp]:
  "\<not> user_key (ClientSessionKey a)" "\<not> user_key AppliedKey" "\<not> user_key []"
  by (simp_all add: ClientSessionKey_def AppliedKey_def user_key_def)

lemma user_key_neq:
  "user_key k \<Longrightarrow> k \<noteq> ClientSessionKey a" "user_key k \<Longrightarrow> k \<noteq> AppliedKey"
  by auto

lemma decode_EncodeSession [simp]:
  "decode_session (EncodeSession rid reply) = \<lparr>sr_request_id = rid, sr_reply = reply\<rparr>"
  by (simp add: decode_session_def EncodeSession_def)

lemma abs_state_user:
  "user_key k \<Longrightarrow> abs_state (m(k := x)) = (abs_state m)\<lparr>kv_data := (kv_data (abs_state m))(k := x)\<rparr>"
  by (auto simp: abs_state_def fun_eq_iff)

lemma abs_state_session:
  "abs_state (m(ClientSessionKey cid := Some (EncodeSession rid reply))) =
   (abs_state m)\<lparr>kv_sessions := (kv_sessions (abs_state m))(cid := Some \<lparr>sr_request_id = rid, sr_reply = reply\<rparr>)\<rparr>"
  by (auto simp: abs_state_def fun_eq_iff)

lemma abs_state_marker [simp]: "abs_state (m(AppliedKey := x)) = abs_state m"
  by (auto simp: abs_state_def fun_eq_iff)

lemma sessions_ok_user: "user_key k \<Longrightarrow> sessions_ok (m(k := x)) = sessions_ok m"
  by (auto simp: sessions_ok_def)

lemma sessions_ok_marker [simp]: "sessions_ok (m(AppliedKey := x)) = sessions_ok m"
  by (auto simp: sessions_ok_def)

lemma sessions_ok_session:
  "sessions_ok m \<Longrightarrow> reply \<noteq> [] \<Longrightarrow> sessions_ok (m(ClientSessionKey cid := Some (EncodeSession rid reply)))"
  by (auto simp: sessions_ok_def EncodeSession_def)

section \<open>The overlays of a batch\<close>

definition overlay :: "(bytes \<Rightarrow> bytes option) \<Rightarrow> (bytes \<Rightarrow> bytes option) \<Rightarrow> apply_acc \<Rightarrow> bool" where
  "overlay m0 m acc \<longleftrightarrow>
     (\<forall>k b. user_key k \<longrightarrow> aa_present acc k = Some b \<longrightarrow> b = (m k \<noteq> None)) \<and>
     (\<forall>k. user_key k \<longrightarrow> aa_present acc k = None \<longrightarrow> m k = m0 k) \<and>
     (\<forall>cid r. aa_sessions acc cid = Some r \<longrightarrow> r = current_session (abs_state m) cid) \<and>
     (\<forall>cid. aa_sessions acc cid = None \<longrightarrow> m (ClientSessionKey cid) = m0 (ClientSessionKey cid)) \<and>
     sessions_ok m"

lemma current_session_user: "user_key k \<Longrightarrow> current_session (abs_state (m(k := x))) = current_session (abs_state m)"
  by (simp add: current_session_def abs_state_user fun_eq_iff)

lemma overlay_put:
  "overlay m0 m acc \<Longrightarrow> user_key k \<Longrightarrow>
     overlay m0 (m(k := Some v)) (acc\<lparr>aa_present := (aa_present acc)(k := Some True)\<rparr>)"
  by (auto simp: overlay_def sessions_ok_user current_session_user)

lemma overlay_del:
  "overlay m0 m acc \<Longrightarrow> user_key k \<Longrightarrow>
     overlay m0 (m(k := None)) (acc\<lparr>aa_present := (aa_present acc)(k := Some False)\<rparr>)"
  by (auto simp: overlay_def sessions_ok_user current_session_user)

lemma overlay_session:
  assumes "overlay m0 m acc" and "reply \<noteq> []"
  shows "overlay m0 (m(ClientSessionKey cid := Some (EncodeSession rid reply)))
           (acc\<lparr>aa_sessions := (aa_sessions acc)(cid := Some \<lparr>sr_request_id = rid, sr_reply = reply\<rparr>)\<rparr>)"
  using assms
  by (auto simp: overlay_def sessions_ok_session abs_state_session current_session_def user_key_neq)

lemma overlay_other:
  "overlay m0 m acc \<Longrightarrow> overlay m0 m (acc\<lparr>aa_index := i\<rparr>)"
  "overlay m0 m acc \<Longrightarrow> overlay m0 m (acc\<lparr>aa_mutations := ms, aa_replies := rs\<rparr>)"
  by (auto simp: overlay_def)

lemma overlay_swap:
  "overlay m0 m (acc\<lparr>aa_sessions := f, aa_present := g\<rparr>) =
   overlay m0 m (acc\<lparr>aa_present := g, aa_sessions := f\<rparr>)"
  by (simp add: overlay_def)

context rocksdb
begin

lemma key_present_overlay:
  assumes "overlay (view (ks_db s)) m acc" and "reads_ok R view (ks_db s)" and "user_key k"
  shows "key_present R s k acc = Inr (m k \<noteq> None)"
proof -
  have "KV_Get R s k = Inr (view (ks_db s) k)"
    using read_opt_ok [OF assms(2)] by (simp add: KV_Get_def)
  then show ?thesis
    using assms(1,3) by (auto simp: key_present_def overlay_def split: option.splits)
qed

lemma session_for_overlay:
  assumes "overlay (view (ks_db s)) m acc" and "reads_ok R view (ks_db s)"
  shows "\<exists>f. session_for R s cid acc = Inr (current_session (abs_state m) cid, acc\<lparr>aa_sessions := f\<rparr>) \<and>
             overlay (view (ks_db s)) m (acc\<lparr>aa_sessions := f\<rparr>)"
proof (cases "aa_sessions acc cid")
  case (Some r)
  moreover have "acc = acc\<lparr>aa_sessions := aa_sessions acc\<rparr>" by simp
  ultimately show ?thesis
    using assms(1) by (auto simp: session_for_def overlay_def intro!: exI [of _ "aa_sessions acc"])
next
  case None
  let ?r = "current_session (abs_state m) cid"
  have get: "KV_Get R s (ClientSessionKey cid) = Inr (m (ClientSessionKey cid))"
    using read_opt_ok [OF assms(2)] None assms(1) by (simp add: KV_Get_def overlay_def)
  have "session_for R s cid acc = Inr (?r, acc\<lparr>aa_sessions := (aa_sessions acc)(cid := Some ?r)\<rparr>)"
  proof (cases "m (ClientSessionKey cid)")
    case None
    with get \<open>aa_sessions acc cid = None\<close> show ?thesis
      by (simp add: session_for_def current_session_def abs_state_def)
  next
    case (Some raw)
    moreover from this assms(1) have "8 < length raw" by (auto simp: overlay_def sessions_ok_def)
    ultimately show ?thesis using get \<open>aa_sessions acc cid = None\<close>
      by (simp add: session_for_def current_session_def abs_state_def decode_session_def)
  qed
  moreover have "overlay (view (ks_db s)) m (acc\<lparr>aa_sessions := (aa_sessions acc)(cid := Some ?r)\<rparr>)"
    using assms(1) by (auto simp: overlay_def)
  ultimately show ?thesis by blast
qed

end

section \<open>One command\<close>

definition final_reply :: "bytes \<Rightarrow> bool \<Rightarrow> bytes" where
  "final_reply r b = (if r \<noteq> [] then r else if b then reply_one else reply_zero)"

text \<open>What a translated command must satisfy to implement a step of the abstract machine.\<close>

definition implements ::
  "(bytes \<Rightarrow> bytes option) \<Rightarrow> (bytes \<Rightarrow> bytes option) \<Rightarrow> int \<Rightarrow> kv_cmd \<Rightarrow> mutation \<Rightarrow> bytes \<Rightarrow> apply_acc \<Rightarrow> bool" where
  "implements m0 m i cmd mu reply acc \<longleftrightarrow>
     mu_index mu = i \<and> mu_session_key mu \<noteq> AppliedKey \<and>
     overlay m0 (snd (spec_mutation mu m)) (track mu acc) \<and>
     abs_state (snd (spec_mutation mu m)) = snd (spec_step cmd (abs_state m)) \<and>
     final_reply (staged_reply mu reply) (fst (spec_mutation mu m)) = fst (spec_step cmd (abs_state m))"

lemmas implements_simps = implements_def spec_mutation_def track_def staged_reply_def final_reply_def noop_at_def

lemma track_fields [simp]:
  "aa_index (track m acc) = aa_index acc" "aa_mutations (track m acc) = aa_mutations acc"
  "aa_replies (track m acc) = aa_replies acc"
  by (auto simp: track_def split: mutation_kind.splits)

lemma kv_data_abs: "user_key k \<Longrightarrow> kv_data (abs_state m) k = m k"
  by (simp add: abs_state_def)

lemma implements_noop: "overlay m0 m acc \<Longrightarrow> implements m0 m i CNoop (noop_at i) reply_ok acc"
  by (simp add: implements_simps)

lemma implements_set:
  "overlay m0 m acc \<Longrightarrow> user_key k \<Longrightarrow>
     implements m0 m i (CSet k v) ((noop_at i)\<lparr>mu_kind := PutKind, mu_key := k, mu_value := v\<rparr>) reply_ok acc"
  by (simp add: implements_simps overlay_put abs_state_user)

lemma implements_del:
  "overlay m0 m acc \<Longrightarrow> user_key k \<Longrightarrow>
     implements m0 m i (CDel k) ((noop_at i)\<lparr>mu_kind := DeleteKind, mu_key := k\<rparr>) reply_ok acc"
  by (simp add: implements_simps overlay_del abs_state_user del_reply_def kv_data_abs)

text \<open>A retry: the request id is not newer than the stored one.\<close>

lemma implements_retry:
  assumes "overlay m0 m acc" and "\<not> sr_request_id (current_session (abs_state m) cid) < rid" and "rid \<noteq> 0"
    and cmd: "cmd = CIdemSet cid rid k v \<or> cmd = CIdemDel cid rid k"
  shows "implements m0 m i cmd (noop_at i)
           (if rid < sr_request_id (current_session (abs_state m) cid) then reply_stale
            else sr_reply (current_session (abs_state m) cid)) acc"
proof -
  let ?r = "current_session (abs_state m) cid"
  have "sr_reply ?r \<noteq> []" if "rid = sr_request_id ?r"
  proof -
    from that assms(3) obtain raw where "m (ClientSessionKey cid) = Some raw"
      by (cases "m (ClientSessionKey cid)") (auto simp: current_session_def abs_state_def)
    moreover from this assms(1) have "8 < length raw" by (auto simp: overlay_def sessions_ok_def)
    ultimately show ?thesis by (simp add: current_session_def abs_state_def decode_session_def)
  qed
  with assms(1,2) cmd show ?thesis by (auto simp: implements_simps once_def Let_def)
qed

lemma implements_fresh_set:
  assumes "overlay m0 m acc" and "sr_request_id (current_session (abs_state m) cid) < rid" and "user_key k"
  shows "implements m0 m i (CIdemSet cid rid k v)
           ((noop_at i)\<lparr>mu_kind := PutKind, mu_key := k, mu_value := v,
              mu_session_key := ClientSessionKey cid, mu_session_value := EncodeSession rid reply_ok\<rparr>)
           reply_ok
           (acc\<lparr>aa_sessions := (aa_sessions acc)(cid := Some \<lparr>sr_request_id = rid, sr_reply = reply_ok\<rparr>)\<rparr>)"
  using assms overlay_session [OF overlay_put [OF assms(1,3), of v], of reply_ok cid rid]
  by (auto simp: implements_simps once_def Let_def abs_state_session abs_state_user overlay_swap)

lemma implements_fresh_del:
  assumes "overlay m0 m acc" and "sr_request_id (current_session (abs_state m) cid) < rid" and "user_key k"
    and r: "r = (if m k \<noteq> None then reply_one else reply_zero)"
  shows "implements m0 m i (CIdemDel cid rid k)
           ((noop_at i)\<lparr>mu_kind := DeleteKind, mu_key := k,
              mu_session_key := ClientSessionKey cid, mu_session_value := EncodeSession rid r\<rparr>) r
           (acc\<lparr>aa_sessions := (aa_sessions acc)(cid := Some \<lparr>sr_request_id = rid, sr_reply = r\<rparr>)\<rparr>)"
  using assms(1-3) overlay_session [OF overlay_del [OF assms(1,3)], of r cid rid]
  by (auto simp: implements_simps once_def Let_def abs_state_session abs_state_user overlay_swap
      del_reply_def kv_data_abs r)

context rocksdb
begin

lemma apply_idempotent_implements:
  assumes ov: "overlay (view (ks_db s)) m acc" and rd: "reads_ok R view (ks_db s)"
    and valid: "ic_valid (ParseIdempotentCommand parts)"
    and cmd: "cmd = (let c = ParseIdempotentCommand parts in
                if ic_op c = ''SET'' then CIdemSet (ic_client_id c) (ic_request_id c) (ic_key c) (ic_value c)
                else CIdemDel (ic_client_id c) (ic_request_id c) (ic_key c))"
    and key: "cmd_key_ok cmd"
  shows "\<exists>mu reply f. apply_idempotent R s parts (noop_at i) acc = Inr (mu, reply, acc\<lparr>aa_sessions := f\<rparr>) \<and>
           implements (view (ks_db s)) m i cmd mu reply (acc\<lparr>aa_sessions := f\<rparr>)"
proof -
  define c where "c = ParseIdempotentCommand parts"
  let ?r = "current_session (abs_state m) (ic_client_id c)"
  have uk: "user_key (ic_key c)" using key cmd by (auto simp: c_def Let_def split: if_splits)
  have rid: "ic_request_id c \<noteq> 0" using ParseIdempotentCommand_valid [OF valid] by (simp add: c_def)
  from session_for_overlay [OF ov rd, of "ic_client_id c"] obtain f
    where sf: "session_for R s (ic_client_id c) acc = Inr (?r, acc\<lparr>aa_sessions := f\<rparr>)"
      and ov': "overlay (view (ks_db s)) m (acc\<lparr>aa_sessions := f\<rparr>)" by blast
  note kp = key_present_overlay [OF ov' rd uk]
  consider (old) "\<not> sr_request_id ?r < ic_request_id c"
    | (set) "sr_request_id ?r < ic_request_id c" "ic_op c = ''SET''"
    | (del) "sr_request_id ?r < ic_request_id c" "ic_op c \<noteq> ''SET''" by blast
  then show ?thesis
  proof cases
    case old
    have "cmd = CIdemSet (ic_client_id c) (ic_request_id c) (ic_key c) (ic_value c) \<or>
          cmd = CIdemDel (ic_client_id c) (ic_request_id c) (ic_key c)"
      using cmd by (auto simp: c_def Let_def)
    from implements_retry [OF ov' old rid this, of i] show ?thesis
      using old sf valid unfolding apply_idempotent_def c_def [symmetric] Let_def
      by (intro exI [of _ "noop_at i"]) (auto split: if_splits)
  next
    case set
    have "cmd = CIdemSet (ic_client_id c) (ic_request_id c) (ic_key c) (ic_value c)"
      using cmd set by (simp add: c_def Let_def)
    with implements_fresh_set [OF ov' set(1) uk, of i "ic_value c"] show ?thesis
      using set sf valid unfolding apply_idempotent_def c_def [symmetric] Let_def by auto
  next
    case del
    have "cmd = CIdemDel (ic_client_id c) (ic_request_id c) (ic_key c)"
      using cmd del by (simp add: c_def Let_def)
    with implements_fresh_del [OF ov' del(1) uk refl, of i] show ?thesis
      using del sf kp valid unfolding apply_idempotent_def c_def [symmetric] Let_def by auto
  qed
qed

lemma translate_implements:
  assumes ov: "overlay (view (ks_db s)) m acc" and rd: "reads_ok R view (ks_db s)"
    and dec: "decode_command c = Some cmd" and key: "cmd_key_ok cmd"
  shows "\<exists>mu reply f. translate_command R s c acc = Inr (mu, reply, acc\<lparr>aa_sessions := f\<rparr>) \<and>
           implements (view (ks_db s)) m (aa_index acc) cmd mu reply (acc\<lparr>aa_sessions := f\<rparr>)"
proof -
  define parts where "parts = pr_args (TryParseOne c)"
  let ?id = "ParseIdempotentCommand parts"
  have plain: ?thesis if "translate_command R s c acc = Inr (mu, reply, acc)"
    "implements (view (ks_db s)) m (aa_index acc) cmd mu reply acc" for mu reply
    using that by (intro exI [of _ mu] exI [of _ reply] exI [of _ "aa_sessions acc"]) simp
  from dec consider (empty) "c = []" "cmd = CNoop"
    | (set) "c \<noteq> []" "pr_state (TryParseOne c) = Complete" "pr_consumed (TryParseOne c) = length c"
        "UpperCommand (parts ! 0) = ''SET''" "length parts = 3" "cmd = CSet (parts ! 1) (parts ! 2)"
    | (del) "c \<noteq> []" "pr_state (TryParseOne c) = Complete" "pr_consumed (TryParseOne c) = length c"
        "UpperCommand (parts ! 0) = ''DEL''" "length parts = 2" "cmd = CDel (parts ! 1)"
    | (idem) "c \<noteq> []" "pr_state (TryParseOne c) = Complete" "pr_consumed (TryParseOne c) = length c"
        "UpperCommand (parts ! 0) = ''IDEMP''" "ic_valid ?id"
        "cmd = (let c = ?id in
                if ic_op c = ''SET'' then CIdemSet (ic_client_id c) (ic_request_id c) (ic_key c) (ic_value c)
                else CIdemDel (ic_client_id c) (ic_request_id c) (ic_key c))"
    by (auto simp: decode_command_def decode_args_def Let_def parts_def split: if_splits)
  then show ?thesis
  proof cases
    case empty
    with implements_noop [OF ov] show ?thesis by (intro plain) (auto simp: translate_command_def Let_def)
  next
    case set
    with key implements_set [OF ov, of "parts ! 1"] show ?thesis
      by (intro plain) (auto simp: translate_command_def Let_def parts_def [symmetric])
  next
    case del
    with key implements_del [OF ov, of "parts ! 1"] show ?thesis
      by (intro plain) (auto simp: translate_command_def Let_def parts_def [symmetric])
  next
    case idem
    then show ?thesis
      using apply_idempotent_implements [OF ov rd idem(5,6) key]
      by (auto simp: translate_command_def Let_def parts_def [symmetric])
  qed
qed

lemma apply_command_implements:
  assumes ov: "overlay (view (ks_db s)) m acc" and rd: "reads_ok R view (ks_db s)"
    and dec: "decode_command c = Some cmd" and key: "cmd_key_ok cmd"
    and ix: "aa_mutations acc = [] \<or> aa_index acc < INT64_MAX"
  shows "\<exists>mu r acc'. apply_command R s c acc = Inr acc' \<and>
           aa_mutations acc' = aa_mutations acc @ [mu] \<and> aa_replies acc' = aa_replies acc @ [r] \<and>
           aa_index acc' = (if aa_mutations acc = [] then aa_index acc else aa_index acc + 1) \<and>
           mu_index mu = aa_index acc' \<and> mu_session_key mu \<noteq> AppliedKey \<and>
           overlay (view (ks_db s)) (snd (spec_mutation mu m)) acc' \<and>
           abs_state (snd (spec_mutation mu m)) = snd (spec_step cmd (abs_state m)) \<and>
           final_reply r (fst (spec_mutation mu m)) = fst (spec_step cmd (abs_state m))"
proof -
  define acc1 where "acc1 = acc\<lparr>aa_index := if aa_mutations acc = [] then aa_index acc else aa_index acc + 1\<rparr>"
  have ov1: "overlay (view (ks_db s)) m acc1" using ov by (simp add: acc1_def overlay_other)
  from translate_implements [OF ov1 rd dec key] obtain mu reply f
    where tr: "translate_command R s c acc1 = Inr (mu, reply, acc1\<lparr>aa_sessions := f\<rparr>)"
      and im: "implements (view (ks_db s)) m (aa_index acc1) cmd mu reply (acc1\<lparr>aa_sessions := f\<rparr>)" by blast
  let ?t = "track mu (acc1\<lparr>aa_sessions := f\<rparr>)"
  have "(if aa_mutations acc \<noteq> [] then
          (if aa_index acc = INT64_MAX then Inl (Runtime_error ''state machine index overflow'')
           else Inr (acc\<lparr>aa_index := aa_index acc + 1\<rparr>))
        else Inr acc) = Inr acc1" using ix by (auto simp: acc1_def)
  then have "apply_command R s c acc = Inr (?t\<lparr>aa_mutations := aa_mutations acc @ [mu],
      aa_replies := aa_replies acc @ [staged_reply mu reply]\<rparr>)"
    using tr by (simp add: apply_command_def Let_def acc1_def)
  with im overlay_other(2) show ?thesis
    by (auto simp: implements_def acc1_def)
qed

end

section \<open>A batch is a run\<close>

definition next_index :: "apply_acc \<Rightarrow> int" where
  "next_index acc = (if aa_mutations acc = [] then aa_index acc else aa_index acc + 1)"

declare fill_replies.simps(1) [simp del]

lemma fill_replies_Cons [simp]:
  "fill_replies (r # rs) (b # bs) = final_reply r b # fill_replies rs bs"
  by (simp add: fill_replies.simps(1) final_reply_def)

lemma length_spec_mutations [simp]: "length (fst (spec_mutations ms m)) = length ms"
  by (induction ms arbitrary: m) (auto simp: Let_def case_prod_beta)

text \<open>The decoded commands of a batch, all on client keys.\<close>

definition client_batch :: "bytes list \<Rightarrow> kv_cmd list \<Rightarrow> bool" where
  "client_batch cs cmds \<longleftrightarrow> map decode_command cs = map Some cmds \<and> list_all cmd_key_ok cmds"

context rocksdb
begin

lemma apply_commands_run:
  assumes rd: "reads_ok R view (ks_db s)"
    and "overlay (view (ks_db s)) m acc" and "client_batch cs cmds"
    and "next_index acc + int (length cs) \<le> INT64_MAX + 1"
  shows "\<exists>acc' ms rs. apply_commands R s cs acc = Inr acc' \<and>
           aa_mutations acc' = aa_mutations acc @ ms \<and> aa_replies acc' = aa_replies acc @ rs \<and>
           length ms = length cs \<and> length rs = length cs \<and> no_marker_session ms \<and>
           (\<forall>i<length ms. mu_index (ms ! i) = next_index acc + int i) \<and>
           abs_state (snd (spec_mutations ms m)) = snd (spec_run cmds (abs_state m)) \<and>
           fill_replies rs (fst (spec_mutations ms m)) = fst (spec_run cmds (abs_state m)) \<and>
           sessions_ok (snd (spec_mutations ms m))"
  using assms(2-)
proof (induction cs arbitrary: cmds m acc)
  case Nil
  then show ?case by (auto simp: client_batch_def overlay_def no_marker_session_def)
next
  case (Cons c cs)
  then obtain cmd cmds' where cmds: "cmds = cmd # cmds'" "decode_command c = Some cmd" "cmd_key_ok cmd"
    "client_batch cs cmds'" by (cases cmds) (auto simp: client_batch_def)
  have "aa_mutations acc = [] \<or> aa_index acc < INT64_MAX"
    using Cons.prems(3) by (auto simp: next_index_def split: if_splits)
  from apply_command_implements [OF Cons.prems(1) rd cmds(2,3) this]
  obtain mu r acc1 where one: "apply_command R s c acc = Inr acc1"
    "aa_mutations acc1 = aa_mutations acc @ [mu]" "aa_replies acc1 = aa_replies acc @ [r]"
    "aa_index acc1 = next_index acc" "mu_index mu = aa_index acc1" "mu_session_key mu \<noteq> AppliedKey"
    "overlay (view (ks_db s)) (snd (spec_mutation mu m)) acc1"
    "abs_state (snd (spec_mutation mu m)) = snd (spec_step cmd (abs_state m))"
    "final_reply r (fst (spec_mutation mu m)) = fst (spec_step cmd (abs_state m))"
    unfolding next_index_def by blast
  have nx: "next_index acc1 = next_index acc + 1" using one(2,4) by (simp add: next_index_def)
  with Cons.prems(3) have "next_index acc1 + int (length cs) \<le> INT64_MAX + 1" by simp
  from Cons.IH [OF one(7) cmds(4) this] obtain acc' ms rs where rest:
    "apply_commands R s cs acc1 = Inr acc'" "aa_mutations acc' = aa_mutations acc1 @ ms"
    "aa_replies acc' = aa_replies acc1 @ rs" "length ms = length cs" "length rs = length cs"
    "no_marker_session ms" "\<forall>i<length ms. mu_index (ms ! i) = next_index acc1 + int i"
    "abs_state (snd (spec_mutations ms (snd (spec_mutation mu m)))) =
       snd (spec_run cmds' (snd (spec_step cmd (abs_state m))))"
    "fill_replies rs (fst (spec_mutations ms (snd (spec_mutation mu m)))) =
       fst (spec_run cmds' (snd (spec_step cmd (abs_state m))))"
    "sessions_ok (snd (spec_mutations ms (snd (spec_mutation mu m))))"
    unfolding one(8) by blast
  have "\<forall>i<length (mu # ms). mu_index ((mu # ms) ! i) = next_index acc + int i"
    using rest(7) one(4,5) nx by (auto simp: less_Suc_eq_0_disj)
  moreover have "no_marker_session (mu # ms)" using one(6) rest(6) by (simp add: no_marker_session_def)
  ultimately show ?case
    using one rest cmds(1)
    by (intro exI [of _ acc'] exI [of _ "mu # ms"] exI [of _ "r # rs"]) (simp add: Let_def case_prod_beta)
qed

lemma ApplyBatch_refines:
  assumes rd: "reads_ok R view (ks_db s)" and wr: "writes_ok R (ks_db s)"
    and ses: "sessions_ok (view (ks_db s))" and cb: "client_batch cs cmds"
    and first: "first = ks_last_applied s + 1"
    and bound: "ks_last_applied s + int (length cs) \<le> INT64_MAX"
  shows "\<exists>s'. ApplyBatch R first cs s = Ok (fst (spec_run cmds (abs_state (view (ks_db s))))) s' \<and>
           abs_state (view (ks_db s')) = snd (spec_run cmds (abs_state (view (ks_db s)))) \<and>
           sessions_ok (view (ks_db s')) \<and>
           ks_last_applied s' = ks_last_applied s + int (length cs)"
proof -
  have "overlay (view (ks_db s)) (view (ks_db s)) (new_acc first)"
    using ses by (simp add: overlay_def new_acc_def)
  from apply_commands_run [OF rd this cb] first bound obtain acc ms rs where run:
    "apply_commands R s cs (new_acc first) = Inr acc"
    "aa_mutations acc = ms" "aa_replies acc = rs" "length ms = length cs" "length rs = length cs"
    "no_marker_session ms" "\<forall>i<length ms. mu_index (ms ! i) = first + int i"
    "abs_state (snd (spec_mutations ms (view (ks_db s)))) = snd (spec_run cmds (abs_state (view (ks_db s))))"
    "fill_replies rs (fst (spec_mutations ms (view (ks_db s)))) = fst (spec_run cmds (abs_state (view (ks_db s))))"
    "sessions_ok (snd (spec_mutations ms (view (ks_db s))))"
    by (auto simp: next_index_def new_acc_def)
  have ord: "in_order (ks_last_applied s) ms"
    using run(4,7) first bound by (simp add: in_order_def)
  from ApplyBatch_total [OF rd wr run(6) ord] obtain ex s' where ok: "KV_ApplyBatch R ms s = Ok ex s'" by blast
  show ?thesis
  proof (cases "ms = []")
    case True
    with run ses show ?thesis by (auto simp: ApplyBatch_def KV_ApplyBatch_def)
  next
    case False
    with ApplyBatch_spec [OF ok False] run ok show ?thesis
      by (simp add: ApplyBatch_def)
  qed
qed

end

text \<open>
  C6. Refinement of the state machine. A batch of committed commands on client keys, applied at the
  next index, returns the replies of the abstract machine run command by command and leaves its data
  and its sessions in the store: the staged overlays and the late delete replies are not observable.
\<close>

theorem ApplyBatch_refinement:
  assumes "rocksdb R view" and "reads_ok R view (ks_db s)" and "writes_ok R (ks_db s)"
    and "sessions_ok (view (ks_db s))" and "client_batch cs cmds"
    and "first = ks_last_applied s + 1" and "ks_last_applied s + int (length cs) \<le> INT64_MAX"
  shows "\<exists>s'. ApplyBatch R first cs s = Ok (fst (spec_run cmds (abs_state (view (ks_db s))))) s' \<and>
           abs_state (view (ks_db s')) = snd (spec_run cmds (abs_state (view (ks_db s)))) \<and>
           sessions_ok (view (ks_db s')) \<and>
           ks_last_applied s' = ks_last_applied s + int (length cs)"
  by (rule rocksdb.ApplyBatch_refines [OF assms])

text \<open>What the server serialises, the state machine decodes.\<close>

lemma decode_serialized:
  assumes "args \<noteq> []" and "length args \<le> kMaxArguments"
    and "length (SerializeCommand args) \<le> kMaxCommandBytes"
  shows "decode_command (SerializeCommand args) = decode_args args"
proof -
  have "SerializeCommand args \<noteq> []" by (simp add: SerializeCommand_concat)
  with parse_serialized [OF assms, of "[]"] show ?thesis by (simp add: decode_command_def Let_def)
qed

definition demo_set :: bytes where
  "demo_set = SerializeCommand [''IDEMP'', ''c1'', ''7'', ''SET'', ''n:k'', ''v'']"

definition demo_del :: bytes where
  "demo_del = SerializeCommand [''DEL'', ''n:k'']"

lemmas serialize_eval = SerializeCommand_def Bulk_def to_string_nat.simps digit_char_numerals

lemma demo_decodes:
  "decode_command demo_set = Some (CIdemSet ''c1'' 7 ''n:k'' ''v'')"
  "decode_command demo_del = Some (CDel ''n:k'')"
  unfolding demo_set_def demo_del_def
  by (subst decode_serialized; simp add: serialize_eval decode_args_def UpperCommand_def toupper_def
      ParseIdempotentCommand_def ParseRequestId_def is_digit_def digit_value_def no_idempotent_def Let_def)+

lemma demo_store_facts:
  "reads_ok mem_ops mem_view (ks_db demo_store)" "writes_ok mem_ops (ks_db demo_store)"
  "mem_view (ks_db demo_store) = (\<lambda>_. None)" "ks_last_applied demo_store = 0"
  by (auto simp: demo_store_def mem_empty_def mem_view_def mem_canon_def intro!: mem_reads_ok mem_writes_ok)

lemma demo_batch:
  "client_batch [demo_set, demo_del, demo_set]
     [CIdemSet ''c1'' 7 ''n:k'' ''v'', CDel ''n:k'', CIdemSet ''c1'' 7 ''n:k'' ''v'']"
  by (simp add: client_batch_def demo_decodes user_key_def)

lemmas spec_eval = abs_state_def once_def current_session_def del_reply_def user_key_def Let_def

theorem ApplyBatch_refinement_witness:
  "\<exists>s'. ApplyBatch mem_ops 1 [demo_set, demo_del, demo_set] demo_store =
          Ok [reply_ok, reply_one, reply_ok] s' \<and> ks_last_applied s' = 3"
  using ApplyBatch_refinement [OF mem.rocksdb_axioms demo_store_facts(1,2) _ demo_batch, of 1]
  by (simp add: demo_store_facts sessions_ok_def spec_eval) blast

section \<open>Exactly once\<close>

fun newer_request :: "bytes \<Rightarrow> 64 word \<Rightarrow> kv_cmd \<Rightarrow> bool" where
  "newer_request cid rid (CIdemSet c r k v) \<longleftrightarrow> c = cid \<and> r > rid"
| "newer_request cid rid (CIdemDel c r k) \<longleftrightarrow> c = cid \<and> r > rid"
| "newer_request cid rid _ \<longleftrightarrow> False"

lemma session_stable:
  assumes "rid \<le> sr_request_id (current_session a cid)" and "\<not> newer_request cid rid x"
  shows "current_session (snd (spec_step x a)) cid = current_session a cid"
proof -
  have *: "current_session (snd (once c r eff a)) cid = current_session a cid" if "c = cid \<Longrightarrow> r \<le> rid" for c r eff
    using that assms(1) by (cases "c = cid") (auto simp: once_def Let_def current_session_def)
  show ?thesis
    using assms(2) * by (cases x) (auto simp: current_session_def not_less)
qed

lemma session_stable_run:
  assumes "rid \<le> sr_request_id (current_session a cid)" and "list_all (\<lambda>x. \<not> newer_request cid rid x) xs"
  shows "current_session (snd (spec_run xs a)) cid = current_session a cid"
  using assms
proof (induction xs arbitrary: a)
  case Nil
  then show ?case by simp
next
  case (Cons x xs)
  then have "current_session (snd (spec_step x a)) cid = current_session a cid"
    by (intro session_stable) auto
  with Cons show ?case by (simp add: Let_def case_prod_beta)
qed

lemma once_again:
  assumes "current_session b cid = current_session (snd (once cid rid eff a)) cid"
  shows "once cid rid eff' b = (fst (once cid rid eff a), b) \<and>
         rid \<le> sr_request_id (current_session (snd (once cid rid eff a)) cid)"
proof -
  let ?r = "current_session a cid"
  consider "rid < sr_request_id ?r" | "rid = sr_request_id ?r" | "sr_request_id ?r < rid"
    using less_linear by blast
  then show ?thesis
  proof cases
    case 1
    then show ?thesis using assms by (simp add: once_def Let_def)
  next
    case 2
    then show ?thesis using assms by (simp add: once_def Let_def)
  next
    case 3
    have "once cid rid eff a = (fst eff, a\<lparr>kv_data := snd eff,
              kv_sessions := (kv_sessions a)(cid := Some \<lparr>sr_request_id = rid, sr_reply = fst eff\<rparr>)\<rparr>)"
      using 3 by (auto simp: once_def Let_def)
    then show ?thesis using assms by (simp add: once_def Let_def current_session_def)
  qed
qed

lemma retry_abstract:
  assumes cmd: "cmd = CIdemSet cid rid k v \<or> cmd = CIdemDel cid rid k"
    and "list_all (\<lambda>x. \<not> newer_request cid rid x) xs"
  shows "spec_step cmd (snd (spec_run xs (snd (spec_step cmd a)))) =
           (fst (spec_step cmd a), snd (spec_run xs (snd (spec_step cmd a))))"
proof -
  obtain eff where eff: "\<And>b. spec_step cmd b = once cid rid (eff b) b"
    using cmd that [of "\<lambda>b. (reply_ok, (kv_data b)(k := Some v))"]
      that [of "\<lambda>b. (del_reply (kv_data b) k, (kv_data b)(k := None))"] by auto
  have "rid \<le> sr_request_id (current_session (snd (spec_step cmd a)) cid)"
    using once_again [of "snd (once cid rid (eff a) a)" cid rid "eff a" a] eff by simp
  from session_stable_run [OF this assms(2)]
  have "current_session (snd (spec_run xs (snd (spec_step cmd a)))) cid =
        current_session (snd (once cid rid (eff a) a)) cid" by (simp add: eff)
  from once_again [OF this] show ?thesis by (simp add: eff)
qed

lemma spec_run_append:
  "spec_run (xs @ ys) a =
     (fst (spec_run xs a) @ fst (spec_run ys (snd (spec_run xs a))), snd (spec_run ys (snd (spec_run xs a))))"
  by (induction xs arbitrary: a) (auto simp: Let_def case_prod_beta)

text \<open>Batch after batch, each at the next index, as the node hands the committed commands over.\<close>

primrec apply_batches ::
  "'db rocksdb_ops \<Rightarrow> bytes list list \<Rightarrow> 'db kv_store \<Rightarrow> ('db kv_store, bytes list) res" where
  "apply_batches R [] s = Ok [] s"
| "apply_batches R (cs # bs) s =
     bindR (ApplyBatch R (ks_last_applied s + 1) cs s) (\<lambda>rs s.
     bindR (apply_batches R bs s) (\<lambda>rs'. Ok (rs @ rs')))"

text \<open>Databases on which no read and no write fails, now or after further writes.\<close>

definition healthy :: "'db rocksdb_ops \<Rightarrow> ('db \<Rightarrow> bytes \<Rightarrow> bytes option) \<Rightarrow> 'db set \<Rightarrow> bool" where
  "healthy R view G \<longleftrightarrow>
     (\<forall>d \<in> G. reads_ok R view d \<and> writes_ok R d \<and> (\<forall>w ops. snd (db_write R d w ops) \<in> G))"

lemma healthyD: "healthy R view G \<Longrightarrow> d \<in> G \<Longrightarrow> reads_ok R view d \<and> writes_ok R d \<and> snd (db_write R d w ops) \<in> G"
  by (simp add: healthy_def)

lemma mem_healthy: "healthy mem_ops mem_view {d. \<not> fail_reads d \<and> \<not> fail_writes d}"
  by (auto simp: healthy_def mem_reads_ok mem_writes_ok) (simp_all add: mem_defs)

lemma demo_store_healthy: "ks_db demo_store \<in> {d. \<not> fail_reads d \<and> \<not> fail_writes d}"
  by (simp add: demo_store_def mem_empty_def)

lemma client_batch_append:
  assumes "client_batch (cs @ ds) cmds"
  shows "\<exists>xs ys. cmds = xs @ ys \<and> client_batch cs xs \<and> client_batch ds ys"
  using assms unfolding client_batch_def by (auto simp: append_eq_map_conv list_all_iff map_eq_append_conv)

lemma write_req_db: "write_req R ops op d = Ok u d' \<Longrightarrow> d' = snd (db_write R d DurableWriteOptions ops)"
  by (auto simp: write_req_def liftR_def split: prod.splits sum.splits)

lemma case_res_Ok:
  "(case r of Ok u d \<Rightarrow> Ok x (g d) | Throw e d \<Rightarrow> Throw e (h d)) = Ok y s' \<longleftrightarrow> (\<exists>u d. r = Ok u d \<and> x = y \<and> g d = s')"
  by (cases r) auto

lemma ApplyBatch_stays_healthy:
  assumes "healthy R view G" and "ks_db s \<in> G" and "ApplyBatch R first cs s = Ok rs s'"
  shows "ks_db s' \<in> G"
  using assms(2,3) healthyD [OF assms(1,2)]
  by (auto simp: ApplyBatch_def KV_ApplyBatch_def liftR_def bindR_eq_Ok case_prod_beta case_res_Ok
      dest!: write_req_db split: if_splits sum.splits)

context rocksdb
begin

lemma apply_batches_refines:
  assumes "healthy R view G" and "ks_db s \<in> G" and "sessions_ok (view (ks_db s))" and "client_batch (concat bs) cmds"
    and "ks_last_applied s + int (length (concat bs)) \<le> INT64_MAX"
  shows "\<exists>s'. apply_batches R bs s = Ok (fst (spec_run cmds (abs_state (view (ks_db s))))) s' \<and>
           abs_state (view (ks_db s')) = snd (spec_run cmds (abs_state (view (ks_db s))))"
  using assms(2-)
proof (induction bs arbitrary: s cmds)
  case Nil
  then show ?case by (simp add: client_batch_def)
next
  case (Cons cs bs)
  obtain xs ys where c: "cmds = xs @ ys" "client_batch cs xs" "client_batch (concat bs) ys"
    using client_batch_append Cons.prems(3) by (metis concat.simps(2))
  have "ks_last_applied s + int (length cs) \<le> INT64_MAX" using Cons.prems(4) by simp
  with ApplyBatch_refines [OF _ _ Cons.prems(2) c(2) refl] healthyD [OF assms(1) Cons.prems(1)]
  obtain s1 where s1: "ApplyBatch R (ks_last_applied s + 1) cs s = Ok (fst (spec_run xs (abs_state (view (ks_db s))))) s1"
    "abs_state (view (ks_db s1)) = snd (spec_run xs (abs_state (view (ks_db s))))"
    "sessions_ok (view (ks_db s1))" "ks_last_applied s1 = ks_last_applied s + int (length cs)" by blast
  from Cons.IH [OF ApplyBatch_stays_healthy [OF assms(1) Cons.prems(1) s1(1)] s1(3) c(3)] s1 Cons.prems(4) c(1)
  show ?case by (auto simp: spec_run_append)
qed

end

text \<open>
  C7. Retries are harmless, in the same batch and in a later one. When the applied commands hold the same
  idempotent command twice, with no newer request of that client between the two copies, then however
  the commands are cut into batches the second copy gets the reply of the first and changes neither
  data nor sessions: every batch returns, and the store ends as if the retry were not there.
\<close>

theorem ApplyBatch_retry:
  assumes "rocksdb R view" and "healthy R view G" and "ks_db s \<in> G"
    and "sessions_ok (view (ks_db s))"
    and "concat bs = c # mid @ [c]" and "concat bs' = c # mid"
    and "client_batch (c # mid @ [c]) (cmd # cmds @ [cmd])"
    and "cmd = CIdemSet cid rid k v \<or> cmd = CIdemDel cid rid k"
    and "list_all (\<lambda>x. \<not> newer_request cid rid x) cmds"
    and "ks_last_applied s + int (length mid) + 2 \<le> INT64_MAX"
  shows "\<exists>r rs s' t'. apply_batches R bs s = Ok (r # rs @ [r]) s' \<and>
           apply_batches R bs' s = Ok (r # rs) t' \<and>
           abs_state (view (ks_db s')) = abs_state (view (ks_db t'))"
proof -
  have cb: "client_batch (c # mid) (cmd # cmds)"
    using assms(7) by (auto simp: client_batch_def)
  let ?a = "abs_state (view (ks_db s))"
  note r = retry_abstract [OF assms(8,9), of ?a]
  have full: "spec_run (cmd # cmds @ [cmd]) ?a =
        (let (x, a) = spec_step cmd ?a; (xs, b) = spec_run cmds a in (x # xs @ [x], b))"
    using r by (simp add: spec_run_append Let_def case_prod_beta)
  have part: "spec_run (cmd # cmds) ?a =
        (let (x, a) = spec_step cmd ?a; (xs, b) = spec_run cmds a in (x # xs, b))"
    by (simp add: Let_def case_prod_beta)
  show ?thesis
    using rocksdb.apply_batches_refines [OF assms(1-4), of bs "cmd # cmds @ [cmd]"]
      rocksdb.apply_batches_refines [OF assms(1-4), of bs' "cmd # cmds"] assms(7,10) cb
    unfolding full part assms(5,6) by (auto simp: Let_def case_prod_beta)
qed

theorem ApplyBatch_retry_witness:
  "\<exists>r rs s' t'. apply_batches mem_ops [[demo_set], [demo_del], [demo_set]] demo_store = Ok (r # rs @ [r]) s' \<and>
     apply_batches mem_ops [[demo_set, demo_del]] demo_store = Ok (r # rs) t' \<and>
     abs_state (mem_view (ks_db s')) = abs_state (mem_view (ks_db t'))"
  by (rule ApplyBatch_retry [where c = demo_set and mid = "[demo_del]" and cmd = "CIdemSet ''c1'' 7 ''n:k'' ''v''"
        and cmds = "[CDel ''n:k'']" and cid = "''c1''" and rid = 7 and k = "''n:k''" and v = "''v''",
        OF mem.rocksdb_axioms mem_healthy demo_store_healthy])
    (use demo_batch in \<open>simp_all add: demo_store_facts sessions_ok_def\<close>)

section \<open>Snapshots round trip\<close>

definition enc_entry :: "bytes \<times> bytes \<Rightarrow> bytes" where
  "enc_entry e = be_bytes 4 (word_of_nat (length (fst e)) :: 32 word) @ fst e @
                 be_bytes 4 (word_of_nat (length (snd e)) :: 32 word) @ snd e"

lemma enc_entry_Pair:
  "enc_entry (k, v) = be_bytes 4 (word_of_nat (length k) :: 32 word) @ k @
                      be_bytes 4 (word_of_nat (length v) :: 32 word) @ v"
  by (simp add: enc_entry_def)

definition entry_fits :: "bytes \<times> bytes \<Rightarrow> bool" where
  "entry_fits e \<longleftrightarrow> length (fst e) < UINT32_MAX - 3 \<and> length (snd e) \<le> UINT32_MAX"

lemma snapshot_entries_Inr:
  "snapshot_entries es out = Inr bytes \<Longrightarrow>
     bytes = out @ concat (map enc_entry es) \<and> (\<forall>e\<in>set es. length (snd e) \<le> UINT32_MAX)"
proof (induction es arbitrary: out)
  case Nil
  then show ?case by simp
next
  case (Cons e es)
  from Cons.prems Cons.IH show ?case
    by (cases e) (fastforce simp: bindE_eq_Inr snapshot_entry_def AppendU32_def enc_entry_Pair split: if_splits)
qed

lemma ReadU32_at_bytes: "ReadU32_at (p @ be_bytes 4 w @ q) (length p) = Inr w"
  by (simp add: ReadU32_at_def)

lemma substr_at_mid: "substr_at (p @ a @ q) (length p) (length a) = Inr a"
  by (simp add: substr_at_def substr_mid)

lemma unat_length32: "n \<le> UINT32_MAX \<Longrightarrow> unat (word_of_nat n :: 32 word) = n"
  by (simp add: unat_of_nat)

lemma unat_key_len: "n < UINT32_MAX - 3 \<Longrightarrow> unat (word_of_nat n + 4 :: 32 word) = n + 4"
  by (simp add: unat_word_ariths unat_of_nat)

lemma read_entries_enc:
  assumes "\<forall>e\<in>set es. entry_fits e"
  shows "read_entries (length es) (p @ concat (map enc_entry es)) (length p) acc =
           Inr (acc @ es, length p + length (concat (map enc_entry es)))"
  using assms
proof (induction es arbitrary: p acc)
  case Nil
  then show ?case by simp
next
  case (Cons e es)
  obtain k v where e: "e = (k, v)" by (cases e)
  let ?K = "word_of_nat (length k) :: 32 word" and ?V = "word_of_nat (length v) :: 32 word"
  let ?q = "concat (map enc_entry es)"
  let ?p1 = "p @ be_bytes 4 ?K" and ?p2 = "p @ be_bytes 4 ?K @ k"
  let ?p3 = "p @ be_bytes 4 ?K @ k @ be_bytes 4 ?V"
  let ?raw = "p @ be_bytes 4 ?K @ k @ be_bytes 4 ?V @ v @ ?q"
  have lens: "unat ?K = length k" "unat (?K + 4) = length k + 4" "unat ?V = length v"
    using Cons.prems unat_length32 unat_key_len by (auto simp: e entry_fits_def)
  have r1: "ReadU32_at ?raw (length p) = Inr ?K" by (rule ReadU32_at_bytes)
  have r2: "substr_at ?raw (length p + 4) (length k) = Inr k"
    using substr_at_mid [of ?p1 k "be_bytes 4 ?V @ v @ ?q"] by simp
  have r3: "ReadU32_at ?raw (length p + 4 + length k) = Inr ?V"
    using ReadU32_at_bytes [of ?p2 ?V "v @ ?q"] by (simp add: add.assoc)
  have r4: "substr_at ?raw (length p + 4 + length k + 4) (length v) = Inr v"
    using substr_at_mid [of ?p3 v ?q] by (simp add: add.assoc)
  have "read_entries (length es) ?raw (length p + 4 + length k + 4 + length v) (acc @ [(k, v)]) =
          Inr ((acc @ [(k, v)]) @ es, length p + 4 + length k + 4 + length v + length ?q)"
    using Cons.IH [of "?p3 @ v" "acc @ [(k, v)]"] Cons.prems by (simp add: add.assoc)
  then show ?case
    using r1 r2 r3 r4 lens
    by (simp add: e enc_entry_Pair size_sub_def Let_def)
qed

lemma decode_snapshot_enc:
  assumes "\<forall>e\<in>set es. entry_fits e" and "length es \<le> UINT32_MAX"
  shows "decode_snapshot (be_bytes 4 (word_of_nat (length es) :: 32 word) @ concat (map enc_entry es)) = Inr es"
  using read_entries_enc [OF assms(1), of "be_bytes 4 (word_of_nat (length es) :: 32 word)" "[]"]
    ReadU32_at_bytes [of "[]" "word_of_nat (length es)" "concat (map enc_entry es)"] unat_length32 [OF assms(2)]
  by (simp add: decode_snapshot_def)

lemma map_of_rev_distinct: "distinct (map fst xs) \<Longrightarrow> map_of (rev xs) = map_of xs"
  by (rule map_of_inject_set [THEN iffD2]) (auto simp: rev_map [symmetric])

context rocksdb
begin

lemma ExportSnapshot_decodes:
  assumes "ExportSnapshot R s = Inr bytes"
    and "\<forall>k. view (ks_db s) k \<noteq> None \<longrightarrow> length k < UINT32_MAX - 3"
  shows "\<exists>es. decode_snapshot bytes = Inr es \<and> map_of (rev es) = (view (ks_db s))(AppliedKey := None) \<and>
              AppliedKey \<notin> fst ` set es"
proof -
  from assms(1) obtain es where es: "ExportEntries R s = Inr es" "length es \<le> UINT32_MAX"
    and b: "snapshot_entries es (AppendU32 [] (word_of_nat (length es))) = Inr bytes"
    by (auto simp: ExportSnapshot_def bindE_eq_Inr split: if_splits)
  note m = ExportEntries_Inr [OF es(1)]
  have "entry_fits e" if "e \<in> set es" for e
  proof -
    from m have "distinct (map fst es)" and mo: "map_of es = (view (ks_db s))(AppliedKey := None)" by auto
    then have "map_of es (fst e) = Some (snd e)" using that map_of_eq_Some_iff [of es] by simp
    with mo have "view (ks_db s) (fst e) \<noteq> None" by (auto split: if_splits)
    with assms(2) snapshot_entries_Inr [OF b] that show ?thesis by (auto simp: entry_fits_def)
  qed
  then have "decode_snapshot bytes = Inr es"
    using decode_snapshot_enc [of es] es(2) snapshot_entries_Inr [OF b] by (simp add: AppendU32_def)
  moreover have "AppliedKey \<notin> fst ` set es"
    using m map_of_eq_None_iff [of es AppliedKey] by simp
  ultimately show ?thesis using m map_of_rev_distinct [of es] by auto
qed

lemma ReplaceAll_total:
  assumes "scans_ok R (ks_db t)" and "writes_ok R (ks_db t)" and "ks_last_applied t \<le> index"
    and "AppliedKey \<notin> fst ` set es" and "after w = Ok () w'"
  shows "\<exists>t'. ReplaceAll R index es after (t, w) = Ok () (t', w')"
proof -
  from scan_req_ok [OF assms(1)] obtain kvs where "scan_req R (ks_db t) ''scan KV snapshot'' = Inr kvs" by blast
  moreover have "\<not> list_ex (\<lambda>(k, v). k = AppliedKey) es" using assms(4) by (force simp: list_ex_iff)
  ultimately obtain batch where "replace_batch R index es t = Inr batch"
    using assms(3) by (auto simp: replace_batch_def)
  with write_req_ok [OF assms(2), of batch "''install KV snapshot''"] assms(5) show ?thesis
    by (auto simp: ReplaceAll_def)
qed

end

text \<open>
  C9. A snapshot carries the state. What \<open>ExportSnapshot\<close> wrote on one machine, \<open>InstallSnapshot\<close>
  installs on another that is not ahead of it: the callback has run, the contents become those of the
  exporter, sessions included, and the marker is the index of the snapshot.
\<close>

theorem snapshot_transfer:
  assumes "rocksdb R view" and "ExportSnapshot R s = Inr bytes"
    and "\<forall>k. view (ks_db s) k \<noteq> None \<longrightarrow> length k < UINT32_MAX - 3"
    and "scans_ok R (ks_db t)" and "writes_ok R (ks_db t)" and "ks_last_applied t \<le> index"
    and "after w = Ok () w'"
  shows "\<exists>t'. InstallSnapshot R index bytes after (t, w) = Ok () (t', w') \<and>
           view (ks_db t') = (view (ks_db s))(AppliedKey := Some (be8 index)) \<and>
           ks_last_applied t' = index"
proof -
  from rocksdb.ExportSnapshot_decodes [OF assms(1-3)] obtain es where
    es: "decode_snapshot bytes = Inr es" "map_of (rev es) = (view (ks_db s))(AppliedKey := None)"
    "AppliedKey \<notin> fst ` set es" by blast
  from rocksdb.ReplaceAll_total [where after = after and w = w, OF assms(1,4-6) es(3) assms(7)] obtain t'
    where ok: "ReplaceAll R index es after (t, w) = Ok () (t', w')" by blast
  from rocksdb.ReplaceAll_Ok [OF assms(1) ok] es ok show ?thesis
    by (simp add: InstallSnapshot_def)
qed

theorem snapshot_transfer_witness:
  "\<exists>bytes t'. ExportSnapshot mem_ops (demo_store\<lparr>ks_db := mem_empty\<lparr>mem_data := [(''n:k'', ''v'')]\<rparr>\<rparr>) = Inr bytes \<and>
     InstallSnapshot mem_ops 9 bytes (Ok ()) (demo_store, ()) = Ok () (t', ()) \<and> ks_last_applied t' = 9"
proof -
  let ?d = "mem_empty\<lparr>mem_data := [(''n:k'', ''v'')]\<rparr>"
  let ?s = "demo_store\<lparr>ks_db := ?d\<rparr>"
  let ?b = "be_bytes 4 (1 :: 32 word) @ be_bytes 4 (3 :: 32 word) @ ''n:k'' @ be_bytes 4 (1 :: 32 word) @ ''v''"
  have ex: "ExportSnapshot mem_ops ?s = Inr ?b"
    by (simp add: ExportSnapshot_def ExportEntries_def scan_req_def mem_defs mem_canon_def mem_empty_def
        RequireStorageOK_def AppliedKey_def snapshot_entry_def AppendU32_def)
  have keys: "\<forall>k. mem_view (ks_db ?s) k \<noteq> None \<longrightarrow> length k < UINT32_MAX - 3"
    by (auto simp: mem_view_def mem_canon_def mem_empty_def)
  have "scans_ok mem_ops (ks_db demo_store)" by (rule mem_scans_ok) (simp add: demo_store_def mem_empty_def)
  from snapshot_transfer [where after = "Ok ()" and w = "()" and w' = "()" and index = 9,
      OF mem.rocksdb_axioms ex keys this demo_store_facts(2)] ex
  show ?thesis by (auto simp: demo_store_facts)
qed

text \<open>
  C40. The length check of \<open>InstallSnapshot\<close> wraps. \<open>key_len + 4\<close> is computed in 32 bits, so a key
  length of at least \<open>0xFFFFFFFC\<close> passes the check of a snapshot shorter than 4 GiB and the value
  length is then read behind the end of the string, where the code means to reject the snapshot as
  truncated.
\<close>

theorem InstallSnapshot_key_length_wraps:
  assumes "0xFFFFFFFC \<le> (key_len :: 32 word)" and "3 \<le> length rest" and "length rest < 4294967292"
  shows "InstallSnapshot R index (be_bytes 4 (1 :: 32 word) @ be_bytes 4 key_len @ rest) after (s, w) =
         Throw (Undefined_behaviour ''read past the end of the snapshot'') (s, w)"
proof -
  let ?raw = "be_bytes 4 (1 :: 32 word) @ be_bytes 4 key_len @ rest"
  have k: "4294967292 \<le> unat key_len" using assms(1) by (simp add: word_le_nat_alt)
  have "unat key_len < 4294967296" using unsigned_less [of key_len, where ?'a = nat] by simp
  with k have wrap: "unat (key_len + 4) = unat key_len - 4294967292"
    by (simp add: unat_word_ariths mod_if)
  have r0: "ReadU32_at ?raw 0 = Inr 1" using ReadU32_at_bytes [of "[]" 1] by simp
  have r1: "ReadU32_at ?raw 4 = Inr key_len"
    using ReadU32_at_bytes [of "be_bytes 4 (1 :: 32 word)" key_len rest] by simp
  have r2: "ReadU32_at ?raw (8 + unat key_len) = Inl (Undefined_behaviour ''read past the end of the snapshot'')"
    using k assms(3) by (simp add: ReadU32_at_def)
  have "decode_snapshot ?raw = Inl (Undefined_behaviour ''read past the end of the snapshot'')"
    using r0 r1 r2 wrap assms(2) \<open>unat key_len < 4294967296\<close>
    by (simp add: decode_snapshot_def size_sub_def Let_def substr_at_def)
  then show ?thesis by (simp add: InstallSnapshot_def)
qed

theorem InstallSnapshot_key_length_wraps_witness:
  "InstallSnapshot mem_ops 1 (be_bytes 4 (1 :: 32 word) @ be_bytes 4 (0xFFFFFFFF :: 32 word) @ ''abc'') (Ok ())
     (demo_store, ()) = Throw (Undefined_behaviour ''read past the end of the snapshot'') (demo_store, ())"
  by (rule InstallSnapshot_key_length_wraps) simp_all

end
