(* ===== verification/RaftState.thy ===== *)
theory RaftState
  imports RaftLog KVStateMachine Policies Codec
begin

text \<open>
  The state of a Raft node (\<open>src/src/raft/raft_node.h\<close>), the messages of
  \<open>src/proto/raft_messages.proto\<close>, and what the node takes from its surroundings.

  \<^item> The environment \<open>raft_env\<close>: RocksDB, the entry codec and its encoded sizes, the clock, the
    random election timeouts, and whether the peer manager and the executor accept what they are
    given. The answers are functions of \<open>nd_oracle\<close>, the number of questions asked so far, so two
    readings of the clock may differ.
  \<^item> Callbacks are numbers; completing one appends an event, as does an accepted send. The contract
    of the class says that callbacks enqueue further Raft operations instead of calling them.
  \<^item> RPC payloads are kept as messages instead of bytes. \<open>std::map\<close> is a partial function, or an
    association list in key order where the code iterates over it.
\<close>

section \<open>Messages\<close>

record request_vote =
  rv_term :: int
  rv_candidate_id :: int
  rv_last_log_index :: int
  rv_last_log_term :: int
  rv_prevote :: bool

record request_vote_response =
  rvr_term :: int
  rvr_vote_granted :: bool
  rvr_prevote :: bool

record append_entries =
  ae_term :: int
  ae_leader_id :: int
  ae_prev_log_index :: int
  ae_prev_log_term :: int
  ae_entries :: "log_entry list"
  ae_leader_commit :: int
  ae_rpc_id :: "64 word"

record append_entries_response =
  aer_term :: int
  aer_success :: bool
  aer_last_log_index :: int
  aer_rpc_id :: "64 word"

record install_snapshot =
  is_term :: int
  is_leader_id :: int
  is_last_included_index :: int
  is_last_included_term :: int
  is_offset :: int
  is_data :: bytes
  is_done :: bool
  is_rpc_id :: "64 word"

record install_snapshot_response =
  isr_term :: int
  isr_success :: bool
  isr_complete :: bool
  isr_rpc_id :: "64 word"

datatype raft_rpc =
    RequestVote request_vote
  | RequestVoteResponse request_vote_response
  | AppendEntries append_entries
  | AppendEntriesResponse append_entries_response
  | InstallSnapshotRequest install_snapshot
  | InstallSnapshotResponse install_snapshot_response

section \<open>Node state\<close>

record peer_info =
  pi_id :: int
  pi_host :: string
  pi_raft_port :: int

datatype raft_role = FOLLOWER | PRE_CANDIDATE | CANDIDATE | LEADER

record inflight =
  fl_id :: "64 word"
  fl_last_index :: int
  fl_elapsed_ms :: int
  fl_entries :: nat
  fl_first_send :: int
  fl_lease_sent_at :: int
  fl_payload :: "raft_rpc option"
  fl_type :: raft_msg_type
  fl_snapshot :: bool
  fl_snapshot_offset :: nat
  fl_snapshot_chunk :: nat
  fl_snapshot_index :: int
  fl_snapshot_term :: int
  fl_snapshot_data :: bytes

definition no_flight :: inflight where
  "no_flight = \<lparr>fl_id = 0, fl_last_index = 0, fl_elapsed_ms = 0, fl_entries = 0, fl_first_send = 0,
     fl_lease_sent_at = 0, fl_payload = None, fl_type = kAppendEntries, fl_snapshot = False,
     fl_snapshot_offset = 0, fl_snapshot_chunk = 0, fl_snapshot_index = 0, fl_snapshot_term = 0,
     fl_snapshot_data = []\<rparr>"

record snapshot_receive =
  sv_index :: int
  sv_term :: int
  sv_data :: bytes

definition no_receive :: snapshot_receive where
  "no_receive = \<lparr>sv_index = - 1, sv_term = - 1, sv_data = []\<rparr>"

record pending =
  pd_callback :: "nat option"
  pd_bytes :: nat
  pd_created_at :: int

record read_request =
  rr_read_index :: int
  rr_callback :: nat
  rr_created_at :: int

record heartbeat_round =
  hr_round_id :: "64 word"
  hr_acks :: "int set"
  hr_requests :: "read_request list"
  hr_probe_rpc_ids :: "int \<Rightarrow> 64 word option"
  hr_sent_at :: int
  hr_confirmed :: bool

record read_state =
  rs_can_serve_read :: bool
  rs_next_round_id :: "64 word"
  rs_rounds :: "heartbeat_round list"
  rs_in_flight :: bool
  rs_completing :: bool
  rs_unsent :: "read_request list"
  rs_pending :: "read_request list"
  rs_total :: "64 word"
  rs_succeeded :: "64 word"
  rs_timeout :: "64 word"
  rs_not_leader :: "64 word"
  rs_overload :: "64 word"
  rs_lease :: "64 word"

record node_metrics =
  nm_proposal_batches :: "64 word"
  nm_proposal_timeouts :: "64 word"
  nm_apply_batches :: "64 word"
  nm_leader_log_write :: batch_stats
  nm_follower_log_write :: batch_stats
  nm_kv_apply :: batch_stats
  nm_replication_data_ack :: latency_stats
  nm_apply_dispatch :: latency_stats
  nm_replication_retry_attempts :: "64 word"
  nm_snapshot_oversize_skips :: "64 word"

datatype raft_event =
    EvSend int raft_rpc
  | EvPropose nat bool bytes
  | EvRead nat bool int string

text \<open>Work handed to the executor: first index, commands, command bytes, and the outcome once it ran.\<close>

record apply_job =
  aj_first :: int
  aj_commands :: "bytes list"
  aj_bytes :: nat
  aj_result :: "(exn + bytes list) option"
  aj_work_us :: "64 word"
  aj_finished :: int

record 'db node =
  nd_id :: int
  nd_peers :: "peer_info list"
  nd_sm :: "'db kv_store"
  nd_log :: "'db raft_log"
  nd_apply_inflight :: bool
  nd_job :: "apply_job option"
  nd_storage_healthy :: bool
  nd_current_term :: int
  nd_voted_for :: int
  nd_state :: raft_role
  nd_running :: bool
  nd_commit_index :: int
  nd_last_applied :: int
  nd_leader_id :: int
  nd_votes :: "int set"
  nd_next_index :: "int \<Rightarrow> int option"
  nd_match_index :: "int \<Rightarrow> int option"
  nd_inflight :: "int \<Rightarrow> inflight option"
  nd_snapshot_receive :: snapshot_receive
  nd_snapshot_threshold :: int
  nd_last_snapshot_attempt :: int
  nd_lease_reads :: bool
  nd_snapshot_chunk_bytes :: nat
  nd_rpc_sequence :: "64 word"
  nd_election_deadline :: int
  nd_leader_since :: int
  nd_peer_active :: "int \<Rightarrow> int option"
  nd_lease_confirmed :: "int \<Rightarrow> int option"
  nd_heartbeat_timer_ms :: int
  nd_pending :: "(int \<times> pending) list"
  nd_pending_bytes :: nat
  nd_reads :: read_state
  nd_metrics :: node_metrics
  nd_oracle :: nat
  nd_events :: "raft_event list"

record 'db raft_env =
  en_rocks :: "'db rocksdb_ops"
  en_codec :: entry_codec
  en_entry_size :: "log_entry \<Rightarrow> nat"
  en_clock :: "nat \<Rightarrow> int"
  en_steady :: "nat \<Rightarrow> int"
  en_rand :: "nat \<Rightarrow> int"
  en_send_ok :: "nat \<Rightarrow> bool"
  en_executor :: bool
  en_submit_ok :: "nat \<Rightarrow> bool"

abbreviation kTickIntervalMs :: int where "kTickIntervalMs \<equiv> 10"
abbreviation kHeartbeatIntervalMs :: int where "kHeartbeatIntervalMs \<equiv> 50"
abbreviation kMinElectionTimeoutMs :: int where "kMinElectionTimeoutMs \<equiv> 150"
abbreviation kMaxElectionTimeoutMs :: int where "kMaxElectionTimeoutMs \<equiv> 300"
abbreviation kProposalTimeoutMs :: int where "kProposalTimeoutMs \<equiv> 1000"
abbreviation kRpcRetryMs :: int where "kRpcRetryMs \<equiv> 50"
abbreviation kMaxPending :: nat where "kMaxPending \<equiv> 1024"
abbreviation kMaxPendingBytes :: nat where "kMaxPendingBytes \<equiv> 16777216"
abbreviation kMaxBatchBytes :: nat where "kMaxBatchBytes \<equiv> 2097152"
abbreviation kMaxBatchEntries :: nat where "kMaxBatchEntries \<equiv> 128"
abbreviation kMaxPendingReadIndex :: nat where "kMaxPendingReadIndex \<equiv> 10000"
abbreviation kReadIndexTimeoutMs :: int where "kReadIndexTimeoutMs \<equiv> 1000"

abbreviation ms :: "int \<Rightarrow> int" where "ms n \<equiv> n * 1000000"

section \<open>Small steps\<close>

definition pureR :: "('s \<Rightarrow> 's) \<Rightarrow> 's \<Rightarrow> ('s, unit) res" where
  "pureR f s = Ok () (f s)"

text \<open>A question to the environment.\<close>

definition ask :: "(nat \<Rightarrow> 'a) \<Rightarrow> 'db node \<Rightarrow> ('db node, 'a) res" where
  "ask f s = Ok (f (nd_oracle s)) (s\<lparr>nd_oracle := Suc (nd_oracle s)\<rparr>)"

definition Now :: "'db raft_env \<Rightarrow> 'db node \<Rightarrow> ('db node, int) res" where
  "Now E = ask (en_clock E)"

definition SteadyNow :: "'db raft_env \<Rightarrow> 'db node \<Rightarrow> ('db node, int) res" where
  "SteadyNow E = ask (en_steady E)"

definition emit :: "raft_event \<Rightarrow> 'db node \<Rightarrow> 'db node" where
  "emit e s = s\<lparr>nd_events := nd_events s @ [e]\<rparr>"

definition PeerSend :: "'db raft_env \<Rightarrow> int \<Rightarrow> raft_rpc \<Rightarrow> 'db node \<Rightarrow> ('db node, bool) res" where
  "PeerSend E peer m s =
     bindR (ask (en_send_ok E) s) (\<lambda>accepted s. Ok accepted (if accepted then emit (EvSend peer m) s else s))"

definition PeerBroadcast :: "'db raft_env \<Rightarrow> raft_rpc \<Rightarrow> 'db node \<Rightarrow> ('db node, unit) res" where
  "PeerBroadcast E m s =
     foldR (\<lambda>peer s. bindR (PeerSend E peer m s) (\<lambda>_. Ok ()))
       (filter (\<lambda>i. i \<noteq> nd_id s) (map pi_id (nd_peers s))) s"

definition on_log :: "('db raft_log \<Rightarrow> ('db raft_log, 'a) res) \<Rightarrow> 'db node \<Rightarrow> ('db node, 'a) res" where
  "on_log f s =
     (case f (nd_log s) of
        Ok x l \<Rightarrow> Ok x (s\<lparr>nd_log := l\<rparr>)
      | Throw e l \<Rightarrow> Throw e (s\<lparr>nd_log := l\<rparr>))"

definition LogGet :: "'db raft_env \<Rightarrow> int \<Rightarrow> 'db node \<Rightarrow> ('db node, log_entry option) res" where
  "LogGet E i s = liftR (Log_Get (en_rocks E) (en_codec E) (nd_log s) i) s"

definition LogTerm :: "'db raft_env \<Rightarrow> int \<Rightarrow> 'db node \<Rightarrow> ('db node, int) res" where
  "LogTerm E i s = liftR (GetTerm (en_rocks E) (en_codec E) (nd_log s) i) s"

definition at_key :: "('k \<Rightarrow> 'v option) \<Rightarrow> 'k \<Rightarrow> exn + 'v" where
  "at_key m k = (case m k of None \<Rightarrow> Inl (Out_of_range ''map::at'') | Some v \<Rightarrow> Inr v)"

definition or_zero :: "(int \<Rightarrow> int option) \<Rightarrow> int \<Rightarrow> int" where
  "or_zero m k = (case m k of None \<Rightarrow> 0 | Some v \<Rightarrow> v)"

definition LastIndex :: "'db node \<Rightarrow> int" where "LastIndex s = rl_last_index (nd_log s)"
definition LastTerm :: "'db node \<Rightarrow> int" where "LastTerm s = rl_last_term (nd_log s)"
definition SnapshotIndex :: "'db node \<Rightarrow> int" where "SnapshotIndex s = rl_snapshot_index (nd_log s)"
definition SnapshotTerm :: "'db node \<Rightarrow> int" where "SnapshotTerm s = rl_snapshot_term (nd_log s)"

definition QuorumSize :: "'db node \<Rightarrow> nat" where
  "QuorumSize s = length (nd_peers s) div 2 + 1"

definition IsLeader :: "'db node \<Rightarrow> bool" where
  "IsLeader s \<longleftrightarrow> nd_running s \<and> nd_state s = LEADER"

definition IsRemotePeer :: "int \<Rightarrow> 'db node \<Rightarrow> bool" where
  "IsRemotePeer i s \<longleftrightarrow> i \<noteq> nd_id s \<and> nd_next_index s i \<noteq> None"

definition upd_flight :: "int \<Rightarrow> (inflight \<Rightarrow> inflight) \<Rightarrow> 'db node \<Rightarrow> 'db node" where
  "upd_flight peer f s = s\<lparr>nd_inflight := (nd_inflight s)(peer := map_option f (nd_inflight s peer))\<rparr>"

definition upd_reads :: "(read_state \<Rightarrow> read_state) \<Rightarrow> 'db node \<Rightarrow> 'db node" where
  "upd_reads f s = s\<lparr>nd_reads := f (nd_reads s)\<rparr>"

definition upd_metrics :: "(node_metrics \<Rightarrow> node_metrics) \<Rightarrow> 'db node \<Rightarrow> 'db node" where
  "upd_metrics f s = s\<lparr>nd_metrics := f (nd_metrics s)\<rparr>"

section \<open>Timers and pending proposals\<close>

definition ResetElectionTimer :: "'db raft_env \<Rightarrow> 'db node \<Rightarrow> ('db node, unit) res" where
  "ResetElectionTimer E s =
     bindR (ask (en_rand E) s) (\<lambda>timeout_ms s.
     bindR (Now E s) (\<lambda>now s. Ok () (s\<lparr>nd_election_deadline := now + ms timeout_ms\<rparr>)))"

definition NotePeerContact :: "'db raft_env \<Rightarrow> int \<Rightarrow> 'db node \<Rightarrow> ('db node, unit) res" where
  "NotePeerContact E peer s =
     bindR (Now E s) (\<lambda>now s. Ok () (s\<lparr>nd_peer_active := (nd_peer_active s)(peer := Some now)\<rparr>))"

definition complete_proposal :: "bool \<Rightarrow> bytes \<Rightarrow> pending \<Rightarrow> 'db node \<Rightarrow> 'db node" where
  "complete_proposal ok result p s =
     (case pd_callback p of None \<Rightarrow> s | Some c \<Rightarrow> emit (EvPropose c ok result) s)"

definition FailPending :: "bytes \<Rightarrow> 'db node \<Rightarrow> 'db node" where
  "FailPending result s =
     fold (\<lambda>(i, p). complete_proposal False result p) (nd_pending s)
       (s\<lparr>nd_pending := [], nd_pending_bytes := 0\<rparr>)"

definition expired :: "int \<Rightarrow> 'db node \<Rightarrow> int \<times> pending \<Rightarrow> bool" where
  "expired now s ip \<longleftrightarrow>
     \<not> fst ip \<le> nd_commit_index s \<and> \<not> now - pd_created_at (snd ip) < ms kProposalTimeoutMs"

definition ExpireUncommittedProposals :: "'db raft_env \<Rightarrow> 'db node \<Rightarrow> ('db node, unit) res" where
  "ExpireUncommittedProposals E s =
     bindR (Now E s) (\<lambda>now s.
       (let out = filter (expired now s) (nd_pending s);
            s = s\<lparr>nd_pending := filter (\<lambda>ip. \<not> expired now s ip) (nd_pending s),
                  nd_pending_bytes := nd_pending_bytes s - sum_list (map (pd_bytes \<circ> snd) out)\<rparr>;
            s = upd_metrics (\<lambda>m. m\<lparr>nm_proposal_timeouts := nm_proposal_timeouts m + word_of_nat (length out)\<rparr>) s
        in Ok () (fold (\<lambda>(i, p). complete_proposal False (''-ERR proposal timeout; outcome unknown'' @ CRLF) p) out s)))"

end
