(* ===== verification/RaftReplication.thy ===== *)
theory RaftReplication
  imports RaftState
begin

text \<open>
  Replication, application and ReadIndex of \<open>src/src/raft/raft_node.cc\<close>: sending entries and snapshot
  chunks, advancing the commit index, applying committed entries through the state machine, snapshots
  of the applied state, and the heartbeat rounds behind linearizable reads.

  Loops over log indices are recursions over the list of indices, the binary search of
  \<open>ConflictIndex\<close> is a recursion on its interval. \<open>apply_loop\<close> is bounded by the number of entries
  left to apply, which every round reduces. Log messages are left out. The loop of
  \<open>TryStartReadRound\<close> empties the queue it tests in its first round; only a callback that calls back
  into the node could refill it, so it is a conditional here.
\<close>

section \<open>Sending\<close>

fun bind_round :: "int \<Rightarrow> 64 word \<Rightarrow> heartbeat_round list \<Rightarrow> heartbeat_round list" where
  "bind_round peer rpc_id [] = []"
| "bind_round peer rpc_id (r # rs) =
     (if hr_confirmed r \<or> hr_probe_rpc_ids r peer \<noteq> None then r # bind_round peer rpc_id rs
      else r\<lparr>hr_probe_rpc_ids := (hr_probe_rpc_ids r)(peer := Some rpc_id)\<rparr> # rs)"

definition BindReadIndexProbe :: "int \<Rightarrow> 64 word \<Rightarrow> 'db node \<Rightarrow> 'db node" where
  "BindReadIndexProbe peer rpc_id = upd_reads (\<lambda>r. r\<lparr>rs_rounds := bind_round peer rpc_id (rs_rounds r)\<rparr>)"

definition next_rpc_id :: "'db node \<Rightarrow> ('db node, 64 word) res" where
  "next_rpc_id s =
     (if nd_rpc_sequence s = - 1 then Throw (Runtime_error ''Raft RPC sequence exhausted'') s
      else Ok (nd_rpc_sequence s + 1) (s\<lparr>nd_rpc_sequence := nd_rpc_sequence s + 1\<rparr>))"

definition SendSnapshotChunk :: "'db raft_env \<Rightarrow> int \<Rightarrow> 'db node \<Rightarrow> ('db node, unit) res" where
  "SendSnapshotChunk E peer s =
     bindR (liftR (at_key (nd_inflight s) peer) s) (\<lambda>flight s.
     if fl_snapshot_offset flight > length (fl_snapshot_data flight)
       then Throw (Runtime_error ''snapshot send offset past the end'') s
     else
       (let remain = length (fl_snapshot_data flight) - fl_snapshot_offset flight;
            chunk = min (nd_snapshot_chunk_bytes s) remain in
        bindR (next_rpc_id s) (\<lambda>rpc_id s.
        (let request = InstallSnapshotRequest
               \<lparr>is_term = nd_current_term s, is_leader_id = nd_id s,
                is_last_included_index = fl_snapshot_index flight,
                is_last_included_term = fl_snapshot_term flight,
                is_offset = int (fl_snapshot_offset flight),
                is_data = substr (fl_snapshot_data flight) (fl_snapshot_offset flight) chunk,
                is_done = (fl_snapshot_offset flight + chunk = length (fl_snapshot_data flight)),
                is_rpc_id = rpc_id\<rparr> in
         bindR (Now E s) (\<lambda>now s.
         (let s = upd_flight peer (\<lambda>f. f\<lparr>fl_id := rpc_id, fl_snapshot_chunk := chunk,
                    fl_last_index := fl_snapshot_index f, fl_entries := 0, fl_elapsed_ms := 0,
                    fl_type := kInstallSnapshot, fl_first_send := now, fl_payload := Some request\<rparr>) s in
          bindR (PeerSend E peer request s) (\<lambda>accepted s.
            Ok () (if accepted then s else upd_flight peer (\<lambda>f. f\<lparr>fl_id := 0\<rparr>) s))))))))"

fun collect_entries ::
  "'db raft_env \<Rightarrow> 'db raft_log \<Rightarrow> int list \<Rightarrow> nat \<Rightarrow> log_entry list \<Rightarrow> exn + log_entry list" where
  "collect_entries E l [] bytes acc = Inr acc"
| "collect_entries E l (i # is) bytes acc =
     bindE (Log_Get (en_rocks E) (en_codec E) l i) (\<lambda>e.
     case e of
       None \<Rightarrow> Inl (Runtime_error ''missing replication entry'')
     | Some entry \<Rightarrow>
         (let size = en_entry_size E entry + 16 in
          if size > kMaxBatchBytes - 128 then Inl (Runtime_error ''oversized Raft entry'')
          else if length acc \<ge> kMaxBatchEntries \<or> size > kMaxBatchBytes - bytes then Inr acc
          else collect_entries E l is (bytes + size) (acc @ [entry])))"

definition retry_flight :: "'db raft_env \<Rightarrow> int \<Rightarrow> inflight \<Rightarrow> 'db node \<Rightarrow> ('db node, unit) res" where
  "retry_flight E peer flight s =
     (if fl_elapsed_ms flight \<ge> kRpcRetryMs then
        (case fl_payload flight of
           None \<Rightarrow> Ok () s
         | Some m \<Rightarrow>
             bindR (PeerSend E peer m s) (\<lambda>accepted s.
               Ok () (if accepted
                      then upd_metrics (\<lambda>x. x\<lparr>nm_replication_retry_attempts := nm_replication_retry_attempts x + 1\<rparr>)
                             (upd_flight peer (\<lambda>f. f\<lparr>fl_elapsed_ms := 0\<rparr>) s)
                      else s)))
      else Ok () s)"

definition send_entries :: "'db raft_env \<Rightarrow> int \<Rightarrow> int \<Rightarrow> 'db node \<Rightarrow> ('db node, unit) res" where
  "send_entries E peer next s =
     (let previous = next - 1 in
      bindR (LogTerm E previous s) (\<lambda>prev_term s.
      bindR (next_rpc_id s) (\<lambda>rpc_id s.
      bindR (liftR (collect_entries E (nd_log s) [next .. LastIndex s] 128 []) s) (\<lambda>entries s.
      (let request = AppendEntries
             \<lparr>ae_term = nd_current_term s, ae_leader_id = nd_id s, ae_prev_log_index = previous,
              ae_prev_log_term = prev_term, ae_entries = entries, ae_leader_commit = nd_commit_index s,
              ae_rpc_id = rpc_id\<rparr> in
       bindR (Now E s) (\<lambda>lease_sent_at s.
       bindR (PeerSend E peer request s) (\<lambda>accepted s.
       if \<not> accepted then Ok () s
       else
         bindR (SteadyNow E s) (\<lambda>first_send s.
           Ok () (BindReadIndexProbe peer rpc_id
             (upd_flight peer (\<lambda>f. f\<lparr>fl_id := rpc_id, fl_last_index := previous + int (length entries),
                fl_elapsed_ms := 0, fl_entries := length entries, fl_type := kAppendEntries,
                fl_snapshot := False, fl_payload := Some request, fl_first_send := first_send,
                fl_lease_sent_at := lease_sent_at\<rparr>) s)))))))))) "

definition SendAppendEntries :: "'db raft_env \<Rightarrow> int \<Rightarrow> 'db node \<Rightarrow> ('db node, unit) res" where
  "SendAppendEntries E peer s =
     bindR (liftR (at_key (nd_inflight s) peer) s) (\<lambda>flight s.
     if fl_id flight \<noteq> 0 then retry_flight E peer flight s
     else
       bindR (liftR (at_key (nd_next_index s) peer) s) (\<lambda>next s.
       if SnapshotIndex s > 0 \<and> next \<le> SnapshotIndex s then
         SendSnapshotChunk E peer
           (upd_flight peer (\<lambda>f. f\<lparr>fl_snapshot := True, fl_snapshot_data := rl_snapshot_data (nd_log s),
              fl_snapshot_index := SnapshotIndex s, fl_snapshot_term := SnapshotTerm s,
              fl_snapshot_offset := 0\<rparr>) s)
       else send_entries E peer next s))"

definition BroadcastAppendEntries :: "'db raft_env \<Rightarrow> 'db node \<Rightarrow> ('db node, unit) res" where
  "BroadcastAppendEntries E s =
     foldR (\<lambda>peer. SendAppendEntries E peer) (filter (\<lambda>i. i \<noteq> nd_id s) (map pi_id (nd_peers s))) s"

section \<open>ReadIndex rounds\<close>

definition PendingReadIndexCount :: "read_state \<Rightarrow> nat" where
  "PendingReadIndexCount r =
     length (rs_pending r) + length (rs_unsent r) + sum_list (map (length \<circ> hr_requests) (rs_rounds r))"

definition read_done :: "read_request \<Rightarrow> 'db node \<Rightarrow> 'db node" where
  "read_done q s =
     upd_reads (\<lambda>r. r\<lparr>rs_succeeded := rs_succeeded r + 1\<rparr>) (emit (EvRead (rr_callback q) True (rr_read_index q) []) s)"

definition read_failed :: "string \<Rightarrow> read_request \<Rightarrow> 'db node \<Rightarrow> 'db node" where
  "read_failed reason q s = emit (EvRead (rr_callback q) False (- 1) reason) s"

definition set_completing :: "bool \<Rightarrow> 'db node \<Rightarrow> 'db node" where
  "set_completing b = upd_reads (\<lambda>r. r\<lparr>rs_completing := b\<rparr>)"

definition finish_or_wait :: "read_request \<Rightarrow> 'db node \<Rightarrow> 'db node" where
  "finish_or_wait q s =
     (if nd_last_applied s \<ge> rr_read_index q then read_done q s
      else upd_reads (\<lambda>r. r\<lparr>rs_pending := rs_pending r @ [q]\<rparr>) s)"

text \<open>The requests of a confirmed round; the caller has taken them out of the round.\<close>

definition ProcessConfirmedRound :: "read_request list \<Rightarrow> 'db node \<Rightarrow> 'db node" where
  "ProcessConfirmedRound requests s =
     (let nested = rs_completing (nd_reads s) in
      set_completing nested (fold finish_or_wait requests (set_completing True s)))"

definition TryStartReadRound :: "'db raft_env \<Rightarrow> 'db node \<Rightarrow> ('db node, unit) res" where
  "TryStartReadRound E s =
     (if rs_unsent (nd_reads s) \<noteq> [] \<and> rs_rounds (nd_reads s) = [] then
        (let requests = rs_unsent (nd_reads s);
             round_id = rs_next_round_id (nd_reads s) + 1;
             s = upd_reads (\<lambda>r. r\<lparr>rs_next_round_id := round_id, rs_unsent := []\<rparr>) s in
         bindR (Now E s) (\<lambda>now s.
           (let round = \<lparr>hr_round_id = round_id, hr_acks = {nd_id s}, hr_requests = requests,
                         hr_probe_rpc_ids = (\<lambda>_. None), hr_sent_at = now, hr_confirmed = False\<rparr> in
            if QuorumSize s \<noteq> 1
              then Ok () (upd_reads (\<lambda>r. r\<lparr>rs_rounds := [round], rs_in_flight := True\<rparr>) s)
            else
              (let s = ProcessConfirmedRound requests
                         (upd_reads (\<lambda>r. r\<lparr>rs_rounds := [round\<lparr>hr_confirmed := True, hr_requests := []\<rparr>],
                                           rs_in_flight := True\<rparr>) s)
               in Ok () (upd_reads (\<lambda>r. r\<lparr>rs_rounds := tl (rs_rounds r), rs_in_flight := False\<rparr>) s)))))
      else Ok () s)"

fun ack_round :: "int \<Rightarrow> nat \<Rightarrow> int \<Rightarrow> 64 word \<Rightarrow> heartbeat_round list \<Rightarrow>
    heartbeat_round list \<times> read_request list" where
  "ack_round now quorum peer rpc_id [] = ([], [])"
| "ack_round now quorum peer rpc_id (r # rs) =
     (if hr_confirmed r \<or> hr_probe_rpc_ids r peer \<noteq> Some rpc_id then
        (case ack_round now quorum peer rpc_id rs of (rs', qs) \<Rightarrow> (r # rs', qs))
      else if now - hr_sent_at r \<ge> ms kMinElectionTimeoutMs then (r # rs, [])
      else
        (let r = r\<lparr>hr_acks := insert peer (hr_acks r)\<rparr> in
         if card (hr_acks r) \<ge> quorum then (r\<lparr>hr_confirmed := True, hr_requests := []\<rparr> # rs, hr_requests r)
         else (r # rs, [])))"

definition AckReadIndexProbe :: "'db raft_env \<Rightarrow> int \<Rightarrow> 64 word \<Rightarrow> 'db node \<Rightarrow> ('db node, unit) res" where
  "AckReadIndexProbe E peer rpc_id s =
     bindR (Now E s) (\<lambda>now s.
       (case ack_round now (QuorumSize s) peer rpc_id (rs_rounds (nd_reads s)) of (rounds, requests) \<Rightarrow>
          (let s = upd_reads (\<lambda>r. r\<lparr>rs_rounds := rounds\<rparr>) s
           in Ok () (if requests = [] then s else ProcessConfirmedRound requests s))))"

definition MaybeSendReadProbes :: "'db raft_env \<Rightarrow> 'db node \<Rightarrow> ('db node, unit) res" where
  "MaybeSendReadProbes E s =
     (case rs_rounds (nd_reads s) of
        [] \<Rightarrow> Ok () s
      | r # _ \<Rightarrow>
          if hr_confirmed r then Ok () s
          else
            foldR (\<lambda>peer s.
                case rs_rounds (nd_reads s) of
                  [] \<Rightarrow> Ok () s
                | r # _ \<Rightarrow>
                    if peer = nd_id s \<or> hr_probe_rpc_ids r peer \<noteq> None then Ok () s
                    else SendAppendEntries E peer s)
              (map pi_id (nd_peers s)) s)"

definition FinishReadIndexRounds :: "'db raft_env \<Rightarrow> 'db node \<Rightarrow> ('db node, unit) res" where
  "FinishReadIndexRounds E s =
     (let s = upd_reads (\<lambda>r. r\<lparr>rs_rounds := dropWhile hr_confirmed (rs_rounds r),
                              rs_in_flight := (dropWhile hr_confirmed (rs_rounds r) \<noteq> [])\<rparr>) s in
      bindR (TryStartReadRound E s) (\<lambda>_. MaybeSendReadProbes E))"

definition ProcessPendingReads :: "'db raft_env \<Rightarrow> 'db node \<Rightarrow> ('db node, unit) res" where
  "ProcessPendingReads E s =
     (let nested = rs_completing (nd_reads s);
          ready = (\<lambda>q. nd_last_applied s \<ge> rr_read_index q);
          done_reads = takeWhile ready (rs_pending (nd_reads s));
          s = set_completing True s;
          s = upd_reads (\<lambda>r. r\<lparr>rs_pending := dropWhile ready (rs_pending r)\<rparr>) s;
          s = set_completing nested (fold read_done done_reads s)
      in if \<not> nested then FinishReadIndexRounds E s else Ok () s)"

definition timeout_reads :: "string \<Rightarrow> read_request list \<Rightarrow> 'db node \<Rightarrow> 'db node" where
  "timeout_reads reason qs s =
     upd_reads (\<lambda>r. r\<lparr>rs_timeout := rs_timeout r + word_of_nat (length qs)\<rparr>) (fold (read_failed reason) qs s)"

definition CheckReadIndexTimeout :: "'db raft_env \<Rightarrow> 'db node \<Rightarrow> ('db node, unit) res" where
  "CheckReadIndexTimeout E s =
     bindR (Now E s) (\<lambda>now s.
       (let nested = rs_completing (nd_reads s);
            s = set_completing True s;
            old_round = (\<lambda>r. \<not> now - hr_sent_at r < ms kMinElectionTimeoutMs);
            old_read = (\<lambda>q. \<not> now - rr_created_at q \<le> ms kReadIndexTimeoutMs);
            late = takeWhile old_round (rs_rounds (nd_reads s));
            s = timeout_reads ''read index timeout'' (concat (map hr_requests late)) s;
            s = upd_reads (\<lambda>r. r\<lparr>rs_rounds := dropWhile old_round (rs_rounds r),
                                rs_in_flight := (dropWhile old_round (rs_rounds r) \<noteq> [])\<rparr>) s;
            s = timeout_reads ''read index timeout'' (takeWhile old_read (rs_unsent (nd_reads s))) s;
            s = upd_reads (\<lambda>r. r\<lparr>rs_unsent := dropWhile old_read (rs_unsent r)\<rparr>) s;
            s = timeout_reads ''apply timeout'' (takeWhile old_read (rs_pending (nd_reads s))) s;
            s = upd_reads (\<lambda>r. r\<lparr>rs_pending := dropWhile old_read (rs_pending r)\<rparr>) s
        in Ok () (set_completing nested s)))"

definition ClearReadIndexQueues :: "string \<Rightarrow> 'db node \<Rightarrow> 'db node" where
  "ClearReadIndexQueues reason s =
     (let r = nd_reads s;
          all = concat (map hr_requests (rs_rounds r)) @ rs_unsent r @ rs_pending r
      in upd_reads (\<lambda>r. r\<lparr>rs_rounds := [], rs_in_flight := False, rs_unsent := [], rs_pending := []\<rparr>)
           (fold (read_failed reason) all s))"

definition ReadLeaseValid :: "'db raft_env \<Rightarrow> 'db node \<Rightarrow> ('db node, bool) res" where
  "ReadLeaseValid E s =
     (if \<not> nd_lease_reads s \<or> \<not> IsLeader s \<or> \<not> rs_can_serve_read (nd_reads s) then Ok False s
      else
        bindR (Now E s) (\<lambda>now s.
          if now - nd_leader_since s < ms kMaxElectionTimeoutMs then Ok False s
          else if QuorumSize s \<le> 1 then Ok True s
          else
            (let fresh = (\<lambda>i. i \<noteq> nd_id s \<and>
                   (case nd_lease_confirmed s i of None \<Rightarrow> False | Some t \<Rightarrow> now - t < ms kMinElectionTimeoutMs))
             in Ok (1 + length (filter fresh (map pi_id (nd_peers s))) \<ge> QuorumSize s) s)))"

definition reject_read :: "nat \<Rightarrow> string \<Rightarrow> 'db node \<Rightarrow> 'db node" where
  "reject_read callback reason s = emit (EvRead callback False (- 1) reason) s"

definition RequestReadIndex :: "'db raft_env \<Rightarrow> nat \<Rightarrow> 'db node \<Rightarrow> ('db node, bool) res" where
  "RequestReadIndex E callback s =
     (let s = upd_reads (\<lambda>r. r\<lparr>rs_total := rs_total r + 1\<rparr>) s in
      if \<not> IsLeader s then
        Ok False (reject_read callback (if nd_leader_id s = - 1 then ''no leader'' else ''not leader'')
                    (upd_reads (\<lambda>r. r\<lparr>rs_not_leader := rs_not_leader r + 1\<rparr>) s))
      else if \<not> rs_can_serve_read (nd_reads s) then
        Ok False (reject_read callback ''waiting for leader to commit no-op''
                    (upd_reads (\<lambda>r. r\<lparr>rs_not_leader := rs_not_leader r + 1\<rparr>) s))
      else if PendingReadIndexCount (nd_reads s) \<ge> kMaxPendingReadIndex then
        Ok False (reject_read callback ''read index queue full''
                    (upd_reads (\<lambda>r. r\<lparr>rs_overload := rs_overload r + 1\<rparr>) s))
      else
        bindR (ReadLeaseValid E s) (\<lambda>lease s.
        bindR (Now E (if lease then upd_reads (\<lambda>r. r\<lparr>rs_lease := rs_lease r + 1\<rparr>) s else s)) (\<lambda>now s.
        (let q = \<lparr>rr_read_index = nd_commit_index s, rr_callback = callback, rr_created_at = now\<rparr> in
         if lease then
           (if nd_last_applied s < rr_read_index q \<or> rs_completing (nd_reads s)
            then Ok True (upd_reads (\<lambda>r. r\<lparr>rs_pending := rs_pending r @ [q]\<rparr>) s)
            else
              bindR (ProcessPendingReads E (set_completing False (read_done q (set_completing True s))))
                (\<lambda>_. Ok True))
         else
           (let s = upd_reads (\<lambda>r. r\<lparr>rs_unsent := rs_unsent r @ [q]\<rparr>) s in
            if \<not> rs_completing (nd_reads s) then bindR (FinishReadIndexRounds E s) (\<lambda>_. Ok True)
            else Ok True s)))))"

section \<open>Conflicts and snapshots\<close>

function conflict_search :: "'db raft_env \<Rightarrow> 'db raft_log \<Rightarrow> int \<Rightarrow> int \<Rightarrow> int \<Rightarrow> exn + int" where
  "conflict_search E l t low high =
     (if high - low > 1 then
        (let mid = low + (high - low) div 2 in
         bindE (GetTerm (en_rocks E) (en_codec E) l mid) (\<lambda>x.
           if x = t then conflict_search E l t low mid else conflict_search E l t mid high))
      else Inr high)"
  by pat_completeness auto
termination
  by (relation "measure (\<lambda>(E, l, t, low, high). nat (high - low))") auto

definition ConflictIndex :: "'db raft_env \<Rightarrow> 'db raft_log \<Rightarrow> int \<Rightarrow> exn + int" where
  "ConflictIndex E l index =
     bindE (GetTerm (en_rocks E) (en_codec E) l index) (\<lambda>t.
       if t \<le> 0 then Inr index
       else
         bindE (conflict_search E l t (rl_snapshot_index l) index) (\<lambda>high.
           Inr (if high = rl_snapshot_index l + 1 \<and> rl_snapshot_index l > 0 \<and> rl_snapshot_term l = t
                then rl_snapshot_index l else high)))"

definition MaybeSnapshot :: "'db raft_env \<Rightarrow> 'db node \<Rightarrow> ('db node, unit) res" where
  "MaybeSnapshot E s =
     (if \<not> nd_running s \<or> nd_apply_inflight s \<or> nd_snapshot_threshold s \<le> 0 then Ok () s
      else
        (let index = nd_last_applied s;
             previous = max (SnapshotIndex s) (nd_last_snapshot_attempt s) in
         if index \<le> SnapshotIndex s then Ok () s
         else if index \<le> previous \<or> index - previous < nd_snapshot_threshold s then Ok () s
         else
           bindR (LogTerm E index s) (\<lambda>t s.
           if t \<le> 0 then Ok () s
           else
             bindR (liftR (ExportSnapshot (en_rocks E) (nd_sm s)) s) (\<lambda>data s.
             (let s = s\<lparr>nd_last_snapshot_attempt := index\<rparr> in
              if length data > kMaxSnapshotBytes
                then Ok () (upd_metrics (\<lambda>m. m\<lparr>nm_snapshot_oversize_skips := nm_snapshot_oversize_skips m + 1\<rparr>) s)
              else on_log (CompactApplied (en_rocks E) (en_codec E) index t data) s)))))"

section \<open>Applying committed entries\<close>

fun take_results :: "int \<Rightarrow> bytes list \<Rightarrow> (int \<times> pending) list \<Rightarrow>
    (pending \<times> bytes) list \<times> (int \<times> pending) list" where
  "take_results i [] ps = ([], ps)"
| "take_results i (r # rs) ps =
     (case map_of ps i of
        None \<Rightarrow> take_results (i + 1) rs ps
      | Some p \<Rightarrow>
          (case take_results (i + 1) rs (map_erase i ps) of (out, ps') \<Rightarrow> ((p, r) # out, ps')))"

definition FinishApply ::
  "'db raft_env \<Rightarrow> int \<Rightarrow> nat \<Rightarrow> bytes list \<Rightarrow> 64 word \<Rightarrow> nat \<Rightarrow> 64 word \<Rightarrow> 'db node \<Rightarrow> ('db node, unit) res" where
  "FinishApply E first count results work_us bytes dispatch_us s =
     (if first \<noteq> nd_last_applied s + 1 \<or> length results \<noteq> count
      then Throw (Runtime_error ''out-of-order state machine completion'') s
      else
        (let s = s\<lparr>nd_last_applied := nd_last_applied s + int count\<rparr>;
             s = upd_metrics (\<lambda>m. m\<lparr>nm_apply_batches := nm_apply_batches m + 1,
                                   nm_kv_apply := Batch_Observe work_us count bytes (nm_kv_apply m),
                                   nm_apply_dispatch := Latency_Observe dispatch_us (nm_apply_dispatch m)\<rparr>) s in
         bindR (if nd_state s = LEADER \<and> \<not> rs_can_serve_read (nd_reads s) \<and> nd_commit_index s > 0 then
                  bindR (LogTerm E (nd_commit_index s) s) (\<lambda>t s.
                    Ok () (if t = nd_current_term s then upd_reads (\<lambda>r. r\<lparr>rs_can_serve_read := True\<rparr>) s else s))
                else Ok () s) (\<lambda>_ s.
         bindR (ProcessPendingReads E s) (\<lambda>_ s.
           (case take_results first results (nd_pending s) of (out, rest) \<Rightarrow>
              Ok () (fold (\<lambda>(p, r). complete_proposal True r p) out
                (s\<lparr>nd_pending := rest,
                   nd_pending_bytes := nd_pending_bytes s - sum_list (map (pd_bytes \<circ> fst) out)\<rparr>)))))))"

fun collect_commands ::
  "'db raft_env \<Rightarrow> 'db raft_log \<Rightarrow> int list \<Rightarrow> nat \<Rightarrow> bytes list \<Rightarrow> exn + bytes list \<times> nat" where
  "collect_commands E l [] bytes acc = Inr (acc, bytes)"
| "collect_commands E l (i # is) bytes acc =
     bindE (Log_Get (en_rocks E) (en_codec E) l i) (\<lambda>e.
     case e of
       None \<Rightarrow> Inl (Runtime_error ''missing committed entry'')
     | Some entry \<Rightarrow>
         (let size = length (le_command entry) in
          if size > kMaxCommandBytes then Inl (Runtime_error ''oversized committed entry'')
          else if acc \<noteq> [] \<and> (length acc \<ge> kMaxBatchEntries \<or> size > kMaxBatchBytes - bytes) then Inr (acc, bytes)
          else collect_commands E l is (bytes + size) (acc @ [le_command entry])))"

definition on_sm :: "('db kv_store \<Rightarrow> ('db kv_store, 'a) res) \<Rightarrow> 'db node \<Rightarrow> ('db node, 'a) res" where
  "on_sm f s =
     (case f (nd_sm s) of
        Ok x m \<Rightarrow> Ok x (s\<lparr>nd_sm := m\<rparr>)
      | Throw e m \<Rightarrow> Throw e (s\<lparr>nd_sm := m\<rparr>))"

definition fail_storage :: "exn \<Rightarrow> 'db node \<Rightarrow> ('db node, 'a) res" where
  "fail_storage e s = Throw e (s\<lparr>nd_storage_healthy := False\<rparr>)"

definition apply_now :: "'db raft_env \<Rightarrow> int \<Rightarrow> bytes list \<Rightarrow> nat \<Rightarrow> 'db node \<Rightarrow> ('db node, unit) res" where
  "apply_now E first commands bytes s =
     bindR (SteadyNow E s) (\<lambda>started s.
     catchR
       (bindR (on_sm (ApplyBatch (en_rocks E) first commands) s) (\<lambda>results s.
        bindR (SteadyNow E s) (\<lambda>finished s.
          FinishApply E first (length commands) results (ElapsedMicros started finished) bytes 0 s)))
       fail_storage)"

definition submit_apply :: "'db raft_env \<Rightarrow> int \<Rightarrow> bytes list \<Rightarrow> nat \<Rightarrow> 'db node \<Rightarrow> ('db node, unit) res" where
  "submit_apply E first commands bytes s =
     bindR (ask (en_submit_ok E) (s\<lparr>nd_apply_inflight := True\<rparr>)) (\<lambda>accepted s.
       if accepted
       then Ok () (s\<lparr>nd_job := Some \<lparr>aj_first = first, aj_commands = commands, aj_bytes = bytes,
                                     aj_result = None, aj_work_us = 0, aj_finished = 0\<rparr>\<rparr>)
       else Throw (Runtime_error ''state machine executor unavailable'') s)"

text \<open>The result says whether the loop handed its work to the executor and returned.\<close>

fun apply_loop :: "nat \<Rightarrow> 'db raft_env \<Rightarrow> 'db node \<Rightarrow> ('db node, bool) res" where
  "apply_loop 0 E s = Ok False s"
| "apply_loop (Suc n) E s =
     (if nd_running s \<and> nd_last_applied s < nd_commit_index s then
        (let first = nd_last_applied s + 1 in
         bindR (liftR (collect_commands E (nd_log s) [first .. nd_commit_index s] 0 []) s) (\<lambda>(commands, bytes) s.
           if en_executor E then bindR (submit_apply E first commands bytes s) (\<lambda>_. Ok True)
           else bindR (apply_now E first commands bytes s) (\<lambda>_. apply_loop n E)))
      else Ok False s)"

definition ApplyCommitted :: "'db raft_env \<Rightarrow> 'db node \<Rightarrow> ('db node, unit) res" where
  "ApplyCommitted E s =
     (if nd_apply_inflight s then Ok () s
      else
        bindR (apply_loop (nat (nd_commit_index s - nd_last_applied s)) E s) (\<lambda>submitted s.
          if submitted then Ok () s else MaybeSnapshot E s))"

text \<open>The worker of the executor, and the completion it dispatches to the owner thread.\<close>

definition RunApplyJob :: "'db raft_env \<Rightarrow> 'db node \<Rightarrow> ('db node, unit) res" where
  "RunApplyJob E s =
     (case nd_job s of
        None \<Rightarrow> Ok () s
      | Some job \<Rightarrow>
          if aj_result job \<noteq> None then Ok () s
          else
            bindR (SteadyNow E s) (\<lambda>started s.
              (case ApplyBatch (en_rocks E) (aj_first job) (aj_commands job) (nd_sm s) of
                 Throw e m \<Rightarrow> Ok () (s\<lparr>nd_sm := m, nd_job := Some (job\<lparr>aj_result := Some (Inl e)\<rparr>)\<rparr>)
               | Ok results m \<Rightarrow>
                   bindR (SteadyNow E (s\<lparr>nd_sm := m\<rparr>)) (\<lambda>finished s.
                     Ok () (s\<lparr>nd_job := Some (job\<lparr>aj_result := Some (Inr results), aj_finished := finished,
                                                   aj_work_us := ElapsedMicros started finished\<rparr>)\<rparr>)))))"

definition FinishApplyJob :: "'db raft_env \<Rightarrow> 'db node \<Rightarrow> ('db node, unit) res" where
  "FinishApplyJob E s =
     (case nd_job s of
        None \<Rightarrow> Ok () s
      | Some job \<Rightarrow>
          (case aj_result job of
             None \<Rightarrow> Ok () s
           | Some (Inl e) \<Rightarrow> Throw e (s\<lparr>nd_job := None, nd_storage_healthy := False\<rparr>)
           | Some (Inr results) \<Rightarrow>
               bindR (SteadyNow E (s\<lparr>nd_job := None\<rparr>)) (\<lambda>now s.
               bindR (FinishApply E (aj_first job) (length (aj_commands job)) results (aj_work_us job)
                        (aj_bytes job) (ElapsedMicros (aj_finished job) now) s) (\<lambda>_ s.
                 ApplyCommitted E (s\<lparr>nd_apply_inflight := False\<rparr>)))))"

definition AdvanceCommitIndex :: "'db raft_env \<Rightarrow> 'db node \<Rightarrow> ('db node, unit) res" where
  "AdvanceCommitIndex E s =
     bindR (foldr (\<lambda>i r. bindR r (\<lambda>xs s. bindR (liftR (at_key (nd_match_index s) i) s) (\<lambda>x. Ok (x # xs))))
              (map pi_id (nd_peers s)) (Ok [] s)) (\<lambda>matched s.
       (let candidate = rev (sort matched) ! (QuorumSize s - 1) in
        bindR (if candidate > nd_commit_index s then
                 bindR (LogTerm E candidate s) (\<lambda>t s.
                   Ok () (if t = nd_current_term s then s\<lparr>nd_commit_index := candidate\<rparr> else s))
               else Ok () s) (\<lambda>_. ApplyCommitted E)))"

end
