(* ===== verification/RaftNode.thy ===== *)
theory RaftNode
  imports RaftReplication
begin

text \<open>
  Construction, roles and message handlers of \<open>src/src/raft/raft_node.cc\<close>, and the peer table check
  of \<open>src/src/raft/peers.h\<close>.

  A handler maps a node to an outcome. An exception that leaves a handler ends the process, so the
  node of a \<open>Throw\<close> matters only for what it left in the databases. Construction works on the two
  databases: it opens the log, replays a staged snapshot and checks the two against each other.
\<close>

section \<open>Construction\<close>

fun check_peers :: "peer_info list \<Rightarrow> int set \<Rightarrow> exn + int set" where
  "check_peers [] ids = Inr ids"
| "check_peers (p # ps) ids =
     (if pi_id p < 0 \<or> pi_host p = [] \<or> pi_raft_port p < 1 \<or> pi_raft_port p > 65535 \<or> pi_id p \<in> ids
      then Inl (Invalid_argument ''invalid or duplicate Raft peer'')
      else check_peers ps (insert (pi_id p) ids))"

definition ValidatePeers :: "int \<Rightarrow> peer_info list \<Rightarrow> exn + unit" where
  "ValidatePeers self_id peers =
     bindE (check_peers peers {}) (\<lambda>ids.
       if self_id \<notin> ids then Inl (Invalid_argument ''self is not a Raft peer'') else Inr ())"

definition new_reads :: read_state where
  "new_reads = \<lparr>rs_can_serve_read = False, rs_next_round_id = 0, rs_rounds = [], rs_in_flight = False,
     rs_completing = False, rs_unsent = [], rs_pending = [], rs_total = 0, rs_succeeded = 0, rs_timeout = 0,
     rs_not_leader = 0, rs_overload = 0, rs_lease = 0\<rparr>"

definition new_metrics :: node_metrics where
  "new_metrics = \<lparr>nm_proposal_batches = 0, nm_proposal_timeouts = 0, nm_apply_batches = 0,
     nm_leader_log_write = batch_init, nm_follower_log_write = batch_init, nm_kv_apply = batch_init,
     nm_replication_data_ack = latency_init, nm_apply_dispatch = latency_init,
     nm_replication_retry_attempts = 0, nm_snapshot_oversize_skips = 0\<rparr>"

definition peer_map :: "peer_info list \<Rightarrow> 'a \<Rightarrow> int \<Rightarrow> 'a option" where
  "peer_map peers v i = (if i \<in> pi_id ` set peers then Some v else None)"

definition new_node ::
  "int \<Rightarrow> peer_info list \<Rightarrow> 'db kv_store \<Rightarrow> 'db raft_log \<Rightarrow> int \<Rightarrow> int \<Rightarrow> 'db node" where
  "new_node i peers sm l current_term voted_for =
     \<lparr>nd_id = i, nd_peers = peers, nd_sm = sm, nd_log = l, nd_apply_inflight = False, nd_job = None,
      nd_storage_healthy = True, nd_current_term = current_term, nd_voted_for = voted_for,
      nd_state = FOLLOWER, nd_running = False, nd_commit_index = ks_last_applied sm,
      nd_last_applied = ks_last_applied sm, nd_leader_id = - 1, nd_votes = {},
      nd_next_index = peer_map peers 1, nd_match_index = peer_map peers 0,
      nd_inflight = peer_map peers no_flight, nd_snapshot_receive = no_receive,
      nd_snapshot_threshold = 0, nd_last_snapshot_attempt = 0, nd_lease_reads = False,
      nd_snapshot_chunk_bytes = 262144, nd_rpc_sequence = 0, nd_election_deadline = 0,
      nd_leader_since = 0, nd_peer_active = (\<lambda>_. None), nd_lease_confirmed = (\<lambda>_. None),
      nd_heartbeat_timer_ms = 0, nd_pending = [], nd_pending_bytes = 0, nd_reads = new_reads,
      nd_metrics = new_metrics, nd_oracle = 0, nd_events = []\<rparr>"

text \<open>Replaying a staged installation: the state machine first, then the log.\<close>

definition replay_pending ::
  "'db raft_env \<Rightarrow> int \<Rightarrow> 'db kv_store \<times> 'db raft_log \<Rightarrow> ('db kv_store \<times> 'db raft_log, unit) res" where
  "replay_pending E current_term sl =
     bindR (liftR (LoadPendingSnapshot (en_rocks E) (snd sl)) sl) (\<lambda>p sl.
     case p of
       None \<Rightarrow> Ok () sl
     | Some (index, t, data) \<Rightarrow>
         if t > current_term then Throw (Runtime_error ''pending snapshot term exceeds durable hard state'') sl
         else
           bindR (InstallSnapshot (en_rocks E) index data (Ok ()) sl) (\<lambda>_ (sm, l).
             (case Log_InstallSnapshot (en_rocks E) (en_codec E) index t data l of
                Ok _ l \<Rightarrow> Ok () (sm, l)
              | Throw e l \<Rightarrow> Throw e (sm, l))))"

text \<open>The state is the state machine and the database of the log; the result is the node.\<close>

definition RaftNode_new ::
  "'db raft_env \<Rightarrow> int \<Rightarrow> peer_info list \<Rightarrow> 'db kv_store \<times> 'db \<Rightarrow> ('db kv_store \<times> 'db, 'db node) res" where
  "RaftNode_new E i peers sd =
     bindR (liftR (ValidatePeers i peers) sd) (\<lambda>_ (sm, d).
     (case RaftLog_open (en_rocks E) (en_codec E) d of
        Throw e d \<Rightarrow> Throw e (sm, d)
      | Ok l d \<Rightarrow>
          (case LoadHardState (en_rocks E) l of
             Inl e \<Rightarrow> Throw e (sm, rl_db l)
           | Inr (found, current_term, voted_for) \<Rightarrow>
               if current_term < rl_last_term l
               then Throw (Runtime_error ''inconsistent Raft term recovery state'') (sm, rl_db l)
               else
                 (case replay_pending E current_term (sm, l) of
                    Throw e (sm, l) \<Rightarrow> Throw e (sm, rl_db l)
                  | Ok _ (sm, l) \<Rightarrow>
                      if ks_last_applied sm < rl_snapshot_index l \<or> ks_last_applied sm > rl_last_index l \<or>
                         current_term < rl_last_term l
                      then Throw (Runtime_error ''inconsistent KV/log recovery state'') (sm, rl_db l)
                      else if voted_for \<noteq> - 1 \<and> voted_for \<notin> pi_id ` set peers
                      then Throw (Runtime_error ''persisted vote is outside the static membership'') (sm, rl_db l)
                      else Ok (new_node i peers sm l current_term voted_for) (sm, rl_db l)))))"

section \<open>Roles\<close>

definition BecomeFollower :: "'db raft_env \<Rightarrow> int \<Rightarrow> 'db node \<Rightarrow> ('db node, unit) res" where
  "BecomeFollower E t s =
     bindR (if t > nd_current_term s then
              bindR (on_log (SaveHardState (en_rocks E) t (- 1)) s) (\<lambda>_ s.
                Ok () (s\<lparr>nd_current_term := t, nd_voted_for := - 1\<rparr>))
            else Ok () s) (\<lambda>_ s.
     bindR (ResetElectionTimer E (s\<lparr>nd_state := FOLLOWER, nd_leader_id := - 1, nd_votes := {},
              nd_peer_active := (\<lambda>_. None), nd_lease_confirmed := (\<lambda>_. None),
              nd_inflight := (\<lambda>i. map_option (\<lambda>_. no_flight) (nd_inflight s i)),
              nd_snapshot_receive := no_receive\<rparr>)) (\<lambda>_ s.
       (let s = FailPending (''-ERR leadership lost; outcome unknown'' @ CRLF) s;
            s = ClearReadIndexQueues ''leadership lost'' s
        in Ok () (upd_reads (\<lambda>r. r\<lparr>rs_can_serve_read := False\<rparr>) s))))"

definition map_emplace :: "'k::linorder \<Rightarrow> 'v \<Rightarrow> ('k \<times> 'v) list \<Rightarrow> ('k \<times> 'v) list" where
  "map_emplace k v m = (if map_of m k \<noteq> None then m else map_put k v m)"

record proposal =
  pp_command :: bytes
  pp_callback :: "nat option"

text \<open>The size checks of a batch: the running total of the loop, or nothing.\<close>

fun batch_bytes :: "bytes list \<Rightarrow> nat \<Rightarrow> nat option" where
  "batch_bytes [] bytes = Some bytes"
| "batch_bytes (c # cs) bytes =
     (if length c > kMaxCommandBytes \<or> length c > kMaxPendingBytes - bytes then None
      else batch_bytes cs (bytes + length c))"

definition new_entries :: "int \<Rightarrow> int \<Rightarrow> bytes list \<Rightarrow> log_entry list" where
  "new_entries first t commands =
     map2 (\<lambda>i c. \<lparr>le_index = first + int i, le_term = t, le_command = c\<rparr>) [0..<length commands] commands"

definition add_pending :: "'db raft_env \<Rightarrow> int \<times> proposal \<Rightarrow> 'db node \<Rightarrow> ('db node, unit) res" where
  "add_pending E ip s =
     bindR (Now E s) (\<lambda>now s.
       Ok () (s\<lparr>nd_pending := map_emplace (fst ip)
                  \<lparr>pd_callback = pp_callback (snd ip), pd_bytes = length (pp_command (snd ip)), pd_created_at = now\<rparr>
                  (nd_pending s)\<rparr>))"

definition append_own :: "'db raft_env \<Rightarrow> log_entry list \<Rightarrow> nat \<Rightarrow> 'db node \<Rightarrow> ('db node, unit) res" where
  "append_own E entries bytes s =
     bindR (SteadyNow E s) (\<lambda>started s.
     catchR
       (bindR (on_log (AppendBatch (en_rocks E) (en_codec E) entries) s) (\<lambda>_ s.
        bindR (SteadyNow E s) (\<lambda>finished s.
          Ok () (upd_metrics (\<lambda>m. m\<lparr>nm_leader_log_write :=
            Batch_Observe (ElapsedMicros started finished) (length entries) bytes (nm_leader_log_write m)\<rparr>) s))))
       (\<lambda>e s. Throw e (FailPending (''-ERR storage failure; outcome unknown'' @ CRLF)
                        (s\<lparr>nd_storage_healthy := False\<rparr>))))"

definition ProposeBatch :: "'db raft_env \<Rightarrow> proposal list \<Rightarrow> 'db node \<Rightarrow> ('db node, int) res" where
  "ProposeBatch E proposals s =
     (if \<not> IsLeader s then Ok (- 1) s
      else if \<not> nd_storage_healthy s then Ok (- 3) s
      else if proposals = [] \<or> length proposals > kMaxBatchEntries \<or>
              length proposals > kMaxPending - length (nd_pending s) then Ok (- 2) s
      else case batch_bytes (map pp_command proposals) 0 of
        None \<Rightarrow> Ok (- 2) s
      | Some bytes \<Rightarrow>
          if bytes > kMaxPendingBytes - nd_pending_bytes s \<or>
             bytes > kMaxBatchBytes - 128 - length proposals * 64 then Ok (- 2) s
          else if LastIndex s > INT64_MAX - int (length proposals) - 1
            then Throw (Runtime_error ''Raft index exhausted'') s
          else
            (let first = LastIndex s + 1;
                 entries = new_entries first (nd_current_term s) (map pp_command proposals) in
             bindR (append_own E entries bytes s) (\<lambda>_ s.
             bindR (foldR (add_pending E) (zip (map le_index entries) proposals)
                      (upd_metrics (\<lambda>m. m\<lparr>nm_proposal_batches := nm_proposal_batches m + 1\<rparr>) s)) (\<lambda>_ s.
             bindR (BroadcastAppendEntries E
                      (s\<lparr>nd_pending_bytes := nd_pending_bytes s + bytes,
                         nd_match_index := (nd_match_index s)(nd_id s := Some (le_index (last entries)))\<rparr>)) (\<lambda>_ s.
             bindR (AdvanceCommitIndex E s) (\<lambda>_. Ok first))))))"

definition Propose :: "'db raft_env \<Rightarrow> bytes \<Rightarrow> nat option \<Rightarrow> 'db node \<Rightarrow> ('db node, int) res" where
  "Propose E command callback = ProposeBatch E [\<lparr>pp_command = command, pp_callback = callback\<rparr>]"

definition override_on :: "('a \<Rightarrow> 'b option) \<Rightarrow> 'a list \<Rightarrow> 'b \<Rightarrow> 'a \<Rightarrow> 'b option" where
  "override_on m ks v = fold (\<lambda>k m. m(k := Some v)) ks m"

definition BecomeLeader :: "'db raft_env \<Rightarrow> 'db node \<Rightarrow> ('db node, unit) res" where
  "BecomeLeader E s =
     (let ids = map pi_id (nd_peers s);
          s = s\<lparr>nd_state := LEADER, nd_leader_id := nd_id s, nd_peer_active := (\<lambda>_. None),
                nd_lease_confirmed := (\<lambda>_. None),
                nd_next_index := override_on (nd_next_index s) ids (LastIndex s + 1),
                nd_match_index := (override_on (nd_match_index s) ids 0)(nd_id s := Some (LastIndex s)),
                nd_inflight := override_on (nd_inflight s) ids no_flight,
                nd_heartbeat_timer_ms := kHeartbeatIntervalMs\<rparr>;
          s = upd_reads (\<lambda>r. r\<lparr>rs_can_serve_read := False\<rparr>) s in
      bindR (Propose E [] None s) (\<lambda>_ s.
      bindR (Now E s) (\<lambda>now s. NotePeerContact E (nd_id s) (s\<lparr>nd_leader_since := now\<rparr>))))"

definition vote_request :: "bool \<Rightarrow> int \<Rightarrow> 'db node \<Rightarrow> raft_rpc" where
  "vote_request prevote t s =
     RequestVote \<lparr>rv_term = t, rv_candidate_id = nd_id s, rv_last_log_index = LastIndex s,
                  rv_last_log_term = LastTerm s, rv_prevote = prevote\<rparr>"

definition BecomeCandidate :: "'db raft_env \<Rightarrow> 'db node \<Rightarrow> ('db node, unit) res" where
  "BecomeCandidate E s =
     (if nd_current_term s = INT32_MAX then Throw (Runtime_error ''Raft term exhausted'') s
      else
        bindR (on_log (SaveHardState (en_rocks E) (nd_current_term s + 1) (nd_id s)) s) (\<lambda>_ s.
        bindR (ResetElectionTimer E (s\<lparr>nd_current_term := nd_current_term s + 1, nd_voted_for := nd_id s,
                 nd_state := CANDIDATE, nd_leader_id := - 1, nd_votes := {nd_id s}\<rparr>)) (\<lambda>_ s.
          if QuorumSize s = 1 then BecomeLeader E s
          else PeerBroadcast E (vote_request False (nd_current_term s) s) s)))"

definition BecomePreCandidate :: "'db raft_env \<Rightarrow> 'db node \<Rightarrow> ('db node, unit) res" where
  "BecomePreCandidate E s =
     (if QuorumSize s = 1 then BecomeCandidate E s
      else if nd_current_term s = INT32_MAX then Throw (Runtime_error ''Raft term exhausted'') s
      else
        bindR (ResetElectionTimer E (s\<lparr>nd_state := PRE_CANDIDATE, nd_leader_id := - 1, nd_votes := {nd_id s}\<rparr>))
          (\<lambda>_ s. PeerBroadcast E (vote_request True (nd_current_term s + 1) s) s))"

definition Start :: "'db raft_env \<Rightarrow> 'db node \<Rightarrow> ('db node, unit) res" where
  "Start E s =
     bindR (BecomeFollower E (nd_current_term s) (s\<lparr>nd_running := True\<rparr>)) (\<lambda>_. ApplyCommitted E)"

definition Stop :: "'db node \<Rightarrow> 'db node" where
  "Stop s =
     (let s = s\<lparr>nd_running := False, nd_state := FOLLOWER, nd_leader_id := - 1\<rparr>;
          s = FailPending (''-ERR server stopped; outcome unknown'' @ CRLF) s;
          s = ClearReadIndexQueues ''server stopped'' s
      in upd_reads (\<lambda>r. r\<lparr>rs_can_serve_read := False\<rparr>) s)"

definition CheckQuorum :: "'db raft_env \<Rightarrow> 'db node \<Rightarrow> ('db node, unit) res" where
  "CheckQuorum E s =
     bindR (NotePeerContact E (nd_id s) s) (\<lambda>_ s.
     if QuorumSize s \<le> 1 then Ok () s
     else
       bindR (Now E s) (\<lambda>now s.
         if now - nd_leader_since s < ms kMinElectionTimeoutMs then Ok () s
         else
           (let fresh = (\<lambda>i. case nd_peer_active s i of None \<Rightarrow> False | Some t \<Rightarrow> now - t < ms kMinElectionTimeoutMs) in
            if length (filter fresh (map pi_id (nd_peers s))) \<ge> QuorumSize s then Ok () s
            else BecomeFollower E (nd_current_term s) s)))"

section \<open>Votes\<close>

definition IsLogUpToDate :: "int \<Rightarrow> int \<Rightarrow> 'db node \<Rightarrow> bool" where
  "IsLogUpToDate index t s = (if t \<noteq> LastTerm s then t > LastTerm s else index \<ge> LastIndex s)"

definition vote_reply :: "'db raft_env \<Rightarrow> int \<Rightarrow> bool \<Rightarrow> bool \<Rightarrow> 'db node \<Rightarrow> ('db node, unit) res" where
  "vote_reply E peer prevote granted s =
     bindR (PeerSend E peer (RequestVoteResponse
       \<lparr>rvr_term = nd_current_term s, rvr_vote_granted = granted, rvr_prevote = prevote\<rparr>) s) (\<lambda>_. Ok ())"

definition vote_request_valid :: "int \<Rightarrow> request_vote \<Rightarrow> 'db node \<Rightarrow> bool" where
  "vote_request_valid peer q s \<longleftrightarrow>
     \<not> (\<not> nd_running s \<or> \<not> IsRemotePeer peer s \<or> rv_candidate_id q \<noteq> peer \<or> rv_term q \<le> 0 \<or>
        rv_last_log_index q < 0 \<or> rv_last_log_term q < 0 \<or> rv_last_log_term q > rv_term q)"

definition grant_vote :: "'db raft_env \<Rightarrow> int \<Rightarrow> request_vote \<Rightarrow> 'db node \<Rightarrow> ('db node, unit) res" where
  "grant_vote E peer q s =
     (if rv_term q = nd_current_term s \<and> (nd_voted_for s = - 1 \<or> nd_voted_for s = peer) \<and>
         IsLogUpToDate (rv_last_log_index q) (rv_last_log_term q) s
      then
        bindR (on_log (SaveHardState (en_rocks E) (nd_current_term s) peer) s) (\<lambda>_ s.
        bindR (ResetElectionTimer E (s\<lparr>nd_voted_for := peer\<rparr>)) (\<lambda>_. vote_reply E peer (rv_prevote q) True))
      else vote_reply E peer (rv_prevote q) False s)"

definition HandleRequestVote :: "'db raft_env \<Rightarrow> int \<Rightarrow> request_vote \<Rightarrow> 'db node \<Rightarrow> ('db node, unit) res" where
  "HandleRequestVote E peer q s =
     (if \<not> vote_request_valid peer q s then Ok () s
      else if rv_prevote q \<and> nd_state s = LEADER then vote_reply E peer True False s
      else
        bindR (if nd_state s = FOLLOWER \<and> nd_leader_id s \<noteq> - 1 \<and> nd_leader_id s \<noteq> peer
               then bindR (Now E s) (\<lambda>now s. Ok (now < nd_election_deadline s) s)
               else Ok False s) (\<lambda>disruptive s.
        if disruptive then vote_reply E peer (rv_prevote q) False s
        else if rv_prevote q then
          vote_reply E peer True
            (rv_term q > nd_current_term s \<and> IsLogUpToDate (rv_last_log_index q) (rv_last_log_term q) s) s
        else
          bindR (if rv_term q > nd_current_term s then BecomeFollower E (rv_term q) s else Ok () s)
            (\<lambda>_. grant_vote E peer q)))"

definition HandleRequestVoteResponse ::
  "'db raft_env \<Rightarrow> int \<Rightarrow> request_vote_response \<Rightarrow> 'db node \<Rightarrow> ('db node, unit) res" where
  "HandleRequestVoteResponse E peer p s =
     (if \<not> nd_running s \<or> \<not> IsRemotePeer peer s then Ok () s
      else if rvr_term p > nd_current_term s then BecomeFollower E (rvr_term p) s
      else if nd_state s = PRE_CANDIDATE then
        (if rvr_prevote p \<and> rvr_vote_granted p \<and> rvr_term p \<le> nd_current_term s then
           (let s = s\<lparr>nd_votes := insert peer (nd_votes s)\<rparr> in
            if card (nd_votes s) \<ge> QuorumSize s then BecomeCandidate E s else Ok () s)
         else Ok () s)
      else if nd_state s \<noteq> CANDIDATE \<or> rvr_prevote p \<or> rvr_term p \<noteq> nd_current_term s then Ok () s
      else if rvr_vote_granted p then
        (let s = s\<lparr>nd_votes := insert peer (nd_votes s)\<rparr> in
         if card (nd_votes s) \<ge> QuorumSize s then BecomeLeader E s else Ok () s)
      else Ok () s)"

section \<open>AppendEntries\<close>

fun entries_valid :: "append_entries \<Rightarrow> log_entry list \<Rightarrow> int \<Rightarrow> int \<Rightarrow> bool" where
  "entries_valid q [] index previous_term \<longleftrightarrow> True"
| "entries_valid q (e # es) index previous_term \<longleftrightarrow>
     \<not> (le_index e \<noteq> index \<or> le_term e \<le> 0 \<or> le_term e < previous_term \<or> le_term e > ae_term q \<or>
        length (le_command e) > kMaxCommandBytes) \<and>
     entries_valid q es (index + 1) (le_term e)"

definition append_request_valid :: "int \<Rightarrow> append_entries \<Rightarrow> 'db node \<Rightarrow> bool" where
  "append_request_valid peer q s \<longleftrightarrow>
     \<not> (\<not> nd_running s \<or> \<not> IsRemotePeer peer s \<or> ae_leader_id q \<noteq> peer \<or> ae_term q \<le> 0 \<or>
        ae_rpc_id q = 0 \<or> ae_prev_log_index q < 0 \<or> ae_prev_log_term q < 0 \<or>
        ae_prev_log_term q > ae_term q \<or> ae_leader_commit q < 0 \<or>
        ae_prev_log_index q > INT64_MAX - int (length (ae_entries q))) \<and>
     (ae_prev_log_index q = 0) = (ae_prev_log_term q = 0) \<and>
     entries_valid q (ae_entries q) (ae_prev_log_index q + 1) (ae_prev_log_term q)"

text \<open>The entries to append, after truncating the log behind the first conflict.\<close>

fun merge_entries :: "'db raft_env \<Rightarrow> log_entry list \<Rightarrow> log_entry list \<Rightarrow> 'db node \<Rightarrow> ('db node, log_entry list) res" where
  "merge_entries E [] appended s = Ok appended s"
| "merge_entries E (e # es) appended s =
     bindR (LogTerm E (le_index e) s) (\<lambda>existing s.
     bindR (if existing \<noteq> - 1 \<and> existing \<noteq> le_term e then
              (if le_index e \<le> nd_commit_index s
               then Throw (Runtime_error ''attempt to replace committed Raft entry'') s
               else on_log (TruncateSuffix (en_rocks E) (en_codec E) (le_index e)) s)
            else Ok () s) (\<lambda>_ s.
       merge_entries E es (if le_index e > LastIndex s then appended @ [e] else appended) s))"

definition append_received :: "'db raft_env \<Rightarrow> log_entry list \<Rightarrow> 'db node \<Rightarrow> ('db node, unit) res" where
  "append_received E appended s =
     (if appended = [] then Ok () s
      else
        bindR (SteadyNow E s) (\<lambda>started s.
        catchR
          (bindR (on_log (AppendBatch (en_rocks E) (en_codec E) appended) s) (\<lambda>_ s.
           bindR (SteadyNow E s) (\<lambda>finished s.
             Ok () (upd_metrics (\<lambda>m. m\<lparr>nm_follower_log_write :=
               Batch_Observe (ElapsedMicros started finished) (length appended)
                 (sum_list (map (length \<circ> le_command) appended)) (nm_follower_log_write m)\<rparr>) s))))
          fail_storage))"

text \<open>The result is the pair (success, last_log_index) of the response.\<close>

definition accept_entries :: "'db raft_env \<Rightarrow> append_entries \<Rightarrow> 'db node \<Rightarrow> ('db node, bool \<times> int) res" where
  "accept_entries E q s =
     bindR (merge_entries E (ae_entries q) [] s) (\<lambda>appended s.
     bindR (append_received E appended s) (\<lambda>_ s.
       (let matched = ae_prev_log_index q + int (length (ae_entries q)) in
        bindR (ApplyCommitted E (s\<lparr>nd_commit_index := max (nd_commit_index s) (min (ae_leader_commit q) matched)\<rparr>))
          (\<lambda>_. Ok (True, matched)))))"

definition conflict_hint :: "'db raft_env \<Rightarrow> append_entries \<Rightarrow> 'db node \<Rightarrow> ('db node, int) res" where
  "conflict_hint E q s =
     bindR (LogTerm E (ae_prev_log_index q) s) (\<lambda>have_term s.
     bindR (if have_term > 0 then liftR (ConflictIndex E (nd_log s) (ae_prev_log_index q)) s
            else Ok (SnapshotIndex s) s) (\<lambda>conflict.
       Ok (if conflict > 0 then conflict - 1 else 0)))"

definition HandleAppendEntries :: "'db raft_env \<Rightarrow> int \<Rightarrow> append_entries \<Rightarrow> 'db node \<Rightarrow> ('db node, unit) res" where
  "HandleAppendEntries E peer q s =
     (if \<not> append_request_valid peer q s then Ok () s
      else
        bindR (if ae_term q > nd_current_term s \<or> (ae_term q = nd_current_term s \<and> nd_state s \<noteq> FOLLOWER)
               then BecomeFollower E (ae_term q) s else Ok () s) (\<lambda>_ s.
        (let reply_term = nd_current_term s; reply_last = LastIndex s in
         bindR (if ae_term q = nd_current_term s then
                  bindR (ResetElectionTimer E (s\<lparr>nd_leader_id := peer\<rparr>)) (\<lambda>_ s.
                  bindR (LogTerm E (ae_prev_log_index q) s) (\<lambda>t s.
                    if t = ae_prev_log_term q then accept_entries E q s
                    else if ae_prev_log_index q \<le> LastIndex s
                      then bindR (conflict_hint E q s) (\<lambda>h. Ok (False, h))
                    else Ok (False, reply_last) s))
                else Ok (False, reply_last) s) (\<lambda>(success, last_log_index) s.
           bindR (PeerSend E peer (AppendEntriesResponse
             \<lparr>aer_term = reply_term, aer_success = success, aer_last_log_index = last_log_index,
              aer_rpc_id = ae_rpc_id q\<rparr>) s) (\<lambda>_. Ok ())))))"

definition note_ack :: "'db raft_env \<Rightarrow> int \<Rightarrow> append_entries_response \<Rightarrow> inflight \<Rightarrow> 'db node \<Rightarrow> ('db node, unit) res" where
  "note_ack E peer p flight s =
     bindR (if aer_success p \<and> fl_entries flight > 0 then
              bindR (SteadyNow E s) (\<lambda>now s.
                Ok () (upd_metrics (\<lambda>m. m\<lparr>nm_replication_data_ack :=
                  Latency_Observe (ElapsedMicros (fl_first_send flight) now) (nm_replication_data_ack m)\<rparr>) s))
            else Ok () s) (\<lambda>_ s.
     Ok () (upd_flight peer (\<lambda>_. no_flight)
       (if aer_success p \<and> fl_type flight = kAppendEntries
        then s\<lparr>nd_lease_confirmed := (nd_lease_confirmed s)(peer := Some (fl_lease_sent_at flight))\<rparr> else s)))"

definition set_progress :: "int \<Rightarrow> int \<Rightarrow> 'db node \<Rightarrow> 'db node" where
  "set_progress peer acknowledged s =
     (let m = max (or_zero (nd_match_index s) peer) acknowledged in
      s\<lparr>nd_match_index := (nd_match_index s)(peer := Some m),
        nd_next_index := (nd_next_index s)(peer := Some (m + 1))\<rparr>)"

definition send_if_behind :: "'db raft_env \<Rightarrow> int \<Rightarrow> 'db node \<Rightarrow> ('db node, unit) res" where
  "send_if_behind E peer s =
     (if or_zero (nd_next_index s) peer \<le> LastIndex s then SendAppendEntries E peer s else Ok () s)"

definition append_acked :: "'db raft_env \<Rightarrow> int \<Rightarrow> int \<Rightarrow> 'db node \<Rightarrow> ('db node, unit) res" where
  "append_acked E peer acknowledged s =
     (let s = set_progress peer acknowledged s; before = nd_commit_index s in
      bindR (AdvanceCommitIndex E s) (\<lambda>_ s.
      bindR (FinishReadIndexRounds E s) (\<lambda>_ s.
      bindR (if nd_commit_index s > before then BroadcastAppendEntries E s else Ok () s) (\<lambda>_.
        send_if_behind E peer))))"

definition append_refused :: "'db raft_env \<Rightarrow> int \<Rightarrow> append_entries_response \<Rightarrow> 'db node \<Rightarrow> ('db node, unit) res" where
  "append_refused E peer p s =
     (let hint = (if aer_last_log_index p = INT64_MAX then INT64_MAX else aer_last_log_index p + 1);
          next = max (or_zero (nd_match_index s) peer + 1) (min (or_zero (nd_next_index s) peer - 1) hint) in
      bindR (FinishReadIndexRounds E (s\<lparr>nd_next_index := (nd_next_index s)(peer := Some next)\<rparr>)) (\<lambda>_.
        SendAppendEntries E peer))"

definition HandleAppendEntriesResponse ::
  "'db raft_env \<Rightarrow> int \<Rightarrow> append_entries_response \<Rightarrow> 'db node \<Rightarrow> ('db node, unit) res" where
  "HandleAppendEntriesResponse E peer p s =
     (if \<not> nd_running s \<or> \<not> IsRemotePeer peer s then Ok () s
      else if aer_term p > nd_current_term s then BecomeFollower E (aer_term p) s
      else if \<not> IsLeader s \<or> aer_term p \<noteq> nd_current_term s then Ok () s
      else
        bindR (NotePeerContact E peer s) (\<lambda>_ s.
        bindR (CheckReadIndexTimeout E s) (\<lambda>_ s.
        bindR (liftR (at_key (nd_inflight s) peer) s) (\<lambda>flight s.
        bindR (if fl_id flight \<noteq> 0 \<and> aer_rpc_id p = fl_id flight
               then AckReadIndexProbe E peer (fl_id flight) s else Ok () s) (\<lambda>_ s.
          if fl_id flight = 0 \<or> aer_rpc_id p \<noteq> fl_id flight \<or> aer_last_log_index p < 0 then
            FinishReadIndexRounds E s
          else if aer_success p \<and> aer_last_log_index p \<noteq> fl_last_index flight then FinishReadIndexRounds E s
          else
            bindR (note_ack E peer p flight s) (\<lambda>_ s.
              if aer_success p then append_acked E peer (fl_last_index flight) s
              else append_refused E peer p s))))))"

section \<open>Snapshots\<close>

definition install_received :: "'db raft_env \<Rightarrow> install_snapshot \<Rightarrow> 'db node \<Rightarrow> ('db node, unit) res" where
  "install_received E q s =
     (let index = is_last_included_index q; t = is_last_included_term q; data = sv_data (nd_snapshot_receive s);
          save = (\<lambda>sl s. s\<lparr>nd_sm := fst sl, nd_log := snd sl\<rparr>) in
      (case InstallSnapshot (en_rocks E) index data (StageSnapshotInstall (en_rocks E) index t data)
              (nd_sm s, nd_log s) of
         Throw e sl \<Rightarrow> Throw e (save sl s)
       | Ok _ sl \<Rightarrow>
           bindR (on_log (Log_InstallSnapshot (en_rocks E) (en_codec E) index t data) (save sl s)) (\<lambda>_ s.
             Ok () (s\<lparr>nd_last_applied := index, nd_commit_index := max (nd_commit_index s) index,
                      nd_snapshot_receive := no_receive\<rparr>))))"

text \<open>The result is the pair (success, complete) of the response.\<close>

definition receive_chunk :: "'db raft_env \<Rightarrow> install_snapshot \<Rightarrow> 'db node \<Rightarrow> ('db node, bool \<times> bool) res" where
  "receive_chunk E q s =
     (let s = (if is_offset q = 0
               then s\<lparr>nd_snapshot_receive := \<lparr>sv_index = is_last_included_index q,
                                              sv_term = is_last_included_term q, sv_data = []\<rparr>\<rparr> else s);
          r = nd_snapshot_receive s in
      if sv_index r = is_last_included_index q \<and> sv_term r = is_last_included_term q \<and>
         is_offset q = int (length (sv_data r)) then
        (let s = s\<lparr>nd_snapshot_receive := r\<lparr>sv_data := sv_data r @ is_data q\<rparr>\<rparr> in
         if length (sv_data (nd_snapshot_receive s)) > kMaxSnapshotBytes
           then Ok (False, False) (s\<lparr>nd_snapshot_receive := no_receive\<rparr>)
         else if \<not> is_done q then Ok (True, False) s
         else bindR (install_received E q s) (\<lambda>_. Ok (True, True)))
      else Ok (False, False) (s\<lparr>nd_snapshot_receive := no_receive\<rparr>))"

definition snapshot_request_valid :: "int \<Rightarrow> install_snapshot \<Rightarrow> 'db node \<Rightarrow> bool" where
  "snapshot_request_valid peer q s \<longleftrightarrow>
     \<not> (\<not> nd_running s \<or> \<not> IsRemotePeer peer s \<or> is_leader_id q \<noteq> peer \<or> is_term q \<le> 0 \<or> is_rpc_id q = 0 \<or>
        is_last_included_index q \<le> 0 \<or> is_last_included_term q \<le> 0 \<or> is_last_included_term q > is_term q \<or>
        is_offset q < 0 \<or> length (is_data q) > kMaxSnapshotBytes)"

definition HandleInstallSnapshot :: "'db raft_env \<Rightarrow> int \<Rightarrow> install_snapshot \<Rightarrow> 'db node \<Rightarrow> ('db node, unit) res" where
  "HandleInstallSnapshot E peer q s =
     (if \<not> snapshot_request_valid peer q s then Ok () s
      else
        bindR (if is_term q > nd_current_term s then BecomeFollower E (is_term q) s else Ok () s) (\<lambda>_ s.
        (let reply_term = nd_current_term s in
         bindR (if is_term q = nd_current_term s then
                  bindR (ResetElectionTimer E (s\<lparr>nd_leader_id := peer\<rparr>)) (\<lambda>_ s.
                    if nd_last_applied s \<ge> is_last_included_index q
                      then Ok (True, True) (s\<lparr>nd_snapshot_receive := no_receive\<rparr>)
                    else if nd_apply_inflight s then Ok (False, False) s
                    else if nat (is_offset q) > kMaxSnapshotBytes - length (is_data q)
                      then Ok (False, False) (s\<lparr>nd_snapshot_receive := no_receive\<rparr>)
                    else receive_chunk E q s)
                else Ok (False, False) s) (\<lambda>(success, complete) s.
           bindR (PeerSend E peer (InstallSnapshotResponse
             \<lparr>isr_term = reply_term, isr_success = success, isr_complete = complete,
              isr_rpc_id = is_rpc_id q\<rparr>) s) (\<lambda>_. Ok ())))))"

definition HandleInstallSnapshotResponse ::
  "'db raft_env \<Rightarrow> int \<Rightarrow> install_snapshot_response \<Rightarrow> 'db node \<Rightarrow> ('db node, unit) res" where
  "HandleInstallSnapshotResponse E peer p s =
     (if \<not> nd_running s \<or> \<not> IsRemotePeer peer s then Ok () s
      else if isr_term p > nd_current_term s then BecomeFollower E (isr_term p) s
      else if \<not> IsLeader s \<or> isr_term p \<noteq> nd_current_term s then Ok () s
      else
        bindR (NotePeerContact E peer s) (\<lambda>_ s.
        bindR (liftR (at_key (nd_inflight s) peer) s) (\<lambda>flight s.
          if \<not> fl_snapshot flight \<or> fl_id flight = 0 \<or> isr_rpc_id p \<noteq> fl_id flight then Ok () s
          else if \<not> isr_success p then
            SendSnapshotChunk E peer (upd_flight peer (\<lambda>f. f\<lparr>fl_snapshot_offset := 0\<rparr>) s)
          else if \<not> isr_complete p then
            SendSnapshotChunk E peer (upd_flight peer (\<lambda>f. f\<lparr>fl_snapshot_offset :=
              if fl_snapshot_offset f + fl_snapshot_chunk f \<ge> length (fl_snapshot_data f) then 0
              else fl_snapshot_offset f + fl_snapshot_chunk f\<rparr>) s)
          else
            send_if_behind E peer
              (set_progress peer (fl_snapshot_index flight) (upd_flight peer (\<lambda>_. no_flight) s)))))"

definition SetSnapshotThreshold :: "int \<Rightarrow> 'db node \<Rightarrow> ('db node, unit) res" where
  "SetSnapshotThreshold entries s =
     (if entries < 0 then Throw (Invalid_argument ''negative snapshot threshold'') s
      else Ok () (s\<lparr>nd_snapshot_threshold := entries, nd_last_snapshot_attempt := SnapshotIndex s\<rparr>))"

definition SetSnapshotChunkBytes :: "nat \<Rightarrow> 'db node \<Rightarrow> ('db node, unit) res" where
  "SetSnapshotChunkBytes bytes s =
     (if bytes = 0 \<or> bytes > kMaxFrameSize div 2 then Throw (Invalid_argument ''invalid snapshot chunk size'') s
      else Ok () (s\<lparr>nd_snapshot_chunk_bytes := bytes\<rparr>))"

definition SetLeaseReads :: "bool \<Rightarrow> 'db node \<Rightarrow> 'db node" where
  "SetLeaseReads enabled s = s\<lparr>nd_lease_reads := enabled\<rparr>"

section \<open>The timer and the reports\<close>

definition leader_tick :: "'db raft_env \<Rightarrow> 'db node \<Rightarrow> ('db node, unit) res" where
  "leader_tick E s =
     (let s = s\<lparr>nd_inflight := (\<lambda>i. map_option (\<lambda>f. if fl_id f \<noteq> 0
                    then f\<lparr>fl_elapsed_ms := fl_elapsed_ms f + kTickIntervalMs\<rparr> else f) (nd_inflight s i)),
                nd_heartbeat_timer_ms := nd_heartbeat_timer_ms s - kTickIntervalMs\<rparr> in
      bindR (if nd_heartbeat_timer_ms s \<le> 0 then
               bindR (BroadcastAppendEntries E s) (\<lambda>_ s. Ok () (s\<lparr>nd_heartbeat_timer_ms := kHeartbeatIntervalMs\<rparr>))
             else
               foldR (\<lambda>peer s.
                   if peer = nd_id s then Ok () s
                   else bindR (liftR (at_key (nd_inflight s) peer) s) (\<lambda>flight s.
                          if fl_id flight = 0 then SendAppendEntries E peer s else Ok () s))
                 (map pi_id (nd_peers s)) s) (\<lambda>_ s.
      bindR (CheckReadIndexTimeout E s) (\<lambda>_ s.
      bindR (CheckQuorum E s) (\<lambda>_ s.
        if \<not> IsLeader s then Ok () s
        else bindR (ExpireUncommittedProposals E s) (\<lambda>_. FinishReadIndexRounds E)))))"

definition Tick :: "'db raft_env \<Rightarrow> 'db node \<Rightarrow> ('db node, unit) res" where
  "Tick E s =
     (if \<not> nd_running s then Ok () s
      else
        bindR (if nd_state s \<noteq> LEADER then
                 bindR (Now E s) (\<lambda>now s. if now \<ge> nd_election_deadline s then BecomePreCandidate E s else Ok () s)
               else Ok () s) (\<lambda>_ s.
          if nd_state s = LEADER then leader_tick E s else Ok () s))"

definition StateName :: "'db node \<Rightarrow> string" where
  "StateName s =
     (if \<not> nd_running s then ''stopped'' else if nd_state s = LEADER then ''leader''
      else if nd_state s = CANDIDATE then ''candidate''
      else if nd_state s = PRE_CANDIDATE then ''pre-candidate'' else ''follower'')"

definition MatchIndexOf :: "int \<Rightarrow> 'db node \<Rightarrow> int" where
  "MatchIndexOf peer s = (case nd_match_index s peer of None \<Rightarrow> - 1 | Some i \<Rightarrow> i)"

definition HasInflightRpc :: "int \<Rightarrow> 'db node \<Rightarrow> bool" where
  "HasInflightRpc peer s = (case nd_inflight s peer of None \<Rightarrow> False | Some f \<Rightarrow> fl_id f \<noteq> 0)"

definition MetricsInfo :: "'db node \<Rightarrow> bytes" where
  "MetricsInfo s =
     (let m = nd_metrics s; r = nd_reads s in
      Batch_ToInfo ''leader_log_write'' (nm_leader_log_write m) @
      Batch_ToInfo ''follower_log_write'' (nm_follower_log_write m) @
      Latency_ToInfo ''replication_data_ack'' (nm_replication_data_ack m) @
      Batch_ToInfo ''kv_apply'' (nm_kv_apply m) @ Latency_ToInfo ''apply_dispatch'' (nm_apply_dispatch m) @
      info_line ''replication_retry_attempts'' (to_string_u64 (nm_replication_retry_attempts m)) @
      info_line ''proposal_timeouts'' (to_string_u64 (nm_proposal_timeouts m)) @
      info_line ''snapshot_oversize_skips'' (to_string_u64 (nm_snapshot_oversize_skips m)) @
      info_line ''read_index_total'' (to_string_u64 (rs_total r)) @
      info_line ''read_index_succeeded'' (to_string_u64 (rs_succeeded r)) @
      info_line ''read_index_timeout'' (to_string_u64 (rs_timeout r)) @
      info_line ''read_index_not_leader'' (to_string_u64 (rs_not_leader r)) @
      info_line ''read_index_overload'' (to_string_u64 (rs_overload r)) @
      info_line ''read_index_lease'' (to_string_u64 (rs_lease r)) @
      info_line ''read_index_pending'' (to_string_nat (PendingReadIndexCount r)))"

end
