(* ===== verification/NodeFrame.thy ===== *)
theory NodeFrame
  imports RaftNode
begin

text \<open>
  What the sending, timing and read paths of a node leave alone.

  \<open>core\<close> collects the fields the safety of a node rests on: identity, membership, both databases,
  term, vote, role, counted votes, commit and apply positions. An operation is \<open>quiet\<close> when it keeps
  the core, keeps the payloads of RPCs in flight to replication requests, and emits only replication
  requests, completions of proposals and read callbacks; a successful read callback is never ahead of
  the applied index. \<open>keeps\<close> lifts a state predicate to an outcome, whether it returned or threw, with
  one rule per combinator, so that each operation needs one line.
\<close>

named_theorems keeps_rules \<open>preservation of a state predicate by an outcome\<close>

section \<open>Preservation\<close>

definition keeps :: "('s \<Rightarrow> bool) \<Rightarrow> ('s, 'a) res \<Rightarrow> bool" where
  "keeps P r \<longleftrightarrow> P (res_state r)"

lemma keeps_simps [simp]:
  "keeps P (Ok x s) \<longleftrightarrow> P s" "keeps P (Throw e s) \<longleftrightarrow> P s"
  by (simp_all add: keeps_def)

lemma keeps_bindR [keeps_rules]:
  "keeps P m \<Longrightarrow> (\<And>x s. P s \<Longrightarrow> m = Ok x s \<Longrightarrow> keeps P (f x s)) \<Longrightarrow> keeps P (bindR m f)"
  by (cases m) (auto simp: keeps_def)

lemma keeps_catchR [keeps_rules]:
  "keeps P m \<Longrightarrow> (\<And>e s. P s \<Longrightarrow> keeps P (h e s)) \<Longrightarrow> keeps P (catchR m h)"
  by (cases m) (auto simp: keeps_def)

lemma keeps_foldR [keeps_rules]:
  "P s \<Longrightarrow> (\<And>x s. P s \<Longrightarrow> keeps P (f x s)) \<Longrightarrow> keeps P (foldR f xs s)"
proof (induction xs arbitrary: s)
  case Nil
  then show ?case by simp
next
  case (Cons x xs)
  then show ?case by (auto intro!: keeps_bindR)
qed

lemma keeps_liftR [keeps_rules]: "P s \<Longrightarrow> keeps P (liftR m s)"
  by (cases m) simp_all

lemma keeps_if [keeps_rules]:
  "(b \<Longrightarrow> keeps P r) \<Longrightarrow> (\<not> b \<Longrightarrow> keeps P r') \<Longrightarrow> keeps P (if b then r else r')"
  by simp

lemma keeps_wp: "keeps P r \<longleftrightarrow> wp r (\<lambda>_. P) (\<lambda>_. P)"
  by (cases r) simp_all

lemma keeps_foldr:
  "keeps P r \<Longrightarrow> (\<And>x m. keeps P m \<Longrightarrow> keeps P (g x m)) \<Longrightarrow> keeps P (foldr g xs r)"
  by (induction xs) simp_all

section \<open>Quiet operations\<close>

fun replication_rpc :: "raft_rpc \<Rightarrow> bool" where
  "replication_rpc (AppendEntries q) = True"
| "replication_rpc (InstallSnapshotRequest q) = True"
| "replication_rpc _ = False"

fun quiet_event :: "int \<Rightarrow> raft_event \<Rightarrow> bool" where
  "quiet_event n (EvSend peer m) = replication_rpc m"
| "quiet_event n (EvPropose c ok r) = True"
| "quiet_event n (EvRead c ok i r) = (ok \<longrightarrow> i \<le> n)"

definition core :: "'db node \<Rightarrow> _" where
  "core s = (nd_id s, nd_peers s, nd_sm s, nd_log s, nd_apply_inflight s, nd_job s, nd_current_term s,
     nd_voted_for s, nd_state s, nd_running s, nd_commit_index s, nd_last_applied s, nd_votes s,
     dom (nd_next_index s))"

definition flights_ok :: "'db node \<Rightarrow> bool" where
  "flights_ok s \<longleftrightarrow> (\<forall>p f m. nd_inflight s p = Some f \<longrightarrow> fl_payload f = Some m \<longrightarrow> replication_rpc m)"

definition emitted :: "(raft_event \<Rightarrow> bool) \<Rightarrow> 'db node \<Rightarrow> 'db node \<Rightarrow> bool" where
  "emitted A s t \<longleftrightarrow> (\<exists>es. nd_events t = nd_events s @ es \<and> list_all A es)"

definition quiet :: "'db node \<Rightarrow> 'db node \<Rightarrow> bool" where
  "quiet s0 s \<longleftrightarrow>
     core s = core s0 \<and> flights_ok s \<and> emitted (quiet_event (nd_last_applied s0)) s0 s"

lemma emitted_refl [simp]: "emitted A s s"
  by (simp add: emitted_def)

lemma emitted_trans: "emitted A s t \<Longrightarrow> emitted A t u \<Longrightarrow> emitted A s u"
  unfolding emitted_def by (metis append.assoc list_all_append)

lemma emitted_emit: "emitted A s t \<Longrightarrow> A e \<Longrightarrow> emitted A s (emit e t)"
  by (auto simp: emitted_def emit_def)

lemma emitted_mono: "emitted A s t \<Longrightarrow> (\<And>e. A e \<Longrightarrow> B e) \<Longrightarrow> emitted B s t"
  by (auto simp: emitted_def list_all_iff)

lemma emitted_cong: "nd_events t = nd_events t' \<Longrightarrow> emitted A s t = emitted A s t'"
  by (simp add: emitted_def)

lemma flights_ok_cong: "nd_inflight t = nd_inflight t' \<Longrightarrow> flights_ok t = flights_ok t'"
  by (simp add: flights_ok_def)

lemma quiet_refl: "flights_ok s \<Longrightarrow> quiet s s"
  by (simp add: quiet_def)

lemma quiet_core: "quiet s0 s \<Longrightarrow> core s = core s0"
  by (simp add: quiet_def)

lemma quiet_fields:
  assumes "quiet s0 s"
  shows "nd_id s = nd_id s0" "nd_peers s = nd_peers s0" "nd_sm s = nd_sm s0" "nd_log s = nd_log s0"
    "nd_apply_inflight s = nd_apply_inflight s0" "nd_job s = nd_job s0"
    "nd_current_term s = nd_current_term s0" "nd_voted_for s = nd_voted_for s0" "nd_state s = nd_state s0"
    "nd_running s = nd_running s0" "nd_commit_index s = nd_commit_index s0"
    "nd_last_applied s = nd_last_applied s0" "nd_votes s = nd_votes s0" "dom (nd_next_index s) = dom (nd_next_index s0)"
    "flights_ok s"
  using assms by (auto simp: quiet_def core_def)

lemma quiet_trans: "quiet s t \<Longrightarrow> quiet t u \<Longrightarrow> quiet s u"
  using quiet_fields(12) [of s t] by (auto simp: quiet_def intro: emitted_trans)

lemma core_updates [simp]:
  "core (s\<lparr>nd_storage_healthy := b\<rparr>) = core s"
  "core (s\<lparr>nd_leader_id := i\<rparr>) = core s"
  "core (s\<lparr>nd_match_index := m\<rparr>) = core s"
  "core (s\<lparr>nd_inflight := fl\<rparr>) = core s"
  "core (s\<lparr>nd_snapshot_receive := sr\<rparr>) = core s"
  "core (s\<lparr>nd_snapshot_threshold := i\<rparr>) = core s"
  "core (s\<lparr>nd_last_snapshot_attempt := i\<rparr>) = core s"
  "core (s\<lparr>nd_lease_reads := b\<rparr>) = core s"
  "core (s\<lparr>nd_snapshot_chunk_bytes := n\<rparr>) = core s"
  "core (s\<lparr>nd_rpc_sequence := w\<rparr>) = core s"
  "core (s\<lparr>nd_election_deadline := i\<rparr>) = core s"
  "core (s\<lparr>nd_leader_since := i\<rparr>) = core s"
  "core (s\<lparr>nd_peer_active := m\<rparr>) = core s"
  "core (s\<lparr>nd_lease_confirmed := m\<rparr>) = core s"
  "core (s\<lparr>nd_heartbeat_timer_ms := i\<rparr>) = core s"
  "core (s\<lparr>nd_pending := ps\<rparr>) = core s"
  "core (s\<lparr>nd_pending_bytes := n\<rparr>) = core s"
  "core (s\<lparr>nd_reads := rs\<rparr>) = core s"
  "core (s\<lparr>nd_metrics := ms'\<rparr>) = core s"
  "core (s\<lparr>nd_oracle := n\<rparr>) = core s"
  "core (s\<lparr>nd_events := es\<rparr>) = core s"
  by (simp_all add: core_def)

lemma core_next_index: "dom f = dom (nd_next_index s) \<Longrightarrow> core (s\<lparr>nd_next_index := f\<rparr>) = core s"
  by (simp add: core_def)

lemma flights_ok_updates [simp]:
  "flights_ok (s\<lparr>nd_storage_healthy := b\<rparr>) = flights_ok s"
  "flights_ok (s\<lparr>nd_leader_id := i\<rparr>) = flights_ok s"
  "flights_ok (s\<lparr>nd_match_index := m\<rparr>) = flights_ok s"
  "flights_ok (s\<lparr>nd_next_index := m\<rparr>) = flights_ok s"
  "flights_ok (s\<lparr>nd_snapshot_receive := sr\<rparr>) = flights_ok s"
  "flights_ok (s\<lparr>nd_last_snapshot_attempt := i\<rparr>) = flights_ok s"
  "flights_ok (s\<lparr>nd_rpc_sequence := w\<rparr>) = flights_ok s"
  "flights_ok (s\<lparr>nd_election_deadline := i\<rparr>) = flights_ok s"
  "flights_ok (s\<lparr>nd_leader_since := i\<rparr>) = flights_ok s"
  "flights_ok (s\<lparr>nd_peer_active := m\<rparr>) = flights_ok s"
  "flights_ok (s\<lparr>nd_lease_confirmed := m\<rparr>) = flights_ok s"
  "flights_ok (s\<lparr>nd_heartbeat_timer_ms := i\<rparr>) = flights_ok s"
  "flights_ok (s\<lparr>nd_pending := ps\<rparr>) = flights_ok s"
  "flights_ok (s\<lparr>nd_pending_bytes := n\<rparr>) = flights_ok s"
  "flights_ok (s\<lparr>nd_reads := rs\<rparr>) = flights_ok s"
  "flights_ok (s\<lparr>nd_metrics := ms'\<rparr>) = flights_ok s"
  "flights_ok (s\<lparr>nd_oracle := n\<rparr>) = flights_ok s"
  "flights_ok (s\<lparr>nd_events := es\<rparr>) = flights_ok s"
  "flights_ok (s\<lparr>nd_log := l\<rparr>) = flights_ok s"
  "flights_ok (s\<lparr>nd_sm := m'\<rparr>) = flights_ok s"
  "flights_ok (s\<lparr>nd_job := j\<rparr>) = flights_ok s"
  "flights_ok (s\<lparr>nd_apply_inflight := b\<rparr>) = flights_ok s"
  "flights_ok (s\<lparr>nd_commit_index := i\<rparr>) = flights_ok s"
  "flights_ok (s\<lparr>nd_last_applied := i\<rparr>) = flights_ok s"
  "flights_ok (s\<lparr>nd_current_term := i\<rparr>) = flights_ok s"
  "flights_ok (s\<lparr>nd_voted_for := i\<rparr>) = flights_ok s"
  "flights_ok (s\<lparr>nd_state := r\<rparr>) = flights_ok s"
  "flights_ok (s\<lparr>nd_votes := vs\<rparr>) = flights_ok s"
  "flights_ok (s\<lparr>nd_running := b\<rparr>) = flights_ok s"
  by (simp_all add: flights_ok_def)

lemma quiet_updates [simp]:
  "quiet s0 (s\<lparr>nd_storage_healthy := b\<rparr>) = quiet s0 s"
  "quiet s0 (s\<lparr>nd_leader_id := i\<rparr>) = quiet s0 s"
  "quiet s0 (s\<lparr>nd_match_index := m\<rparr>) = quiet s0 s"
  "quiet s0 (s\<lparr>nd_snapshot_receive := sr\<rparr>) = quiet s0 s"
  "quiet s0 (s\<lparr>nd_last_snapshot_attempt := i\<rparr>) = quiet s0 s"
  "quiet s0 (s\<lparr>nd_rpc_sequence := w\<rparr>) = quiet s0 s"
  "quiet s0 (s\<lparr>nd_election_deadline := i\<rparr>) = quiet s0 s"
  "quiet s0 (s\<lparr>nd_leader_since := i\<rparr>) = quiet s0 s"
  "quiet s0 (s\<lparr>nd_peer_active := m\<rparr>) = quiet s0 s"
  "quiet s0 (s\<lparr>nd_lease_confirmed := m\<rparr>) = quiet s0 s"
  "quiet s0 (s\<lparr>nd_heartbeat_timer_ms := i\<rparr>) = quiet s0 s"
  "quiet s0 (s\<lparr>nd_pending := ps\<rparr>) = quiet s0 s"
  "quiet s0 (s\<lparr>nd_pending_bytes := n\<rparr>) = quiet s0 s"
  "quiet s0 (s\<lparr>nd_reads := rs\<rparr>) = quiet s0 s"
  "quiet s0 (s\<lparr>nd_metrics := ms'\<rparr>) = quiet s0 s"
  "quiet s0 (s\<lparr>nd_oracle := n\<rparr>) = quiet s0 s"
  by (simp_all add: quiet_def emitted_def)

lemma quiet_upd [simp]:
  "quiet s0 (upd_reads f s) = quiet s0 s" "quiet s0 (upd_metrics g s) = quiet s0 s"
  by (simp_all add: upd_reads_def upd_metrics_def)

lemma quiet_upd_flight:
  assumes "quiet s0 s"
    and "\<And>f m. fl_payload (g f) = Some m \<Longrightarrow> fl_payload f = Some m \<or> replication_rpc m"
  shows "quiet s0 (upd_flight p g s)"
  using assms by (auto simp: quiet_def upd_flight_def emitted_def flights_ok_def split: if_splits) blast+

lemma quiet_emit: "quiet s0 s \<Longrightarrow> quiet_event (nd_last_applied s0) e \<Longrightarrow> quiet s0 (emit e s)"
  by (auto simp: quiet_def intro: emitted_emit) (simp_all add: emit_def)

lemma quiet_fold:
  "quiet s0 s \<Longrightarrow> (\<And>x s. x \<in> set xs \<Longrightarrow> quiet s0 s \<Longrightarrow> quiet s0 (f x s)) \<Longrightarrow> quiet s0 (fold f xs s)"
  by (induction xs arbitrary: s) auto

section \<open>The quiet operations\<close>

named_theorems quiet_intros \<open>operations that keep the core\<close>

lemma quiet_ask [quiet_intros]: "quiet s0 s \<Longrightarrow> keeps (quiet s0) (ask f s)"
  by (simp add: ask_def)

lemma quiet_Now [quiet_intros]: "quiet s0 s \<Longrightarrow> keeps (quiet s0) (Now E s)"
  by (simp add: Now_def quiet_ask)

lemma quiet_SteadyNow [quiet_intros]: "quiet s0 s \<Longrightarrow> keeps (quiet s0) (SteadyNow E s)"
  by (simp add: SteadyNow_def quiet_ask)

lemma quiet_PeerSend [quiet_intros]:
  "quiet s0 s \<Longrightarrow> replication_rpc m \<Longrightarrow> keeps (quiet s0) (PeerSend E p m s)"
  unfolding PeerSend_def by (auto intro!: keeps_rules quiet_intros quiet_emit)

lemma quiet_LogTerm [quiet_intros]: "quiet s0 s \<Longrightarrow> keeps (quiet s0) (LogTerm E i s)"
  by (simp add: LogTerm_def keeps_liftR)

lemma quiet_ResetElectionTimer [quiet_intros]: "quiet s0 s \<Longrightarrow> keeps (quiet s0) (ResetElectionTimer E s)"
  unfolding ResetElectionTimer_def by (auto intro!: keeps_rules quiet_intros)

lemma quiet_NotePeerContact [quiet_intros]: "quiet s0 s \<Longrightarrow> keeps (quiet s0) (NotePeerContact E p s)"
  unfolding NotePeerContact_def by (auto intro!: keeps_rules quiet_intros)

lemma quiet_complete_proposal: "quiet s0 s \<Longrightarrow> quiet s0 (complete_proposal ok r p s)"
  by (auto simp: complete_proposal_def intro!: quiet_emit split: option.splits)

lemma quiet_FailPending: "quiet s0 s \<Longrightarrow> quiet s0 (FailPending r s)"
  unfolding FailPending_def by (auto intro!: quiet_fold quiet_complete_proposal)

lemma quiet_ExpireUncommittedProposals [quiet_intros]:
  "quiet s0 s \<Longrightarrow> keeps (quiet s0) (ExpireUncommittedProposals E s)"
  unfolding ExpireUncommittedProposals_def Let_def
  by (auto intro!: keeps_rules quiet_intros quiet_fold quiet_complete_proposal)

lemma quiet_next_rpc_id [quiet_intros]: "quiet s0 s \<Longrightarrow> keeps (quiet s0) (next_rpc_id s)"
  by (auto simp: next_rpc_id_def)

lemma quiet_SendSnapshotChunk [quiet_intros]:
  "quiet s0 s \<Longrightarrow> keeps (quiet s0) (SendSnapshotChunk E p s)"
  unfolding SendSnapshotChunk_def Let_def
  by (auto intro!: keeps_rules quiet_intros quiet_upd_flight)

lemma quiet_retry_flight [quiet_intros]:
  "quiet s0 s \<Longrightarrow> nd_inflight s p = Some f \<Longrightarrow> keeps (quiet s0) (retry_flight E p f s)"
  unfolding retry_flight_def
  by (auto intro!: keeps_rules quiet_intros quiet_upd_flight split: option.splits
      dest: quiet_fields(15) simp: flights_ok_def)

lemma quiet_BindReadIndexProbe [simp]: "quiet s0 (BindReadIndexProbe p i s) = quiet s0 s"
  by (simp add: BindReadIndexProbe_def)

lemma quiet_send_entries [quiet_intros]: "quiet s0 s \<Longrightarrow> keeps (quiet s0) (send_entries E p n s)"
  unfolding send_entries_def Let_def by (auto intro!: keeps_rules quiet_intros quiet_upd_flight)

lemma at_key_Inr: "at_key m k = Inr v \<longleftrightarrow> m k = Some v"
  by (auto simp: at_key_def split: option.splits)

lemma liftR_Ok: "liftR m s = Ok x t \<longleftrightarrow> m = Inr x \<and> t = s"
  by (cases m) auto

lemma quiet_SendAppendEntries [quiet_intros]: "quiet s0 s \<Longrightarrow> keeps (quiet s0) (SendAppendEntries E p s)"
  unfolding SendAppendEntries_def
  by (auto intro!: keeps_rules quiet_intros quiet_upd_flight simp: liftR_Ok at_key_Inr)

lemma quiet_BroadcastAppendEntries [quiet_intros]:
  "quiet s0 s \<Longrightarrow> keeps (quiet s0) (BroadcastAppendEntries E s)"
  unfolding BroadcastAppendEntries_def by (auto intro!: keeps_rules quiet_intros)

lemma quiet_read_done: "quiet s0 s \<Longrightarrow> rr_read_index q \<le> nd_last_applied s \<Longrightarrow> quiet s0 (read_done q s)"
  by (auto simp: read_done_def quiet_fields(12) intro!: quiet_emit)

lemma quiet_read_failed: "quiet s0 s \<Longrightarrow> quiet s0 (read_failed r q s)"
  by (auto simp: read_failed_def intro!: quiet_emit)

lemma quiet_set_completing [simp]: "quiet s0 (set_completing b s) = quiet s0 s"
  by (simp add: set_completing_def)

lemma quiet_finish_or_wait: "quiet s0 s \<Longrightarrow> quiet s0 (finish_or_wait q s)"
  by (auto simp: finish_or_wait_def intro!: quiet_read_done)

lemma quiet_ProcessConfirmedRound: "quiet s0 s \<Longrightarrow> quiet s0 (ProcessConfirmedRound qs s)"
  unfolding ProcessConfirmedRound_def Let_def by (auto intro!: quiet_fold quiet_finish_or_wait)

lemma quiet_TryStartReadRound [quiet_intros]: "quiet s0 s \<Longrightarrow> keeps (quiet s0) (TryStartReadRound E s)"
  unfolding TryStartReadRound_def Let_def
  by (auto intro!: keeps_rules quiet_intros quiet_ProcessConfirmedRound)

lemma quiet_AckReadIndexProbe [quiet_intros]: "quiet s0 s \<Longrightarrow> keeps (quiet s0) (AckReadIndexProbe E p i s)"
  unfolding AckReadIndexProbe_def Let_def
  by (auto intro!: keeps_rules quiet_intros quiet_ProcessConfirmedRound split: prod.splits)

lemma quiet_MaybeSendReadProbes [quiet_intros]: "quiet s0 s \<Longrightarrow> keeps (quiet s0) (MaybeSendReadProbes E s)"
  unfolding MaybeSendReadProbes_def
  by (auto intro!: keeps_rules quiet_intros split: list.splits)

lemma quiet_FinishReadIndexRounds [quiet_intros]:
  "quiet s0 s \<Longrightarrow> keeps (quiet s0) (FinishReadIndexRounds E s)"
  unfolding FinishReadIndexRounds_def Let_def by (auto intro!: keeps_rules quiet_intros)

lemma last_applied_upd_reads [simp]:
  "nd_last_applied (upd_reads f s) = nd_last_applied s" "nd_last_applied (set_completing b s) = nd_last_applied s"
  "nd_last_applied (emit e s) = nd_last_applied s" "nd_last_applied (upd_metrics g s) = nd_last_applied s"
  by (simp_all add: upd_reads_def set_completing_def emit_def upd_metrics_def)

lemma quiet_fold_read_done:
  assumes "quiet s0 s" "\<forall>q\<in>set qs. rr_read_index q \<le> nd_last_applied s0"
  shows "quiet s0 (fold read_done qs s)"
proof (rule quiet_fold [OF assms(1)])
  fix q t assume "q \<in> set qs" "quiet s0 t"
  with assms(2) show "quiet s0 (read_done q t)"
    by (intro quiet_read_done) (auto simp: quiet_fields(12))
qed

lemma quiet_ProcessPendingReads [quiet_intros]:
  "quiet s0 s \<Longrightarrow> keeps (quiet s0) (ProcessPendingReads E s)"
  unfolding ProcessPendingReads_def Let_def
  by (auto intro!: keeps_rules quiet_intros quiet_fold_read_done dest!: set_takeWhileD simp: quiet_fields(12))

lemma quiet_timeout_reads: "quiet s0 s \<Longrightarrow> quiet s0 (timeout_reads r qs s)"
  unfolding timeout_reads_def by (auto intro!: quiet_fold quiet_read_failed)

lemma quiet_CheckReadIndexTimeout [quiet_intros]:
  "quiet s0 s \<Longrightarrow> keeps (quiet s0) (CheckReadIndexTimeout E s)"
  unfolding CheckReadIndexTimeout_def Let_def by (auto intro!: keeps_rules quiet_intros quiet_timeout_reads)

lemma quiet_ClearReadIndexQueues: "quiet s0 s \<Longrightarrow> quiet s0 (ClearReadIndexQueues r s)"
  unfolding ClearReadIndexQueues_def Let_def by (auto intro!: quiet_fold quiet_read_failed simp del: set_append)

lemma quiet_ReadLeaseValid [quiet_intros]: "quiet s0 s \<Longrightarrow> keeps (quiet s0) (ReadLeaseValid E s)"
  unfolding ReadLeaseValid_def Let_def by (auto intro!: keeps_rules quiet_intros)

lemma quiet_reject_read: "quiet s0 s \<Longrightarrow> quiet s0 (reject_read c r s)"
  by (auto simp: reject_read_def intro!: quiet_emit)

lemma quiet_RequestReadIndex [quiet_intros]: "quiet s0 s \<Longrightarrow> keeps (quiet s0) (RequestReadIndex E c s)"
  unfolding RequestReadIndex_def Let_def
  by (auto intro!: keeps_rules quiet_intros quiet_reject_read quiet_read_done)

lemma quiet_add_pending [quiet_intros]: "quiet s0 s \<Longrightarrow> keeps (quiet s0) (add_pending E ip s)"
  unfolding add_pending_def by (auto intro!: keeps_rules quiet_intros)

lemma quiet_send_if_behind [quiet_intros]: "quiet s0 s \<Longrightarrow> keeps (quiet s0) (send_if_behind E p s)"
  unfolding send_if_behind_def by (auto intro!: keeps_rules quiet_intros)

lemma quiet_conflict_hint [quiet_intros]: "quiet s0 s \<Longrightarrow> keeps (quiet s0) (conflict_hint E q s)"
  unfolding conflict_hint_def by (auto intro!: keeps_rules quiet_intros)

lemma quiet_note_ack [quiet_intros]: "quiet s0 s \<Longrightarrow> keeps (quiet s0) (note_ack E p r f s)"
  unfolding note_ack_def by (auto intro!: keeps_rules quiet_intros quiet_upd_flight simp: no_flight_def)

lemma quiet_next_index:
  "quiet s0 s \<Longrightarrow> p \<in> dom (nd_next_index s) \<Longrightarrow> quiet s0 (s\<lparr>nd_next_index := (nd_next_index s)(p := Some i)\<rparr>)"
  by (auto simp: quiet_def emitted_def core_next_index insert_absorb)

lemma quiet_set_progress:
  "quiet s0 s \<Longrightarrow> p \<in> dom (nd_next_index s) \<Longrightarrow> quiet s0 (set_progress p i s)"
  using quiet_next_index [of s0 "s\<lparr>nd_match_index := m\<rparr>" p for m] by (simp add: set_progress_def Let_def)

lemma quiet_append_refused [quiet_intros]:
  "quiet s0 s \<Longrightarrow> p \<in> dom (nd_next_index s) \<Longrightarrow> keeps (quiet s0) (append_refused E p r s)"
  unfolding append_refused_def Let_def by (auto intro!: keeps_rules quiet_intros quiet_next_index)

lemma quiet_FinishApply [quiet_intros]:
  assumes "quiet s0 (s\<lparr>nd_last_applied := nd_last_applied s + int count\<rparr>)"
    and "first = nd_last_applied s + 1" and "length results = count"
  shows "keeps (quiet s0) (FinishApply E first count results w by d s)"
proof -
  have "quiet s0 (fold (\<lambda>(p, r). complete_proposal True r p) out t)" if "quiet s0 t" for out t
    using that by (auto intro!: quiet_fold quiet_complete_proposal split: prod.splits)
  with assms show ?thesis
    unfolding FinishApply_def Let_def
    by (auto intro!: keeps_rules quiet_intros split: prod.splits)
qed

end
