(* ===== verification/NodeInv.thy ===== *)
theory NodeInv
  imports NodeFrame
begin

text \<open>
  The invariant of a Raft node and what a crash leaves behind.

  \<open>node_ok\<close> relates a node to an abstract log: the log object implements it, the hard state on disk is
  the term and vote in memory, snapshot, applied, commit and last index are ordered, and the state
  machine is at the applied index, or one batch ahead of it while the executor holds that batch.
  \<open>disk_ok\<close> is what the two databases satisfy at every moment, also in the middle of an operation.
  \<open>node_le\<close> is how a node may move: term and vote only forward, votes are counted only for the node's
  own candidacy, the committed prefix of the log never changes, commit and applied index never go back.
  \<open>runs\<close> says of an outcome that a return keeps the invariant and moves forward, and that an exception
  leaves databases that still hold everything committed.
\<close>

section \<open>Hard state and votes\<close>

definition hard_of :: "alog \<Rightarrow> int \<times> int" where
  "hard_of a = (case al_hard a of None \<Rightarrow> (0, - 1) | Some h \<Rightarrow> h)"

fun hard_le :: "int \<times> int \<Rightarrow> int \<times> int \<Rightarrow> bool" where
  "hard_le (t, v) (t', v') \<longleftrightarrow> t < t' \<or> t = t' \<and> (v = - 1 \<or> v' = v)"

lemma hard_le_refl [simp]: "hard_le h h"
  by (cases h) simp

lemma hard_le_trans: "hard_le h h' \<Longrightarrow> hard_le h' h'' \<Longrightarrow> hard_le h h''"
  by (cases h; cases h'; cases h'') auto

definition nd_hard :: "'db node \<Rightarrow> int \<times> int" where
  "nd_hard s = (nd_current_term s, nd_voted_for s)"

definition electing :: "raft_role \<Rightarrow> bool" where
  "electing r \<longleftrightarrow> r = CANDIDATE \<or> r = LEADER"

text \<open>\<open>M\<close> holds the votes (voter, term) that the current message carries.\<close>

definition vote_le :: "(int \<times> int) set \<Rightarrow> 'db node \<Rightarrow> 'db node \<Rightarrow> bool" where
  "vote_le M s t \<longleftrightarrow>
     nd_id t = nd_id s \<and> nd_peers t = nd_peers s \<and> hard_le (nd_hard s) (nd_hard t) \<and>
     (electing (nd_state t) \<longrightarrow>
        nd_current_term t = nd_current_term s \<and> electing (nd_state s) \<and>
          nd_votes t \<subseteq> nd_votes s \<union> {p. (p, nd_current_term t) \<in> M} \<or>
        nd_voted_for t = nd_id t \<and> nd_votes t \<subseteq> insert (nd_id t) {p. (p, nd_current_term t) \<in> M}) \<and>
     (nd_state t = LEADER \<longrightarrow>
        nd_state s = LEADER \<and> nd_current_term t = nd_current_term s \<and> nd_votes t = nd_votes s \<or>
        QuorumSize t \<le> card (nd_votes t))"

lemma vote_le_refl [simp]: "vote_le M s s"
  by (simp add: vote_le_def)

lemma vote_leD:
  assumes "vote_le M s t"
  shows "nd_id t = nd_id s" "nd_peers t = nd_peers s" "hard_le (nd_hard s) (nd_hard t)"
    and "electing (nd_state t) \<Longrightarrow>
        nd_current_term t = nd_current_term s \<and> electing (nd_state s) \<and>
          nd_votes t \<subseteq> nd_votes s \<union> {p. (p, nd_current_term t) \<in> M} \<or>
        nd_voted_for t = nd_id t \<and> nd_votes t \<subseteq> insert (nd_id t) {p. (p, nd_current_term t) \<in> M}"
    and "nd_state t = LEADER \<Longrightarrow>
        nd_state s = LEADER \<and> nd_current_term t = nd_current_term s \<and> nd_votes t = nd_votes s \<or>
        QuorumSize t \<le> card (nd_votes t)"
  using assms unfolding vote_le_def by blast+

lemma vote_le_trans:
  assumes st: "vote_le M s t" and tu: "vote_le M t u" and ne: "nd_id s \<noteq> - 1"
  shows "vote_le M s u"
  unfolding vote_le_def
proof (intro conjI impI)
  note s = vote_leD [OF st] and t = vote_leD [OF tu]
  show "nd_id u = nd_id s" "nd_peers u = nd_peers s" using s(1,2) t(1,2) by simp_all
  show "hard_le (nd_hard s) (nd_hard u)" using s(3) t(3) by (rule hard_le_trans)
  have q: "QuorumSize u = QuorumSize t" using t(2) by (simp add: QuorumSize_def)
  show "nd_state s = LEADER \<and> nd_current_term u = nd_current_term s \<and> nd_votes u = nd_votes s \<or>
        QuorumSize u \<le> card (nd_votes u)" if "nd_state u = LEADER"
    using s(5) t(5) [OF that] q by metis
  assume el: "electing (nd_state u)"
  let ?M = "{p. (p, nd_current_term u) \<in> M}"
  show "nd_current_term u = nd_current_term s \<and> electing (nd_state s) \<and> nd_votes u \<subseteq> nd_votes s \<union> ?M \<or>
        nd_voted_for u = nd_id u \<and> nd_votes u \<subseteq> insert (nd_id u) ?M"
    using t(4) [OF el]
  proof (elim disjE conjE)
    assume old: "nd_current_term u = nd_current_term t" "electing (nd_state t)" "nd_votes u \<subseteq> nd_votes t \<union> ?M"
    from s(4) [OF old(2)] show ?thesis
    proof (elim disjE conjE)
      assume "nd_current_term t = nd_current_term s" "electing (nd_state s)"
        "nd_votes t \<subseteq> nd_votes s \<union> {p. (p, nd_current_term t) \<in> M}"
      with old show ?thesis by auto
    next
      assume v: "nd_voted_for t = nd_id t" "nd_votes t \<subseteq> insert (nd_id t) {p. (p, nd_current_term t) \<in> M}"
      have "nd_voted_for u = nd_voted_for t"
        using t(3) v(1) old(1) ne s(1) by (simp add: nd_hard_def)
      with v old t(1) show ?thesis by auto
    qed
  qed blast
qed

section \<open>What is on disk\<close>

abbreviation peer_ids :: "'db node \<Rightarrow> int set" where
  "peer_ids s \<equiv> pi_id ` set (nd_peers s)"

fun pending_agrees :: "int \<Rightarrow> alog \<Rightarrow> (int \<times> int \<times> bytes) option \<Rightarrow> bool" where
  "pending_agrees k a None \<longleftrightarrow> al_index a \<le> k \<and> k \<le> al_last a"
| "pending_agrees k a (Some (i, t, d)) \<longleftrightarrow>
     k \<le> i \<and> t \<le> fst (hard_of a) \<and> (\<exists>es. decode_snapshot d = Inr es \<and> AppliedKey \<notin> fst ` set es)"

definition agrees :: "int set \<Rightarrow> alog \<Rightarrow> int \<Rightarrow> bool" where
  "agrees ids a k \<longleftrightarrow>
     al_last_term a \<le> fst (hard_of a) \<and> snd (hard_of a) \<in> insert (- 1) ids \<and>
     pending_agrees k a (al_pending a)"

definition disk_ok ::
  "('db \<Rightarrow> bytes \<Rightarrow> bytes option) \<Rightarrow> entry_codec \<Rightarrow> int set \<Rightarrow> 'db \<Rightarrow> 'db \<Rightarrow> alog \<Rightarrow> int \<Rightarrow> bool" where
  "disk_ok view C ids kd ld a k \<longleftrightarrow>
     alog_ok a \<and> represents C (view ld) a \<and> kv_ok view \<lparr>ks_db = kd, ks_last_applied = k\<rparr> \<and> agrees ids a k"

definition log_keeps :: "int \<Rightarrow> alog \<Rightarrow> alog \<Rightarrow> bool" where
  "log_keeps n a a' \<longleftrightarrow>
     al_index a \<le> al_index a' \<and> n \<le> al_last a' \<and>
     (\<forall>i. al_index a' < i \<longrightarrow> i \<le> n \<longrightarrow> al_get a' i = al_get a i)"

lemma log_keeps_refl: "n \<le> al_last a \<Longrightarrow> log_keeps n a a"
  by (simp add: log_keeps_def)

lemma log_keeps_trans: "log_keeps n a a' \<Longrightarrow> log_keeps m a' a'' \<Longrightarrow> n \<le> m \<Longrightarrow> log_keeps n a a''"
  by (auto simp: log_keeps_def)

text \<open>On disk a staged snapshot may stand for the entries: it covers the same prefix.\<close>

definition log_saves :: "int \<Rightarrow> alog \<Rightarrow> alog \<Rightarrow> bool" where
  "log_saves n a a' \<longleftrightarrow> log_keeps n a a' \<and> (\<forall>i t d. al_pending a' = Some (i, t, d) \<longrightarrow> n \<le> i)"

lemma log_saves_keeps: "log_keeps n a a' \<Longrightarrow> al_pending a' = None \<Longrightarrow> log_saves n a a'"
  by (simp add: log_saves_def)

lemma log_saves_trans: "log_keeps n a a' \<Longrightarrow> log_saves m a' a'' \<Longrightarrow> n \<le> m \<Longrightarrow> log_saves n a a''"
  unfolding log_saves_def by (blast intro: log_keeps_trans order_trans)

section \<open>The node invariant\<close>

definition job_ok :: "('db \<Rightarrow> bytes \<Rightarrow> bytes option) \<Rightarrow> 'db node \<Rightarrow> bool" where
  "job_ok view s \<longleftrightarrow>
     (case nd_job s of
        None \<Rightarrow> \<not> nd_apply_inflight s \<and> kv_ok view (nd_sm s) \<and> ks_last_applied (nd_sm s) = nd_last_applied s
      | Some j \<Rightarrow>
          nd_apply_inflight s \<and> aj_first j = nd_last_applied s + 1 \<and>
          nd_last_applied s + int (length (aj_commands j)) \<le> nd_commit_index s \<and>
          (case aj_result j of
             None \<Rightarrow> kv_ok view (nd_sm s) \<and> ks_last_applied (nd_sm s) = nd_last_applied s
           | Some (Inr rs) \<Rightarrow>
               kv_ok view (nd_sm s) \<and> length rs = length (aj_commands j) \<and>
               ks_last_applied (nd_sm s) = nd_last_applied s + int (length (aj_commands j))
           | Some (Inl e) \<Rightarrow>
               \<exists>k. k \<in> {nd_last_applied s, nd_last_applied s + int (length (aj_commands j))} \<and>
                   kv_ok view \<lparr>ks_db = ks_db (nd_sm s), ks_last_applied = k\<rparr>))"

definition member_ok :: "'db node \<Rightarrow> bool" where
  "member_ok s \<longleftrightarrow>
     nd_id s \<in> peer_ids s \<and> (\<forall>i\<in>peer_ids s. 0 \<le> i \<and> i \<le> INT32_MAX) \<and>
     dom (nd_next_index s) = peer_ids s \<and> flights_ok s"

text \<open>The batch the executor holds is the log's next commands.\<close>

definition job_log :: "'db node \<Rightarrow> alog \<Rightarrow> bool" where
  "job_log s a \<longleftrightarrow>
     (\<forall>j n. nd_job s = Some j \<longrightarrow> n < length (aj_commands j) \<longrightarrow>
        map_option le_command (al_get a (nd_last_applied s + 1 + int n)) = Some (aj_commands j ! n))"

definition log_part :: "('db \<Rightarrow> bytes \<Rightarrow> bytes option) \<Rightarrow> entry_codec \<Rightarrow> 'db node \<Rightarrow> alog \<Rightarrow> bool" where
  "log_part view C s a \<longleftrightarrow>
     log_rel view C (nd_log s) a \<and> hard_of a = nd_hard s \<and> nd_voted_for s \<in> insert (- 1) (peer_ids s) \<and>
     0 \<le> nd_current_term s \<and> nd_current_term s \<le> INT32_MAX \<and>
     al_last_term a \<le> nd_current_term s \<and> al_pending a = None \<and>
     al_index a \<le> nd_last_applied s \<and> nd_last_applied s \<le> nd_commit_index s \<and> nd_commit_index s \<le> al_last a"

definition node_ok :: "('db \<Rightarrow> bytes \<Rightarrow> bytes option) \<Rightarrow> entry_codec \<Rightarrow> 'db node \<Rightarrow> alog \<Rightarrow> bool" where
  "node_ok view C s a \<longleftrightarrow> member_ok s \<and> log_part view C s a \<and> job_ok view s \<and> job_log s a"

text \<open>Between operations of a running node nothing committed waits, unless the executor is busy.\<close>

definition caught_up :: "'db node \<Rightarrow> bool" where
  "caught_up s \<longleftrightarrow> (nd_running s \<longrightarrow> \<not> nd_apply_inflight s \<longrightarrow> nd_last_applied s = nd_commit_index s)"

fun granted_vote :: "raft_event \<Rightarrow> bool" where
  "granted_vote (EvSend peer (RequestVoteResponse r)) = (rvr_vote_granted r \<and> \<not> rvr_prevote r)"
| "granted_vote _ = False"

definition no_vote :: "raft_event \<Rightarrow> bool" where
  "no_vote e \<longleftrightarrow> \<not> granted_vote e"

definition node_le :: "(int \<times> int) set \<Rightarrow> 'db node \<Rightarrow> alog \<Rightarrow> 'db node \<Rightarrow> alog \<Rightarrow> bool" where
  "node_le M s a t a' \<longleftrightarrow>
     vote_le M s t \<and> log_keeps (nd_commit_index s) a a' \<and>
     nd_commit_index s \<le> nd_commit_index t \<and> nd_last_applied s \<le> nd_last_applied t \<and> emitted no_vote s t"

definition safe ::
  "('db \<Rightarrow> bytes \<Rightarrow> bytes option) \<Rightarrow> entry_codec \<Rightarrow> (int \<times> int) set \<Rightarrow> 'db node \<Rightarrow> alog \<Rightarrow> 'db node \<Rightarrow> bool" where
  "safe view C M s0 a0 s \<longleftrightarrow> (\<exists>a. node_ok view C s a \<and> node_le M s0 a0 s a)"

definition dead ::
  "('db \<Rightarrow> bytes \<Rightarrow> bytes option) \<Rightarrow> entry_codec \<Rightarrow> 'db node \<Rightarrow> alog \<Rightarrow> 'db node \<Rightarrow> bool" where
  "dead view C s0 a0 s \<longleftrightarrow>
     (\<exists>a k. disk_ok view C (peer_ids s0) (ks_db (nd_sm s)) (rl_db (nd_log s)) a k \<and>
        hard_le (nd_hard s0) (hard_of a) \<and> log_saves (nd_commit_index s0) a0 a \<and> nd_last_applied s0 \<le> k) \<and>
     emitted no_vote s0 s"

definition runs ::
  "('db \<Rightarrow> bytes \<Rightarrow> bytes option) \<Rightarrow> entry_codec \<Rightarrow> (int \<times> int) set \<Rightarrow> 'db node \<Rightarrow> alog \<Rightarrow> ('db node, 'a) res \<Rightarrow> bool" where
  "runs view C M s0 a0 r \<longleftrightarrow> wp r (\<lambda>_. safe view C M s0 a0) (\<lambda>_. dead view C s0 a0)"

lemma node_le_refl: "node_ok view C s a \<Longrightarrow> node_le M s a s a"
  by (simp add: node_le_def log_keeps_refl node_ok_def log_part_def)

lemma node_le_trans:
  assumes "node_le M s a t b" and "node_le M t b u c" and "nd_id s \<noteq> - 1"
  shows "node_le M s a u c"
  using assms unfolding node_le_def
  by (auto intro: vote_le_trans emitted_trans log_keeps_trans)

lemma node_ok_id: "node_ok view C s a \<Longrightarrow> nd_id s \<noteq> - 1"
  by (auto simp: node_ok_def member_ok_def)

lemma safe_refl: "node_ok view C s a \<Longrightarrow> safe view C M s a s"
  by (auto simp: safe_def node_le_refl)

lemma safe_trans:
  assumes "safe view C M s a t" and "\<And>b. node_ok view C t b \<Longrightarrow> safe view C M t b u" and "nd_id s \<noteq> - 1"
  shows "safe view C M s a u"
proof -
  from assms(1) obtain b where b: "node_ok view C t b" "node_le M s a t b" by (auto simp: safe_def)
  from assms(2) [OF b(1)] obtain c where "node_ok view C u c" "node_le M t b u c" by (auto simp: safe_def)
  with b assms(3) show ?thesis by (auto simp: safe_def intro: node_le_trans)
qed

lemma dead_trans_at:
  assumes "node_le M s a t b" and "dead view C t b u"
  shows "dead view C s a u"
proof -
  have p: "nd_peers t = nd_peers s" "hard_le (nd_hard s) (nd_hard t)" "nd_commit_index s \<le> nd_commit_index t"
    "nd_last_applied s \<le> nd_last_applied t" "log_keeps (nd_commit_index s) a b" "emitted no_vote s t"
    using assms(1) by (auto simp: node_le_def vote_le_def)
  from assms(2) obtain c k where
    c: "disk_ok view C (peer_ids s) (ks_db (nd_sm u)) (rl_db (nd_log u)) c k" "hard_le (nd_hard t) (hard_of c)"
    "log_saves (nd_commit_index t) b c" "nd_last_applied t \<le> k" "emitted no_vote t u"
    unfolding dead_def p(1) by blast
  show ?thesis
    unfolding dead_def
    by (intro conjI exI [of _ c] exI [of _ k] c(1) hard_le_trans [OF p(2) c(2)] log_saves_trans [OF p(5) c(3) p(3)]
        order_trans [OF p(4) c(4)] emitted_trans [OF p(6) c(5)])
qed

lemma dead_trans:
  assumes "safe view C M s a t" and "\<And>b. node_ok view C t b \<Longrightarrow> dead view C t b u"
  shows "dead view C s a u"
  using assms dead_trans_at unfolding safe_def by blast

lemma quiet_event_no_vote: "quiet_event n e \<Longrightarrow> no_vote e"
  by (cases e rule: granted_vote.cases) (auto simp: no_vote_def)

lemma emitted_quiet_no_vote: "emitted (quiet_event n) s t \<Longrightarrow> emitted no_vote s t"
  by (erule emitted_mono) (rule quiet_event_no_vote)

lemma job_ok_cases [consumes 1, case_names ready finished failed]:
  assumes "job_ok view s"
  obtains
    (ready) "kv_ok view (nd_sm s)" "ks_last_applied (nd_sm s) = nd_last_applied s"
  | (finished) j where "nd_job s = Some j" "kv_ok view (nd_sm s)"
      "ks_last_applied (nd_sm s) = nd_last_applied s + int (length (aj_commands j))"
      "nd_last_applied s + int (length (aj_commands j)) \<le> nd_commit_index s"
  | (failed) j k where "nd_job s = Some j" "k = nd_last_applied s \<or> k = nd_last_applied s + int (length (aj_commands j))"
      "kv_ok view \<lparr>ks_db = ks_db (nd_sm s), ks_last_applied = k\<rparr>"
      "nd_last_applied s + int (length (aj_commands j)) \<le> nd_commit_index s"
  using assms unfolding job_ok_def by (fastforce split: option.splits sum.splits)

lemma node_ok_kv:
  assumes "node_ok view C s a"
  obtains k where "kv_ok view \<lparr>ks_db = ks_db (nd_sm s), ks_last_applied = k\<rparr>"
    "nd_last_applied s \<le> k" "k \<le> nd_commit_index s"
proof -
  have log: "log_part view C s a" and job: "job_ok view s" using assms by (auto simp: node_ok_def)
  from job show ?thesis
  proof (cases rule: job_ok_cases)
    case ready
    with log show ?thesis by (intro that [of "ks_last_applied (nd_sm s)"]) (simp_all add: log_part_def kv_ok_def)
  next
    case (finished j)
    then show ?thesis by (intro that [of "ks_last_applied (nd_sm s)"]) (simp_all add: kv_ok_def)
  next
    case (failed j k)
    with log that [of k] show ?thesis by (auto simp: log_part_def)
  qed
qed

text \<open>A node that satisfies the invariant may stop at any moment.\<close>

lemma node_ok_disk:
  assumes "node_ok view C s a"
  obtains k where "disk_ok view C (peer_ids s) (ks_db (nd_sm s)) (rl_db (nd_log s)) a k" "nd_last_applied s \<le> k"
proof -
  obtain k where k: "kv_ok view \<lparr>ks_db = ks_db (nd_sm s), ks_last_applied = k\<rparr>"
    "nd_last_applied s \<le> k" "k \<le> nd_commit_index s" using assms by (rule node_ok_kv)
  have log: "log_part view C s a" using assms by (simp add: node_ok_def)
  have "disk_ok view C (peer_ids s) (ks_db (nd_sm s)) (rl_db (nd_log s)) a k"
    using k log by (auto simp: disk_ok_def agrees_def log_part_def log_rel_def nd_hard_def)
  with k that show ?thesis by blast
qed

lemma safe_dead:
  assumes "safe view C M s0 a0 s" and "nd_id s0 \<noteq> - 1"
  shows "dead view C s0 a0 s"
proof (rule dead_trans [OF assms(1)])
  fix b assume b: "node_ok view C s b"
  then obtain k where k: "disk_ok view C (peer_ids s) (ks_db (nd_sm s)) (rl_db (nd_log s)) b k"
    "nd_last_applied s \<le> k" by (rule node_ok_disk)
  have "nd_hard s = hard_of b" "nd_commit_index s \<le> al_last b" "al_pending b = None"
    using b by (auto simp: node_ok_def log_part_def)
  with k log_saves_keeps [OF log_keeps_refl] show "dead view C s b s"
    unfolding dead_def by (intro conjI exI [of _ b] exI [of _ k]) simp_all
qed

section \<open>Rules for outcomes\<close>

named_theorems runs_rules \<open>operations that keep a node safe\<close>

lemma runs_simps [simp]:
  "runs view C M s0 a0 (Ok x s) = safe view C M s0 a0 s"
  "runs view C M s0 a0 (Throw e s) = dead view C s0 a0 s"
  by (simp_all add: runs_def)

lemma runs_bindR [runs_rules]:
  "runs view C M s0 a0 m \<Longrightarrow> (\<And>x s. safe view C M s0 a0 s \<Longrightarrow> m = Ok x s \<Longrightarrow> runs view C M s0 a0 (f x s)) \<Longrightarrow>
   runs view C M s0 a0 (bindR m f)"
  by (cases m) simp_all

lemma runs_if [runs_rules]:
  "(b \<Longrightarrow> runs view C M s0 a0 r) \<Longrightarrow> (\<not> b \<Longrightarrow> runs view C M s0 a0 r') \<Longrightarrow>
   runs view C M s0 a0 (if b then r else r')"
  by simp

lemma runs_foldR:
  "safe view C M s0 a0 s \<Longrightarrow> (\<And>x s. safe view C M s0 a0 s \<Longrightarrow> runs view C M s0 a0 (f x s)) \<Longrightarrow>
   runs view C M s0 a0 (foldR f xs s)"
  by (induction xs arbitrary: s) (auto intro!: runs_bindR)

lemma safe_id: "safe view C M s0 a0 s \<Longrightarrow> nd_id s0 \<noteq> - 1"
  by (auto simp: safe_def node_le_def vote_le_def dest: node_ok_id)

lemma runs_trans:
  assumes "safe view C M s0 a0 s" and "\<And>b. node_ok view C s b \<Longrightarrow> runs view C M s b r"
  shows "runs view C M s0 a0 r"
proof (cases r)
  case (Ok x t)
  with assms(2) safe_trans [OF assms(1) _ safe_id [OF assms(1)]] show ?thesis by simp
next
  case (Throw e t)
  with assms(2) dead_trans [OF assms(1)] show ?thesis by simp
qed

lemma runs_liftR [runs_rules]: "safe view C M s0 a0 s \<Longrightarrow> runs view C M s0 a0 (liftR m s)"
  by (cases m) (simp_all add: safe_dead [OF _ safe_id])

lemma core_eqD:
  assumes "core t = core s"
  shows "nd_id t = nd_id s" "nd_peers t = nd_peers s" "nd_sm t = nd_sm s" "nd_log t = nd_log s"
    "nd_apply_inflight t = nd_apply_inflight s" "nd_job t = nd_job s"
    "nd_current_term t = nd_current_term s" "nd_voted_for t = nd_voted_for s" "nd_state t = nd_state s"
    "nd_running t = nd_running s" "nd_commit_index t = nd_commit_index s"
    "nd_last_applied t = nd_last_applied s" "nd_votes t = nd_votes s" "dom (nd_next_index t) = dom (nd_next_index s)"
  using assms by (auto simp: core_def)

lemma node_ok_core:
  assumes "node_ok view C s a" and "core t = core s" and "flights_ok t"
  shows "node_ok view C t a"
  using assms(1,3)
  unfolding node_ok_def member_ok_def log_part_def job_ok_def job_log_def nd_hard_def core_eqD [OF assms(2)]
  by blast

lemma node_le_core:
  assumes "node_ok view C s a" and "core t = core s" and "emitted no_vote s t"
  shows "node_le M s a t a"
proof -
  have "nd_commit_index s \<le> al_last a" using assms(1) by (simp add: node_ok_def log_part_def)
  with assms(3) core_eqD [OF assms(2)] show ?thesis
    by (simp add: node_le_def vote_le_def nd_hard_def log_keeps_refl)
qed

lemma safe_core:
  assumes "safe view C M s0 a0 s" and "core t = core s" and "flights_ok t" and "emitted no_vote s t"
  shows "safe view C M s0 a0 t"
  using assms(1)
proof (rule safe_trans)
  show "safe view C M s b t" if "node_ok view C s b" for b
    using that node_ok_core [OF that assms(2,3)] node_le_core [OF that assms(2,4)] by (auto simp: safe_def)
qed (rule safe_id [OF assms(1)])

lemma safe_flights: "safe view C M s0 a0 s \<Longrightarrow> flights_ok s"
  by (auto simp: safe_def node_ok_def member_ok_def)

lemma safe_dom: "safe view C M s0 a0 s \<Longrightarrow> dom (nd_next_index s) = peer_ids s"
  by (auto simp: safe_def node_ok_def member_ok_def)

lemma safe_quiet: "safe view C M s0 a0 s \<Longrightarrow> quiet s t \<Longrightarrow> safe view C M s0 a0 t"
  by (rule safe_core) (auto simp: quiet_def intro: emitted_quiet_no_vote)

lemma runs_quiet:
  assumes "safe view C M s0 a0 s" and "quiet s s \<Longrightarrow> keeps (quiet s) r"
  shows "runs view C M s0 a0 r"
proof -
  have "quiet s (res_state r)"
    using assms(2) safe_flights [OF assms(1)] by (simp add: quiet_refl keeps_def)
  then have "safe view C M s0 a0 (res_state r)" by (rule safe_quiet [OF assms(1)])
  then show ?thesis by (cases r) (simp_all add: safe_dead [OF _ safe_id])
qed

lemma dead_core:
  assumes "dead view C s0 a0 s" and "nd_sm t = nd_sm s" "nd_log t = nd_log s" and "emitted no_vote s t"
  shows "dead view C s0 a0 t"
  using assms by (auto simp: dead_def intro: emitted_trans)

lemma safe_upd: "safe view C M s0 a0 s \<Longrightarrow> (quiet s s \<Longrightarrow> quiet s t) \<Longrightarrow> safe view C M s0 a0 t"
  using safe_quiet quiet_refl safe_flights by blast

lemma safe_updates [simp]:
  "safe view C M s0 a0 s \<Longrightarrow> safe view C M s0 a0 (s\<lparr>nd_storage_healthy := b\<rparr>)"
  "safe view C M s0 a0 s \<Longrightarrow> safe view C M s0 a0 (s\<lparr>nd_leader_id := i\<rparr>)"
  "safe view C M s0 a0 s \<Longrightarrow> safe view C M s0 a0 (s\<lparr>nd_match_index := m\<rparr>)"
  "safe view C M s0 a0 s \<Longrightarrow> safe view C M s0 a0 (s\<lparr>nd_snapshot_receive := sr\<rparr>)"
  "safe view C M s0 a0 s \<Longrightarrow> safe view C M s0 a0 (s\<lparr>nd_last_snapshot_attempt := i\<rparr>)"
  "safe view C M s0 a0 s \<Longrightarrow> safe view C M s0 a0 (s\<lparr>nd_leader_since := i\<rparr>)"
  "safe view C M s0 a0 s \<Longrightarrow> safe view C M s0 a0 (s\<lparr>nd_heartbeat_timer_ms := i\<rparr>)"
  "safe view C M s0 a0 s \<Longrightarrow> safe view C M s0 a0 (s\<lparr>nd_pending := ps\<rparr>)"
  "safe view C M s0 a0 s \<Longrightarrow> safe view C M s0 a0 (s\<lparr>nd_pending_bytes := n\<rparr>)"
  "safe view C M s0 a0 s \<Longrightarrow> safe view C M s0 a0 (s\<lparr>nd_lease_confirmed := cf\<rparr>)"
  "safe view C M s0 a0 s \<Longrightarrow> safe view C M s0 a0 (upd_reads f s)"
  "safe view C M s0 a0 s \<Longrightarrow> safe view C M s0 a0 (upd_metrics g s)"
  by (erule safe_upd; simp)+

lemma safe_emit: "safe view C M s0 a0 s \<Longrightarrow> no_vote e \<Longrightarrow> safe view C M s0 a0 (emit e s)"
  by (rule safe_core [of _ _ _ _ _ s]) (auto simp: emit_def intro: safe_flights emitted_emit [unfolded emit_def])

lemma runs_PeerSend [runs_rules]:
  assumes "safe view C M s0 a0 s" and "no_vote (EvSend p m)"
  shows "runs view C M s0 a0 (PeerSend E p m s)"
  using assms safe_quiet [OF assms(1)] quiet_ask [of s s] safe_flights [OF assms(1)]
  by (auto simp: PeerSend_def ask_def keeps_def quiet_refl intro!: safe_emit)

lemma runs_PeerBroadcast [runs_rules]:
  assumes "safe view C M s0 a0 s" and "\<And>p. no_vote (EvSend p m)"
  shows "runs view C M s0 a0 (PeerBroadcast E m s)"
  unfolding PeerBroadcast_def using assms by (auto intro!: runs_foldR runs_rules)

lemma runs_quietI:
  assumes "\<And>s0 s. quiet s0 s \<Longrightarrow> keeps (quiet s0) (r s)" and "safe view C M s0 a0 s"
  shows "runs view C M s0 a0 (r s)"
  using assms by (blast intro: runs_quiet)

lemma runs_quiet_ops [runs_rules]:
  "safe view C M s0 a0 s \<Longrightarrow> runs view C M s0 a0 (Now E s)"
  "safe view C M s0 a0 s \<Longrightarrow> runs view C M s0 a0 (SteadyNow E s)"
  "safe view C M s0 a0 s \<Longrightarrow> runs view C M s0 a0 (LogTerm E i s)"
  "safe view C M s0 a0 s \<Longrightarrow> runs view C M s0 a0 (ask g s)"
  "safe view C M s0 a0 s \<Longrightarrow> runs view C M s0 a0 (ResetElectionTimer E s)"
  "safe view C M s0 a0 s \<Longrightarrow> runs view C M s0 a0 (NotePeerContact E p s)"
  "safe view C M s0 a0 s \<Longrightarrow> runs view C M s0 a0 (ExpireUncommittedProposals E s)"
  "safe view C M s0 a0 s \<Longrightarrow> runs view C M s0 a0 (SendSnapshotChunk E p s)"
  "safe view C M s0 a0 s \<Longrightarrow> runs view C M s0 a0 (SendAppendEntries E p s)"
  "safe view C M s0 a0 s \<Longrightarrow> runs view C M s0 a0 (BroadcastAppendEntries E s)"
  "safe view C M s0 a0 s \<Longrightarrow> runs view C M s0 a0 (FinishReadIndexRounds E s)"
  "safe view C M s0 a0 s \<Longrightarrow> runs view C M s0 a0 (ProcessPendingReads E s)"
  "safe view C M s0 a0 s \<Longrightarrow> runs view C M s0 a0 (CheckReadIndexTimeout E s)"
  "safe view C M s0 a0 s \<Longrightarrow> runs view C M s0 a0 (AckReadIndexProbe E p w s)"
  "safe view C M s0 a0 s \<Longrightarrow> runs view C M s0 a0 (RequestReadIndex E c s)"
  "safe view C M s0 a0 s \<Longrightarrow> runs view C M s0 a0 (add_pending E ip s)"
  "safe view C M s0 a0 s \<Longrightarrow> runs view C M s0 a0 (send_if_behind E p s)"
  "safe view C M s0 a0 s \<Longrightarrow> runs view C M s0 a0 (conflict_hint E q s)"
  "safe view C M s0 a0 s \<Longrightarrow> runs view C M s0 a0 (note_ack E p r f s)"
  by (rule runs_quietI; (erule quiet_intros)?; assumption)+

end
