(* ===== verification/NodeSteps.thy ===== *)
theory NodeSteps
  imports NodeInv
begin

text \<open>
  Every operation of a node keeps its invariant. One lemma per operation of
  \<open>src/src/raft/raft_node.cc\<close> that writes the hard state, the log, the state machine, the role or
  the commit index; the others are quiet. The locale \<open>raft_storage\<close> is what the node relies on: the
  contract of the two databases and of the entry codec.
\<close>

section \<open>Moves of the log\<close>

definition log_move :: "'db node \<Rightarrow> alog \<Rightarrow> alog \<Rightarrow> bool" where
  "log_move s b c \<longleftrightarrow>
     al_last_term c \<le> fst (hard_of c) \<and> snd (hard_of c) \<in> insert (- 1) (peer_ids s) \<and> al_pending c = None \<and>
     al_index c \<le> nd_last_applied s \<and> log_keeps (nd_commit_index s) b c \<and> hard_le (nd_hard s) (hard_of c)"

lemma log_move_refl: "node_ok view C s b \<Longrightarrow> log_move s b b"
  by (auto simp: log_move_def node_ok_def log_part_def nd_hard_def intro: log_keeps_refl)

lemma dead_log:
  assumes s: "node_ok view C s b" and "alog_ok c" and "represents C (view (rl_db l)) c" and mv: "log_move s b c"
  shows "dead view C s b (s\<lparr>nd_log := l\<rparr>)"
proof -
  obtain k where k: "kv_ok view \<lparr>ks_db = ks_db (nd_sm s), ks_last_applied = k\<rparr>"
    "nd_last_applied s \<le> k" "k \<le> nd_commit_index s" using s by (rule node_ok_kv)
  then have "disk_ok view C (peer_ids s) (ks_db (nd_sm s)) (rl_db l) c k"
    using assms by (auto simp: disk_ok_def agrees_def log_move_def log_keeps_def)
  with k mv show ?thesis
    unfolding dead_def log_move_def by (intro conjI exI [of _ c] exI [of _ k]) (simp_all add: emitted_def log_saves_keeps)
qed

lemma wp_on_log:
  assumes s: "node_ok view C s b" and step: "log_step view C (f (nd_log s)) b c" and mv: "log_move s b c"
    and post: "\<And>l. log_rel view C l c \<Longrightarrow> Q (s\<lparr>nd_log := l\<rparr>)"
  shows "wp (on_log f s) (\<lambda>_. Q) (\<lambda>_. dead view C s b)"
proof (cases "f (nd_log s)")
  case (Ok x l)
  with step post show ?thesis by (simp add: on_log_def log_step_def)
next
  case (Throw e l)
  have b: "alog_ok b" using s by (simp add: node_ok_def log_part_def log_rel_def)
  from Throw step have "represents C (view (rl_db l)) b \<or> alog_ok c \<and> represents C (view (rl_db l)) c"
    by (simp add: log_step_def)
  then have "dead view C s b (s\<lparr>nd_log := l\<rparr>)"
    using dead_log [OF s b _ log_move_refl [OF s]] dead_log [OF s _ _ mv] by blast
  with Throw show ?thesis by (simp add: on_log_def)
qed

lemma job_ok_mono:
  assumes "job_ok view s" "nd_job t = nd_job s" "nd_apply_inflight t = nd_apply_inflight s" "nd_sm t = nd_sm s"
    "nd_last_applied t = nd_last_applied s" "nd_commit_index s \<le> nd_commit_index t"
  shows "job_ok view t"
  using assms by (auto simp: job_ok_def split: option.splits sum.splits)

lemma job_log_keeps:
  assumes s: "node_ok view C s b" and "nd_job t = nd_job s" and mv: "log_move s b c"
    and "nd_last_applied t = nd_last_applied s"
  shows "job_log t c"
  unfolding job_log_def
proof (intro allI impI)
  fix j n assume j: "nd_job t = Some j" "n < length (aj_commands j)"
  then have "nd_last_applied s + 1 + int n \<le> nd_commit_index s"
    using s assms(2) by (auto simp: node_ok_def job_ok_def)
  moreover have "al_index c < nd_last_applied s + 1 + int n" using mv by (simp add: log_move_def)
  ultimately have "al_get c (nd_last_applied s + 1 + int n) = al_get b (nd_last_applied s + 1 + int n)"
    using mv by (simp add: log_move_def log_keeps_def)
  with s j assms(2,4) show "map_option le_command (al_get c (nd_last_applied t + 1 + int n)) = Some (aj_commands j ! n)"
    by (simp add: node_ok_def job_log_def)
qed

text \<open>The node after a move of its log: the other fields as a core.\<close>

lemma node_ok_log:
  assumes s: "node_ok view C s b" and l: "log_rel view C l c" and mv: "log_move s b c"
    and t: "core t = core (s\<lparr>nd_log := l, nd_current_term := fst (hard_of c),
              nd_voted_for := snd (hard_of c), nd_state := r, nd_votes := V\<rparr>)"
    and f: "flights_ok t" and tm: "0 \<le> fst (hard_of c)" "fst (hard_of c) \<le> INT32_MAX"
  shows "node_ok view C t c"
proof -
  note e = core_eqD [OF t]
  have "job_ok view t" using s by (intro job_ok_mono [of view s t]) (simp_all add: node_ok_def e)
  moreover have "job_log t c" by (rule job_log_keeps [OF s _ mv]) (simp_all add: e)
  ultimately show ?thesis
    using s l f tm mv
    by (simp add: node_ok_def member_ok_def log_part_def nd_hard_def e log_move_def log_keeps_def)
qed

lemma safe_log:
  assumes s: "node_ok view C s b" and l: "log_rel view C l c" and mv: "log_move s b c"
    and t: "core t = core (s\<lparr>nd_log := l, nd_current_term := fst (hard_of c),
              nd_voted_for := snd (hard_of c), nd_state := r, nd_votes := V\<rparr>)"
    and f: "flights_ok t" and tm: "0 \<le> fst (hard_of c)" "fst (hard_of c) \<le> INT32_MAX"
    and v: "vote_le M s t" and e: "emitted no_vote s t"
  shows "safe view C M s b t"
proof -
  have "node_ok view C t c" by (rule node_ok_log [OF s l mv t f tm])
  moreover have "node_le M s b t c"
    using v e mv core_eqD(11,12) [OF t] by (simp add: node_le_def log_move_def)
  ultimately show ?thesis by (auto simp: safe_def)
qed

lemma vote_le_same:
  assumes "nd_id t = nd_id s" "nd_peers t = nd_peers s" "hard_le (nd_hard s) (nd_hard t)"
    and "\<not> electing (nd_state t) \<or>
      nd_current_term t = nd_current_term s \<and> nd_state t = nd_state s \<and> nd_votes t = nd_votes s"
  shows "vote_le M s t"
  using assms by (auto simp: vote_le_def electing_def)

locale raft_storage = log_storage R view C
  for R :: "'db rocksdb_ops" and view :: "'db \<Rightarrow> bytes \<Rightarrow> bytes option" and C :: entry_codec +
  fixes E :: "'db raft_env"
  assumes env: "en_rocks E = R" "en_codec E = C"
begin

lemma node_ok_log_rel: "node_ok view C s b \<Longrightarrow> log_rel view C (nd_log s) b"
  by (simp add: node_ok_def log_part_def)

text \<open>Changing role without standing for election.\<close>

lemma safe_role:
  assumes "safe view C M s0 a0 s" and "core t = core (s\<lparr>nd_state := r, nd_votes := V\<rparr>)"
    and "flights_ok t" and "emitted no_vote s t" and "\<not> electing r"
  shows "safe view C M s0 a0 t"
proof (rule safe_trans [OF assms(1) _ safe_id [OF assms(1)]])
  fix b assume b: "node_ok view C s b"
  note e = core_eqD [OF assms(2)]
  have "node_ok view C t b"
  proof (rule node_ok_log [OF b node_ok_log_rel [OF b] log_move_refl [OF b]])
    have h: "hard_of b = nd_hard s" using b by (simp add: node_ok_def log_part_def)
    then show "core t = core (s\<lparr>nd_log := nd_log s, nd_current_term := fst (hard_of b),
                nd_voted_for := snd (hard_of b), nd_state := r, nd_votes := V\<rparr>)"
      using assms(2) by (simp add: core_def nd_hard_def)
    show "0 \<le> fst (hard_of b)" "fst (hard_of b) \<le> INT32_MAX"
      using b h by (simp_all add: node_ok_def log_part_def nd_hard_def)
  qed (rule assms(3))
  moreover have "node_le M s b t b"
    using assms(4,5) b e
    by (auto simp: node_le_def nd_hard_def node_ok_def log_part_def intro!: vote_le_same log_keeps_refl)
  ultimately show "safe view C M s b t" by (auto simp: safe_def)
qed

lemma log_move_save:
  assumes "node_ok view C s b" and "hard_le (nd_hard s) (t, v)" and "v \<in> insert (- 1) (peer_ids s)"
  shows "log_move s b (al_save t v b)"
proof -
  have "al_last_term b \<le> t"
    using assms(1,2) by (auto simp: node_ok_def log_part_def nd_hard_def)
  moreover have "al_last_term (al_save t v b) = al_last_term b" "hard_of (al_save t v b) = (t, v)"
    "log_keeps n b (al_save t v b) = (n \<le> al_last b)" for n
    by (auto simp: al_save_def al_last_term_def hard_of_def log_keeps_def al_last_def al_get_def)
  ultimately show ?thesis
    using assms by (auto simp: log_move_def node_ok_def log_part_def al_save_def)
qed

lemma wp_SaveHardState:
  assumes s: "node_ok view C s b" and h: "hard_le (nd_hard s) (t, v)" and v: "v \<in> insert (- 1) (peer_ids s)"
    and t: "t \<le> INT32_MAX"
    and post: "\<And>l. log_rel view C l (al_save t v b) \<Longrightarrow> Q (s\<lparr>nd_log := l\<rparr>)"
  shows "wp (on_log (SaveHardState R t v) s) (\<lambda>_. Q) (\<lambda>_. dead view C s b)"
proof (rule wp_on_log [OF s _ log_move_save [OF s h v]])
  show "Q (s\<lparr>nd_log := l\<rparr>)" if "log_rel view C l (al_save t v b)" for l using that by (rule post)
  have "v \<le> INT32_MAX" using s v by (auto simp: node_ok_def member_ok_def)
  then show "log_step view C (SaveHardState R t v (nd_log s)) b (al_save t v b)"
    using t by (intro SaveHardState_step node_ok_log_rel [OF s])
qed

text \<open>Saving a new hard state and adopting it in memory.\<close>

lemma runs_save:
  assumes s: "safe view C M s0 a0 s" and h: "hard_le (nd_hard s) (t, v)" and v: "v \<in> insert (- 1) (peer_ids s)"
    and t: "t \<le> INT32_MAX"
    and adopt: "\<And>l. core (upd (s\<lparr>nd_log := l\<rparr>)) =
          core (s\<lparr>nd_log := l, nd_current_term := t, nd_voted_for := v, nd_state := r, nd_votes := V\<rparr>)"
      "\<And>l. flights_ok (upd (s\<lparr>nd_log := l\<rparr>))" "\<And>l. nd_events (upd (s\<lparr>nd_log := l\<rparr>)) = nd_events s"
    and role: "\<not> electing r \<or> t = nd_current_term s \<and> r = nd_state s \<and> V = nd_votes s \<or>
          r = CANDIDATE \<and> v = nd_id s \<and> V = {nd_id s}"
  shows "runs view C M s0 a0 (bindR (on_log (SaveHardState R t v) s) (\<lambda>_ s. Ok () (upd s)))"
proof (rule runs_trans [OF s])
  fix b assume b: "node_ok view C s b"
  have ge: "0 \<le> t" using b h by (auto simp: node_ok_def log_part_def nd_hard_def)
  have "wp (on_log (SaveHardState R t v) s) (\<lambda>_ u. safe view C M s b (upd u)) (\<lambda>_. dead view C s b)"
  proof (rule wp_SaveHardState [OF b h v t])
    fix l assume l: "log_rel view C l (al_save t v b)"
    let ?t = "upd (s\<lparr>nd_log := l\<rparr>)"
    have hard: "hard_of (al_save t v b) = (t, v)" by (simp add: hard_of_def al_save_def)
    note e = core_eqD [OF adopt(1), of l]
    have "vote_le M s ?t"
      using role
    proof (elim disjE)
      assume "\<not> electing r"
      then show ?thesis using h by (intro vote_le_same) (simp_all add: e nd_hard_def)
    next
      assume "t = nd_current_term s \<and> r = nd_state s \<and> V = nd_votes s"
      then show ?thesis using h by (intro vote_le_same) (simp_all add: e nd_hard_def)
    next
      assume "r = CANDIDATE \<and> v = nd_id s \<and> V = {nd_id s}"
      then show ?thesis using h by (simp add: vote_le_def e nd_hard_def)
    qed
    moreover have "emitted no_vote s ?t" using adopt(3) by (simp add: emitted_def)
    moreover have "core ?t = core (s\<lparr>nd_log := l, nd_current_term := fst (hard_of (al_save t v b)),
        nd_voted_for := snd (hard_of (al_save t v b)), nd_state := r, nd_votes := V\<rparr>)"
      unfolding hard using adopt(1) by simp
    ultimately show "safe view C M s b ?t"
      using ge t hard by (intro safe_log [OF b l log_move_save [OF b h v] _ adopt(2)]) simp_all
  qed
  then show "runs view C M s b (bindR (on_log (SaveHardState R t v) s) (\<lambda>_ s. Ok () (upd s)))"
    by (simp add: runs_def wp_bindR)
qed

end

section \<open>Stepping down\<close>

definition follower :: "'db node \<Rightarrow> 'db node" where
  "follower s = s\<lparr>nd_state := FOLLOWER, nd_leader_id := - 1, nd_votes := {},
     nd_peer_active := (\<lambda>_. None), nd_lease_confirmed := (\<lambda>_. None),
     nd_inflight := (\<lambda>i. map_option (\<lambda>_. no_flight) (nd_inflight s i)), nd_snapshot_receive := no_receive\<rparr>"

lemma follower_facts:
  "core (follower s) = core (s\<lparr>nd_state := FOLLOWER, nd_votes := {}\<rparr>)" "flights_ok (follower s)"
  "nd_events (follower s) = nd_events s"
  by (auto simp: follower_def core_def flights_ok_def no_flight_def)

lemma BecomeFollower_alt:
  "BecomeFollower E t s =
     bindR (if t > nd_current_term s
            then bindR (on_log (SaveHardState (en_rocks E) t (- 1)) s) (\<lambda>_ s.
                   Ok () (follower (s\<lparr>nd_current_term := t, nd_voted_for := - 1\<rparr>)))
            else Ok () (follower s)) (\<lambda>_ s.
     bindR (ResetElectionTimer E s) (\<lambda>_ s.
       Ok () (upd_reads (\<lambda>r. r\<lparr>rs_can_serve_read := False\<rparr>)
         (ClearReadIndexQueues ''leadership lost'' (FailPending (''-ERR leadership lost; outcome unknown'' @ CRLF) s)))))"
  by (simp add: BecomeFollower_def follower_def Let_def bindR_assoc)

lemma safe_FailPending [simp]: "safe view C M s0 a0 s \<Longrightarrow> safe view C M s0 a0 (FailPending r s)"
  by (erule safe_upd) (rule quiet_FailPending)

lemma safe_ClearReadIndexQueues [simp]: "safe view C M s0 a0 s \<Longrightarrow> safe view C M s0 a0 (ClearReadIndexQueues r s)"
  by (erule safe_upd) (rule quiet_ClearReadIndexQueues)

context raft_storage
begin

lemma runs_BecomeFollower [runs_rules]:
  assumes s: "safe view C M s0 a0 s" and t: "t \<le> INT32_MAX"
  shows "runs view C M s0 a0 (BecomeFollower E t s)"
proof -
  have "runs view C M s0 a0 (bindR (on_log (SaveHardState R t (- 1)) s) (\<lambda>_ s.
          Ok () (follower (s\<lparr>nd_current_term := t, nd_voted_for := - 1\<rparr>))))" if "nd_current_term s < t"
    by (rule runs_save [OF s _ _ t, where r = FOLLOWER and V = "{}"])
      (use that in \<open>simp_all add: nd_hard_def follower_facts electing_def\<close>)
  moreover have "safe view C M s0 a0 (follower s)"
    by (rule safe_role [OF s follower_facts(1,2)]) (simp_all add: emitted_def follower_facts electing_def)
  ultimately show ?thesis
    unfolding BecomeFollower_alt env by - (rule runs_bindR, simp, auto intro!: runs_rules)
qed

lemma safe_term: "safe view C M s0 a0 s \<Longrightarrow> nd_current_term s \<le> INT32_MAX"
  by (auto simp: safe_def node_ok_def log_part_def)

lemma runs_CheckQuorum [runs_rules]:
  assumes "safe view C M s0 a0 s"
  shows "runs view C M s0 a0 (CheckQuorum E s)"
  unfolding CheckQuorum_def Let_def
  using assms by (auto intro!: runs_rules safe_term)

lemma runs_vote_reply:
  assumes "safe view C M s0 a0 s" and "\<not> granted \<or> prevote"
  shows "runs view C M s0 a0 (vote_reply E p prevote granted s)"
  unfolding vote_reply_def using assms by (auto intro!: runs_rules simp: no_vote_def)

lemma runs_BecomePreCandidate_broadcast:
  assumes "safe view C M s0 a0 s"
  shows "runs view C M s0 a0
    (bindR (ResetElectionTimer E (s\<lparr>nd_state := PRE_CANDIDATE, nd_leader_id := - 1, nd_votes := {nd_id s}\<rparr>))
          (\<lambda>_ s. PeerBroadcast E (vote_request True (nd_current_term s + 1) s) s))"
proof -
  have "safe view C M s0 a0 (s\<lparr>nd_state := PRE_CANDIDATE, nd_leader_id := - 1, nd_votes := {nd_id s}\<rparr>)"
    by (rule safe_role [OF assms, where r = PRE_CANDIDATE and V = "{nd_id s}"])
      (use assms in \<open>simp_all add: core_def emitted_def electing_def safe_flights\<close>)
  then show ?thesis by (auto intro!: runs_rules simp: no_vote_def vote_request_def)
qed

end

section \<open>Applying committed entries\<close>

context rocksdb
begin

lemma apply_commands_length:
  assumes "apply_commands R s cs acc = Inr acc'"
  shows "length (aa_mutations acc') = length (aa_mutations acc) + length cs \<and>
         length (aa_replies acc') = length (aa_replies acc) + length cs"
  using assms
proof (induction cs arbitrary: acc)
  case Nil
  then show ?case by simp
next
  case (Cons c cs)
  from Cons.prems obtain acc1 where one: "apply_command R s c acc = Inr acc1"
    and rest: "apply_commands R s cs acc1 = Inr acc'" by (auto simp: bindE_eq_Inr)
  have keep: "aa_mutations acc3 = aa_mutations acc2 \<and> aa_replies acc3 = aa_replies acc2"
    if "translate_command R s c acc2 = Inr (m, r, acc3)" for acc2 m r acc3
    using that
    by (auto simp: translate_command_def apply_idempotent_def session_for_def bindE_eq_Inr Let_def
        split: if_splits option.splits)
  have "length (aa_mutations acc1) = Suc (length (aa_mutations acc))" "length (aa_replies acc1) = Suc (length (aa_replies acc))"
    using one keep by (fastforce simp: apply_command_def bindE_eq_Inr Let_def split: if_splits)+
  with Cons.IH [OF rest] show ?case by simp
qed

lemma length_fill_replies: "length rs = length bs \<Longrightarrow> length (fill_replies rs bs) = length rs"
  by (induction rs bs rule: list_induct2) simp_all

lemma wp_ApplyBatch:
  assumes "kv_ok view m" and "first = ks_last_applied m + 1"
  shows "wp (ApplyBatch R first cs m)
           (\<lambda>rs m'. kv_ok view m' \<and> ks_last_applied m' = ks_last_applied m + int (length cs) \<and> length rs = length cs)
           (\<lambda>_ m'. \<exists>k. (k = ks_last_applied m \<or> k = ks_last_applied m + int (length cs)) \<and>
              kv_ok view \<lparr>ks_db = ks_db m', ks_last_applied = k\<rparr>)"
proof (cases "apply_commands R m cs (new_acc first)")
  case (Inl e)
  with assms show ?thesis by (auto simp: ApplyBatch_def kv_ok_def intro!: exI [of _ "ks_last_applied m"])
next
  case (Inr acc)
  have len: "length (aa_mutations acc) = length cs" "length (aa_replies acc) = length cs"
    using apply_commands_length [OF Inr] by (simp_all add: new_acc_def)
  show ?thesis
  proof (cases "KV_ApplyBatch R (aa_mutations acc) m")
    case (Ok ex m')
    have kv: "kv_ok view m'" using Ok assms(1) by (rule ApplyBatch_kv_ok)
    have "ks_last_applied m' = ks_last_applied m + int (length cs) \<and> length ex = length cs"
    proof (cases "aa_mutations acc = []")
      case True
      with Ok len show ?thesis by (simp add: KV_ApplyBatch_def)
    next
      case False
      from ApplyBatch_spec [OF Ok False] len show ?thesis by simp
    qed
    with Inr Ok kv len show ?thesis by (simp add: ApplyBatch_def length_fill_replies)
  next
    case (Throw e m')
    have ks: "0 \<le> ks_last_applied m" "ks_last_applied m \<le> INT64_MAX" using assms(1) by (auto simp: kv_ok_def)
    from ApplyBatch_atomic [OF Throw] consider "view (ks_db m') = view (ks_db m)"
      | "view (ks_db m') AppliedKey = Some (be8 (ks_last_applied m + int (length cs)))"
        "ks_last_applied m + int (length cs) \<le> INT64_MAX"
      using ks len by auto
    then have "\<exists>k. (k = ks_last_applied m \<or> k = ks_last_applied m + int (length cs)) \<and>
              kv_ok view \<lparr>ks_db = ks_db m', ks_last_applied = k\<rparr>"
    proof cases
      case 1
      then show ?thesis using assms(1) by (intro exI [of _ "ks_last_applied m"]) (simp add: kv_ok_def)
    next
      case 2
      then show ?thesis using ks
        by (intro exI [of _ "ks_last_applied m + int (length cs)"]) (simp add: kv_ok_def)
    qed
    with Inr Throw show ?thesis by (simp add: ApplyBatch_def)
  qed
qed

end

lemma catch_fail_storage:
  "wp (catchR r fail_storage) Q D = wp r Q (\<lambda>e s. D e (s\<lparr>nd_storage_healthy := False\<rparr>))"
  by (cases r) (simp_all add: fail_storage_def)

lemma dead_updates [simp]:
  "dead view C s0 a0 (s\<lparr>nd_storage_healthy := b\<rparr>) = dead view C s0 a0 s"
  "dead view C s0 a0 (s\<lparr>nd_apply_inflight := b\<rparr>) = dead view C s0 a0 s"
  "dead view C s0 a0 (s\<lparr>nd_job := j\<rparr>) = dead view C s0 a0 s"
  "dead view C s0 a0 (s\<lparr>nd_oracle := n\<rparr>) = dead view C s0 a0 s"
  by (simp_all add: dead_def emitted_def)

text \<open>The node once the state machine has applied the next commands.\<close>

definition advanced :: "'db node \<Rightarrow> 'db kv_store \<Rightarrow> nat \<Rightarrow> 'db node" where
  "advanced s m n = s\<lparr>nd_sm := m, nd_last_applied := nd_last_applied s + int n\<rparr>"

lemma dead_sm:
  assumes s: "node_ok view C s b" and "nd_log t = nd_log s" and "ks_db (nd_sm t) = d" and "emitted no_vote s t"
    and "kv_ok view \<lparr>ks_db = d, ks_last_applied = k\<rparr>" "nd_last_applied s \<le> k" "k \<le> nd_commit_index s"
  shows "dead view C s b t"
proof -
  have "disk_ok view C (peer_ids s) d (rl_db (nd_log s)) b k" and "log_saves (nd_commit_index s) b b"
    and "hard_le (nd_hard s) (hard_of b)"
    using assms by (auto simp: disk_ok_def agrees_def node_ok_def log_part_def log_rel_def nd_hard_def
        intro: log_saves_keeps log_keeps_refl)
  with assms show ?thesis
    unfolding dead_def by (intro conjI exI [of _ b] exI [of _ k]) simp_all
qed

context raft_storage
begin

lemma node_advanced:
  assumes s: "node_ok view C s b" and j: "nd_job s = None"
    and m: "kv_ok view m" "ks_last_applied m = nd_last_applied s + int n"
    and n: "nd_last_applied s + int n \<le> nd_commit_index s"
    and t: "core t = core (advanced s m n)" "flights_ok t" "emitted no_vote s t"
  shows "node_ok view C t b \<and> node_le M s b t b"
proof -
  note e = core_eqD [OF t(1)]
  have "job_ok view t" "job_log t b" using s j m by (simp_all add: job_ok_def job_log_def e advanced_def node_ok_def)
  then have "node_ok view C t b"
    using s n t(2) by (simp add: node_ok_def member_ok_def log_part_def e advanced_def nd_hard_def)
  moreover have "node_le M s b t b"
    using t(3) s by (auto simp: node_le_def e advanced_def nd_hard_def node_ok_def log_part_def
        intro!: vote_le_same log_keeps_refl)
  ultimately show ?thesis ..
qed

lemma wp_apply_now:
  assumes s: "node_ok view C s b" and j: "nd_job s = None"
    and first: "first = nd_last_applied s + 1"
    and n: "nd_last_applied s + int (length commands) \<le> nd_commit_index s"
  shows "wp (apply_now E first commands bytes s)
    (\<lambda>_ t. \<exists>rs m. ApplyBatch R first commands (nd_sm s) = Ok rs m \<and>
       core t = core (advanced s m (length commands)) \<and> node_ok view C t b \<and> node_le M s b t b)
    (\<lambda>_. dead view C s b)"
proof -
  have kv: "kv_ok view (nd_sm s)" "ks_last_applied (nd_sm s) = nd_last_applied s"
    using s j by (simp_all add: node_ok_def job_ok_def)
  note ab = wp_ApplyBatch [OF kv(1), of first commands]
  let ?u = "s\<lparr>nd_oracle := Suc (nd_oracle s)\<rparr>"
  have fl: "flights_ok s" using s by (simp add: node_ok_def member_ok_def)
  show ?thesis
  proof (cases "ApplyBatch R first commands (nd_sm s)")
    case (Throw e m)
    with ab first kv obtain k where
      "k = nd_last_applied s \<or> k = nd_last_applied s + int (length commands)"
      "kv_ok view \<lparr>ks_db = ks_db m, ks_last_applied = k\<rparr>" by auto
    then have "dead view C s b (?u\<lparr>nd_sm := m\<rparr>)"
      using n s by (intro dead_sm [OF s, of _ _ k]) (auto simp: emitted_def node_ok_def log_part_def)
    with Throw show ?thesis
      by (simp add: apply_now_def SteadyNow_def ask_def on_sm_def env fail_storage_def)
  next
    case (Ok rs m)
    with ab first kv have m: "kv_ok view m" "ks_last_applied m = nd_last_applied s + int (length commands)"
      "length rs = length commands" by auto
    let ?v = "?u\<lparr>nd_sm := m, nd_oracle := Suc (Suc (nd_oracle s))\<rparr>"
    let ?w = "?v\<lparr>nd_last_applied := nd_last_applied s + int (length commands)\<rparr>"
    have "quiet ?w ?w" using fl by (intro quiet_refl) simp
    then have q: "keeps (quiet ?w) (FinishApply E first (length commands) rs us bytes 0 ?v)" for us
      by (intro quiet_FinishApply) (simp_all add: first m)
    have core_w: "core ?w = core (advanced s m (length commands))" by (simp add: core_def advanced_def)
    have good: "core t = core (advanced s m (length commands)) \<and> node_ok view C t b \<and> node_le M s b t b"
      if "quiet ?w t" for t
    proof -
      have "core t = core (advanced s m (length commands))" using that core_w by (simp add: quiet_core)
      moreover have "emitted no_vote s t"
        using emitted_quiet_no_vote [of "nd_last_applied ?w" ?w t] that by (simp add: quiet_def emitted_def)
      ultimately show ?thesis
        using that node_advanced [OF s j m(1,2) n] by (simp add: quiet_fields(15))
    qed
    have "wp (FinishApply E first (length commands) rs us bytes 0 ?v)
        (\<lambda>_ t. core t = core (advanced s m (length commands)) \<and> node_ok view C t b \<and> node_le M s b t b)
        (\<lambda>_. dead view C s b)" for us
      using q [of us] unfolding keeps_wp
    proof (rule wp_mono)
      show "dead view C s b t" if "quiet ?w t" for t
        using good [OF that] safe_dead [OF _ node_ok_id [OF s]] unfolding safe_def by blast
    qed (rule good)
    with Ok show ?thesis
      by (simp add: apply_now_def SteadyNow_def ask_def on_sm_def env catch_fail_storage)
  qed
qed

end

end
