(* ===== verification/NodeApply.thy ===== *)
theory NodeApply
  imports NodeSteps
begin

text \<open>
  Application of committed entries and snapshots of the applied state: \<open>ApplyCommitted\<close> and its
  helpers, the executor's worker and completion, \<open>MaybeSnapshot\<close> and \<open>AdvanceCommitIndex\<close>.
\<close>

section \<open>Committed commands\<close>

text \<open>A chain of batches applied at consecutive indices.\<close>

inductive applied ::
  "'db rocksdb_ops \<Rightarrow> 'db kv_store \<Rightarrow> int \<Rightarrow> bytes list \<Rightarrow> 'db kv_store \<Rightarrow> bool" for R where
  applied_Nil: "applied R m i [] m"
| applied_batch: "ApplyBatch R i cs m = Ok rs m' \<Longrightarrow> applied R m' (i + int (length cs)) ds m'' \<Longrightarrow>
     applied R m i (cs @ ds) m''"

text \<open>The commands of the log at indices \<open>i\<close> to \<open>j\<close>.\<close>

definition log_commands :: "alog \<Rightarrow> int \<Rightarrow> int \<Rightarrow> bytes list" where
  "log_commands a i j = map (\<lambda>n. le_command (the (al_get a n))) [i..j]"

lemma length_log_commands [simp]: "length (log_commands a i j) = nat (j - i + 1)"
  by (simp add: log_commands_def)

lemma upto_append: "i \<le> j + 1 \<Longrightarrow> j \<le> k \<Longrightarrow> [i..k] = [i..j] @ [j + 1..k]" for i j k :: int
  using upto_split2 [of i j k] by (cases "i = j + 1") auto

lemma log_commands_append:
  "i \<le> j + 1 \<Longrightarrow> j \<le> k \<Longrightarrow> log_commands a i k = log_commands a i j @ log_commands a (j + 1) k"
  by (simp add: log_commands_def upto_append [of i j k])

context raft_storage
begin

lemma collect_commands_Inr:
  assumes l: "log_rel view C l a" and "collect_commands E l [i..j] bytes acc = Inr (cs, by)"
    and "i \<le> j + 1"
  shows "\<exists>k. cs = acc @ log_commands a i k \<and> i \<le> k + 1 \<and> k \<le> j \<and> (acc = [] \<longrightarrow> i \<le> j \<longrightarrow> i \<le> k) \<and>
     (\<forall>n. i \<le> n \<longrightarrow> n \<le> k \<longrightarrow> al_get a n \<noteq> None)"
  using assms(2,3)
proof (induction "nat (j - i + 1)" arbitrary: i bytes acc)
  case 0
  then have "j = i - 1" by simp
  with 0 show ?case by (intro exI [of _ j]) (simp add: log_commands_def)
next
  case (Suc x)
  then have ij: "i \<le> j" by simp
  then have up: "[i..j] = i # [i + 1..j]" by (simp add: upto_rec1)
  from Suc.prems(1) obtain e where get: "Log_Get R C l i = Inr (Some e)"
    by (auto simp: up env bindE_eq_Inr split: option.splits)
  have e: "al_get a i = Some e" using Log_Get_Inr [OF l get] by simp
  let ?b = "acc \<noteq> [] \<and> (length acc \<ge> kMaxBatchEntries \<or> length (le_command e) > kMaxBatchBytes - bytes)"
  let ?r = "collect_commands E l [i + 1..j] (bytes + length (le_command e)) (acc @ [le_command e])"
  have "collect_commands E l [i..j] bytes acc =
      (if length (le_command e) > kMaxCommandBytes then Inl (Runtime_error ''oversized committed entry'')
       else if ?b then Inr (acc, bytes) else ?r)"
    by (simp only: up collect_commands.simps env get bindE.simps option.case Let_def)
  with Suc.prems(1) have step: "(if ?b then Inr (acc, bytes) else ?r) = Inr (cs, by)"
    by (metis Inl_Inr_False)
  show ?case
  proof (cases ?b)
    case True
    from step [unfolded if_P [OF True]] have "cs = acc" by simp
    with True ij show ?thesis by (intro exI [of _ "i - 1"]) (simp add: log_commands_def)
  next
    case False
    note rec = step [unfolded if_not_P [OF False]]
    have "x = nat (j - (i + 1) + 1)" "i + 1 \<le> j + 1" using Suc.hyps(2) ij by simp_all
    from Suc.hyps(1) [OF this(1) rec this(2)] obtain k where
      k: "cs = (acc @ [le_command e]) @ log_commands a (i + 1) k" "i + 1 \<le> k + 1" "k \<le> j"
      "\<forall>n. i + 1 \<le> n \<longrightarrow> n \<le> k \<longrightarrow> al_get a n \<noteq> None" by blast
    have "log_commands a i k = le_command e # log_commands a (i + 1) k"
      using k(2) e by (simp add: log_commands_def upto_rec1)
    moreover have "al_get a n \<noteq> None" if "i \<le> n" "n \<le> k" for n
      using k(4) that e by (cases "n = i") auto
    ultimately show ?thesis using k by (intro exI [of _ k]) auto
  qed
qed

lemma runs_submit_apply:
  assumes s: "node_ok view C s b" and j: "nd_job s = None"
    and "first = nd_last_applied s + 1" and n: "nd_last_applied s + int (length cs) \<le> nd_commit_index s"
    and cs: "cs = log_commands b first (nd_last_applied s + int (length cs))"
    and get: "\<forall>n. first \<le> n \<longrightarrow> n \<le> nd_last_applied s + int (length cs) \<longrightarrow> al_get b n \<noteq> None"
  shows "wp (submit_apply E first cs bytes s)
     (\<lambda>_ t. node_ok view C t b \<and> node_le M s b t b \<and> core t = core (s\<lparr>nd_apply_inflight := True, nd_job := nd_job t\<rparr>))
     (\<lambda>_. dead view C s b)"
proof -
  let ?t = "s\<lparr>nd_apply_inflight := True, nd_oracle := Suc (nd_oracle s),
      nd_job := Some \<lparr>aj_first = first, aj_commands = cs, aj_bytes = bytes, aj_result = None, aj_work_us = 0, aj_finished = 0\<rparr>\<rparr>"
  have "map_option le_command (al_get b (nd_last_applied s + 1 + int n)) = Some (cs ! n)" if "n < length cs" for n
  proof -
    have "cs ! n = log_commands b first (nd_last_applied s + int (length cs)) ! n" using cs by simp
    also have "\<dots> = le_command (the (al_get b (first + int n)))"
      using that assms(3) by (simp add: log_commands_def)
    finally show ?thesis using get [rule_format, of "first + int n"] that assms(3) by auto
  qed
  then have "job_log ?t b" by (simp add: job_log_def)
  moreover have "job_ok view ?t" using s j n assms(3) by (simp add: node_ok_def job_ok_def)
  ultimately have ok: "node_ok view C ?t b"
    using s by (simp add: node_ok_def member_ok_def log_part_def nd_hard_def)
  have le: "node_le M s b ?t b"
    using s by (auto simp: node_le_def nd_hard_def node_ok_def log_part_def emitted_def intro!: vote_le_same log_keeps_refl)
  have "dead view C s b s" by (rule safe_dead [OF safe_refl [OF s] node_ok_id [OF s]])
  with ok le show ?thesis by (simp add: submit_apply_def ask_def core_def)
qed

end

text \<open>
  What a run of the loop did: the state machine applied the log's commands in order, and unless the
  work went to the executor or the node stopped, none is left.
\<close>

definition drained :: "'db rocksdb_ops \<Rightarrow> 'db node \<Rightarrow> alog \<Rightarrow> bool \<Rightarrow> 'db node \<Rightarrow> bool" where
  "drained R s b submitted t \<longleftrightarrow>
     applied R (nd_sm s) (nd_last_applied s + 1) (log_commands b (nd_last_applied s + 1) (nd_last_applied t)) (nd_sm t) \<and>
     nd_last_applied s \<le> nd_last_applied t \<and> nd_commit_index t = nd_commit_index s \<and> nd_running t = nd_running s \<and>
     (if submitted then nd_apply_inflight t
      else nd_job t = None \<and> (nd_running s \<longrightarrow> nd_last_applied t = nd_commit_index t))"

lemma drained_step:
  assumes ab: "ApplyBatch R (nd_last_applied s + 1) cs (nd_sm s) = Ok rs m"
    and cs: "cs = log_commands b (nd_last_applied s + 1) k" "nd_last_applied s < k"
    and t: "core t = core (advanced s m (length cs))" and d: "drained R t b sub u"
  shows "drained R s b sub u"
proof -
  note e = core_eqD [OF t, unfolded advanced_def, simplified]
  have k: "nd_last_applied t = k" "nd_last_applied s + 1 + int (length cs) = k + 1"
    using cs e by simp_all
  have "applied R m (k + 1) (log_commands b (k + 1) (nd_last_applied u)) (nd_sm u)"
    using d e k by (simp add: drained_def)
  then have "applied R (nd_sm s) (nd_last_applied s + 1) (cs @ log_commands b (k + 1) (nd_last_applied u)) (nd_sm u)"
    by (intro applied_batch [OF ab]) (simp only: k(2))
  moreover have "cs @ log_commands b (k + 1) (nd_last_applied u) = log_commands b (nd_last_applied s + 1) (nd_last_applied u)"
    using cs d k log_commands_append [of "nd_last_applied s + 1" k "nd_last_applied u" b] by (simp add: drained_def)
  ultimately show ?thesis using d e k cs(2) by (auto simp: drained_def)
qed

context raft_storage
begin

lemma wp_apply_loop:
  assumes "node_ok view C s b" and "nd_job s = None" and "nat (nd_commit_index s - nd_last_applied s) \<le> n"
  shows "wp (apply_loop n E s)
     (\<lambda>sub t. node_ok view C t b \<and> node_le M s b t b \<and> drained R s b sub t) (\<lambda>_. dead view C s b)"
  using assms
proof (induction n arbitrary: s)
  case 0
  then have "nd_last_applied s = nd_commit_index s" by (simp add: node_ok_def log_part_def)
  with 0 show ?case by (simp add: node_le_refl drained_def log_commands_def applied_Nil)
next
  case (Suc n)
  note s = Suc.prems(1)
  let ?first = "nd_last_applied s + 1"
  have stop: "node_ok view C s b \<and> node_le M s b s b \<and> drained R s b False s"
    if "\<not> (nd_running s \<and> nd_last_applied s < nd_commit_index s)"
    using that s Suc.prems(2)
    by (auto simp: node_le_refl drained_def log_commands_def applied_Nil node_ok_def log_part_def)
  have quit: "dead view C s b s" by (rule safe_dead [OF safe_refl [OF s] node_ok_id [OF s]])
  show ?case
  proof (cases "nd_running s \<and> nd_last_applied s < nd_commit_index s")
    case False
    with stop show ?thesis by auto
  next
    case True
    show ?thesis
    proof (cases "collect_commands E (nd_log s) [?first .. nd_commit_index s] 0 []")
      case (Inl e)
      with True quit show ?thesis by simp
    next
      case (Inr r)
      obtain cs bt where r: "r = (cs, bt)" by (cases r)
      from collect_commands_Inr [OF node_ok_log_rel [OF s] Inr [unfolded r]] True obtain k where
        k: "cs = log_commands b ?first k" "nd_last_applied s < k" "k \<le> nd_commit_index s"
        "\<forall>n. ?first \<le> n \<longrightarrow> n \<le> k \<longrightarrow> al_get b n \<noteq> None" by auto
      have len: "nd_last_applied s + int (length cs) = k" using k by simp
      show ?thesis
      proof (cases "en_executor E")
        case ex: True
        have "wp (submit_apply E ?first cs bt s)
           (\<lambda>_ t. node_ok view C t b \<and> node_le M s b t b \<and> drained R s b True t) (\<lambda>_. dead view C s b)"
        proof (rule wp_mono [OF runs_submit_apply [OF s Suc.prems(2) refl, where cs = cs and bytes = bt and M = M]])
          fix t assume "node_ok view C t b \<and> node_le M s b t b \<and>
              core t = core (s\<lparr>nd_apply_inflight := True, nd_job := nd_job t\<rparr>)"
          then show "node_ok view C t b \<and> node_le M s b t b \<and> drained R s b True t"
            by (auto simp: drained_def core_def log_commands_def applied_Nil)
        qed (use k len in simp_all)
        with True Inr r ex show ?thesis by (simp add: Let_def wp_bindR)
      next
        case ex: False
        have "wp (apply_now E ?first cs bt s)
           (\<lambda>_ t. wp (apply_loop n E t)
              (\<lambda>sub u. node_ok view C u b \<and> node_le M s b u b \<and> drained R s b sub u) (\<lambda>_. dead view C s b))
           (\<lambda>_. dead view C s b)"
        proof (rule wp_mono [OF wp_apply_now [OF s Suc.prems(2) refl, where commands = cs and bytes = bt and M = M]])
          fix t assume "\<exists>rs m. ApplyBatch R ?first cs (nd_sm s) = Ok rs m \<and>
            core t = core (advanced s m (length cs)) \<and> node_ok view C t b \<and> node_le M s b t b"
          then obtain rs m where t: "ApplyBatch R ?first cs (nd_sm s) = Ok rs m"
            "core t = core (advanced s m (length cs))" "node_ok view C t b" "node_le M s b t b" by blast
          note e = core_eqD [OF t(2), unfolded advanced_def, simplified]
          have "nat (nd_commit_index t - nd_last_applied t) \<le> n" "nd_job t = None"
            using e len k(2) Suc.prems by auto
          from Suc.IH [OF t(3) this(2,1)]
          show "wp (apply_loop n E t)
              (\<lambda>sub u. node_ok view C u b \<and> node_le M s b u b \<and> drained R s b sub u) (\<lambda>_. dead view C s b)"
          proof (rule wp_mono)
            fix sub u assume "node_ok view C u b \<and> node_le M t b u b \<and> drained R t b sub u"
            then show "node_ok view C u b \<and> node_le M s b u b \<and> drained R s b sub u"
              using t node_le_trans [OF t(4) _ node_ok_id [OF s]] drained_step [OF t(1) k(1,2) t(2)] by blast
          next
            fix u assume "dead view C t b u"
            with t(4) show "dead view C s b u" by (rule dead_trans_at)
          qed
        qed (use k len in simp_all)
        with True Inr r ex show ?thesis by (simp add: Let_def wp_bindR)
      qed
    qed
  qed
qed

end

section \<open>Snapshots of the applied state\<close>

lemma al_get_compacted:
  assumes "al_index a < index" and "index \<le> al_last a" and "index < i"
  shows "al_get (al_snapshot index t d True a) i = al_get a i"
proof -
  have "al_last (al_snapshot index t d True a) = al_last a"
    using assms by (simp add: al_snapshot_def al_last_def)
  moreover have "nat (index - al_index a) + nat (i - index - 1) = nat (i - al_index a - 1)"
    using assms by simp
  ultimately show ?thesis
    using assms by (auto simp: al_get_def al_snapshot_def al_last_def)
qed

lemma hard_of_simps [simp]:
  "hard_of (al_snapshot i t d k a) = hard_of a" "hard_of (al_append es a) = hard_of a"
  "hard_of (al_truncate i a) = hard_of a" "hard_of (al_stage i t d a) = hard_of a"
  by (simp_all add: hard_of_def al_snapshot_def al_append_def al_truncate_def al_stage_def)

lemma log_move_compact:
  assumes s: "node_ok view C s b" and i: "al_index b < nd_last_applied s"
    and t: "al_get_term b (nd_last_applied s) = t" "0 < t" "t \<le> INT32_MAX" and d: "length d \<le> kMaxSnapshotBytes"
  shows "log_move s b (al_compact (nd_last_applied s) t d b)"
proof -
  have b: "alog_ok b" and p: "nd_last_applied s \<le> nd_commit_index s" "nd_commit_index s \<le> al_last b"
    using s by (auto simp: node_ok_def log_part_def log_rel_def)
  have "snapshot_ok (nd_last_applied s) t True b"
    using i t p al_index_bounds [OF b] by (simp add: snapshot_ok_def)
  note f = al_snapshot_facts [OF b this d]
  show ?thesis
    using s i p f al_get_compacted [of b "nd_last_applied s" _ t d]
    by (auto simp: log_move_def al_compact_def log_keeps_def node_ok_def log_part_def nd_hard_def al_snapshot_def [of _ _ _ _ b]
        simp del: hard_of_simps) (simp_all add: hard_of_def)
qed

context raft_storage
begin

lemma wp_MaybeSnapshot:
  assumes s: "node_ok view C s b"
  shows "wp (MaybeSnapshot E s)
     (\<lambda>_ t. (\<exists>c. node_ok view C t c \<and> node_le M s b t c) \<and> core t = core (s\<lparr>nd_log := nd_log t\<rparr>))
     (\<lambda>_. dead view C s b)"
proof -
  have fl: "flights_ok s" using s by (simp add: node_ok_def member_ok_def)
  have quit: "dead view C s b s" by (rule safe_dead [OF safe_refl [OF s] node_ok_id [OF s]])
  have stay: "(\<exists>c. node_ok view C t c \<and> node_le M s b t c) \<and> core t = core (s\<lparr>nd_log := nd_log t\<rparr>)"
    if "core t = core s" "flights_ok t" "emitted no_vote s t" for t
    using that node_ok_core [OF s that(1,2)] node_le_core [OF s that(1,3)] core_eqD(4) [OF that(1)]
    by (auto simp: core_def)
  have compact: "wp (on_log (CompactApplied R C (nd_last_applied s) t d) (s\<lparr>nd_last_snapshot_attempt := nd_last_applied s\<rparr>))
     (\<lambda>_ t. (\<exists>c. node_ok view C t c \<and> node_le M s b t c) \<and> core t = core (s\<lparr>nd_log := nd_log t\<rparr>))
     (\<lambda>_. dead view C s b)"
    if "al_index b < nd_last_applied s" "al_get_term b (nd_last_applied s) = t" "0 < t" "length d \<le> kMaxSnapshotBytes" for t d
  proof -
    have b: "alog_ok b" "nd_last_applied s \<le> al_last b" using s by (auto simp: node_ok_def log_part_def log_rel_def)
    have t: "t \<le> INT32_MAX"
      using that al_get_ok [OF b(1), of "nd_last_applied s"] b
      by (auto simp: al_get_term_def split: if_splits option.splits)
    let ?s = "s\<lparr>nd_last_snapshot_attempt := nd_last_applied s\<rparr>" and ?c = "al_compact (nd_last_applied s) t d b"
    have s': "node_ok view C ?s b" by (rule node_ok_core [OF s]) (simp_all add: fl)
    have mv: "log_move s b ?c" by (rule log_move_compact [OF s that(1,2,3) t that(4)])
    then have mv': "log_move ?s b ?c" by (simp add: log_move_def nd_hard_def)
    have h: "hard_of ?c = nd_hard s" using s by (simp add: al_compact_def node_ok_def log_part_def)
    have "wp (on_log (CompactApplied R C (nd_last_applied s) t d) ?s)
       (\<lambda>_ t. (\<exists>c. node_ok view C t c \<and> node_le M s b t c) \<and> core t = core (s\<lparr>nd_log := nd_log t\<rparr>))
       (\<lambda>_. dead view C ?s b)"
    proof (rule wp_on_log [OF s' _ mv'])
      show "log_step view C (CompactApplied R C (nd_last_applied s) t d (nd_log ?s)) b ?c"
        using CompactApplied_step [OF node_ok_log_rel [OF s] t] by simp
      fix l assume l: "log_rel view C l ?c"
      have "safe view C M s b (?s\<lparr>nd_log := l\<rparr>)"
      proof (rule safe_log [OF s l mv, where r = "nd_state s" and V = "nd_votes s"])
        show "vote_le M s (?s\<lparr>nd_log := l\<rparr>)" by (rule vote_le_same) (simp_all add: nd_hard_def)
        show "0 \<le> fst (hard_of ?c)" "fst (hard_of ?c) \<le> INT32_MAX"
          using s h by (simp_all add: node_ok_def log_part_def nd_hard_def)
      qed (simp_all add: h nd_hard_def core_def fl emitted_def)
      then show "(\<exists>c. node_ok view C (?s\<lparr>nd_log := l\<rparr>) c \<and> node_le M s b (?s\<lparr>nd_log := l\<rparr>) c) \<and>
          core (?s\<lparr>nd_log := l\<rparr>) = core (s\<lparr>nd_log := nd_log (?s\<lparr>nd_log := l\<rparr>)\<rparr>)"
        by (simp add: safe_def core_def)
    qed
    then show ?thesis by (rule wp_mono) (simp_all add: dead_def nd_hard_def emitted_def)
  qed
  have gt: "GetTerm R C (nd_log s) i = Inr t \<Longrightarrow> t = al_get_term b i" for i t
    using GetTerm_Inr [OF node_ok_log_rel [OF s]] .
  have idx: "SnapshotIndex s = al_index b"
    using s by (simp add: SnapshotIndex_def node_ok_def log_part_def log_rel_def fields_rel_def)
  have skip: "(\<exists>c. node_ok view C (upd_metrics g (s\<lparr>nd_last_snapshot_attempt := i\<rparr>)) c \<and>
        node_le M s b (upd_metrics g (s\<lparr>nd_last_snapshot_attempt := i\<rparr>)) c)"
    "core (upd_metrics g (s\<lparr>nd_last_snapshot_attempt := i\<rparr>)) =
       core (s\<lparr>nd_log := nd_log (upd_metrics g (s\<lparr>nd_last_snapshot_attempt := i\<rparr>))\<rparr>)" for g i
    using stay [of "upd_metrics g (s\<lparr>nd_last_snapshot_attempt := i\<rparr>)"] fl
    by (simp_all add: upd_metrics_def emitted_def)
  show ?thesis
    unfolding MaybeSnapshot_def Let_def LogTerm_def env wp_if wp_bindR wp_liftR
    using stay [of s] quit compact idx fl
    by (auto split: sum.splits simp: wp_liftR env intro!: skip compact dest!: gt)
qed

end

lemma drained_core:
  assumes "drained R s b sub t" and "core u = core (t\<lparr>nd_log := nd_log u\<rparr>)"
  shows "drained R s b sub u"
  using assms(1) core_eqD [OF assms(2), simplified] by (simp add: drained_def)

context raft_storage
begin

lemma wp_ApplyCommitted:
  assumes s: "node_ok view C s b"
  shows "wp (ApplyCommitted E s)
     (\<lambda>_ t. safe view C M s b t \<and> caught_up t \<and> (if nd_apply_inflight s then t = s else \<exists>sub. drained R s b sub t))
     (\<lambda>_. dead view C s b)"
proof (cases "nd_apply_inflight s")
  case True
  then show ?thesis by (simp add: ApplyCommitted_def safe_refl [OF s] caught_up_def)
next
  case False
  then have job: "nd_job s = None" using s by (auto simp: node_ok_def job_ok_def split: option.splits)
  let ?Q = "\<lambda>t. safe view C M s b t \<and> caught_up t \<and> (\<exists>sub. drained R s b sub t)"
  have "wp (apply_loop (nat (nd_commit_index s - nd_last_applied s)) E s)
     (\<lambda>sub t. wp (if sub then Ok () t else MaybeSnapshot E t) (\<lambda>_. ?Q) (\<lambda>_. dead view C s b)) (\<lambda>_. dead view C s b)"
  proof (rule wp_mono [OF wp_apply_loop [OF s job order_refl, where M = M]])
    fix sub t assume t: "node_ok view C t b \<and> node_le M s b t b \<and> drained R s b sub t"
    show "wp (if sub then Ok () t else MaybeSnapshot E t) (\<lambda>_. ?Q) (\<lambda>_. dead view C s b)"
    proof (cases sub)
      case True
      with t show ?thesis by (auto simp: safe_def caught_up_def drained_def)
    next
      case False
      have "wp (MaybeSnapshot E t) (\<lambda>_. ?Q) (\<lambda>_. dead view C s b)"
      proof (rule wp_mono [OF wp_MaybeSnapshot [of t b M]])
        show "node_ok view C t b" using t by simp
        fix u assume u: "(\<exists>c. node_ok view C u c \<and> node_le M t b u c) \<and> core u = core (t\<lparr>nd_log := nd_log u\<rparr>)"
        then have "drained R s b sub u" using t drained_core by blast
        moreover have "safe view C M s b u"
          using u t node_le_trans [OF _ _ node_ok_id [OF s]] unfolding safe_def by blast
        ultimately show "?Q u" using False by (auto simp: caught_up_def drained_def)
      next
        fix u assume "dead view C t b u"
        with t show "dead view C s b u" by (blast intro: dead_trans_at)
      qed
      with False show ?thesis by simp
    qed
  qed
  with False show ?thesis by (simp add: ApplyCommitted_def wp_bindR)
qed

lemma runs_ApplyCommitted [runs_rules]:
  assumes "safe view C M s0 a0 s"
  shows "runs view C M s0 a0 (ApplyCommitted E s)"
proof (rule runs_trans [OF assms])
  fix b assume "node_ok view C s b"
  then show "runs view C M s b (ApplyCommitted E s)"
    unfolding runs_def by (rule wp_mono [OF wp_ApplyCommitted]) auto
qed

section \<open>The executor\<close>

lemma safe_same_log:
  assumes s: "node_ok view C s b" and "job_ok view t" "job_log t b" and "flights_ok t" and "emitted no_vote s t"
    and "nd_id t = nd_id s" "nd_peers t = nd_peers s" "nd_log t = nd_log s" "nd_current_term t = nd_current_term s"
    "nd_voted_for t = nd_voted_for s" "nd_state t = nd_state s" "nd_votes t = nd_votes s"
    "nd_commit_index t = nd_commit_index s" "dom (nd_next_index t) = dom (nd_next_index s)"
    and "nd_last_applied s \<le> nd_last_applied t" "nd_last_applied t \<le> nd_commit_index s"
  shows "safe view C M s b t"
proof -
  have "node_ok view C t b"
    using assms by (simp add: node_ok_def member_ok_def log_part_def nd_hard_def)
  moreover have "node_le M s b t b"
    using assms by (auto simp: node_le_def nd_hard_def node_ok_def log_part_def intro!: vote_le_same log_keeps_refl)
  ultimately show ?thesis by (auto simp: safe_def)
qed

lemma runs_RunApplyJob:
  assumes s: "node_ok view C s b"
  shows "runs view C M s b (RunApplyJob E s)"
proof (cases "\<exists>j. nd_job s = Some j \<and> aj_result j = None")
  case False
  with s show ?thesis by (auto simp: RunApplyJob_def safe_refl split: option.splits)
next
  case True
  then obtain j where j: "nd_job s = Some j" "aj_result j = None" by blast
  have kv: "kv_ok view (nd_sm s)" "ks_last_applied (nd_sm s) = nd_last_applied s"
    and f: "aj_first j = nd_last_applied s + 1"
    and n: "nd_last_applied s + int (length (aj_commands j)) \<le> nd_commit_index s" "nd_apply_inflight s"
    using s j by (simp_all add: node_ok_def job_ok_def)
  have p: "flights_ok s" "job_log s b" "nd_last_applied s \<le> nd_commit_index s"
    using s by (simp_all add: node_ok_def member_ok_def log_part_def)
  note ab = wp_ApplyBatch [OF kv(1), of "aj_first j" "aj_commands j"]
  show ?thesis
  proof (cases "ApplyBatch R (aj_first j) (aj_commands j) (nd_sm s)")
    case (Throw e m)
    with ab kv f obtain k where "k = nd_last_applied s \<or> k = nd_last_applied s + int (length (aj_commands j))"
      "kv_ok view \<lparr>ks_db = ks_db m, ks_last_applied = k\<rparr>" by auto
    then have "safe view C M s b (s\<lparr>nd_oracle := Suc (nd_oracle s), nd_sm := m, nd_job := Some (j\<lparr>aj_result := Some (Inl e)\<rparr>)\<rparr>)"
      using j f n p by (intro safe_same_log [OF s]) (auto simp: job_ok_def job_log_def emitted_def)
    with j Throw show ?thesis by (simp add: RunApplyJob_def SteadyNow_def ask_def env)
  next
    case (Ok rs m)
    with ab kv f have m: "kv_ok view m" "ks_last_applied m = nd_last_applied s + int (length (aj_commands j))"
      "length rs = length (aj_commands j)" by auto
    then have "safe view C M s b (s\<lparr>nd_sm := m, nd_oracle := Suc (Suc (nd_oracle s)),
        nd_job := Some (j\<lparr>aj_result := Some (Inr rs), aj_finished := fi, aj_work_us := us\<rparr>)\<rparr>)" for us fi
      using j f n p by (intro safe_same_log [OF s]) (auto simp: job_ok_def job_log_def emitted_def)
    with j Ok show ?thesis by (simp add: RunApplyJob_def SteadyNow_def ask_def env)
  qed
qed

lemma wp_FinishApplyJob:
  assumes s: "node_ok view C s b" and cu: "caught_up s"
  shows "wp (FinishApplyJob E s) (\<lambda>_ t. safe view C M s b t \<and> caught_up t) (\<lambda>_. dead view C s b)"
proof (cases "\<exists>j r. nd_job s = Some j \<and> aj_result j = Some r")
  case False
  with s cu show ?thesis by (auto simp: FinishApplyJob_def safe_refl split: option.splits)
next
  case True
  then obtain j r where j: "nd_job s = Some j" "aj_result j = Some r" by blast
  have quit: "dead view C s b s" by (rule safe_dead [OF safe_refl [OF s] node_ok_id [OF s]])
  have p: "flights_ok s" "nd_last_applied s \<le> nd_commit_index s"
    using s by (simp_all add: node_ok_def member_ok_def log_part_def)
  show ?thesis
  proof (cases r)
    case (Inl e)
    with j quit show ?thesis by (simp add: FinishApplyJob_def)
  next
    case (Inr rs)
    let ?n = "length (aj_commands j)"
    have q: "kv_ok view (nd_sm s)" "length rs = ?n" "ks_last_applied (nd_sm s) = nd_last_applied s + int ?n"
      "aj_first j = nd_last_applied s + 1" "nd_last_applied s + int ?n \<le> nd_commit_index s"
      using s j Inr by (simp_all add: node_ok_def job_ok_def)
    let ?v = "s\<lparr>nd_job := None, nd_oracle := Suc (nd_oracle s)\<rparr>"
    let ?w = "?v\<lparr>nd_last_applied := nd_last_applied s + int ?n\<rparr>"
    have "quiet ?w ?w" using p by (intro quiet_refl) simp
    then have fin: "keeps (quiet ?w) (FinishApply E (aj_first j) ?n rs us bytes du ?v)" for us bytes du
      by (intro quiet_FinishApply) (simp_all add: q)
    have ok: "safe view C M s b (t\<lparr>nd_apply_inflight := False\<rparr>)" if "quiet ?w t" for t
    proof -
      have "emitted no_vote s t"
        using emitted_quiet_no_vote [of "nd_last_applied ?w" ?w t] that by (simp add: quiet_def emitted_def)
      then show ?thesis
        using quiet_fields [OF that] q by (intro safe_same_log [OF s]) (simp_all add: job_ok_def job_log_def emitted_def)
    qed
    have "wp (FinishApply E (aj_first j) ?n rs us bytes du ?v)
        (\<lambda>_ t. wp (ApplyCommitted E (t\<lparr>nd_apply_inflight := False\<rparr>))
           (\<lambda>_ u. safe view C M s b u \<and> caught_up u) (\<lambda>_. dead view C s b)) (\<lambda>_. dead view C s b)" for us bytes du
      using fin [of us bytes du] unfolding keeps_wp
    proof (rule wp_mono)
      fix t assume t: "quiet ?w t"
      note safe_t = ok [OF t]
      then show "dead view C s b t" using safe_dead [OF safe_t node_ok_id [OF s]] by simp
      from safe_t obtain c where c: "node_ok view C (t\<lparr>nd_apply_inflight := False\<rparr>) c"
        "node_le M s b (t\<lparr>nd_apply_inflight := False\<rparr>) c" by (auto simp: safe_def)
      show "wp (ApplyCommitted E (t\<lparr>nd_apply_inflight := False\<rparr>))
           (\<lambda>_ u. safe view C M s b u \<and> caught_up u) (\<lambda>_. dead view C s b)"
      proof (rule wp_mono [OF wp_ApplyCommitted [OF c(1), where M = M]])
        fix u assume "safe view C M (t\<lparr>nd_apply_inflight := False\<rparr>) c u \<and> caught_up u \<and>
          (if nd_apply_inflight (t\<lparr>nd_apply_inflight := False\<rparr>) then u = t\<lparr>nd_apply_inflight := False\<rparr>
           else \<exists>sub. drained R (t\<lparr>nd_apply_inflight := False\<rparr>) c sub u)"
        then show "safe view C M s b u \<and> caught_up u"
          using node_le_trans [OF c(2) _ node_ok_id [OF s]] unfolding safe_def by blast
      qed (rule dead_trans_at [OF c(2)])
    qed
    with j Inr show ?thesis by (simp add: FinishApplyJob_def SteadyNow_def ask_def wp_bindR)
  qed
qed

end

end
