(* ===== verification/NodeRules.thy ===== *)
theory NodeRules
  imports NodeApply
begin

text \<open>
  The rules that carry the proofs about the handlers: \<open>fit\<close> is the invariant of a node between two
  operations (safe and caught up), \<open>goes\<close> says of an outcome that a return leaves the node fit and
  an exception leaves databases from which the node recovers.
\<close>

named_theorems goes_rules \<open>operations that keep a node fit\<close>

section \<open>Rules\<close>

definition fit ::
  "('db \<Rightarrow> bytes \<Rightarrow> bytes option) \<Rightarrow> entry_codec \<Rightarrow> (int \<times> int) set \<Rightarrow> 'db node \<Rightarrow> alog \<Rightarrow> 'db node \<Rightarrow> bool" where
  "fit view C M s0 a0 s \<longleftrightarrow> safe view C M s0 a0 s \<and> caught_up s"

definition goes ::
  "('db \<Rightarrow> bytes \<Rightarrow> bytes option) \<Rightarrow> entry_codec \<Rightarrow> (int \<times> int) set \<Rightarrow> 'db node \<Rightarrow> alog \<Rightarrow> ('db node, 'a) res \<Rightarrow> bool" where
  "goes view C M s0 a0 r \<longleftrightarrow> wp r (\<lambda>_. fit view C M s0 a0) (\<lambda>_. dead view C s0 a0)"

lemma goes_simps [simp]:
  "goes view C M s0 a0 (Ok x s) = fit view C M s0 a0 s" "goes view C M s0 a0 (Throw e s) = dead view C s0 a0 s"
  by (simp_all add: goes_def)

lemma goes_bindR [goes_rules]:
  "goes view C M s0 a0 m \<Longrightarrow> (\<And>x s. fit view C M s0 a0 s \<Longrightarrow> m = Ok x s \<Longrightarrow> goes view C M s0 a0 (f x s)) \<Longrightarrow>
   goes view C M s0 a0 (bindR m f)"
  by (cases m) simp_all

lemma goes_if [goes_rules]:
  "(b \<Longrightarrow> goes view C M s0 a0 r) \<Longrightarrow> (\<not> b \<Longrightarrow> goes view C M s0 a0 r') \<Longrightarrow>
   goes view C M s0 a0 (if b then r else r')"
  by simp

lemma goes_foldR [goes_rules]:
  "fit view C M s0 a0 s \<Longrightarrow> (\<And>x s. fit view C M s0 a0 s \<Longrightarrow> goes view C M s0 a0 (f x s)) \<Longrightarrow>
   goes view C M s0 a0 (foldR f xs s)"
  by (induction xs arbitrary: s) (auto intro!: goes_bindR)

lemma fit_safe: "fit view C M s0 a0 s \<Longrightarrow> safe view C M s0 a0 s"
  by (simp add: fit_def)

lemma fit_caught_up: "fit view C M s0 a0 s \<Longrightarrow> caught_up s"
  by (simp add: fit_def)

lemma fit_refl: "node_ok view C s a \<Longrightarrow> caught_up s \<Longrightarrow> fit view C M s a s"
  by (simp add: fit_def safe_refl)

lemma fit_dead: "fit view C M s0 a0 s \<Longrightarrow> dead view C s0 a0 s"
  by (rule safe_dead [OF fit_safe safe_id [OF fit_safe]])

lemma goes_trans:
  assumes "fit view C M s0 a0 s" and "\<And>b. node_ok view C s b \<Longrightarrow> goes view C M s b r"
  shows "goes view C M s0 a0 r"
proof (cases r)
  case (Ok x t)
  have "fit view C M s b t" if "node_ok view C s b" for b using assms(2) [OF that] Ok by simp
  moreover from fit_safe [OF assms(1)] obtain b where "node_ok view C s b" by (auto simp: safe_def)
  ultimately have "caught_up t" "safe view C M s0 a0 t"
    using safe_trans [OF fit_safe [OF assms(1)] fit_safe safe_id [OF fit_safe [OF assms(1)]]]
    by (blast intro: fit_caught_up)+
  with Ok show ?thesis by (simp add: fit_def)
next
  case (Throw e t)
  with assms(2) dead_trans [OF fit_safe [OF assms(1)]] show ?thesis by simp
qed

lemma goes_liftR [goes_rules]: "fit view C M s0 a0 s \<Longrightarrow> goes view C M s0 a0 (liftR m s)"
  by (cases m) (simp_all add: fit_dead)

definition pos :: "'db node \<Rightarrow> bool \<times> bool \<times> int \<times> int" where
  "pos s = (nd_running s, nd_apply_inflight s, nd_last_applied s, nd_commit_index s)"

lemma caught_up_pos: "caught_up s \<Longrightarrow> pos t = pos s \<Longrightarrow> caught_up t"
  by (simp add: pos_def caught_up_def)

lemma pos_core: "core t = core s \<Longrightarrow> pos t = pos s"
  by (simp add: pos_def core_def)

lemma goes_runs:
  assumes "runs view C M s0 a0 r" and "caught_up s" and "\<And>x t. r = Ok x t \<Longrightarrow> pos t = pos s"
  shows "goes view C M s0 a0 r"
  using assms(1,3) by (cases r) (auto simp: fit_def intro: caught_up_pos [OF assms(2)])

lemma fit_upd:
  assumes "fit view C M s0 a0 s" and "quiet s s \<Longrightarrow> quiet s t"
  shows "fit view C M s0 a0 t"
proof -
  have "quiet s t" using assms safe_flights [OF fit_safe [OF assms(1)]] by (simp add: quiet_refl)
  then have "pos t = pos s" by (intro pos_core quiet_core)
  then have "caught_up t" by (rule caught_up_pos [OF fit_caught_up [OF assms(1)]])
  with safe_upd [OF fit_safe [OF assms(1)] assms(2)] show ?thesis by (simp add: fit_def)
qed

lemma goes_quietI:
  assumes q: "\<And>s0 s. quiet s0 s \<Longrightarrow> keeps (quiet s0) (r s)" and s: "fit view C M s0 a0 s"
  shows "goes view C M s0 a0 (r s)"
proof (rule goes_runs)
  show "runs view C M s0 a0 (r s)" by (rule runs_quietI [OF q fit_safe [OF s]])
  show "caught_up s" using s by (rule fit_caught_up)
  have "quiet s s" using safe_flights [OF fit_safe [OF s]] by (rule quiet_refl)
  from q [OF this] show "pos t = pos s" if "r s = Ok x t" for x t
    unfolding that by (intro pos_core quiet_core) simp
qed

lemma fit_updates [simp]:
  "fit view C M s0 a0 s \<Longrightarrow> fit view C M s0 a0 (s\<lparr>nd_storage_healthy := b\<rparr>)"
  "fit view C M s0 a0 s \<Longrightarrow> fit view C M s0 a0 (s\<lparr>nd_leader_id := i\<rparr>)"
  "fit view C M s0 a0 s \<Longrightarrow> fit view C M s0 a0 (s\<lparr>nd_match_index := m\<rparr>)"
  "fit view C M s0 a0 s \<Longrightarrow> fit view C M s0 a0 (s\<lparr>nd_snapshot_receive := sr\<rparr>)"
  "fit view C M s0 a0 s \<Longrightarrow> fit view C M s0 a0 (s\<lparr>nd_leader_since := i\<rparr>)"
  "fit view C M s0 a0 s \<Longrightarrow> fit view C M s0 a0 (s\<lparr>nd_heartbeat_timer_ms := i\<rparr>)"
  "fit view C M s0 a0 s \<Longrightarrow> fit view C M s0 a0 (s\<lparr>nd_pending := ps\<rparr>)"
  "fit view C M s0 a0 s \<Longrightarrow> fit view C M s0 a0 (s\<lparr>nd_pending_bytes := n\<rparr>)"
  "fit view C M s0 a0 s \<Longrightarrow> fit view C M s0 a0 (upd_reads f s)"
  "fit view C M s0 a0 s \<Longrightarrow> fit view C M s0 a0 (upd_metrics g s)"
  "fit view C M s0 a0 s \<Longrightarrow> fit view C M s0 a0 (FailPending r s)"
  "fit view C M s0 a0 s \<Longrightarrow> fit view C M s0 a0 (ClearReadIndexQueues w s)"
  by (erule fit_upd; simp add: quiet_FailPending quiet_ClearReadIndexQueues)+

lemma goes_PeerSend [goes_rules]:
  assumes "fit view C M s0 a0 s" and "no_vote (EvSend p m)"
  shows "goes view C M s0 a0 (PeerSend E p m s)"
proof (rule goes_runs [OF runs_PeerSend [OF fit_safe [OF assms(1)] assms(2)] fit_caught_up [OF assms(1)]])
  have "pos (res_state (PeerSend E p m s)) = pos s" by (simp add: PeerSend_def ask_def emit_def pos_def)
  then show "pos t = pos s" if "PeerSend E p m s = Ok x t" for x t using that by simp
qed

lemma goes_PeerBroadcast [goes_rules]:
  assumes "fit view C M s0 a0 s" and "\<And>p. no_vote (EvSend p m)"
  shows "goes view C M s0 a0 (PeerBroadcast E m s)"
  unfolding PeerBroadcast_def
  by (intro goes_foldR goes_bindR goes_PeerSend assms) simp_all

lemma goes_quiet_ops [goes_rules]:
  "fit view C M s0 a0 s \<Longrightarrow> goes view C M s0 a0 (Now E s)"
  "fit view C M s0 a0 s \<Longrightarrow> goes view C M s0 a0 (SteadyNow E s)"
  "fit view C M s0 a0 s \<Longrightarrow> goes view C M s0 a0 (LogTerm E i s)"
  "fit view C M s0 a0 s \<Longrightarrow> goes view C M s0 a0 (ask g s)"
  "fit view C M s0 a0 s \<Longrightarrow> goes view C M s0 a0 (ResetElectionTimer E s)"
  "fit view C M s0 a0 s \<Longrightarrow> goes view C M s0 a0 (NotePeerContact E p s)"
  "fit view C M s0 a0 s \<Longrightarrow> goes view C M s0 a0 (ExpireUncommittedProposals E s)"
  "fit view C M s0 a0 s \<Longrightarrow> goes view C M s0 a0 (SendSnapshotChunk E p s)"
  "fit view C M s0 a0 s \<Longrightarrow> goes view C M s0 a0 (SendAppendEntries E p s)"
  "fit view C M s0 a0 s \<Longrightarrow> goes view C M s0 a0 (BroadcastAppendEntries E s)"
  "fit view C M s0 a0 s \<Longrightarrow> goes view C M s0 a0 (FinishReadIndexRounds E s)"
  "fit view C M s0 a0 s \<Longrightarrow> goes view C M s0 a0 (ProcessPendingReads E s)"
  "fit view C M s0 a0 s \<Longrightarrow> goes view C M s0 a0 (CheckReadIndexTimeout E s)"
  "fit view C M s0 a0 s \<Longrightarrow> goes view C M s0 a0 (AckReadIndexProbe E p w s)"
  "fit view C M s0 a0 s \<Longrightarrow> goes view C M s0 a0 (RequestReadIndex E c s)"
  "fit view C M s0 a0 s \<Longrightarrow> goes view C M s0 a0 (add_pending E ip s)"
  "fit view C M s0 a0 s \<Longrightarrow> goes view C M s0 a0 (send_if_behind E p s)"
  "fit view C M s0 a0 s \<Longrightarrow> goes view C M s0 a0 (conflict_hint E q s)"
  "fit view C M s0 a0 s \<Longrightarrow> goes view C M s0 a0 (note_ack E p r f s)"
  by (rule goes_quietI; (erule quiet_intros)?; assumption)+

end
