(* ===== verification/NodeRoles.thy ===== *)
theory NodeRoles
  imports NodeRules
begin

text \<open>
  Role changes, proposals, commitment and votes keep a node fit: \<open>BecomeFollower\<close>,
  \<open>BecomePreCandidate\<close>, \<open>BecomeCandidate\<close>, \<open>BecomeLeader\<close>, \<open>AdvanceCommitIndex\<close>, \<open>ProposeBatch\<close>
  and the two vote handlers of \<open>src/src/raft/raft_node.cc\<close>.
\<close>

section \<open>Stepping down\<close>

lemma pos_on_log: "on_log f s = Ok x t \<Longrightarrow> pos t = pos s"
  by (auto simp: on_log_def pos_def split: res.splits)

lemma pos_updates:
  "pos (s\<lparr>nd_log := l\<rparr>) = pos s" "pos (s\<lparr>nd_current_term := i\<rparr>) = pos s" "pos (s\<lparr>nd_voted_for := i\<rparr>) = pos s"
  "pos (s\<lparr>nd_state := r\<rparr>) = pos s" "pos (s\<lparr>nd_votes := V\<rparr>) = pos s" "pos (follower s) = pos s"
  by (simp_all add: pos_def follower_def)

lemma bindR_Ok_iff: "bindR m f = Ok y u \<longleftrightarrow> (\<exists>x t. m = Ok x t \<and> f x t = Ok y u)"
  by (cases m) auto

context raft_storage
begin

lemma goes_BecomeFollower [goes_rules]:
  assumes s: "fit view C M s0 a0 s" and t: "t \<le> INT32_MAX"
  shows "goes view C M s0 a0 (BecomeFollower E t s)"
proof -
  note ss = fit_safe [OF s] and cu = fit_caught_up [OF s]
  have "runs view C M s0 a0 (bindR (on_log (SaveHardState R t (- 1)) s) (\<lambda>_ s.
          Ok () (follower (s\<lparr>nd_current_term := t, nd_voted_for := - 1\<rparr>))))" if "nd_current_term s < t"
    by (rule runs_save [OF ss _ _ t, where r = FOLLOWER and V = "{}"])
      (use that in \<open>simp_all add: nd_hard_def follower_facts electing_def\<close>)
  then have "goes view C M s0 a0 (bindR (on_log (SaveHardState R t (- 1)) s) (\<lambda>_ s.
          Ok () (follower (s\<lparr>nd_current_term := t, nd_voted_for := - 1\<rparr>))))" if "nd_current_term s < t"
    by (rule goes_runs [OF _ cu]) (use that in \<open>auto simp: bindR_Ok_iff pos_updates dest: pos_on_log\<close>)
  moreover have "fit view C M s0 a0 (follower s)"
    unfolding fit_def
    by (intro conjI safe_role [OF ss follower_facts(1,2)] caught_up_pos [OF cu])
      (simp_all add: emitted_def follower_facts electing_def pos_updates)
  ultimately show ?thesis
    unfolding BecomeFollower_alt env by - (rule goes_bindR, simp, auto intro!: goes_rules)
qed

lemma goes_CheckQuorum [goes_rules]:
  assumes "fit view C M s0 a0 s"
  shows "goes view C M s0 a0 (CheckQuorum E s)"
  unfolding CheckQuorum_def Let_def
  using assms by (auto intro!: goes_rules safe_term dest: fit_safe)

lemma goes_vote_reply:
  assumes "fit view C M s0 a0 s" and "\<not> granted \<or> prevote"
  shows "goes view C M s0 a0 (vote_reply E p prevote granted s)"
  unfolding vote_reply_def using assms by (auto intro!: goes_rules simp: no_vote_def)

section \<open>Commitment\<close>

lemma goes_ApplyCommitted [goes_rules]:
  assumes "safe view C M s0 a0 s"
  shows "goes view C M s0 a0 (ApplyCommitted E s)"
  unfolding goes_def
proof (cases "ApplyCommitted E s")
  case (Throw e t)
  then show "wp (ApplyCommitted E s) (\<lambda>_. fit view C M s0 a0) (\<lambda>_. dead view C s0 a0)"
    using runs_ApplyCommitted [OF assms] by (simp add: runs_def)
next
  case (Ok x t)
  from assms obtain b where "node_ok view C s b" by (auto simp: safe_def)
  from wp_ApplyCommitted [OF this] Ok have "caught_up t" by simp
  then show "wp (ApplyCommitted E s) (\<lambda>_. fit view C M s0 a0) (\<lambda>_. dead view C s0 a0)"
    using Ok runs_ApplyCommitted [OF assms] by (simp add: fit_def)
qed

lemma LastIndex_alog: "node_ok view C s b \<Longrightarrow> LastIndex s = al_last b"
  by (simp add: node_ok_def log_part_def log_rel_def fields_rel_def LastIndex_def)

lemma LastTerm_alog: "node_ok view C s b \<Longrightarrow> LastTerm s = al_last_term b"
  by (simp add: node_ok_def log_part_def log_rel_def fields_rel_def LastTerm_def)

lemma safe_commit:
  assumes s: "safe view C M s0 a0 s" and c: "nd_commit_index s \<le> c" "c \<le> LastIndex s"
  shows "safe view C M s0 a0 (s\<lparr>nd_commit_index := c\<rparr>)"
proof (rule safe_trans [OF s _ safe_id [OF s]])
  fix b assume b: "node_ok view C s b"
  let ?t = "s\<lparr>nd_commit_index := c\<rparr>"
  have "job_ok view ?t" using b c by (intro job_ok_mono [of view s ?t]) (simp_all add: node_ok_def)
  then have "node_ok view C ?t b"
    using b c LastIndex_alog [OF b]
    by (simp add: node_ok_def member_ok_def log_part_def nd_hard_def job_log_def)
  moreover have "node_le M s b ?t b"
    using b c by (auto simp: node_le_def nd_hard_def node_ok_def log_part_def emitted_def intro!: vote_le_same log_keeps_refl)
  ultimately show "safe view C M s b ?t" by (auto simp: safe_def)
qed

lemma LogTerm_Ok:
  assumes "safe view C M s0 a0 s" and "LogTerm E i s = Ok t s'"
  shows "s' = s" and "t \<noteq> - 1 \<Longrightarrow> i \<le> LastIndex s"
proof -
  show "s' = s" using assms(2) by (simp add: LogTerm_def liftR_Ok)
  from assms(1) obtain b where b: "node_ok view C s b" by (auto simp: safe_def)
  have "t = al_get_term b i"
    using assms(2) GetTerm_Inr [OF node_ok_log_rel [OF b]] by (simp add: LogTerm_def liftR_Ok env)
  moreover have "alog_ok b" using b by (simp add: node_ok_def log_part_def log_rel_def)
  ultimately show "i \<le> LastIndex s" if "t \<noteq> - 1"
    using that al_index_bounds [of b] LastIndex_alog [OF b]
    by (auto simp: al_get_term_def al_get_def split: if_splits)
qed

lemma safe_term_ge: "safe view C M s0 a0 s \<Longrightarrow> 0 \<le> nd_current_term s"
  by (auto simp: safe_def node_ok_def log_part_def)

end

text \<open>The match indices that \<open>AdvanceCommitIndex\<close> collects.\<close>

lemma match_list:
  defines "F \<equiv> \<lambda>i r. bindR r (\<lambda>xs s. bindR (liftR (at_key (nd_match_index s) i) s) (\<lambda>x. Ok (x # xs)))"
  shows "(\<exists>e. foldr F is (Ok [] s) = Throw e s) \<or>
     foldr F is (Ok [] s) = Ok (map (\<lambda>i. the (nd_match_index s i)) is) s \<and> (\<forall>i\<in>set is. nd_match_index s i \<noteq> None)"
  by (induction "is") (auto simp: F_def at_key_def liftR_def split: option.splits)

context raft_storage
begin

lemma goes_AdvanceCommitIndex [goes_rules]:
  assumes s: "safe view C M s0 a0 s"
  shows "goes view C M s0 a0 (AdvanceCommitIndex E s)"
proof -
  have step: "goes view C M s0 a0 (bindR (if nd_commit_index s < c then
                 bindR (LogTerm E c s) (\<lambda>t s.
                   Ok () (if t = nd_current_term s then s\<lparr>nd_commit_index := c\<rparr> else s))
               else Ok () s) (\<lambda>_. ApplyCommitted E))" for c
  proof -
    have "safe view C M s0 a0 (s\<lparr>nd_commit_index := c\<rparr>)"
      if "nd_commit_index s < c" "LogTerm E c s = Ok (nd_current_term s) s"
      using that LogTerm_Ok [OF s that(2)] safe_term_ge [OF s] by (intro safe_commit [OF s]) simp_all
    then have "goes view C M s0 a0 (ApplyCommitted E u)"
      if "LogTerm E c s = Ok t s'" "u = (if t = nd_current_term s' then s'\<lparr>nd_commit_index := c\<rparr> else s')"
        "nd_commit_index s < c" for t s' u
      using that LogTerm_Ok(1) [OF s that(1)] s by (auto intro!: goes_rules)
    then show ?thesis
      using s safe_dead [OF s safe_id [OF s]]
      by (cases "LogTerm E c s") (auto simp: goes_ApplyCommitted LogTerm_def liftR_def split: sum.splits)
  qed
  from match_list [of "map pi_id (nd_peers s)" s] show ?thesis
  proof (elim disjE conjE exE)
    fix e assume eq: "foldr (\<lambda>i r. bindR r (\<lambda>xs s. bindR (liftR (at_key (nd_match_index s) i) s) (\<lambda>x. Ok (x # xs))))
      (map pi_id (nd_peers s)) (Ok [] s) = Throw e s"
    show ?thesis unfolding AdvanceCommitIndex_def eq using safe_dead [OF s safe_id [OF s]] by simp
  next
    assume eq: "foldr (\<lambda>i r. bindR r (\<lambda>xs s. bindR (liftR (at_key (nd_match_index s) i) s) (\<lambda>x. Ok (x # xs))))
      (map pi_id (nd_peers s)) (Ok [] s) = Ok (map (\<lambda>i. the (nd_match_index s i)) (map pi_id (nd_peers s))) s"
    show ?thesis unfolding AdvanceCommitIndex_def eq bindR.simps Let_def by (rule step)
  qed
qed

end

section \<open>Appending to the log\<close>

lemma al_append_facts:
  "al_last (al_append es a) = al_last a + int (length es)" "al_index (al_append es a) = al_index a"
  "al_pending (al_append es a) = al_pending a"
  "al_last_term (al_append es a) = last (al_last_term a # map le_term es)"
  "i \<le> al_last a \<Longrightarrow> al_get (al_append es a) i = al_get a i"
  by (auto simp: al_append_def al_last_def al_last_term_def al_get_def nth_append last_map)

lemma log_move_append:
  assumes s: "node_ok view C s b" and es: "\<forall>e\<in>set es. le_term e \<le> nd_current_term s"
  shows "log_move s b (al_append es b)"
proof -
  have "al_last_term (al_append es b) \<le> nd_current_term s"
    using s es by (cases es) (auto simp: al_append_facts node_ok_def log_part_def last_map)
  with s show ?thesis
    by (auto simp: log_move_def node_ok_def log_part_def al_append_facts log_keeps_def nd_hard_def)
qed

lemma FailPending_frame:
  "nd_sm (FailPending r s) = nd_sm s" "nd_log (FailPending r s) = nd_log s" "emitted no_vote s (FailPending r s)"
proof -
  have "nd_sm (fold (\<lambda>(i, p). complete_proposal False r p) ps u) = nd_sm u \<and>
      nd_log (fold (\<lambda>(i, p). complete_proposal False r p) ps u) = nd_log u \<and>
      emitted no_vote u (fold (\<lambda>(i, p). complete_proposal False r p) ps u)" for ps and u :: "'a node"
  proof (induction ps arbitrary: u)
    case (Cons ip ps)
    have "nd_sm (complete_proposal False r (snd ip) u) = nd_sm u" "nd_log (complete_proposal False r (snd ip) u) = nd_log u"
      "emitted no_vote u (complete_proposal False r (snd ip) u)"
      by (auto simp: complete_proposal_def emit_def emitted_def no_vote_def split: option.splits)
    with Cons [of "complete_proposal False r (snd ip) u"] show ?case
      by (auto simp: split_beta intro: emitted_trans)
  qed simp
  from this [of "nd_pending s" "s\<lparr>nd_pending := [], nd_pending_bytes := 0\<rparr>"]
  show "nd_sm (FailPending r s) = nd_sm s" "nd_log (FailPending r s) = nd_log s" "emitted no_vote s (FailPending r s)"
    by (simp_all add: FailPending_def emitted_def)
qed

lemma dead_FailPending [simp]: "dead view C s0 a0 s \<Longrightarrow> dead view C s0 a0 (FailPending r s)"
  by (erule dead_core) (rule FailPending_frame)+

definition appendable :: "log_entry list \<Rightarrow> 'db node \<Rightarrow> bool" where
  "appendable es s \<longleftrightarrow>
     LastIndex s + int (length es) < INT64_MAX \<and> sorted (LastTerm s # map le_term es) \<and>
     (\<forall>e\<in>set es. le_term e \<le> nd_current_term s)"

context raft_storage
begin

lemma wp_AppendBatch:
  assumes b: "node_ok view C s b" and es: "appendable es s"
  shows "wp (on_log (AppendBatch R C es) s)
     (\<lambda>_ t. safe view C M s b t \<and> t = s\<lparr>nd_log := nd_log t\<rparr> \<and> LastIndex t = LastIndex s + int (length es))
     (\<lambda>_. dead view C s b)"
proof -
  have tm: "nd_current_term s \<le> INT32_MAX" using b by (simp add: node_ok_def log_part_def)
  have mv: "log_move s b (al_append es b)" using es by (intro log_move_append [OF b]) (simp add: appendable_def)
  show ?thesis
  proof (rule wp_on_log [OF b _ mv])
    show "log_step view C (AppendBatch R C es (nd_log s)) b (al_append es b)"
      using es tm LastIndex_alog [OF b] LastTerm_alog [OF b]
      by (intro AppendBatch_step node_ok_log_rel [OF b]) (auto simp: append_ok_def appendable_def list_all_iff)
  next
    fix l assume l: "log_rel view C l (al_append es b)"
    have h: "hard_of b = nd_hard s" using b by (simp add: node_ok_def log_part_def)
    have "safe view C M s b (s\<lparr>nd_log := l\<rparr>)"
    proof (rule safe_log [OF b l mv, where r = "nd_state s" and V = "nd_votes s"])
      show "vote_le M s (s\<lparr>nd_log := l\<rparr>)" by (rule vote_le_same) (simp_all add: nd_hard_def)
      show "0 \<le> fst (hard_of (al_append es b))" "fst (hard_of (al_append es b)) \<le> INT32_MAX"
        using b h by (simp_all add: node_ok_def log_part_def nd_hard_def)
    qed (use b in \<open>simp_all add: h nd_hard_def core_def emitted_def node_ok_def member_ok_def\<close>)
    moreover have "LastIndex (s\<lparr>nd_log := l\<rparr>) = LastIndex s + int (length es)"
      using l LastIndex_alog [OF b] by (simp add: LastIndex_def log_rel_def fields_rel_def al_append_facts)
    ultimately show "safe view C M s b (s\<lparr>nd_log := l\<rparr>) \<and>
        s\<lparr>nd_log := l\<rparr> = s\<lparr>nd_log := nd_log (s\<lparr>nd_log := l\<rparr>)\<rparr> \<and> LastIndex (s\<lparr>nd_log := l\<rparr>) = LastIndex s + int (length es)"
      by simp
  qed
qed

lemma goes_AppendBatch [goes_rules]:
  assumes s: "fit view C M s0 a0 s" and es: "appendable es s"
  shows "goes view C M s0 a0 (on_log (AppendBatch R C es) s)"
proof (rule goes_trans [OF s])
  fix b assume b: "node_ok view C s b"
  have "runs view C M s b (on_log (AppendBatch R C es) s)"
    unfolding runs_def by (rule wp_mono [OF wp_AppendBatch [OF b es]]) auto
  then show "goes view C M s b (on_log (AppendBatch R C es) s)"
    by (rule goes_runs [OF _ fit_caught_up [OF s]]) (rule pos_on_log)
qed

lemma goes_catch:
  assumes "goes view C M s0 a0 r" and "\<And>e s. dead view C s0 a0 s \<Longrightarrow> goes view C M s0 a0 (h e s)"
  shows "goes view C M s0 a0 (catchR r h)"
  using assms by (cases r) auto

lemma goes_append_own [goes_rules]:
  assumes s: "fit view C M s0 a0 s" and es: "appendable es s"
  shows "goes view C M s0 a0 (append_own E es bytes s)"
proof -
  have "goes view C M s0 a0 (on_log (AppendBatch R C es) u)" if "SteadyNow E s = Ok x u" for x u
  proof (rule goes_AppendBatch)
    have u: "u = s\<lparr>nd_oracle := Suc (nd_oracle s)\<rparr>" using that by (simp add: SteadyNow_def ask_def)
    show "fit view C M s0 a0 u" using s unfolding u by (rule fit_upd) simp
    show "appendable es u" using es unfolding u by (simp add: appendable_def LastIndex_def LastTerm_def)
  qed
  then show ?thesis
    unfolding append_own_def env
    using s by (auto intro!: goes_bindR goes_quiet_ops goes_catch)
qed

lemma appendable_new_entries:
  assumes "safe view C M s0 a0 s" and "LastIndex s \<le> INT64_MAX - int (length cs) - 1" and "cs \<noteq> []"
  shows "appendable (new_entries (LastIndex s + 1) (nd_current_term s) cs) s"
proof -
  from assms(1) obtain b where b: "node_ok view C s b" by (auto simp: safe_def)
  have "LastTerm s \<le> nd_current_term s" using b LastTerm_alog [OF b] by (simp add: node_ok_def log_part_def)
  moreover have "map le_term (new_entries i t cs) = replicate (length cs) t" for i t
    by (rule nth_equalityI) (simp_all add: new_entries_def)
  moreover have "le_term ` set (new_entries i t cs) \<subseteq> {t}" for i t by (auto simp: new_entries_def)
  ultimately show ?thesis using assms(2) by (auto simp: appendable_def new_entries_def)
qed

lemma goes_ProposeBatch [goes_rules]:
  assumes s: "fit view C M s0 a0 s"
  shows "goes view C M s0 a0 (ProposeBatch E proposals s)"
proof -
  let ?es = "new_entries (LastIndex s + 1) (nd_current_term s) (map pp_command proposals)"
  have "goes view C M s0 a0 (append_own E ?es bytes s)"
    if "\<not> INT64_MAX - int (length proposals) - 1 < LastIndex s" "proposals \<noteq> []" for bytes
    using that by (intro goes_append_own [OF s] appendable_new_entries [OF fit_safe [OF s]]) simp_all
  then show ?thesis
    unfolding ProposeBatch_def Let_def
    using s by (auto split: option.splits intro!: goes_bindR goes_foldR goes_quiet_ops goes_AdvanceCommitIndex dest: fit_dead fit_safe)
qed

lemma goes_Propose [goes_rules]: "fit view C M s0 a0 s \<Longrightarrow> goes view C M s0 a0 (Propose E c cb s)"
  by (simp add: Propose_def goes_ProposeBatch)

end

section \<open>Candidates and leaders\<close>

lemma dom_override_on: "dom (override_on m ks v) = dom m \<union> set ks"
  by (induction ks arbitrary: m) (auto simp: override_on_def)

lemma ran_override_on: "override_on m ks v k = Some x \<Longrightarrow> m k = Some x \<or> x = v"
  by (induction ks arbitrary: m) (fastforce simp: override_on_def split: if_splits)+

lemma flights_override: "flights_ok s \<Longrightarrow> flights_ok (s\<lparr>nd_inflight := override_on (nd_inflight s) ks no_flight\<rparr>)"
  unfolding flights_ok_def by (auto dest!: ran_override_on simp: no_flight_def)

context raft_storage
begin

lemma safe_state:
  assumes s: "safe view C M s0 a0 s" and t: "core t = core (s\<lparr>nd_state := r, nd_votes := V\<rparr>)"
    and f: "flights_ok t" and e: "emitted no_vote s t" and v: "vote_le M s t"
  shows "safe view C M s0 a0 t"
proof (rule safe_trans [OF s _ safe_id [OF s]])
  fix b assume b: "node_ok view C s b"
  have h: "hard_of b = nd_hard s" using b by (simp add: node_ok_def log_part_def)
  show "safe view C M s b t"
  proof (rule safe_log [OF b node_ok_log_rel [OF b] log_move_refl [OF b] _ f _ _ v e])
    show "core t = core (s\<lparr>nd_log := nd_log s, nd_current_term := fst (hard_of b),
                nd_voted_for := snd (hard_of b), nd_state := r, nd_votes := V\<rparr>)"
      using t h by (simp add: core_def nd_hard_def)
    show "0 \<le> fst (hard_of b)" "fst (hard_of b) \<le> INT32_MAX"
      using b h by (simp_all add: node_ok_def log_part_def nd_hard_def)
  qed
qed

lemma fit_state:
  assumes s: "fit view C M s0 a0 s" and t: "core t = core (s\<lparr>nd_state := r, nd_votes := V\<rparr>)"
    and f: "flights_ok t" and e: "nd_events t = nd_events s" and v: "vote_le M s t"
  shows "fit view C M s0 a0 t"
  unfolding fit_def
proof
  show "safe view C M s0 a0 t"
    using e by (intro safe_state [OF fit_safe [OF s] t f _ v]) (simp add: emitted_def)
  show "caught_up t"
    by (rule caught_up_pos [OF fit_caught_up [OF s]]) (use core_eqD [OF t] in \<open>simp add: pos_def\<close>)
qed

lemma fit_vote:
  assumes s: "fit view C M s0 a0 s" and m: "nd_state s = PRE_CANDIDATE \<or> (p, nd_current_term s) \<in> M \<and> nd_state s = CANDIDATE"
  shows "fit view C M s0 a0 (s\<lparr>nd_votes := insert p (nd_votes s)\<rparr>)"
proof (rule fit_state [OF s, where r = "nd_state s" and V = "insert p (nd_votes s)"])
  show "vote_le M s (s\<lparr>nd_votes := insert p (nd_votes s)\<rparr>)"
    using m by (auto simp: vote_le_def nd_hard_def electing_def)
qed (use safe_flights [OF fit_safe [OF s]] in \<open>simp_all add: core_def\<close>)

lemma goes_BecomeLeader:
  assumes s: "fit view C M s0 a0 s" and c: "nd_state s = CANDIDATE" and q: "QuorumSize s \<le> card (nd_votes s)"
  shows "goes view C M s0 a0 (BecomeLeader E s)"
proof -
  let ?ids = "map pi_id (nd_peers s)"
  let ?t = "s\<lparr>nd_state := LEADER, nd_leader_id := nd_id s, nd_peer_active := (\<lambda>_. None),
                nd_lease_confirmed := (\<lambda>_. None),
                nd_next_index := override_on (nd_next_index s) ?ids (LastIndex s + 1),
                nd_match_index := (override_on (nd_match_index s) ?ids 0)(nd_id s := Some (LastIndex s)),
                nd_inflight := override_on (nd_inflight s) ?ids no_flight,
                nd_heartbeat_timer_ms := kHeartbeatIntervalMs\<rparr>"
  note ss = fit_safe [OF s]
  have d: "dom (override_on (nd_next_index s) ?ids (LastIndex s + 1)) = dom (nd_next_index s)"
    using safe_dom [OF ss] by (simp add: dom_override_on)
  have "fit view C M s0 a0 ?t"
  proof (rule fit_state [OF s, where r = LEADER and V = "nd_votes s"])
    show "core ?t = core (s\<lparr>nd_state := LEADER, nd_votes := nd_votes s\<rparr>)" using d by (simp add: core_def)
    show "flights_ok ?t" using flights_override [OF safe_flights [OF ss], of ?ids] by (simp add: flights_ok_def)
    show "vote_le M s ?t" using c q by (auto simp: vote_le_def electing_def nd_hard_def QuorumSize_def)
  qed simp
  then show ?thesis
    unfolding BecomeLeader_def Let_def by (auto intro!: goes_bindR goes_Propose goes_quiet_ops)
qed

lemma fit_id_peer: "fit view C M s0 a0 s \<Longrightarrow> nd_id s \<in> peer_ids s"
  by (auto simp: fit_def safe_def node_ok_def member_ok_def)

lemma goes_BecomeCandidate [goes_rules]:
  assumes s: "fit view C M s0 a0 s"
  shows "goes view C M s0 a0 (BecomeCandidate E s)"
proof (cases "nd_current_term s = INT32_MAX")
  case True
  with s show ?thesis by (simp add: BecomeCandidate_def fit_dead)
next
  case False
  let ?upd = "\<lambda>s. s\<lparr>nd_current_term := nd_current_term s + 1, nd_voted_for := nd_id s,
                 nd_state := CANDIDATE, nd_leader_id := - 1, nd_votes := {nd_id s}\<rparr>"
  let ?save = "bindR (on_log (SaveHardState R (nd_current_term s + 1) (nd_id s)) s) (\<lambda>_ s. Ok () (?upd s))"
  note ss = fit_safe [OF s]
  have "runs view C M s0 a0 ?save"
    by (rule runs_save [OF ss, where r = CANDIDATE and V = "{nd_id s}"])
      (use False safe_term [OF ss] fit_id_peer [OF s] safe_flights [OF ss] in \<open>simp_all add: nd_hard_def core_def\<close>)
  then have save: "goes view C M s0 a0 ?save"
    by (rule goes_runs [OF _ fit_caught_up [OF s]])
      (auto simp: bindR_Ok_iff pos_def dest: pos_on_log [unfolded pos_def])
  have one: "nd_state u = CANDIDATE \<and> card (nd_votes u) = 1" if "?save = Ok x u'" "ResetElectionTimer E u' = Ok y u" for x y u u'
  proof -
    have "nd_state u' = CANDIDATE" "nd_votes u' = {nd_id u'}" using that(1) by (auto simp: bindR_Ok_iff)
    with that(2) show ?thesis by (auto simp: ResetElectionTimer_def ask_def bindR_Ok_iff Now_def)
  qed
  have "BecomeCandidate E s = bindR ?save (\<lambda>_ s. bindR (ResetElectionTimer E s) (\<lambda>_ s.
          if QuorumSize s = 1 then BecomeLeader E s else PeerBroadcast E (vote_request False (nd_current_term s) s) s))"
    using False by (simp add: BecomeCandidate_def env bindR_assoc)
  also have "goes view C M s0 a0 \<dots>"
  proof (rule goes_bindR [OF save], rule goes_bindR, rule goes_quiet_ops)
    fix x u' y u assume u: "?save = Ok x u'" "ResetElectionTimer E u' = Ok y u" "fit view C M s0 a0 u"
    from one [OF u(1,2)] u(3)
    show "goes view C M s0 a0 (if QuorumSize u = 1 then BecomeLeader E u
        else PeerBroadcast E (vote_request False (nd_current_term u) u) u)"
      by (simp add: goes_BecomeLeader goes_PeerBroadcast no_vote_def vote_request_def)
  qed
  finally show ?thesis .
qed

lemma goes_BecomePreCandidate [goes_rules]:
  assumes s: "fit view C M s0 a0 s"
  shows "goes view C M s0 a0 (BecomePreCandidate E s)"
proof -
  have "fit view C M s0 a0 (s\<lparr>nd_state := PRE_CANDIDATE, nd_leader_id := - 1, nd_votes := {nd_id s}\<rparr>)"
    by (rule fit_state [OF s, where r = PRE_CANDIDATE and V = "{nd_id s}"])
      (use safe_flights [OF fit_safe [OF s]] in \<open>simp_all add: core_def vote_le_def nd_hard_def electing_def\<close>)
  then show ?thesis
    unfolding BecomePreCandidate_def using s
    by (auto intro!: goes_bindR goes_quiet_ops goes_BecomeCandidate goes_PeerBroadcast fit_dead
        simp: no_vote_def vote_request_def)
qed

lemma goes_HandleRequestVoteResponse:
  assumes s: "fit view C M s0 a0 s" and tm: "rvr_term p \<le> INT32_MAX"
    and m: "rvr_vote_granted p \<Longrightarrow> \<not> rvr_prevote p \<Longrightarrow> (peer, rvr_term p) \<in> M"
  shows "goes view C M s0 a0 (HandleRequestVoteResponse E peer p s)"
proof -
  have pre: "fit view C M s0 a0 (s\<lparr>nd_votes := insert peer (nd_votes s)\<rparr>)" if "nd_state s = PRE_CANDIDATE"
    using that by (intro fit_vote [OF s]) simp
  have real: "fit view C M s0 a0 (s\<lparr>nd_votes := insert peer (nd_votes s)\<rparr>)"
    if "nd_state s = CANDIDATE" "\<not> rvr_prevote p" "rvr_term p = nd_current_term s" "rvr_vote_granted p"
    using that m by (intro fit_vote [OF s]) simp
  show ?thesis
    unfolding HandleRequestVoteResponse_def Let_def
    using s tm pre real by (auto intro!: goes_BecomeFollower goes_BecomeCandidate goes_BecomeLeader)
qed

end

section \<open>Granting a vote\<close>

text \<open>
  \<open>step_ok\<close> is what every operation promises: the node is fit, it moved forward, and a vote it granted
  is the vote it holds, on disk, in the term it is in.
\<close>

definition vote_event :: "'db node \<Rightarrow> raft_event \<Rightarrow> bool" where
  "vote_event t e \<longleftrightarrow>
     (granted_vote e \<longrightarrow>
        (\<exists>r. e = EvSend (nd_voted_for t) (RequestVoteResponse r) \<and> rvr_term r = nd_current_term t))"

definition step_ok ::
  "('db \<Rightarrow> bytes \<Rightarrow> bytes option) \<Rightarrow> entry_codec \<Rightarrow> (int \<times> int) set \<Rightarrow> 'db node \<Rightarrow> alog \<Rightarrow> 'db node \<Rightarrow> bool" where
  "step_ok view C M s a t \<longleftrightarrow>
     (\<exists>a'. node_ok view C t a' \<and> vote_le M s t \<and> log_keeps (nd_commit_index s) a a') \<and>
     nd_commit_index s \<le> nd_commit_index t \<and> nd_last_applied s \<le> nd_last_applied t \<and> caught_up t \<and>
     emitted (vote_event t) s t"

definition steps ::
  "('db \<Rightarrow> bytes \<Rightarrow> bytes option) \<Rightarrow> entry_codec \<Rightarrow> (int \<times> int) set \<Rightarrow> 'db node \<Rightarrow> alog \<Rightarrow> ('db node, 'a) res \<Rightarrow> bool" where
  "steps view C M s a r \<longleftrightarrow> wp r (\<lambda>_. step_ok view C M s a) (\<lambda>_. dead view C s a)"

lemma no_vote_event: "no_vote e \<Longrightarrow> vote_event t e"
  by (simp add: no_vote_def vote_event_def)

lemma fit_step_ok: "fit view C M s a t \<Longrightarrow> step_ok view C M s a t"
  unfolding fit_def safe_def step_ok_def node_le_def by (auto intro: emitted_mono no_vote_event)

lemma goes_steps: "goes view C M s a r \<Longrightarrow> steps view C M s a r"
  by (cases r) (simp_all add: steps_def fit_step_ok)

lemma steps_bindR:
  "goes view C M s0 a0 m \<Longrightarrow> (\<And>x s. fit view C M s0 a0 s \<Longrightarrow> m = Ok x s \<Longrightarrow> steps view C M s0 a0 (f x s)) \<Longrightarrow>
   steps view C M s0 a0 (bindR m f)"
  by (cases m) (simp_all add: steps_def)

lemma steps_if:
  "(b \<Longrightarrow> steps view C M s0 a0 r) \<Longrightarrow> (\<not> b \<Longrightarrow> steps view C M s0 a0 r') \<Longrightarrow>
   steps view C M s0 a0 (if b then r else r')"
  by simp

lemma steps_vote_reply:
  assumes "fit view C M s0 a0 s" and "nd_voted_for s = p"
  shows "steps view C M s0 a0 (vote_reply E p prevote True s)"
proof -
  let ?e = "EvSend p (RequestVoteResponse
       \<lparr>rvr_term = nd_current_term s, rvr_vote_granted = True, rvr_prevote = prevote\<rparr>)"
  obtain a where a: "node_ok view C s a" "node_le M s0 a0 s a" using assms(1) by (auto simp: fit_def safe_def)
  have "step_ok view C M s0 a0 t"
    if t: "core t = core s" "nd_inflight t = nd_inflight s" "nd_events t = nd_events s @ [?e]" for t
  proof -
    note e = core_eqD [OF t(1)]
    have "flights_ok t" using a(1) t(2) by (simp add: node_ok_def member_ok_def flights_ok_def)
    then have "node_ok view C t a" by (rule node_ok_core [OF a(1) t(1)])
    moreover have "caught_up t"
      by (rule caught_up_pos [OF fit_caught_up [OF assms(1)] pos_core [OF t(1)]])
    moreover have "vote_le M s0 t" using a(2) unfolding node_le_def vote_le_def nd_hard_def QuorumSize_def e by blast
    moreover have "emitted (vote_event t) s0 t"
    proof -
      have "emitted (vote_event t) s0 s" using a(2) by (auto simp: node_le_def intro: emitted_mono no_vote_event)
      moreover have "vote_event t ?e" using assms(2) e by (auto simp: vote_event_def)
      ultimately show ?thesis using t(3) by (auto simp: emitted_def)
    qed
    ultimately show ?thesis using a(2) by (auto simp: step_ok_def node_le_def e)
  qed
  moreover have "step_ok view C M s0 a0 (s\<lparr>nd_oracle := Suc (nd_oracle s)\<rparr>)"
    by (rule fit_step_ok, rule fit_upd [OF assms(1)]) simp
  ultimately show ?thesis by (simp add: steps_def vote_reply_def PeerSend_def ask_def emit_def core_def)
qed

context raft_storage
begin

lemma steps_grant_vote:
  assumes s: "fit view C M s0 a0 s" and p: "peer \<in> peer_ids s"
  shows "steps view C M s0 a0 (grant_vote E peer q s)"
proof -
  note ss = fit_safe [OF s]
  let ?upd = "\<lambda>s. s\<lparr>nd_voted_for := peer\<rparr>"
  let ?save = "bindR (on_log (SaveHardState R (nd_current_term s) peer) s) (\<lambda>_ s. Ok () (?upd s))"
  have grant: "steps view C M s0 a0 (bindR ?save (\<lambda>_ s. bindR (ResetElectionTimer E s) (\<lambda>_. vote_reply E peer pre True)))"
    if "nd_voted_for s = - 1 \<or> nd_voted_for s = peer" for pre
  proof (rule steps_bindR)
    have "runs view C M s0 a0 ?save"
      by (rule runs_save [OF ss, where r = "nd_state s" and V = "nd_votes s"])
        (use that p safe_term [OF ss] safe_flights [OF ss] in \<open>auto simp: nd_hard_def core_def\<close>)
    then show "goes view C M s0 a0 ?save"
      by (rule goes_runs [OF _ fit_caught_up [OF s]])
        (auto simp: bindR_Ok_iff pos_def dest: pos_on_log [unfolded pos_def])
    fix x u assume u: "fit view C M s0 a0 u" "?save = Ok x u"
    then have v: "nd_voted_for u = peer" by (auto simp: bindR_Ok_iff)
    show "steps view C M s0 a0 (bindR (ResetElectionTimer E u) (\<lambda>_. vote_reply E peer pre True))"
    proof (rule steps_bindR)
      show "goes view C M s0 a0 (ResetElectionTimer E u)" using u(1) by (rule goes_quiet_ops)
      fix y w assume "fit view C M s0 a0 w" "ResetElectionTimer E u = Ok y w"
      moreover from this(2) v have "nd_voted_for w = peer"
        by (auto simp: ResetElectionTimer_def ask_def bindR_Ok_iff Now_def)
      ultimately show "steps view C M s0 a0 (vote_reply E peer pre True w)" by (intro steps_vote_reply)
    qed
  qed
  have "steps view C M s0 a0 (vote_reply E peer pre False s)" for pre
    using s by (intro goes_steps goes_vote_reply) simp_all
  with grant show ?thesis by (simp add: grant_vote_def env bindR_assoc)
qed

lemma steps_HandleRequestVote:
  assumes s: "fit view C M s0 a0 s" and tm: "rv_term q \<le> INT32_MAX"
  shows "steps view C M s0 a0 (HandleRequestVote E peer q s)"
proof -
  have peers: "peer_ids u = peer_ids s" if "fit view C M s0 a0 u" for u
    using that s by (auto simp: fit_def safe_def node_le_def vote_le_def)
  have vote: "steps view C M s0 a0 (bindR (if nd_current_term u < rv_term q then BecomeFollower E (rv_term q) u else Ok () u)
       (\<lambda>_. grant_vote E peer q))" if "fit view C M s0 a0 u" "vote_request_valid peer q s" for u
  proof (rule steps_bindR)
    show "goes view C M s0 a0 (if nd_current_term u < rv_term q then BecomeFollower E (rv_term q) u else Ok () u)"
      using that tm by (simp add: goes_BecomeFollower)
    fix x w assume w: "fit view C M s0 a0 w"
    have "peer \<in> peer_ids w"
      unfolding peers [OF w] using that(2) safe_dom [OF fit_safe [OF s]]
      by (auto simp: vote_request_valid_def IsRemotePeer_def)
    with w show "steps view C M s0 a0 (grant_vote E peer q w)" by (rule steps_grant_vote)
  qed
  have reply: "steps view C M s0 a0 (vote_reply E peer pre g u)" if "fit view C M s0 a0 u" "\<not> g \<or> pre" for u g pre
    using that by (intro goes_steps goes_vote_reply) simp_all
  have ask: "goes view C M s0 a0 (if d then bindR (Now E s) (\<lambda>now s. Ok (now < nd_election_deadline s) s) else Ok False s)" for d
    using s by (auto intro!: goes_bindR goes_quiet_ops)
  show ?thesis
    unfolding HandleRequestVote_def
    by (intro steps_if steps_bindR [OF ask] reply [OF s] reply vote goes_steps) (simp_all add: s)
qed

end

end
