(* ===== verification/NodeAppend.thy ===== *)
theory NodeAppend
  imports NodeRoles
begin

text \<open>
  The AppendEntries handlers of \<open>src/src/raft/raft_node.cc\<close> keep a node fit. \<open>merge_entries\<close> never
  touches a committed entry, and what it leaves to append continues the log.
\<close>

section \<open>Merging received entries\<close>

text \<open>
  The loop before the entry at index \<open>j\<close>, whose predecessor has term \<open>pt\<close>: nothing to append yet and
  the log agrees up to \<open>j - 1\<close>, or everything from the end of the log on is to be appended.
\<close>

definition merging :: "alog \<Rightarrow> log_entry list \<Rightarrow> int \<Rightarrow> int \<Rightarrow> bool" where
  "merging b acc j pt \<longleftrightarrow>
     (if acc = [] then j - 1 \<le> al_last b \<and> (al_index b \<le> j - 1 \<longrightarrow> al_get_term b (j - 1) = pt)
      else al_last b + int (length acc) = j - 1 \<and> le_term (last acc) = pt \<and>
        sorted (al_last_term b # map le_term acc))"

lemma sorted_le_last: "sorted xs \<Longrightarrow> x \<in> set xs \<Longrightarrow> x \<le> last xs" for xs :: "int list"
  by (induction xs) auto

lemma al_get_term_last:
  assumes "alog_ok b"
  shows "al_get_term b (al_last b) = al_last_term b"
proof -
  have "nat (int n - 1) = n - Suc 0" for n by simp
  with assms show ?thesis
    by (auto simp: al_get_term_def al_get_def al_last_def al_last_term_def alog_ok_def snap_ok_def last_conv_nth
        split: if_splits)
qed

lemma al_get_term_missing: "al_last b < j \<Longrightarrow> 0 < j \<Longrightarrow> alog_ok b \<Longrightarrow> al_get_term b j = - 1"
  using al_index_bounds [of b] by (auto simp: al_get_term_def al_get_def)

lemma merging_skip:
  assumes "merging b [] j pt" and "alog_ok b" and "j \<le> al_last b" and "al_index b \<le> j \<longrightarrow> al_get_term b j = t"
  shows "merging b [] (j + 1) t"
  using assms by (auto simp: merging_def)

lemma merging_append:
  assumes m: "merging b acc j (pt)" and b: "alog_ok b" and j: "al_last b < j" and e: "pt \<le> le_term e"
  shows "merging b (acc @ [e]) (j + 1) (le_term e)"
proof (cases "acc = []")
  case True
  with m j have "j - 1 = al_last b" by (simp add: merging_def)
  with m True b have "al_last_term b = pt"
    using al_index_bounds [OF b] al_get_term_last [OF b] by (simp add: merging_def)
  with True e \<open>j - 1 = al_last b\<close> show ?thesis by (simp add: merging_def)
next
  case False
  with m e have "\<forall>x\<in>set (al_last_term b # map le_term acc). x \<le> le_term e"
    using sorted_le_last [of "al_last_term b # map le_term acc"] by (fastforce simp: merging_def last_map)
  with False m e show ?thesis by (auto simp: merging_def sorted_append)
qed

lemma log_move_truncate:
  assumes s: "node_ok view C s b" and j: "nd_commit_index s < j" "j \<le> al_last b"
  shows "log_move s b (al_truncate j b)"
proof -
  have b: "alog_ok b" and i: "al_index b \<le> nd_commit_index s"
    using s by (auto simp: node_ok_def log_part_def log_rel_def)
  note f = al_truncate_facts [OF b, of j]
  have "al_get (al_truncate j b) i = al_get b i" if "i < j" for i
    using that i j f(2) by (auto simp: al_get_def al_truncate_def)
  moreover have "al_last_term (al_truncate j b) \<le> al_last_term b"
  proof -
    have "sorted (al_term b # map le_term (al_entries b))" using b by (simp add: alog_ok_def entries_ok_def)
    moreover have "al_last_term (al_truncate j b) \<in> set (al_term b # map le_term (al_entries b))"
    proof -
      let ?ts = "al_term b # map le_term (take (nat (j - al_index b - 1)) (al_entries b))"
      have "last ?ts \<in> set ?ts" by (rule last_in_set) simp
      then show ?thesis by (auto simp: al_last_term_def al_truncate_def dest: in_set_takeD split: if_splits)
    qed
    ultimately show ?thesis unfolding al_last_term_def [of b] by (rule sorted_le_last)
  qed
  moreover have "al_index (al_truncate j b) = al_index b" "al_pending (al_truncate j b) = al_pending b"
    by (simp_all add: al_truncate_def)
  ultimately show ?thesis
    using s j i f by (auto simp: log_move_def node_ok_def log_part_def log_keeps_def nd_hard_def)
qed

lemma same_log: "\<exists>l. s = s\<lparr>nd_log := l\<rparr>"
  by (rule exI [of _ "nd_log s"]) simp

context raft_storage
begin

lemma wp_TruncateSuffix:
  assumes b: "node_ok view C s b" and j: "nd_commit_index s < j" "j \<le> al_last b"
  shows "wp (on_log (TruncateSuffix R C j) s)
     (\<lambda>_ t. node_ok view C t (al_truncate j b) \<and> node_le M s b t (al_truncate j b) \<and> (\<exists>l. t = s\<lparr>nd_log := l\<rparr>))
     (\<lambda>_. dead view C s b)"
proof (rule wp_on_log [OF b _ log_move_truncate [OF b j]])
  show "log_step view C (TruncateSuffix R C j (nd_log s)) b (al_truncate j b)"
    by (rule TruncateSuffix_step [OF node_ok_log_rel [OF b]])
  fix l assume l: "log_rel view C l (al_truncate j b)"
  note mv = log_move_truncate [OF b j]
  have h: "hard_of b = nd_hard s" using b by (simp add: node_ok_def log_part_def)
  have c: "core (s\<lparr>nd_log := l\<rparr>) = core (s\<lparr>nd_log := l, nd_current_term := fst (hard_of (al_truncate j b)),
              nd_voted_for := snd (hard_of (al_truncate j b)), nd_state := nd_state s, nd_votes := nd_votes s\<rparr>)"
    by (simp add: h nd_hard_def core_def)
  have "node_ok view C (s\<lparr>nd_log := l\<rparr>) (al_truncate j b)"
    using b h by (intro node_ok_log [OF b l mv c]) (simp_all add: node_ok_def member_ok_def log_part_def nd_hard_def)
  moreover have "node_le M s b (s\<lparr>nd_log := l\<rparr>) (al_truncate j b)"
    using mv by (auto simp: node_le_def log_move_def nd_hard_def emitted_def intro!: vote_le_same)
  ultimately show "node_ok view C (s\<lparr>nd_log := l\<rparr>) (al_truncate j b) \<and>
      node_le M s b (s\<lparr>nd_log := l\<rparr>) (al_truncate j b) \<and> (\<exists>k. s\<lparr>nd_log := l\<rparr> = s\<lparr>nd_log := k\<rparr>)"
    by blast
qed

lemma wp_merge_entries:
  assumes "node_ok view C s b" and "entries_valid q es j pt" and "merging b acc j pt" and "0 < j"
  shows "wp (merge_entries E es acc s)
     (\<lambda>acc' t. \<exists>c. node_ok view C t c \<and> node_le M s b t c \<and> (\<exists>l. t = s\<lparr>nd_log := l\<rparr>) \<and>
        (\<exists>pt'. merging c acc' (j + int (length es)) pt') \<and> set acc' \<subseteq> set acc \<union> set es)
     (\<lambda>_. dead view C s b)"
  using assms
proof (induction es arbitrary: s b acc j pt)
  case Nil
  then show ?case by (auto intro!: exI [of _ b] node_le_refl same_log)
next
  case (Cons e es)
  note b = Cons.prems(1) and m = Cons.prems(3)
  have ok: "alog_ok b" and ci: "al_index b \<le> nd_commit_index s" "nd_commit_index s \<le> al_last b"
    using b by (auto simp: node_ok_def log_part_def log_rel_def)
  have e: "le_index e = j" "pt \<le> le_term e" "0 < le_term e" "entries_valid q es (j + 1) (le_term e)"
    using Cons.prems(2) by simp_all
  have quit: "dead view C s b s" by (rule safe_dead [OF safe_refl [OF b] node_ok_id [OF b]])
  let ?Q = "\<lambda>acc' t. \<exists>c. node_ok view C t c \<and> node_le M s b t c \<and> (\<exists>l. t = s\<lparr>nd_log := l\<rparr>) \<and>
        (\<exists>pt'. merging c acc' (j + int (length (e # es))) pt') \<and> set acc' \<subseteq> set acc \<union> set (e # es)"
  have rest: "wp (merge_entries E es (if j > LastIndex u then acc @ [e] else acc) u) ?Q (\<lambda>_. dead view C s b)"
    if u: "node_ok view C u c" "node_le M s b u c" "\<exists>l. u = s\<lparr>nd_log := l\<rparr>"
      "merging c (if j > LastIndex u then acc @ [e] else acc) (j + 1) (le_term e)" for u c
  proof (rule wp_mono [OF Cons.IH [OF u(1) e(4) u(4)]])
    show "0 < j + 1" using Cons.prems(4) by simp
    fix acc' t assume "\<exists>d. node_ok view C t d \<and> node_le M u c t d \<and> (\<exists>l. t = u\<lparr>nd_log := l\<rparr>) \<and>
        (\<exists>pt'. merging d acc' (j + 1 + int (length es)) pt') \<and>
        set acc' \<subseteq> set (if j > LastIndex u then acc @ [e] else acc) \<union> set es"
    then obtain d pt' where d: "node_ok view C t d" "node_le M u c t d" "\<exists>l. t = u\<lparr>nd_log := l\<rparr>"
      "merging d acc' (j + 1 + int (length es)) pt'" "set acc' \<subseteq> set (if j > LastIndex u then acc @ [e] else acc) \<union> set es"
      by blast
    have "\<exists>l. t = s\<lparr>nd_log := l\<rparr>" using d(3) u(3) by auto
    moreover have "node_le M s b t d" by (rule node_le_trans [OF u(2) d(2) node_ok_id [OF b]])
    ultimately show "?Q acc' t"
      using d by (intro exI [of _ d] conjI exI [of _ pt']) (auto simp: algebra_simps split: if_splits)
  qed (rule dead_trans_at [OF u(2)])
  have gt: "GetTerm R C (nd_log s) j = Inr t \<Longrightarrow> t = al_get_term b j" for t
    using GetTerm_Inr [OF node_ok_log_rel [OF b]] .
  show ?case
  proof (cases "GetTerm R C (nd_log s) j")
    case (Inl x)
    with quit e show ?thesis by (simp add: LogTerm_def env liftR_def)
  next
    case (Inr t)
    note t = gt [OF Inr]
    show ?thesis
    proof (cases "t \<noteq> - 1 \<and> t \<noteq> le_term e")
      case False
      have "merging b (if j > LastIndex s then acc @ [e] else acc) (j + 1) (le_term e)"
      proof (cases "al_last b < j")
        case True
        then show ?thesis using merging_append [OF m ok _ e(2)] LastIndex_alog [OF b] by simp
      next
        case mid: False
        then have acc: "acc = []" using m by (auto simp: merging_def split: if_splits)
        have "al_get_term b j \<noteq> - 1" if "al_index b \<le> j"
          using that mid ok al_get_ok [OF ok, of j]
          by (auto simp: al_get_term_def al_get_def alog_ok_def snap_ok_def split: if_splits)
        with False t have "al_index b \<le> j \<longrightarrow> al_get_term b j = le_term e" by auto
        with mid acc m ok show ?thesis using LastIndex_alog [OF b] by (simp add: merging_skip)
      qed
      from rest [OF b node_le_refl [OF b] same_log this] show ?thesis
        unfolding merge_entries.simps LogTerm_def env e(1) Inr liftR_def sum.case bindR.simps if_not_P [OF False] .
    next
      case True
      have j: "j \<le> al_last b" using True t al_get_term_missing [OF _ Cons.prems(4) ok] by force
      then have acc: "acc = []" using m by (auto simp: merging_def split: if_splits)
      show ?thesis
      proof (cases "j \<le> nd_commit_index s")
        case le: True
        with True Inr e quit show ?thesis by (simp add: LogTerm_def env liftR_def)
      next
        case gt: False
        have "wp (on_log (TruncateSuffix R C j) s) (\<lambda>_ u.
            wp (merge_entries E es (if j > LastIndex u then acc @ [e] else acc) u) ?Q (\<lambda>_. dead view C s b)) (\<lambda>_. dead view C s b)"
        proof (rule wp_mono [OF wp_TruncateSuffix [OF b _ j, where M = M]])
          show "nd_commit_index s < j" using gt by simp
          fix u assume u: "node_ok view C u (al_truncate j b) \<and> node_le M s b u (al_truncate j b) \<and> (\<exists>l. u = s\<lparr>nd_log := l\<rparr>)"
          have tr: "alog_ok (al_truncate j b)" "al_last (al_truncate j b) = j - 1"
            "al_last_term (al_truncate j b) = al_get_term b (j - 1)"
            using al_truncate_facts [OF ok _ j] gt ci by simp_all
          have "LastIndex u = j - 1" using u LastIndex_alog tr by metis
          moreover have "merging (al_truncate j b) [e] (j + 1) (le_term e)"
            using m acc tr e gt ci by (simp add: merging_def)
          ultimately show "wp (merge_entries E es (if j > LastIndex u then acc @ [e] else acc) u) ?Q (\<lambda>_. dead view C s b)"
            using u acc rest [of u "al_truncate j b"] by simp
        qed
        with True Inr e gt show ?thesis by (simp add: LogTerm_def env liftR_def wp_bindR)
      qed
    qed
  qed
qed

end

section \<open>Accepting entries\<close>

text \<open>A message whose last index and term are below the ends of their ranges.\<close>

definition append_in_range :: "append_entries \<Rightarrow> bool" where
  "append_in_range q \<longleftrightarrow> ae_term q \<le> INT32_MAX \<and> ae_prev_log_index q + int (length (ae_entries q)) < INT64_MAX"

lemma entries_valid_terms: "entries_valid q es j pt \<Longrightarrow> e \<in> set es \<Longrightarrow> le_term e \<le> ae_term q"
  by (induction es arbitrary: j pt) auto

context raft_storage
begin

lemma LogTerm_alog:
  assumes "node_ok view C s b" and "LogTerm E i s = Ok t s'"
  shows "s' = s" and "t = al_get_term b i"
  using assms GetTerm_Inr [OF node_ok_log_rel [OF assms(1)]] by (simp_all add: LogTerm_def liftR_Ok env)

lemma goes_append_received:
  assumes s: "fit view C M s0 a0 s" and es: "es \<noteq> [] \<Longrightarrow> appendable es s"
  shows "goes view C M s0 a0 (append_received E es s)"
proof -
  have "goes view C M s0 a0 (on_log (AppendBatch R C es) u)" if "SteadyNow E s = Ok x u" "es \<noteq> []" for x u
  proof (rule goes_AppendBatch)
    have u: "u = s\<lparr>nd_oracle := Suc (nd_oracle s)\<rparr>" using that by (simp add: SteadyNow_def ask_def)
    show "fit view C M s0 a0 u" using s unfolding u by (rule fit_upd) simp
    show "appendable es u" using es that(2) unfolding u by (simp add: appendable_def LastIndex_def LastTerm_def)
  qed
  then show ?thesis
    unfolding append_received_def env
    using s by (auto intro!: goes_bindR goes_quiet_ops goes_catch simp: fail_storage_def)
qed

lemma append_received_LastIndex:
  assumes s: "fit view C M s0 a0 s" and es: "es \<noteq> [] \<Longrightarrow> appendable es s" and r: "append_received E es s = Ok x t"
  shows "LastIndex t = LastIndex s + int (length es)"
proof (cases "es = []")
  case True
  with r show ?thesis by (simp add: append_received_def)
next
  case False
  obtain b where b: "node_ok view C s b" using s by (auto simp: fit_def safe_def)
  let ?u = "s\<lparr>nd_oracle := Suc (nd_oracle s)\<rparr>"
  have "node_ok view C ?u b" using b by (rule node_ok_core) (use b in \<open>simp_all add: node_ok_def member_ok_def\<close>)
  moreover have "appendable es ?u" using es False by (simp add: appendable_def LastIndex_def LastTerm_def)
  moreover from r False obtain y v where v: "on_log (AppendBatch R C es) ?u = Ok y v" "LastIndex t = LastIndex v"
    by (auto simp: append_received_def SteadyNow_def ask_def env fail_storage_def LastIndex_def upd_metrics_def
        bindR_Ok_iff elim!: catchR.elims)
  ultimately have "LastIndex v = LastIndex ?u + int (length es)" using wp_AppendBatch [of ?u b es UNIV] by simp
  with v show ?thesis by (simp add: LastIndex_def)
qed

end

definition accepts :: "'db raft_env \<Rightarrow> append_entries \<Rightarrow> 'db node \<Rightarrow> bool" where
  "accepts E q s \<longleftrightarrow>
     0 \<le> ae_prev_log_index q \<and> entries_valid q (ae_entries q) (ae_prev_log_index q + 1) (ae_prev_log_term q) \<and>
     append_in_range q \<and> ae_term q = nd_current_term s \<and>
     LogTerm E (ae_prev_log_index q) s = Ok (ae_prev_log_term q) s \<and> 0 \<le> ae_prev_log_term q"

context raft_storage
begin

lemma wp_merge_accepts:
  assumes b: "node_ok view C s b" and q: "accepts E q s"
  shows "wp (merge_entries E (ae_entries q) [] s)
     (\<lambda>es t. safe view C M s b t \<and> (\<exists>l. t = s\<lparr>nd_log := l\<rparr>) \<and> (es \<noteq> [] \<longrightarrow> appendable es t) \<and>
        ae_prev_log_index q + int (length (ae_entries q)) \<le> LastIndex t + int (length es))
     (\<lambda>_. dead view C s b)"
proof -
  let ?p = "ae_prev_log_index q"
  have ok: "alog_ok b" using b by (simp add: node_ok_def log_part_def log_rel_def)
  have "al_get_term b ?p = ae_prev_log_term q" using q LogTerm_alog(2) [OF b] by (simp add: accepts_def)
  moreover from this have "?p \<le> al_last b"
    using q al_get_term_missing [OF _ _ ok, of ?p] al_index_bounds [OF ok] by (force simp: accepts_def)
  ultimately have "merging b [] (?p + 1) (ae_prev_log_term q)" by (simp add: merging_def)
  moreover have "entries_valid q (ae_entries q) (?p + 1) (ae_prev_log_term q)" "0 < ?p + 1"
    using q by (auto simp: accepts_def)
  ultimately have "wp (merge_entries E (ae_entries q) [] s)
     (\<lambda>es t. \<exists>c. node_ok view C t c \<and> node_le M s b t c \<and> (\<exists>l. t = s\<lparr>nd_log := l\<rparr>) \<and>
        (\<exists>pt'. merging c es (?p + 1 + int (length (ae_entries q))) pt') \<and> set es \<subseteq> set [] \<union> set (ae_entries q))
     (\<lambda>_. dead view C s b)"
    by (intro wp_merge_entries [OF b])
  then show ?thesis
  proof (rule wp_mono)
    fix es t assume "\<exists>c. node_ok view C t c \<and> node_le M s b t c \<and> (\<exists>l. t = s\<lparr>nd_log := l\<rparr>) \<and>
        (\<exists>pt'. merging c es (?p + 1 + int (length (ae_entries q))) pt') \<and> set es \<subseteq> set [] \<union> set (ae_entries q)"
    then obtain c pt l where c: "node_ok view C t c" "node_le M s b t c" "t = s\<lparr>nd_log := l\<rparr>"
      "merging c es (?p + 1 + int (length (ae_entries q))) pt" "set es \<subseteq> set (ae_entries q)" by auto
    have "le_term e \<le> nd_current_term t" if "e \<in> set es" for e
      using that c(3,5) q entries_valid_terms [of q "ae_entries q" "?p + 1" "ae_prev_log_term q" e]
      by (auto simp: accepts_def)
    then have "es \<noteq> [] \<longrightarrow> appendable es t"
      using c(4) q LastIndex_alog [OF c(1)] LastTerm_alog [OF c(1)]
      by (auto simp: appendable_def merging_def accepts_def append_in_range_def)
    moreover have "?p + int (length (ae_entries q)) \<le> LastIndex t + int (length es)"
      using c(4) LastIndex_alog [OF c(1)] by (auto simp: merging_def split: if_splits)
    ultimately show "safe view C M s b t \<and> (\<exists>l. t = s\<lparr>nd_log := l\<rparr>) \<and> (es \<noteq> [] \<longrightarrow> appendable es t) \<and>
        ?p + int (length (ae_entries q)) \<le> LastIndex t + int (length es)"
      using c by (auto simp: safe_def)
  qed
qed

lemma goes_accept_entries:
  assumes s: "fit view C M s0 a0 s" and q: "accepts E q s"
  shows "goes view C M s0 a0 (accept_entries E q s)"
  unfolding accept_entries_def Let_def
proof (rule goes_trans [OF s])
  fix b assume b: "node_ok view C s b"
  let ?m = "ae_prev_log_index q + int (length (ae_entries q))"
  note mg = wp_merge_accepts [OF b q, of M]
  have "runs view C M s b (merge_entries E (ae_entries q) [] s)"
    unfolding runs_def by (rule wp_mono [OF mg]) auto
  then have merge: "goes view C M s b (merge_entries E (ae_entries q) [] s)"
    by (rule goes_runs [OF _ fit_caught_up [OF s]]) (use mg in \<open>auto simp: pos_updates\<close>)
  show "goes view C M s b (bindR (merge_entries E (ae_entries q) [] s) (\<lambda>es u. bindR (append_received E es u) (\<lambda>_ u.
     bindR (ApplyCommitted E (u\<lparr>nd_commit_index := max (nd_commit_index u) (min (ae_leader_commit q) ?m)\<rparr>))
       (\<lambda>_. Ok (True, ?m)))))"
  proof (rule goes_bindR [OF merge])
    fix es u assume u: "fit view C M s b u" "merge_entries E (ae_entries q) [] s = Ok es u"
    from mg u(2) have es: "es \<noteq> [] \<Longrightarrow> appendable es u" "?m \<le> LastIndex u + int (length es)" by simp_all
    show "goes view C M s b (bindR (append_received E es u) (\<lambda>_ u.
     bindR (ApplyCommitted E (u\<lparr>nd_commit_index := max (nd_commit_index u) (min (ae_leader_commit q) ?m)\<rparr>))
       (\<lambda>_. Ok (True, ?m))))"
    proof (rule goes_bindR [OF goes_append_received [OF u(1) es(1)]])
      fix x v assume v: "fit view C M s b v" "append_received E es u = Ok x v"
      obtain c where c: "node_ok view C v c" using v(1) by (auto simp: fit_def safe_def)
      then have "nd_commit_index v \<le> LastIndex v" using LastIndex_alog [OF c] by (simp add: node_ok_def log_part_def)
      moreover have "?m \<le> LastIndex v" using es(2) append_received_LastIndex [OF u(1) es(1) v(2)] by simp
      ultimately have "safe view C M s b (v\<lparr>nd_commit_index := max (nd_commit_index v) (min (ae_leader_commit q) ?m)\<rparr>)"
        by (intro safe_commit [OF fit_safe [OF v(1)]]) auto
      then show "goes view C M s b (bindR (ApplyCommitted E (v\<lparr>nd_commit_index := max (nd_commit_index v) (min (ae_leader_commit q) ?m)\<rparr>))
       (\<lambda>_. Ok (True, ?m)))" by (auto intro!: goes_bindR goes_ApplyCommitted)
    qed
  qed
qed

end

section \<open>The handlers\<close>

context raft_storage
begin

lemma goes_HandleAppendEntries:
  assumes s: "fit view C M s0 a0 s" and q: "append_in_range q"
  shows "goes view C M s0 a0 (HandleAppendEntries E peer q s)"
proof -
  have reply: "goes view C M s0 a0 (PeerSend E peer (AppendEntriesResponse r) u)" if "fit view C M s0 a0 u" for r u
    using that by (intro goes_PeerSend) (simp_all add: no_vote_def)
  have body: "goes view C M s0 a0
       (bindR (ResetElectionTimer E (u\<lparr>nd_leader_id := peer\<rparr>)) (\<lambda>_ u.
        bindR (LogTerm E (ae_prev_log_index q) u) (\<lambda>t u.
          if t = ae_prev_log_term q then accept_entries E q u
          else if ae_prev_log_index q \<le> LastIndex u
            then bindR (conflict_hint E q u) (\<lambda>h. Ok (False, h))
          else Ok (False, rl) u)))"
    if u: "fit view C M s0 a0 u" and v: "append_request_valid peer q s" and tm: "ae_term q = nd_current_term u" for u rl
  proof (intro goes_bindR goes_quiet_ops goes_if)
    show "fit view C M s0 a0 (u\<lparr>nd_leader_id := peer\<rparr>)" using u by simp
    fix x w t z assume w: "ResetElectionTimer E (u\<lparr>nd_leader_id := peer\<rparr>) = Ok x w"
      "LogTerm E (ae_prev_log_index q) w = Ok t z" "fit view C M s0 a0 z" "t = ae_prev_log_term q"
    have "z = w" using w(2) by (simp add: LogTerm_def liftR_Ok)
    moreover have "nd_current_term w = nd_current_term u"
      using w(1) by (auto simp: ResetElectionTimer_def ask_def bindR_Ok_iff Now_def)
    ultimately have "accepts E q z" using v tm w(2,4) q by (simp add: accepts_def append_request_valid_def)
    with w(3) show "goes view C M s0 a0 (accept_entries E q z)" by (rule goes_accept_entries)
  qed simp_all
  show ?thesis
    unfolding HandleAppendEntries_def Let_def
    using s q by (intro goes_if goes_bindR goes_BecomeFollower body)
      (auto simp: append_in_range_def intro!: goes_bindR reply)
qed

lemma goes_quiet_at:
  assumes s: "fit view C M s0 a0 s" and q: "quiet s s \<Longrightarrow> keeps (quiet s) r"
  shows "goes view C M s0 a0 r"
proof (rule goes_runs)
  show "runs view C M s0 a0 r" by (rule runs_quiet [OF fit_safe [OF s] q])
  show "caught_up s" using s by (rule fit_caught_up)
  have "quiet s s" using safe_flights [OF fit_safe [OF s]] by (rule quiet_refl)
  from q [OF this] show "pos t = pos s" if "r = Ok x t" for x t
    unfolding that by (intro pos_core quiet_core) simp
qed

lemma fit_set_progress:
  assumes s: "fit view C M s0 a0 s" and "p \<in> dom (nd_next_index s)"
  shows "fit view C M s0 a0 (set_progress p i s)"
  using s by (rule fit_upd) (rule quiet_set_progress [OF _ assms(2)])

lemma goes_append_acked:
  assumes s: "fit view C M s0 a0 s" and p: "p \<in> dom (nd_next_index s)"
  shows "goes view C M s0 a0 (append_acked E p i s)"
  unfolding append_acked_def Let_def
  by (intro goes_bindR goes_AdvanceCommitIndex fit_safe [OF fit_set_progress [OF s p]] goes_quiet_ops goes_if) simp_all

lemma fit_dom: "fit view C M s0 a0 s \<Longrightarrow> dom (nd_next_index s) = peer_ids s0"
  using safe_dom by (fastforce simp: fit_def safe_def node_le_def vote_le_def)

lemma goes_HandleAppendEntriesResponse:
  assumes s: "fit view C M s0 a0 s" and tm: "aer_term p \<le> INT32_MAX"
  shows "goes view C M s0 a0 (HandleAppendEntriesResponse E peer p s)"
proof -
  have acked: "goes view C M s0 a0 (append_acked E peer i u)" and refused: "goes view C M s0 a0 (append_refused E peer p u)"
    if "fit view C M s0 a0 u" "IsRemotePeer peer s" for u i
  proof -
    have d: "peer \<in> dom (nd_next_index u)" using that fit_dom [OF s] fit_dom [OF that(1)] by (auto simp: IsRemotePeer_def)
    show "goes view C M s0 a0 (append_acked E peer i u)" using that(1) d by (rule goes_append_acked)
    show "goes view C M s0 a0 (append_refused E peer p u)"
      using that(1) by (rule goes_quiet_at) (rule quiet_append_refused [OF _ d])
  qed
  show ?thesis
    unfolding HandleAppendEntriesResponse_def
    by (intro goes_if goes_bindR goes_quiet_ops goes_BecomeFollower goes_liftR acked refused)
      (simp_all add: s tm)
qed

end

end
