(* ===== verification/NodeSnapshot.thy ===== *)
theory NodeSnapshot
  imports NodeAppend
begin

text \<open>
  Installing a snapshot, the timer and the remaining operations keep a node fit. The installation
  writes twice to the log and once to the state machine; a failure between any two of the writes
  leaves databases from which \<open>RaftNode\<close>'s constructor can finish it.
\<close>

section \<open>Staged logs\<close>

lemma al_stage_simps [simp]:
  "al_last (al_stage i t d a) = al_last a" "al_last_term (al_stage i t d a) = al_last_term a"
  "al_index (al_stage i t d a) = al_index a" "al_pending (al_stage i t d a) = Some (i, t, d)"
  "al_get (al_stage i t d a) n = al_get a n" "al_get_term (al_stage i t d a) n = al_get_term a n"
  by (simp_all add: al_stage_def al_last_def al_last_term_def al_get_def al_get_term_def)

text \<open>The databases in the middle of an installation.\<close>

lemma dead_staged:
  assumes s: "node_ok view C s b" and i: "nd_commit_index s < i" and ok: "alog_ok (al_stage i t d b)"
    and rep: "represents C (view (rl_db (nd_log u))) (al_stage i t d b)" and ev: "nd_events u = nd_events s"
    and t: "t \<le> nd_current_term s" and d: "decode_snapshot d = Inr es" "AppliedKey \<notin> fst ` set es"
    and k: "kv_ok view \<lparr>ks_db = ks_db (nd_sm u), ks_last_applied = k\<rparr>" "nd_last_applied s \<le> k" "k \<le> i"
  shows "dead view C s b u"
proof -
  have log: "log_part view C s b" using s by (simp add: node_ok_def)
  then have "agrees (peer_ids s) (al_stage i t d b) k"
    using t d k by (auto simp: agrees_def log_part_def nd_hard_def)
  with ok rep k have "disk_ok view C (peer_ids s) (ks_db (nd_sm u)) (rl_db (nd_log u)) (al_stage i t d b) k"
    by (simp add: disk_ok_def)
  moreover have "log_saves (nd_commit_index s) b (al_stage i t d b)" "hard_of (al_stage i t d b) = nd_hard s"
    using log i by (simp_all add: log_saves_def log_keeps_def log_part_def)
  ultimately show ?thesis
    unfolding dead_def using ev k by (intro conjI exI [of _ "al_stage i t d b"] exI [of _ k]) (simp_all add: emitted_def)
qed

text \<open>Installing the snapshot that is staged.\<close>

lemma install_pending:
  assumes ok: "alog_ok a" and p: "al_pending a = Some (i, t, d)"
  defines "c \<equiv> al_install i t d a"
  shows "alog_ok c" "al_index c = i" "i \<le> al_last c" "al_last_term c \<le> max (al_last_term a) t" "al_pending c = None"
    "hard_of c = hard_of a" "log_saves n a0 a \<Longrightarrow> log_keeps n a0 c"
proof -
  let ?keep = "i \<le> al_last a \<and> al_get_term a i = t"
  have b: "al_index a < i" "i < INT64_MAX" "0 < t" "t \<le> INT32_MAX" "length d \<le> kMaxSnapshotBytes"
    using ok p by (auto simp: alog_ok_def)
  have c: "c = al_snapshot i t d ?keep a" using b by (simp add: c_def al_install_def)
  have "snapshot_ok i t ?keep a" using b by (simp add: snapshot_ok_def)
  note f = al_snapshot_facts [OF ok this b(5), folded c]
  show "alog_ok c" "al_last_term c \<le> max (al_last_term a) t" "hard_of c = hard_of a" using f by (auto simp: c)
  show idx: "al_index c = i" "i \<le> al_last c" "al_pending c = None"
    using f by (auto simp: c al_snapshot_def [of _ _ _ _ a])
  show "log_keeps n a0 c" if "log_saves n a0 a"
    using that idx b p f(2) by (auto simp: log_saves_def log_keeps_def)
qed

lemma installed_facts:
  assumes s: "node_ok view C s b" and ok: "alog_ok (al_stage i t d b)" and i: "nd_commit_index s < i"
    and t: "t \<le> nd_current_term s"
  defines "c \<equiv> al_install i t d (al_stage i t d b)"
  shows "alog_ok c" "al_index c = i" "i \<le> al_last c" "al_last_term c \<le> nd_current_term s" "al_pending c = None"
    "hard_of c = nd_hard s" "log_keeps (nd_commit_index s) b c"
proof -
  have log: "log_part view C s b" using s by (simp add: node_ok_def)
  note f = install_pending [OF ok al_stage_simps(4), folded c_def]
  have "log_saves (nd_commit_index s) b (al_stage i t d b)"
    using log i by (simp add: log_saves_def log_keeps_def log_part_def)
  with f log t show "alog_ok c" "al_index c = i" "i \<le> al_last c" "al_last_term c \<le> nd_current_term s" "al_pending c = None"
    "hard_of c = nd_hard s" "log_keeps (nd_commit_index s) b c" by (auto simp: log_part_def)
qed

lemma dead_installed:
  assumes s: "node_ok view C s b" and ok: "alog_ok (al_stage i t d b)" and i: "nd_commit_index s < i"
    and t: "t \<le> nd_current_term s"
    and rep: "represents C (view (rl_db (nd_log u))) (al_install i t d (al_stage i t d b))"
    and ev: "nd_events u = nd_events s"
    and k: "kv_ok view \<lparr>ks_db = ks_db (nd_sm u), ks_last_applied = i\<rparr>"
  shows "dead view C s b u"
proof -
  let ?c = "al_install i t d (al_stage i t d b)"
  note f = installed_facts [OF s ok i t]
  have log: "log_part view C s b" using s by (simp add: node_ok_def)
  then have "disk_ok view C (peer_ids s) (ks_db (nd_sm u)) (rl_db (nd_log u)) ?c i"
    using f rep k by (auto simp: disk_ok_def agrees_def log_part_def nd_hard_def)
  then show ?thesis
    unfolding dead_def using f ev i log
    by (intro conjI exI [of _ ?c] exI [of _ i]) (simp_all add: emitted_def log_part_def log_saves_keeps)
qed

section \<open>Installation\<close>

definition snapshot_in_range :: "install_snapshot \<Rightarrow> bool" where
  "snapshot_in_range q \<longleftrightarrow> is_term q \<le> INT32_MAX \<and> is_last_included_index q < INT64_MAX"

lemma BecomeFollower_pos:
  assumes "BecomeFollower E t s = Ok x u"
  shows "pos u = pos s"
proof -
  let ?rest = "\<lambda>v. bindR (ResetElectionTimer E v) (\<lambda>_ s.
       Ok () (upd_reads (\<lambda>r. r\<lparr>rs_can_serve_read := False\<rparr>)
         (ClearReadIndexQueues ''leadership lost'' (FailPending (''-ERR leadership lost; outcome unknown'' @ CRLF) s))))"
  let ?first = "if t > nd_current_term s
     then bindR (on_log (SaveHardState (en_rocks E) t (- 1)) s) (\<lambda>_ s.
            Ok () (follower (s\<lparr>nd_current_term := t, nd_voted_for := - 1\<rparr>)))
     else Ok () (follower s)"
  from assms obtain y v where first: "?first = Ok y v" and "?rest v = Ok x u"
    unfolding BecomeFollower_alt bindR_Ok_iff [of ?first] by blast
  moreover from first have "pos v = pos s" "flights_ok v"
    by (auto simp: bindR_Ok_iff pos_updates follower_facts split: if_splits dest!: pos_on_log)
  ultimately have v: "?rest v = Ok x u" "pos v = pos s" "flights_ok v" by simp_all
  have "keeps (quiet v) (?rest v)"
    by (intro keeps_bindR quiet_ResetElectionTimer quiet_refl v(3))
      (simp add: quiet_ClearReadIndexQueues quiet_FailPending)
  then have "quiet v u" using v(1) by simp
  with v(2) show ?thesis using pos_core [OF quiet_core] by metis
qed

context raft_storage
begin

text \<open>Replacing the contents of the state machine, with the log staged in between.\<close>

lemma InstallSnapshot_staged:
  assumes b: "node_ok view C s b" and job: "nd_job s = None" and i: "nd_commit_index s < i" "i < INT64_MAX"
    and t: "t \<le> nd_current_term s" and r: "InstallSnapshot R i d (StageSnapshotInstall R i t d) (nd_sm s, nd_log s) = r"
  shows "wp r
     (\<lambda>_ sl. log_rel view C (snd sl) (al_stage i t d b) \<and> kv_ok view (fst sl) \<and> ks_last_applied (fst sl) = i \<and>
        (\<exists>es. decode_snapshot d = Inr es \<and> AppliedKey \<notin> fst ` set es))
     (\<lambda>_ sl. dead view C s b (s\<lparr>nd_sm := fst sl, nd_log := snd sl\<rparr>))"
proof -
  let ?a = "al_stage i t d b" and ?stage = "StageSnapshotInstall R i t d (nd_log s)"
  have kv: "kv_ok view (nd_sm s)" "ks_last_applied (nd_sm s) = nd_last_applied s"
    and la: "nd_last_applied s \<le> nd_commit_index s" and ok: "alog_ok b"
    using b job by (simp_all add: node_ok_def job_ok_def log_part_def log_rel_def)
  have quit: "dead view C s b (s\<lparr>nd_sm := nd_sm s, nd_log := nd_log s\<rparr>)"
    using safe_dead [OF safe_refl [OF b] node_ok_id [OF b]] by simp
  have stage: "log_step view C ?stage b ?a" by (rule StageSnapshotInstall_step [OF node_ok_log_rel [OF b] i(2)])
  show ?thesis
  proof (cases "decode_snapshot d")
    case (Inl e)
    then have "r = Throw e (nd_sm s, nd_log s)" using r by (auto simp: InstallSnapshot_def)
    with quit show ?thesis by simp
  next
    case (Inr es)
    note dec = this
    show ?thesis
    proof (cases "replace_batch R i es (nd_sm s)")
      case (Inl e)
      then have "r = Throw e (nd_sm s, nd_log s)" using r dec by (auto simp: InstallSnapshot_def ReplaceAll_def)
      with quit show ?thesis by simp
    next
      case (Inr batch)
      note ak = replace_batch_view [OF Inr]
      have mid: "dead view C s b (s\<lparr>nd_sm := m, nd_log := l\<rparr>)"
        if "alog_ok ?a" "represents C (view (rl_db l)) ?a" "kv_ok view \<lparr>ks_db = ks_db m, ks_last_applied = k\<rparr>"
          "nd_last_applied s \<le> k" "k \<le> i" for m l k
        using that dec ak t by (intro dead_staged [OF b i(1), where t = t and d = d and es = es and k = k]) simp_all
      have kv0: "kv_ok view \<lparr>ks_db = ks_db (nd_sm s), ks_last_applied = nd_last_applied s\<rparr>"
        using kv by (simp add: kv_ok_def)
      show ?thesis
      proof (cases r)
        case (Ok x sl)
        obtain m l where sl: "sl = (m, l)" by (cases sl)
        have "ReplaceAll R i es (StageSnapshotInstall R i t d) (nd_sm s, nd_log s) = Ok x (m, l)"
          using r dec Ok sl by (auto simp: InstallSnapshot_def)
        from ReplaceAll_Ok [OF this] stage have "log_rel view C l ?a" "ks_last_applied m = i"
          "view (ks_db m) AppliedKey = Some (be8 i)" by (auto simp: log_step_def)
        moreover have "0 \<le> i" using i la kv by (simp add: kv_ok_def)
        ultimately show ?thesis using Ok sl dec ak i(2) by (auto simp: kv_ok_def)
      next
        case (Throw e sl)
        obtain m l where sl: "sl = (m, l)" by (cases sl)
        have "ReplaceAll R i es (StageSnapshotInstall R i t d) (nd_sm s, nd_log s) = Throw e (m, l)"
          using r dec Throw sl by (auto simp: InstallSnapshot_def)
        from ReplaceAll_Throw [OF this] consider (none) "m = nd_sm s" "l = nd_log s"
          | (failed) "m = nd_sm s" "?stage = Throw e l"
          | (staged) k where "?stage = Ok () l" "kv_ok view \<lparr>ks_db = ks_db m, ks_last_applied = k\<rparr>"
              "nd_last_applied s \<le> k" "k \<le> i"
        proof (elim conjE disjE)
          assume st: "?stage = Ok () l"
          {
            assume "view (ks_db m) = view (ks_db (nd_sm s))"
            with kv0 have "kv_ok view \<lparr>ks_db = ks_db m, ks_last_applied = nd_last_applied s\<rparr>" by (simp add: kv_ok_def)
            with staged [OF st this] i la show ?thesis by simp
          next
            assume "view (ks_db m) = (map_of (rev es))(AppliedKey := Some (be8 i))"
            with i la kv have "kv_ok view \<lparr>ks_db = ks_db m, ks_last_applied = i\<rparr>" by (simp add: kv_ok_def)
            with staged [OF st this] i la show ?thesis by simp
          }
        qed (use none failed in blast)+
        then have "dead view C s b (s\<lparr>nd_sm := m, nd_log := l\<rparr>)"
        proof cases
          case none
          with quit show ?thesis by simp
        next
          case failed
          with stage have "represents C (view (rl_db l)) b \<or> alog_ok ?a \<and> represents C (view (rl_db l)) ?a"
            by (simp add: log_step_def)
          moreover have "dead view C s b (s\<lparr>nd_log := l\<rparr>)" if "represents C (view (rl_db l)) b"
            by (rule dead_log [OF b ok that log_move_refl [OF b]])
          ultimately show ?thesis using failed mid [of l "nd_sm s" "nd_last_applied s"] kv0 i la by fastforce
        next
          case (staged k)
          with stage have "alog_ok ?a" "represents C (view (rl_db l)) ?a" by (simp_all add: log_step_def log_rel_def)
          from mid [OF this staged(2,3,4)] show ?thesis .
        qed
        with Throw sl show ?thesis by simp
      qed
    qed
  qed
qed

end

context raft_storage
begin

lemma node_installed:
  assumes b: "node_ok view C s b" and job: "nd_job s = None" and i: "nd_commit_index s < i" "t \<le> nd_current_term s"
    and ok: "alog_ok (al_stage i t d b)" and m: "kv_ok view m" "ks_last_applied m = i"
    and l: "log_rel view C l (al_install i t d (al_stage i t d b))"
  shows "safe view C M s b (s\<lparr>nd_sm := m, nd_log := l, nd_last_applied := i,
            nd_commit_index := max (nd_commit_index s) i, nd_snapshot_receive := no_receive\<rparr>)" (is "safe _ _ _ _ _ ?t")
proof -
  let ?c = "al_install i t d (al_stage i t d b)"
  note f = installed_facts [OF b ok i]
  have p: "log_part view C s b" "nd_last_applied s \<le> nd_commit_index s" "\<not> nd_apply_inflight s"
    using b job by (simp_all add: node_ok_def log_part_def job_ok_def)
  have "node_ok view C ?t ?c"
    using b job i m l f p
    by (simp add: node_ok_def member_ok_def log_part_def job_ok_def job_log_def nd_hard_def)
  moreover have "node_le M s b ?t ?c"
    using f i p by (auto simp: node_le_def nd_hard_def emitted_def intro!: vote_le_same)
  ultimately show ?thesis by (auto simp: safe_def)
qed

lemma goes_install_received:
  assumes s: "fit view C M s0 a0 s" and r: "nd_running s" "\<not> nd_apply_inflight s"
    and i: "nd_last_applied s < is_last_included_index q" "is_last_included_index q < INT64_MAX"
    and t: "is_last_included_term q \<le> nd_current_term s"
  shows "goes view C M s0 a0 (install_received E q s)"
proof (rule goes_trans [OF s])
  fix b assume b: "node_ok view C s b"
  let ?i = "is_last_included_index q" and ?t = "is_last_included_term q" and ?d = "sv_data (nd_snapshot_receive s)"
  have job: "nd_job s = None" using b r(2) by (auto simp: node_ok_def job_ok_def split: option.splits)
  have ci: "nd_commit_index s < ?i" using fit_caught_up [OF s] r i by (simp add: caught_up_def)
  note st = InstallSnapshot_staged [OF b job ci i(2) t refl, of ?d]
  show "goes view C M s b (install_received E q s)"
  proof (cases "InstallSnapshot R ?i ?d (StageSnapshotInstall R ?i ?t ?d) (nd_sm s, nd_log s)")
    case (Throw e sl)
    with st show ?thesis by (simp add: install_received_def env Let_def)
  next
    case (Ok x sl)
    obtain m l where sl: "sl = (m, l)" by (cases sl)
    with st Ok have l: "log_rel view C l (al_stage ?i ?t ?d b)" and m: "kv_ok view m" "ks_last_applied m = ?i"
      and dec: "\<exists>es. decode_snapshot ?d = Inr es \<and> AppliedKey \<notin> fst ` set es" by simp_all
    have ok: "alog_ok (al_stage ?i ?t ?d b)" using l by (simp add: log_rel_def)
    have m': "kv_ok view \<lparr>ks_db = ks_db m, ks_last_applied = ?i\<rparr>" using m by (simp add: kv_ok_def)
    have tm: "?t \<le> INT32_MAX" using t b by (simp add: node_ok_def log_part_def)
    note step = Log_InstallSnapshot_step [OF l tm i(2), of ?d]
    let ?u = "s\<lparr>nd_sm := m, nd_log := l\<rparr>"
    show ?thesis
    proof (cases "Log_InstallSnapshot R C ?i ?t ?d l")
      case ok': (Ok y l')
      with step have "log_rel view C l' (al_install ?i ?t ?d (al_stage ?i ?t ?d b))" by (simp add: log_step_def)
      from node_installed [OF b job ci t ok m this, of M] have
        "fit view C M s b (s\<lparr>nd_sm := m, nd_log := l', nd_last_applied := ?i,
            nd_commit_index := max (nd_commit_index s) ?i, nd_snapshot_receive := no_receive\<rparr>)"
        using ci by (simp add: fit_def caught_up_def)
      with ok' Ok sl show ?thesis by (simp add: install_received_def env Let_def on_log_def)
    next
      case (Throw e l')
      with step consider "represents C (view (rl_db l')) (al_stage ?i ?t ?d b)"
        | "represents C (view (rl_db l')) (al_install ?i ?t ?d (al_stage ?i ?t ?d b))" by (auto simp: log_step_def)
      then have "dead view C s b (?u\<lparr>nd_log := l'\<rparr>)"
      proof cases
        case 1
        from dec obtain es where es: "decode_snapshot ?d = Inr es" "AppliedKey \<notin> fst ` set es" by blast
        show ?thesis
          by (rule dead_staged [OF b ci ok, where k = ?i and es = es]) (use 1 es t m' i in simp_all)
      next
        case 2
        then show ?thesis by (intro dead_installed [OF b ok ci t]) (simp_all add: m')
      qed
      with Throw Ok sl show ?thesis by (simp add: install_received_def env Let_def on_log_def)
    qed
  qed
qed

lemma goes_receive_chunk:
  assumes s: "fit view C M s0 a0 s" and r: "nd_running s" "\<not> nd_apply_inflight s"
    and i: "nd_last_applied s < is_last_included_index q" "snapshot_in_range q"
    and t: "is_last_included_term q \<le> nd_current_term s"
  shows "goes view C M s0 a0 (receive_chunk E q s)"
proof -
  have "goes view C M s0 a0 (install_received E q (s\<lparr>nd_snapshot_receive := v\<rparr>))" for v
    using i by (intro goes_install_received) (simp_all add: s r t snapshot_in_range_def)
  then show ?thesis
    unfolding receive_chunk_def Let_def using s by (auto intro!: goes_bindR)
qed

lemma goes_HandleInstallSnapshot:
  assumes s: "fit view C M s0 a0 s" and q: "snapshot_in_range q"
  shows "goes view C M s0 a0 (HandleInstallSnapshot E peer q s)"
proof -
  let ?body = "\<lambda>u. bindR (ResetElectionTimer E (u\<lparr>nd_leader_id := peer\<rparr>)) (\<lambda>_ s.
          if nd_last_applied s \<ge> is_last_included_index q
            then Ok (True, True) (s\<lparr>nd_snapshot_receive := no_receive\<rparr>)
          else if nd_apply_inflight s then Ok (False, False) s
          else if nat (is_offset q) > kMaxSnapshotBytes - length (is_data q)
            then Ok (False, False) (s\<lparr>nd_snapshot_receive := no_receive\<rparr>)
          else receive_chunk E q s)"
  have reply: "goes view C M s0 a0 (PeerSend E peer (InstallSnapshotResponse r) u)" if "fit view C M s0 a0 u" for r u
    using that by (intro goes_PeerSend) (simp_all add: no_vote_def)
  have body: "goes view C M s0 a0 (?body u)"
    if u: "fit view C M s0 a0 u" and v: "snapshot_request_valid peer q s" and tm: "is_term q = nd_current_term u"
      and run: "nd_running u" for u
  proof (intro goes_bindR goes_quiet_ops goes_if)
    fix x w assume w: "ResetElectionTimer E (u\<lparr>nd_leader_id := peer\<rparr>) = Ok x w" "fit view C M s0 a0 w"
      "\<not> is_last_included_index q \<le> nd_last_applied w" "\<not> nd_apply_inflight w"
    have "nd_current_term w = nd_current_term u" "nd_running w"
      using w(1) run by (auto simp: ResetElectionTimer_def ask_def bindR_Ok_iff Now_def)
    with w v tm q show "goes view C M s0 a0 (receive_chunk E q w)"
      by (intro goes_receive_chunk) (simp_all add: snapshot_request_valid_def)
  qed (use u in simp_all)
  let ?first = "if is_term q > nd_current_term s then BecomeFollower E (is_term q) s else Ok () s"
  have first: "goes view C M s0 a0 ?first" using s q by (simp add: goes_BecomeFollower snapshot_in_range_def)
  have run: "nd_running u" if "?first = Ok x u" "snapshot_request_valid peer q s" for x u
    using that BecomeFollower_pos [of E "is_term q" s x u]
    by (auto simp: pos_def snapshot_request_valid_def split: if_splits)
  show ?thesis
    unfolding HandleInstallSnapshot_def Let_def
  proof (rule goes_if)
    assume "\<not> \<not> snapshot_request_valid peer q s"
    then show "goes view C M s0 a0 (bindR ?first (\<lambda>_ u.
       bindR (if is_term q = nd_current_term u then ?body u else Ok (False, False) u) (\<lambda>(success, complete) s.
         bindR (PeerSend E peer (InstallSnapshotResponse
             \<lparr>isr_term = nd_current_term u, isr_success = success, isr_complete = complete,
              isr_rpc_id = is_rpc_id q\<rparr>) s) (\<lambda>_. Ok ()))))"
      by (intro goes_bindR [OF first] goes_bindR [OF goes_if] body run) (auto intro!: goes_bindR reply)
  qed (use s in simp)
qed

end

section \<open>Leaders' progress, the timer and configuration\<close>

lemma flights_elapsed:
  "flights_ok s \<Longrightarrow> flights_ok (s\<lparr>nd_inflight := (\<lambda>i. map_option (\<lambda>f. if fl_id f \<noteq> 0
      then f\<lparr>fl_elapsed_ms := fl_elapsed_ms f + kTickIntervalMs\<rparr> else f) (nd_inflight s i))\<rparr>)"
  unfolding flights_ok_def by (auto split: if_splits)

context raft_storage
begin

lemma fit_upd_flight:
  assumes s: "fit view C M s0 a0 s"
    and f: "\<And>fl. nd_inflight s p = Some fl \<Longrightarrow> fl_payload (f fl) = fl_payload fl \<or> fl_payload (f fl) = None"
  shows "fit view C M s0 a0 (upd_flight p f s)"
  using s
proof (rule fit_upd)
  have fl: "flights_ok s" by (rule safe_flights [OF fit_safe [OF s]])
  then have "flights_ok (upd_flight p f s)"
    using f unfolding flights_ok_def upd_flight_def by (auto split: if_splits)
  then show "quiet s (upd_flight p f s)" by (simp add: quiet_def upd_flight_def emitted_def core_def)
qed

lemma goes_HandleInstallSnapshotResponse:
  assumes s: "fit view C M s0 a0 s" and tm: "isr_term p \<le> INT32_MAX"
  shows "goes view C M s0 a0 (HandleInstallSnapshotResponse E peer p s)"
proof -
  have progress: "fit view C M s0 a0 (set_progress peer i (upd_flight peer (\<lambda>_. no_flight) u))"
    if "fit view C M s0 a0 u" "IsRemotePeer peer s" for u i
  proof (rule fit_set_progress)
    show "fit view C M s0 a0 (upd_flight peer (\<lambda>_. no_flight) u)"
      using that(1) by (rule fit_upd_flight) (simp add: no_flight_def)
    show "peer \<in> dom (nd_next_index (upd_flight peer (\<lambda>_. no_flight) u))"
      using that fit_dom [OF s] fit_dom [OF that(1)] by (auto simp: IsRemotePeer_def upd_flight_def)
  qed
  show ?thesis
    unfolding HandleInstallSnapshotResponse_def
    by (intro goes_if goes_bindR goes_quiet_ops goes_BecomeFollower goes_liftR progress fit_upd_flight)
      (simp_all add: s tm)
qed

lemma goes_leader_tick:
  assumes s: "fit view C M s0 a0 s"
  shows "goes view C M s0 a0 (leader_tick E s)"
proof -
  have "fit view C M s0 a0 (s\<lparr>nd_inflight := (\<lambda>i. map_option (\<lambda>f. if fl_id f \<noteq> 0
      then f\<lparr>fl_elapsed_ms := fl_elapsed_ms f + kTickIntervalMs\<rparr> else f) (nd_inflight s i)),
      nd_heartbeat_timer_ms := nd_heartbeat_timer_ms s - kTickIntervalMs\<rparr>)"
    by (rule fit_upd [OF s])
      (use flights_elapsed [OF safe_flights [OF fit_safe [OF s]]] in
        \<open>simp add: quiet_def emitted_def core_def flights_ok_def\<close>)
  then show ?thesis
    unfolding leader_tick_def Let_def
    by (intro goes_bindR goes_if goes_quiet_ops goes_CheckQuorum goes_foldR goes_liftR) simp_all
qed

lemma goes_Tick:
  assumes s: "fit view C M s0 a0 s"
  shows "goes view C M s0 a0 (Tick E s)"
  unfolding Tick_def
  by (intro goes_if goes_bindR goes_quiet_ops goes_BecomePreCandidate goes_leader_tick) (simp_all add: s)

text \<open>A stopped node may hold committed entries it has not applied; \<open>Start\<close> applies them.\<close>

lemma goes_Start:
  assumes s: "safe view C M s0 a0 s"
  shows "goes view C M s0 a0 (Start E s)"
proof -
  have "safe view C M s0 a0 (s\<lparr>nd_running := True\<rparr>)"
  proof (rule safe_trans [OF s _ safe_id [OF s]])
    fix b assume b: "node_ok view C s b"
    show "safe view C M s b (s\<lparr>nd_running := True\<rparr>)"
      by (rule safe_same_log [OF b job_ok_mono [of view s]])
        (use b in \<open>simp_all add: node_ok_def member_ok_def log_part_def job_log_def emitted_def\<close>)
  qed
  from runs_BecomeFollower [OF this safe_term [OF s]]
  have "runs view C M s0 a0 (BecomeFollower E (nd_current_term s) (s\<lparr>nd_running := True\<rparr>))" .
  then show ?thesis
    unfolding Start_def by (cases "BecomeFollower E (nd_current_term s) (s\<lparr>nd_running := True\<rparr>)") (simp_all add: goes_ApplyCommitted)
qed

lemma safe_Stop:
  assumes s: "safe view C M s0 a0 s"
  shows "safe view C M s0 a0 (Stop s)"
proof -
  have "safe view C M s0 a0 (s\<lparr>nd_running := False\<rparr>)"
  proof (rule safe_trans [OF s _ safe_id [OF s]])
    fix b assume b: "node_ok view C s b"
    show "safe view C M s b (s\<lparr>nd_running := False\<rparr>)"
      by (rule safe_same_log [OF b job_ok_mono [of view s]])
        (use b in \<open>simp_all add: node_ok_def member_ok_def log_part_def job_log_def emitted_def\<close>)
  qed
  then have "safe view C M s0 a0 (s\<lparr>nd_running := False, nd_state := FOLLOWER\<rparr>)"
    by (rule safe_role [where r = FOLLOWER and V = "nd_votes s"])
      (use safe_flights [OF s] in \<open>simp_all add: core_def emitted_def electing_def\<close>)
  then show ?thesis by (simp add: Stop_def Let_def)
qed

lemma goes_configuration:
  assumes s: "fit view C M s0 a0 s"
  shows "goes view C M s0 a0 (SetSnapshotThreshold n s)" "goes view C M s0 a0 (SetSnapshotChunkBytes k s)"
    "fit view C M s0 a0 (SetLeaseReads b s)"
  using s fit_dead [OF s]
  by (auto simp: SetSnapshotThreshold_def SetSnapshotChunkBytes_def SetLeaseReads_def
      intro!: fit_upd [OF s] simp: quiet_def core_def emitted_def flights_ok_def)

end

end
