(* ===== verification/NodeOps.thy ===== *)
theory NodeOps
  imports NodeSnapshot
begin

text \<open>
  All operations of a node as one type, the dispatch of a decoded message
  (\<open>OnRaftMessage\<close> in \<open>src/src/server/main.cpp\<close>), and the invariant of a node over every operation
  and every sequence of operations.
\<close>

section \<open>Operations\<close>

text \<open>The parsers that the protobuf compiler generates, one per message type.\<close>

record proto_parsers =
  pr_request_vote :: "bytes \<Rightarrow> request_vote option"
  pr_request_vote_response :: "bytes \<Rightarrow> request_vote_response option"
  pr_append_entries :: "bytes \<Rightarrow> append_entries option"
  pr_append_entries_response :: "bytes \<Rightarrow> append_entries_response option"
  pr_install_snapshot :: "bytes \<Rightarrow> install_snapshot option"
  pr_install_snapshot_response :: "bytes \<Rightarrow> install_snapshot_response option"

fun HandleRpc :: "'db raft_env \<Rightarrow> int \<Rightarrow> raft_rpc \<Rightarrow> 'db node \<Rightarrow> ('db node, unit) res" where
  "HandleRpc E from (RequestVote q) s = HandleRequestVote E from q s"
| "HandleRpc E from (RequestVoteResponse p) s = HandleRequestVoteResponse E from p s"
| "HandleRpc E from (AppendEntries q) s = HandleAppendEntries E from q s"
| "HandleRpc E from (AppendEntriesResponse p) s = HandleAppendEntriesResponse E from p s"
| "HandleRpc E from (InstallSnapshotRequest q) s = HandleInstallSnapshot E from q s"
| "HandleRpc E from (InstallSnapshotResponse p) s = HandleInstallSnapshotResponse E from p s"

fun parse_rpc :: "proto_parsers \<Rightarrow> raft_msg_type \<Rightarrow> bytes \<Rightarrow> raft_rpc option" where
  "parse_rpc P kRequestVote payload = map_option RequestVote (pr_request_vote P payload)"
| "parse_rpc P kRequestVoteResponse payload = map_option RequestVoteResponse (pr_request_vote_response P payload)"
| "parse_rpc P kAppendEntries payload = map_option AppendEntries (pr_append_entries P payload)"
| "parse_rpc P kAppendEntriesResponse payload = map_option AppendEntriesResponse (pr_append_entries_response P payload)"
| "parse_rpc P kInstallSnapshot payload = map_option InstallSnapshotRequest (pr_install_snapshot P payload)"
| "parse_rpc P kInstallSnapshotResponse payload = map_option InstallSnapshotResponse (pr_install_snapshot_response P payload)"

definition OnRaftMessage ::
  "'db raft_env \<Rightarrow> proto_parsers \<Rightarrow> int \<Rightarrow> raft_msg_type \<Rightarrow> bytes \<Rightarrow> 'db node \<Rightarrow> ('db node, unit) res" where
  "OnRaftMessage E P from type payload s =
     (case parse_rpc P type payload of None \<Rightarrow> Ok () s | Some m \<Rightarrow> HandleRpc E from m s)"

text \<open>
  What the event loop calls: a message, the timer, a batch of proposals, a read request, a completion
  of the executor, and the configuration calls. \<open>OpWork\<close> is the executor's thread.
\<close>

datatype node_op =
    OpMessage int raft_rpc
  | OpTick
  | OpPropose "proposal list"
  | OpRead nat
  | OpWork
  | OpFinish
  | OpStart
  | OpStop
  | OpSnapshotThreshold int
  | OpSnapshotChunkBytes nat
  | OpLeaseReads bool

fun run_op :: "'db raft_env \<Rightarrow> node_op \<Rightarrow> 'db node \<Rightarrow> ('db node, unit) res" where
  "run_op E (OpMessage from m) s = HandleRpc E from m s"
| "run_op E OpTick s = Tick E s"
| "run_op E (OpPropose ps) s = bindR (ProposeBatch E ps s) (\<lambda>_. Ok ())"
| "run_op E (OpRead c) s = bindR (RequestReadIndex E c s) (\<lambda>_. Ok ())"
| "run_op E OpWork s = RunApplyJob E s"
| "run_op E OpFinish s = FinishApplyJob E s"
| "run_op E OpStart s = Start E s"
| "run_op E OpStop s = Ok () (Stop s)"
| "run_op E (OpSnapshotThreshold n) s = SetSnapshotThreshold n s"
| "run_op E (OpSnapshotChunkBytes n) s = SetSnapshotChunkBytes n s"
| "run_op E (OpLeaseReads b) s = Ok () (SetLeaseReads b s)"

fun run_ops :: "'db raft_env \<Rightarrow> node_op list \<Rightarrow> 'db node \<Rightarrow> ('db node, unit) res" where
  "run_ops E [] s = Ok () s"
| "run_ops E (op # ops) s = bindR (run_op E op s) (\<lambda>_. run_ops E ops)"

text \<open>
  The terms of the messages are \<open>int32\<close> fields; an index may not be the last one of its range, which
  no log reaches.
\<close>

fun rpc_in_range :: "raft_rpc \<Rightarrow> bool" where
  "rpc_in_range (RequestVote q) \<longleftrightarrow> rv_term q \<le> INT32_MAX"
| "rpc_in_range (RequestVoteResponse p) \<longleftrightarrow> rvr_term p \<le> INT32_MAX"
| "rpc_in_range (AppendEntries q) \<longleftrightarrow> append_in_range q"
| "rpc_in_range (AppendEntriesResponse p) \<longleftrightarrow> aer_term p \<le> INT32_MAX"
| "rpc_in_range (InstallSnapshotRequest q) \<longleftrightarrow> snapshot_in_range q"
| "rpc_in_range (InstallSnapshotResponse p) \<longleftrightarrow> isr_term p \<le> INT32_MAX"

fun op_in_range :: "node_op \<Rightarrow> bool" where
  "op_in_range (OpMessage from m) \<longleftrightarrow> rpc_in_range m"
| "op_in_range _ \<longleftrightarrow> True"

text \<open>The vote a message carries.\<close>

fun op_votes :: "node_op \<Rightarrow> (int \<times> int) set" where
  "op_votes (OpMessage from (RequestVoteResponse p)) =
     (if rvr_vote_granted p \<and> \<not> rvr_prevote p then {(from, rvr_term p)} else {})"
| "op_votes _ = {}"

section \<open>The invariant\<close>

lemma pos_RunApplyJob: "RunApplyJob E s = Ok x t \<Longrightarrow> pos t = pos s"
  by (auto simp: RunApplyJob_def pos_def SteadyNow_def ask_def split: option.splits res.splits if_splits)

lemma running_Stop:
  assumes "flights_ok s"
  shows "\<not> nd_running (Stop s)"
proof -
  let ?v = "s\<lparr>nd_running := False, nd_state := FOLLOWER, nd_leader_id := - 1\<rparr>"
  have "quiet ?v ?v" using assms by (intro quiet_refl) (simp add: flights_ok_def)
  then have "quiet ?v (Stop s)" by (simp add: Stop_def Let_def quiet_ClearReadIndexQueues quiet_FailPending)
  from core_eqD(10) [OF quiet_core [OF this]] show ?thesis by simp
qed

context raft_storage
begin

lemma steps_HandleRpc:
  assumes "fit view C M s0 a0 s" and "rpc_in_range m" and "op_votes (OpMessage from m) \<subseteq> M"
  shows "steps view C M s0 a0 (HandleRpc E from m s)"
proof (cases m)
  case (RequestVote q)
  with assms show ?thesis by (simp add: steps_HandleRequestVote)
qed (use assms in \<open>auto intro!: goes_steps goes_HandleRequestVoteResponse goes_HandleAppendEntries
      goes_HandleAppendEntriesResponse goes_HandleInstallSnapshot goes_HandleInstallSnapshotResponse\<close>)

lemma steps_run_op:
  assumes s: "node_ok view C s a" "caught_up s" and op: "op_in_range op"
  shows "steps view C (op_votes op) s a (run_op E op s)"
proof -
  have fit: "fit view C M s a s" for M by (rule fit_refl [OF s])
  have work: "goes view C M s a (RunApplyJob E s)" for M
    using runs_RunApplyJob [OF s(1)] s(2) by (rule goes_runs) (rule pos_RunApplyJob)
  have finish: "goes view C M s a (FinishApplyJob E s)" for M
    unfolding goes_def by (rule wp_mono [OF wp_FinishApplyJob [OF s]]) (auto simp: fit_def)
  have stop: "fit view C M s a (Stop s)" for M
  proof -
    have "\<not> nd_running (Stop s)" using s(1) by (intro running_Stop) (simp add: node_ok_def member_ok_def)
    then show ?thesis using safe_Stop [OF safe_refl [OF s(1)], of M] by (simp add: fit_def caught_up_def)
  qed
  show ?thesis
  proof (cases op)
    case (OpMessage peer m)
    with op show ?thesis by (simp add: steps_HandleRpc [OF fit] del: op_votes.simps)
  qed (auto intro!: goes_steps goes_bindR goes_Tick goes_ProposeBatch goes_quiet_ops goes_Start goes_configuration
      fit work finish stop safe_refl [OF s(1)])
qed

end

end
