(* ===== verification/Recovery.thy ===== *)
theory Recovery
  imports NodeOps
begin

text \<open>
  Restarting a node. The constructor of \<open>RaftNode\<close> on the databases that an earlier process left,
  at whatever point it stopped: if it returns, the node satisfies its invariant and holds the term,
  the vote and everything committed; if it throws, the databases are still recoverable; and with
  storage that works it returns.
\<close>

section \<open>Opening the log\<close>

context log_storage
begin

lemma LoadSnapshot_Inr:
  assumes rep: "represents C (view d) a" and a: "alog_ok a" and l: "LoadSnapshot R (new_log d) = Inr l"
  shows "l = (new_log d)\<lparr>rl_snapshot_index := al_index a, rl_snapshot_term := al_term a, rl_snapshot_data := al_data a\<rparr>"
proof (cases "al_index a = 0")
  case True
  then have "al_term a = 0" "al_data a = []" using a by (auto simp: alog_ok_def snap_ok_def)
  with True rep l show ?thesis
    by (auto simp: LoadSnapshot_def new_log_def represents_def bindE_eq_Inr dest!: read_opt_Inr)
next
  case False
  have b: "0 < al_index a" "al_index a \<le> INT64_MAX" "0 < al_term a" "al_term a \<le> INT64_MAX"
    using False a al_index_bounds [OF a] by (auto simp: alog_ok_def snap_ok_def)
  have m: "view d SnapshotMetaKey = Some (EncodeTail (al_index a) (al_term a))" "view d SnapshotDataKey = Some (al_data a)"
    using False rep by (auto simp: represents_def)
  have "two_fields (EncodeTail (al_index a) (al_term a)) = (al_index a, al_term a)"
    using two_fields_EncodeTail [of "al_index a" "al_term a" "[]"] b by simp
  with m b l show ?thesis
    by (auto simp: LoadSnapshot_def new_log_def bindE_eq_Inr dest!: read_opt_Inr read_req_Inr split: if_splits)
qed

lemma LoadTail_Inr:
  assumes a: "alog_ok a" and l: "LoadTail R C l = Inr (found, l')"
  shows "view (rl_db l) TailKey = None \<Longrightarrow> \<not> found \<and> l' = l"
    and "view (rl_db l) TailKey = Some (EncodeTail (al_last a) (al_last_term a)) \<Longrightarrow>
      found \<and> l' = l\<lparr>rl_last_index := al_last a, rl_last_term := al_last_term a\<rparr>"
proof -
  from l obtain v where v: "read_opt R (rl_db l) TailKey ''read Raft log tail'' = Inr v"
    by (auto simp: LoadTail_def bindE_eq_Inr)
  note vw = read_opt_Inr [OF v]
  show "\<not> found \<and> l' = l" if "view (rl_db l) TailKey = None" using that l v vw by (simp add: LoadTail_def)
  assume t: "view (rl_db l) TailKey = Some (EncodeTail (al_last a) (al_last_term a))"
  have "two_fields (EncodeTail (al_last a) (al_last_term a)) = (al_last a, al_last_term a)"
    using two_fields_EncodeTail [of "al_last a" "al_last_term a" "[]"] al_index_bounds [OF a] al_last_term_bounds [OF a] by simp
  with l v vw t show "found \<and> l' = l\<lparr>rl_last_index := al_last a, rl_last_term := al_last_term a\<rparr>"
    by (auto simp: LoadTail_def bindE_eq_Inr Let_def split: if_splits)
qed

lemma wp_RaftLog_open:
  assumes rep: "represents C (view d) a" and a: "alog_ok a" and op: "fst (db_open R d) = St_ok"
  shows "wp (RaftLog_open R C d) (\<lambda>l d'. rl_db l = d' \<and> log_rel view C l a) (\<lambda>_ d'. represents C (view d') a)"
proof -
  obtain d' where o: "db_open R d = (St_ok, d')" using op by (cases "db_open R d") simp
  have rep': "represents C (view d') a" using rep open_ok [OF o] by simp
  let ?s = "(new_log d')\<lparr>rl_snapshot_index := al_index a, rl_snapshot_term := al_term a, rl_snapshot_data := al_data a\<rparr>"
  let ?l = "?s\<lparr>rl_last_index := al_index a, rl_last_term := al_term a\<rparr>"
  have db: "rl_db ?l = d'" by (simp add: new_log_def)
  show ?thesis
  proof (cases "LoadSnapshot R (new_log d')")
    case (Inl e)
    with o rep' show ?thesis by (simp add: RaftLog_open_def RequireStorageOK_def liftR_def)
  next
    case (Inr s)
    note snap = LoadSnapshot_Inr [OF rep' a Inr]
    show ?thesis
    proof (cases "LoadTail R C ?l")
      case (Inl e)
      with o Inr snap rep' show ?thesis by (simp add: RaftLog_open_def RequireStorageOK_def liftR_def)
    next
      case tl: (Inr p)
      obtain found l where p: "p = (found, l)" by (cases p)
      note tail = LoadTail_Inr [OF a tl [unfolded p], unfolded db]
      have eq: "RaftLog_open R C d = (if found then Ok l d' else
          case db_scan R d' of (st, kvs) \<Rightarrow>
        bindR (liftR (scan_loop C kvs l) d') (\<lambda>l d.
        bindR (liftR (RequireStorageOK st ''scan Raft log'') d) (\<lambda>_ d.
        if rl_last_index l > 0 then
          bindR (put_req R TailKey (EncodeTail (rl_last_index l) (rl_last_term l)) ''persist Raft log tail'' d)
            (\<lambda>_ d. Ok (l\<lparr>rl_db := d\<rparr>) d)
        else Ok l d)))"
        using o Inr snap tl p by (simp add: RaftLog_open_def RequireStorageOK_def liftR_def)
      from rep' consider (tail) "view d' TailKey = Some (EncodeTail (al_last a) (al_last_term a))"
        | (none) "view d' TailKey = None" "al_last a = 0" "\<And>k. k \<noteq> IndexToKey 0 \<Longrightarrow> view d' k = None"
        by (auto simp: represents_def)
      then show ?thesis
      proof cases
        case tail
        with \<open>view d' TailKey = Some _ \<Longrightarrow> _\<close> eq rep' a show ?thesis
          by (simp add: log_rel_def fields_rel_def new_log_def)
      next
        case none
        have "al_index a = 0 \<and> length (al_entries a) = 0"
          using none(2) al_index_bounds [OF a] unfolding al_last_def by linarith
        then have z: "al_index a = 0" "al_entries a = []" "al_term a = 0"
          using a by (auto simp: alog_ok_def snap_ok_def)
        have nf: "\<not> found" "l = ?l" using tail(1) none(1) by auto
        obtain st kvs where sc: "db_scan R d' = (st, kvs)" by (cases "db_scan R d'")
        have "scan_loop C kvs ?l = Inr ?l" if "st = St_ok"
        proof (rule scan_loop_skip)
          have "map_of kvs = view d'" using scan_ok sc that by blast
          with none(3) show "\<forall>kv\<in>set kvs. fst kv = IndexToKey 0" by (metis map_of_eq_None_iff image_eqI)
        qed
        with eq nf sc z none(2) rep' a show ?thesis
          by (cases st) (auto simp: liftR_def RequireStorageOK_def log_rel_def fields_rel_def new_log_def al_last_term_def
              split: sum.splits)
      qed
    qed
  qed
qed

end

context log_storage
begin

lemma LoadHardState_Inr:
  assumes rel: "log_rel view C l a" and h: "LoadHardState R l = Inr (found, t, v)"
  shows "(t, v) = hard_of a"
proof -
  have V: "view (rl_db l) (IndexToKey 0) = map_option (\<lambda>(t, v). EncodeHardState t v) (al_hard a)"
    using rel by (auto simp: log_rel_def represents_def)
  obtain st w where g: "db_get R (rl_db l) (IndexToKey 0) = (st, w)" by (cases "db_get R (rl_db l) (IndexToKey 0)")
  show ?thesis
  proof (cases "al_hard a")
    case None
    then have "st \<noteq> St_ok" using g V get_ok by fastforce
    then show ?thesis
      using h g None by (cases st) (auto simp: LoadHardState_def RequireStorageOK_def hard_of_def split: if_splits)
  next
    case (Some p)
    obtain t' v' where p: "p = (t', v')" by (cases p)
    have b: "0 \<le> t'" "t' \<le> INT32_MAX" "- 1 \<le> v'" "v' \<le> INT32_MAX"
      using rel Some p by (auto simp: log_rel_def alog_ok_def)
    have "\<not> IsNotFound st" using g V Some get_not_found by (cases st) fastforce+
    moreover have "w = EncodeHardState t' v'" if "st = St_ok" using g V Some p that get_ok by fastforce
    ultimately show ?thesis
      using h g Some p b read_le_EncodeHardState [OF b]
      by (cases st) (auto simp: LoadHardState_def RequireStorageOK_def hard_of_def Let_def split: if_splits)
  qed
qed

lemma LoadPendingSnapshot_Inr:
  assumes rel: "log_rel view C l a" and p: "LoadPendingSnapshot R l = Inr p"
  shows "p = al_pending a"
proof (cases "al_pending a")
  case None
  with rel p show ?thesis
    by (auto simp: LoadPendingSnapshot_def log_rel_def represents_def bindE_eq_Inr dest!: read_opt_Inr)
next
  case (Some q)
  obtain i t d where q: "q = (i, t, d)" by (cases q)
  have b: "al_index a < i" "i < INT64_MAX" "0 < t" "t \<le> INT32_MAX" "0 \<le> al_index a"
    using rel Some q by (auto simp: log_rel_def alog_ok_def snap_ok_def)
  then have "two_fields (EncodeTail i t @ d) = (i, t)" by (intro two_fields_EncodeTail) auto
  with Some q rel p show ?thesis
    by (auto simp: LoadPendingSnapshot_def log_rel_def represents_def bindE_eq_Inr dest!: read_opt_Inr split: if_splits)
qed

end

section \<open>Replaying a staged snapshot\<close>

text \<open>What recovery keeps of the abstract log \<open>a\<close>.\<close>

definition still :: "(int \<Rightarrow> alog \<Rightarrow> alog \<Rightarrow> bool) \<Rightarrow> alog \<Rightarrow> alog \<Rightarrow> bool" where
  "still saved a a' \<longleftrightarrow> hard_of a' = hard_of a \<and> (\<forall>n a0. log_saves n a0 a \<longrightarrow> saved n a0 a')"

lemma still_refl: "still log_saves a a"
  by (simp add: still_def)

lemma still_keeps: "still log_keeps a a' \<Longrightarrow> al_pending a' = None \<Longrightarrow> still log_saves a a'"
  by (simp add: still_def log_saves_keeps)

text \<open>
  The contents and the marker of the state machine after recovery: those it had, or, when the log
  holds a staged installation, the entries of the staged snapshot and its index.
\<close>

fun replayed :: "(bytes \<Rightarrow> bytes option) \<Rightarrow> int \<Rightarrow> (int \<times> int \<times> bytes) option \<Rightarrow> (bytes \<Rightarrow> bytes option) \<Rightarrow> int \<Rightarrow> bool" where
  "replayed V k None V' k' \<longleftrightarrow> V' = V \<and> k' = k"
| "replayed V k (Some (i, t, d)) V' k' \<longleftrightarrow>
     k' = i \<and> (\<exists>es. decode_snapshot d = Inr es \<and> V' = (map_of (rev es))(AppliedKey := Some (be8 i)))"

context raft_storage
begin

lemma wp_replay_pending:
  assumes l: "log_rel view C l a" and m: "kv_ok view m" and ag: "agrees ids a (ks_last_applied m)"
    and ct: "ct = fst (hard_of a)"
  shows "wp (replay_pending E ct (m, l))
     (\<lambda>_ (m', l'). \<exists>a'. log_rel view C l' a' \<and> kv_ok view m' \<and> ks_last_applied m \<le> ks_last_applied m' \<and>
        agrees ids a' (ks_last_applied m') \<and> al_pending a' = None \<and> still log_keeps a a' \<and>
        replayed (view (ks_db m)) (ks_last_applied m) (al_pending a) (view (ks_db m')) (ks_last_applied m'))
     (\<lambda>_ (m', l'). \<exists>a' k. disk_ok view C ids (ks_db m') (rl_db l') a' k \<and> ks_last_applied m \<le> k \<and> still log_saves a a')"
    (is "wp _ ?Q ?D")
proof -
  have ok: "alog_ok a" "represents C (view (rl_db l)) a" using l by (auto simp: log_rel_def)
  have m0: "kv_ok view \<lparr>ks_db = ks_db m, ks_last_applied = ks_last_applied m\<rparr>" using m by (simp add: kv_ok_def)
  have stay: "?D e (m, l)" for e using ok m0 ag still_refl by (auto simp: disk_ok_def)
  show ?thesis
  proof (cases "LoadPendingSnapshot R l")
    case (Inl e)
    with stay show ?thesis by (simp add: replay_pending_def env liftR_def)
  next
    case (Inr p)
    note p = LoadPendingSnapshot_Inr [OF l Inr]
    show ?thesis
    proof (cases p)
      case None
      have "still log_keeps a a" by (simp add: still_def log_saves_def)
      with None Inr p l m ag show ?thesis by (auto simp: replay_pending_def env liftR_def)
    next
      case (Some q)
      obtain i t d where q: "q = (i, t, d)" by (cases q)
      have pend: "al_pending a = Some (i, t, d)" using p Some q by simp
      with ag ct obtain es where dec: "decode_snapshot d = Inr es" "AppliedKey \<notin> fst ` set es"
        and le: "ks_last_applied m \<le> i" "t \<le> ct" by (auto simp: agrees_def)
      have b: "i < INT64_MAX" "t \<le> INT32_MAX" "0 \<le> i" "al_index a < i" using ok pend al_index_bounds [of a] by (auto simp: alog_ok_def)
      have ag': "agrees ids a i" using ag pend dec by (auto simp: agrees_def)
      let ?r = "ReplaceAll R i es (Ok ()) (m, l)" and ?c = "al_install i t d a"
      note f = install_pending [OF ok(1) pend]
      have still: "still log_keeps a ?c" using f by (simp add: still_def)
      have agc: "agrees ids ?c i" using f ag le ct by (auto simp: agrees_def)
      have eq: "replay_pending E ct (m, l) = bindR ?r (\<lambda>_ (m, l).
             (case Log_InstallSnapshot R C i t d l of Ok _ l \<Rightarrow> Ok () (m, l) | Throw e l \<Rightarrow> Throw e (m, l)))"
        using Inr Some q dec le by (simp add: replay_pending_def env liftR_def InstallSnapshot_def)
      show ?thesis
      proof (cases ?r)
        case (Throw e ml)
        obtain m' l' where ml: "ml = (m', l')" by (cases ml)
        from ReplaceAll_Throw [OF Throw [unfolded ml]] have "l' = l"
          and "view (ks_db m') = view (ks_db m) \<or> view (ks_db m') AppliedKey = Some (be8 i)" by auto
        then have "\<exists>k. kv_ok view \<lparr>ks_db = ks_db m', ks_last_applied = k\<rparr> \<and> ks_last_applied m \<le> k \<and> agrees ids a k"
        proof (elim disjE)
          assume "view (ks_db m') = view (ks_db m)"
          with m0 ag show ?thesis by (intro exI [of _ "ks_last_applied m"]) (simp add: kv_ok_def)
        next
          assume "view (ks_db m') AppliedKey = Some (be8 i)"
          with b le ag' show ?thesis by (intro exI [of _ i]) (simp add: kv_ok_def)
        qed
        with \<open>l' = l\<close> ok still_refl show ?thesis unfolding eq Throw ml by (auto simp: disk_ok_def)
      next
        case (Ok u ml)
        obtain m' l' where ml: "ml = (m', l')" by (cases ml)
        from ReplaceAll_Ok [OF Ok [unfolded ml]] have l': "l' = l" and
          m': "ks_last_applied m' = i" "kv_ok view m'"
            "replayed (view (ks_db m)) (ks_last_applied m) (al_pending a) (view (ks_db m')) i"
          using b dec(1) pend by (auto simp: kv_ok_def)
        have step: "log_step view C (Log_InstallSnapshot R C i t d l) a ?c"
          using b by (intro Log_InstallSnapshot_step [OF l]) simp_all
        have "wp (Log_InstallSnapshot R C i t d l) (\<lambda>_ l''. ?Q () (m', l'')) (\<lambda>e l''. ?D e (m', l''))"
          using step unfolding log_step_def
        proof (rule wp_mono)
          show "?Q () (m', l'')" if "log_rel view C l'' ?c" for l''
            using that m' le agc f still by auto
          fix e l'' assume "fields_rel l'' a \<and>
            (represents C (view (rl_db l'')) a \<or> alog_ok ?c \<and> represents C (view (rl_db l'')) ?c)"
          then have "\<exists>a'. alog_ok a' \<and> represents C (view (rl_db l'')) a' \<and> agrees ids a' i \<and> still log_saves a a'"
            using ok ag' agc still_refl still_keeps [OF still f(5)] by blast
          then show "?D e (m', l'')" using m' le by (auto simp: disk_ok_def kv_ok_def)
        qed
        then show ?thesis unfolding eq Ok ml l' by (auto split: res.splits)
      qed
    qed
  qed
qed

end

section \<open>The constructor\<close>

lemma check_peers_Inr:
  assumes "check_peers ps ids = Inr ids'"
  shows "ids' = ids \<union> pi_id ` set ps \<and> (\<forall>p\<in>set ps. 0 \<le> pi_id p) \<and> distinct (map pi_id ps) \<and> pi_id ` set ps \<inter> ids = {}"
  using assms by (induction ps ids rule: check_peers.induct) (auto split: if_splits)

lemma ValidatePeers_Inr:
  assumes "ValidatePeers i peers = Inr ()"
  shows "i \<in> pi_id ` set peers" and "\<forall>p\<in>set peers. 0 \<le> pi_id p" and "distinct (map pi_id peers)"
  using assms check_peers_Inr [of peers "{}"] by (auto simp: ValidatePeers_def bindE_eq_Inr split: if_splits)

text \<open>A node as the constructor leaves it, over the databases of the abstract log \<open>a\<close>.\<close>

definition restarted ::
  "('db \<Rightarrow> bytes \<Rightarrow> bytes option) \<Rightarrow> entry_codec \<Rightarrow> int \<Rightarrow> peer_info list \<Rightarrow> alog \<Rightarrow> int \<Rightarrow> 'db node \<Rightarrow> bool" where
  "restarted view C i peers a k s \<longleftrightarrow>
     (\<exists>a'. node_ok view C s a' \<and> still log_keeps a a') \<and> caught_up s \<and> nd_id s = i \<and> nd_peers s = peers \<and>
     nd_state s = FOLLOWER \<and> \<not> nd_running s \<and> nd_hard s = hard_of a \<and> nd_events s = [] \<and>
     k \<le> nd_last_applied s \<and> nd_commit_index s = nd_last_applied s"

lemma new_node_ok:
  assumes v: "ValidatePeers i peers = Inr ()" and ids: "\<forall>p\<in>set peers. pi_id p \<le> INT32_MAX"
    and l: "log_rel view C l a'" and m: "kv_ok view m" and ag: "agrees (pi_id ` set peers) a' (ks_last_applied m)"
    and p: "al_pending a' = None" and h: "(t, v') = hard_of a'"
  shows "node_ok view C (new_node i peers m l t v') a'"
proof -
  have hk: "0 \<le> t" "t \<le> INT32_MAX" using l h by (auto simp: log_rel_def alog_ok_def hard_of_def split: option.splits)
  have "dom (peer_map peers (1 :: int)) = pi_id ` set peers" by (auto simp: peer_map_def split: if_splits)
  moreover have "flights_ok (new_node i peers m l t v')"
    by (auto simp: flights_ok_def new_node_def peer_map_def no_flight_def split: if_splits)
  ultimately have "member_ok (new_node i peers m l t v')"
    using ValidatePeers_Inr [OF v] ids by (auto simp: member_ok_def new_node_def)
  moreover have "job_ok view (new_node i peers m l t v')" "job_log (new_node i peers m l t v') a'"
    using m by (simp_all add: job_ok_def job_log_def new_node_def)
  moreover have "fst (hard_of a') = t" "snd (hard_of a') = v'" using h by (metis fst_conv snd_conv)+
  ultimately show ?thesis
    using l ag p h hk by (auto simp: node_ok_def log_part_def new_node_def nd_hard_def agrees_def)
qed

context raft_storage
begin

lemma wp_RaftNode_new:
  assumes v: "ValidatePeers i peers = Inr ()" and ids: "\<forall>p\<in>set peers. pi_id p \<le> INT32_MAX"
    and d: "alog_ok a" "represents C (view d) a" and m: "kv_ok view m"
    and ag: "agrees (pi_id ` set peers) a (ks_last_applied m)" and op: "fst (db_open R d) = St_ok"
  shows "wp (RaftNode_new E i peers (m, d))
     (\<lambda>s _. restarted view C i peers a (ks_last_applied m) s \<and>
        replayed (view (ks_db m)) (ks_last_applied m) (al_pending a) (view (ks_db (nd_sm s))) (nd_last_applied s))
     (\<lambda>_ (m', d'). \<exists>a' k. disk_ok view C (pi_id ` set peers) (ks_db m') d' a' k \<and> ks_last_applied m \<le> k \<and> still log_saves a a')"
    (is "wp _ ?Q ?D")
proof -
  have stay: "?D e (m, d')" if "represents C (view d') a" for e d'
    using that d m ag still_refl by (auto simp: disk_ok_def kv_ok_def intro!: exI [of _ a] exI [of _ "ks_last_applied m"])
  note open' = wp_RaftLog_open [OF d(2,1) op]
  show ?thesis
  proof (cases "RaftLog_open R C d")
    case (Throw e d')
    with open' stay v show ?thesis by (simp add: RaftNode_new_def env liftR_def)
  next
    case (Ok l d')
    with open' have l: "log_rel view C l a" "rl_db l = d'" by simp_all
    then have rl: "represents C (view (rl_db l)) a" by (simp add: log_rel_def)
    show ?thesis
    proof (cases "LoadHardState R l")
      case (Inl e)
      with Ok v stay [OF rl] show ?thesis by (simp add: RaftNode_new_def env liftR_def)
    next
      case (Inr h)
      obtain f t v' where h: "h = (f, t, v')" by (cases h)
      note hs = LoadHardState_Inr [OF l(1) Inr [unfolded h]]
      have "t = fst (hard_of a)" using hs by (metis fst_conv)
      note rp = wp_replay_pending [OF l(1) m ag this]
      show ?thesis
      proof (cases "t < rl_last_term l")
        case True
        with Ok Inr h v stay [OF rl] show ?thesis by (simp add: RaftNode_new_def env liftR_def)
      next
        case False
        show ?thesis
        proof (cases "replay_pending E t (m, l)")
          case rt: (Throw e ml)
          obtain m' l' where "ml = (m', l')" by (cases ml)
          with rp rt Ok Inr h v False show ?thesis by (simp add: RaftNode_new_def env liftR_def)
        next
          case ro: (Ok u ml)
          obtain m' l' where ml: "ml = (m', l')" by (cases ml)
          with rp ro obtain a' where a': "log_rel view C l' a'" "kv_ok view m'" "ks_last_applied m \<le> ks_last_applied m'"
            "agrees (pi_id ` set peers) a' (ks_last_applied m')" "al_pending a' = None" "still log_keeps a a'"
            "replayed (view (ks_db m)) (ks_last_applied m) (al_pending a) (view (ks_db m')) (ks_last_applied m')" by auto
          have "(t, v') = hard_of a'" using hs a'(6) by (simp add: still_def)
          from new_node_ok [OF v ids a'(1,2,4,5) this] a'(3,6) hs
          have "restarted view C i peers a (ks_last_applied m) (new_node i peers m' l' t v')"
            by (auto simp: restarted_def new_node_def nd_hard_def caught_up_def)
          moreover have "replayed (view (ks_db m)) (ks_last_applied m) (al_pending a)
              (view (ks_db (nd_sm (new_node i peers m' l' t v')))) (nd_last_applied (new_node i peers m' l' t v'))"
            using a'(7) by (simp add: new_node_def)
          moreover have "?D e (m', rl_db l')" for e
            using a' still_keeps [OF a'(6,5)]
            by (auto simp: disk_ok_def log_rel_def kv_ok_def intro!: exI [of _ a'] exI [of _ "ks_last_applied m'"])
          ultimately show ?thesis
            using ro ml Ok Inr h v False by (simp add: RaftNode_new_def env liftR_def)
        qed
      qed
    qed
  qed
qed

end

section \<open>The constructor returns\<close>

definition available :: "'db rocksdb_ops \<Rightarrow> ('db \<Rightarrow> bytes \<Rightarrow> bytes option) \<Rightarrow> 'db \<Rightarrow> bool" where
  "available R view d \<longleftrightarrow> opens_ok R view d \<and> writes_ok R (snd (db_open R d))"

lemma available_open:
  "available R view d \<Longrightarrow> fst (db_open R d) = St_ok \<and> reads_ok R view (snd (db_open R d)) \<and> scans_ok R (snd (db_open R d))"
  by (auto simp: available_def opens_ok_def)

lemma agrees_hard:
  assumes "alog_ok a" and "agrees ids a k" and "al_hard a = None"
  shows "al_last a = 0"
proof -
  have "al_last_term a \<le> 0" using assms(2,3) by (simp add: agrees_def hard_of_def)
  then have "\<not> al_index a < al_last a"
    using al_get_last_term [of a] al_get_ok [OF assms(1), of "al_last a"] by force
  then have e: "al_last a = al_index a" "al_entries a = []" using al_index_bounds [OF assms(1)] by (auto simp: al_last_def)
  with \<open>al_last_term a \<le> 0\<close> assms(1) show ?thesis by (auto simp: al_last_term_def alog_ok_def snap_ok_def split: if_splits)
qed

context raft_storage
begin

lemma ReplaceAll_returns:
  assumes "scans_ok R (ks_db m)" and "writes_ok R (ks_db m)" and "ks_last_applied m \<le> i" and "AppliedKey \<notin> fst ` set es"
  shows "\<exists>m'. ReplaceAll R i es (Ok ()) (m, w) = Ok () (m', w)"
proof -
  have "\<exists>b. replace_batch R i es m = Inr b"
    using scan_req_ok [OF assms(1), of "''scan KV snapshot''"] assms(3,4)
    by (force simp: replace_batch_def list_ex_iff)
  then obtain b where b: "replace_batch R i es m = Inr b" ..
  with write_req_ok [OF assms(2), of b "''install KV snapshot''"] show ?thesis
    by (auto simp: ReplaceAll_def)
qed

lemma Log_InstallSnapshot_returns:
  assumes l: "log_rel view C l a" and rd: "reads_ok R view (rl_db l)" and wr: "writes_ok R (rl_db l)"
    and p: "al_pending a = Some (i, t, d)"
  shows "\<exists>l'. Log_InstallSnapshot R C i t d l = Ok () l'"
proof -
  have b: "0 < i" "0 < t" "length d \<le> kMaxSnapshotBytes" "rl_snapshot_index l < i"
    using l p al_index_bounds [of a] by (auto simp: log_rel_def alog_ok_def fields_rel_def)
  have "\<exists>l'. PersistSnapshot R i t d keep l = Ok () l'" for keep
  proof -
    have "\<exists>l'. log_write R ops op f l = Ok () l'" for ops op f
      using write_req_ok [OF wr, of ops op] by (auto simp: log_write_def)
    with b show ?thesis by (simp add: PersistSnapshot_def Let_def)
  qed
  with b GetTerm_ok [OF l rd] show ?thesis by (auto simp: Log_InstallSnapshot_def)
qed

lemma RaftNode_new_returns:
  assumes v: "ValidatePeers i peers = Inr ()"
    and d: "alog_ok a" "represents C (view d) a" and m: "kv_ok view m"
    and ag: "agrees (pi_id ` set peers) a (ks_last_applied m)" and ids: "\<forall>p\<in>set peers. pi_id p \<le> INT32_MAX"
    and av: "available R view d" "scans_ok R (ks_db m)" "writes_ok R (ks_db m)"
  shows "\<exists>s sd. RaftNode_new E i peers (m, d) = Ok s sd"
proof -
  let ?d = "snd (db_open R d)"
  have rd: "reads_ok R view ?d" and wr: "writes_ok R ?d" and o: "opens_ok R view d"
    using available_open [OF av(1)] av(1) by (auto simp: available_def)
  obtain l where l: "RaftLog_open R C d = Ok l ?d" "rl_db l = ?d" "log_rel view C l a"
    using RaftLog_open_ok [OF d(2,1) o] by blast
  obtain t v' where h: "hard_of a = (t, v')" by (cases "hard_of a")
  have "\<exists>f. LoadHardState R l = Inr (f, t, v')"
  proof (cases "al_hard a")
    case None
    then have "t = 0" "v' = - 1" using h by (simp_all add: hard_of_def)
    with LoadHardState_ok(2) [OF l(3)] l(2) rd agrees_hard [OF d(1) ag None] None show ?thesis
      by (intro exI [of _ False]) simp
  next
    case (Some p)
    with LoadHardState_ok(1) [OF l(3), of t v'] l(2) rd h show ?thesis
      by (intro exI [of _ True]) (simp add: hard_of_def)
  qed
  then obtain f where hs: "LoadHardState R l = Inr (f, t, v')" ..
  have pend: "LoadPendingSnapshot R l = Inr (al_pending a)" using LoadPendingSnapshot_ok [OF l(3)] l(2) rd by simp
  have "\<exists>ml. replay_pending E t (m, l) = Ok () ml"
  proof (cases "al_pending a")
    case None
    with pend show ?thesis by (simp add: replay_pending_def env)
  next
    case (Some q)
    obtain j u x where q: "q = (j, u, x)" by (cases q)
    from ag Some q h obtain es where es: "decode_snapshot x = Inr es" "AppliedKey \<notin> fst ` set es" "ks_last_applied m \<le> j" "u \<le> t"
      by (auto simp: agrees_def)
    from ReplaceAll_returns [OF av(2,3) es(3,2), of l] obtain m' where "ReplaceAll R j es (Ok ()) (m, l) = Ok () (m', l)" by blast
    moreover have "\<exists>l'. Log_InstallSnapshot R C j u x l = Ok () l'"
      by (rule Log_InstallSnapshot_returns [OF l(3)]) (simp_all add: l(2) rd wr Some q)
    ultimately show ?thesis using pend Some q es by (auto simp: replay_pending_def env InstallSnapshot_def)
  qed
  then obtain m' l' where rp: "replay_pending E t (m, l) = Ok () (m', l')" by auto
  from wp_replay_pending [OF l(3) m ag, of t] rp h obtain a' where a': "log_rel view C l' a'"
    "agrees (pi_id ` set peers) a' (ks_last_applied m')" "al_pending a' = None" "hard_of a' = hard_of a"
    by (auto simp: still_def)
  have "rl_last_term l \<le> t" using ag h l(3) by (simp add: agrees_def log_rel_def fields_rel_def)
  moreover have "rl_snapshot_index l' \<le> ks_last_applied m'" "ks_last_applied m' \<le> rl_last_index l'" "rl_last_term l' \<le> t"
    "v' = - 1 \<or> v' \<in> pi_id ` set peers"
    using a' h by (auto simp: agrees_def log_rel_def fields_rel_def)
  ultimately show ?thesis
    using v l(1,2) hs rp by (auto simp: RaftNode_new_def env liftR_def)
qed

end

end
