(* ===== verification/Applied.thy ===== *)
theory Applied
  imports Recovery
begin

text \<open>
  The state machine behind the log: a batch that returned was applied as the abstract machine would
  have applied it, whether or not other reads and writes fail, and so was every chain of batches that
  \<open>ApplyCommitted\<close> made of the committed entries.
\<close>

section \<open>Batches that returned\<close>

text \<open>A database whose reads always succeed with what the given one holds.\<close>

definition ideal_get :: "('db \<Rightarrow> bytes \<Rightarrow> bytes option) \<Rightarrow> 'db \<Rightarrow> bytes \<Rightarrow> status \<times> bytes" where
  "ideal_get view d k = (case view d k of None \<Rightarrow> (St_not_found [], []) | Some v \<Rightarrow> (St_ok, v))"

definition ideal :: "('db \<Rightarrow> bytes \<Rightarrow> bytes option) \<Rightarrow> 'db rocksdb_ops \<Rightarrow> 'db rocksdb_ops" where
  "ideal view R = R\<lparr>db_get := ideal_get view\<rparr>"

lemma ideal_reads: "reads_ok (ideal view R) view d"
  by (auto simp: reads_ok_def ideal_def ideal_get_def split: option.splits)

context rocksdb
begin

lemma ideal_rocksdb: "rocksdb (ideal view R) view"
proof (unfold_locales, goal_cases)
  case (1 d k v)
  then show ?case by (auto simp: ideal_def ideal_get_def split: option.splits)
next
  case (2 d k t v)
  then show ?case by (auto simp: ideal_def ideal_get_def split: option.splits)
qed (auto simp: ideal_def dest: write_ok write_atomic put_ok put_atomic scan_ok open_ok)

lemma ideal_Get: "KV_Get R s k = Inr v \<Longrightarrow> KV_Get (ideal view R) s k = Inr v"
  using rocksdb.read_opt_ok [OF ideal_rocksdb ideal_reads, of "ks_db s" k] by (auto simp: KV_Get_def dest: read_opt_Inr)

lemma ideal_key_present: "key_present R s k acc = Inr b \<Longrightarrow> key_present (ideal view R) s k acc = Inr b"
  by (auto simp: key_present_def bindE_eq_Inr dest: ideal_Get split: option.splits)

lemma ideal_session_for: "session_for R s c acc = Inr r \<Longrightarrow> session_for (ideal view R) s c acc = Inr r"
  using ideal_Get [of s "ClientSessionKey c"]
  by (cases "aa_sessions acc c"; cases "KV_Get R s (ClientSessionKey c)") (auto simp: session_for_def)

lemma ideal_apply_idempotent:
  assumes "apply_idempotent R s parts m acc = Inr r"
  shows "apply_idempotent (ideal view R) s parts m acc = Inr r"
proof -
  define c where "c = ParseIdempotentCommand parts"
  note def = apply_idempotent_def [of _ s parts m acc, folded c_def, unfolded Let_def]
  have valid: "ic_valid c" using assms by (auto simp: def split: if_splits)
  obtain p where p: "session_for R s (ic_client_id c) acc = Inr p"
    using assms valid by (cases "session_for R s (ic_client_id c) acc") (simp_all add: def)
  obtain rc acc' where rc: "p = (rc, acc')" by (cases p)
  note eqs = p [unfolded rc] ideal_session_for [OF p [unfolded rc]]
  show ?thesis
  proof (cases "key_present R s (ic_key c) acc'")
    case (Inl e)
    with assms eqs valid show ?thesis by (auto simp: def split: if_splits)
  next
    case (Inr b)
    have "apply_idempotent (ideal view R) s parts m acc = apply_idempotent R s parts m acc"
      unfolding def eqs bindE.simps prod.case Inr ideal_key_present [OF Inr] ..
    with assms show ?thesis by simp
  qed
qed

lemma ideal_translate: "translate_command R s c acc = Inr r \<Longrightarrow> translate_command (ideal view R) s c acc = Inr r"
  by (auto simp: translate_command_def Let_def dest: ideal_apply_idempotent split: if_splits)

lemma ideal_apply_commands:
  "apply_commands R s cs acc = Inr r \<Longrightarrow> apply_commands (ideal view R) s cs acc = Inr r"
proof (induction cs arbitrary: acc)
  case (Cons c cs)
  then obtain acc' where "apply_command R s c acc = Inr acc'" "apply_commands (ideal view R) s cs acc' = Inr r"
    by (auto simp: bindE_eq_Inr)
  moreover from this(1) have "apply_command (ideal view R) s c acc = Inr acc'"
    unfolding apply_command_def by (fastforce simp: bindE_eq_Inr dest: ideal_translate split: if_splits)
  ultimately show ?case by simp
qed simp

lemma ApplyBatch_returned:
  assumes ok: "ApplyBatch R first cs m = Ok rs m'" and ses: "sessions_ok (view (ks_db m))" and cb: "client_batch cs cmds"
    and first: "first = ks_last_applied m + 1" and bound: "ks_last_applied m + int (length cs) \<le> INT64_MAX"
  shows "rs = fst (spec_run cmds (abs_state (view (ks_db m)))) \<and>
     abs_state (view (ks_db m')) = snd (spec_run cmds (abs_state (view (ks_db m)))) \<and>
     sessions_ok (view (ks_db m')) \<and> ks_last_applied m' = ks_last_applied m + int (length cs)"
proof -
  from ok obtain acc ex where acc: "apply_commands R m cs (new_acc first) = Inr acc"
    and kv: "KV_ApplyBatch R (aa_mutations acc) m = Ok ex m'" and rs: "rs = fill_replies (aa_replies acc) ex"
    by (auto simp: ApplyBatch_def liftR_def bindR_Ok_iff split: sum.splits)
  have "overlay (view (ks_db m)) (view (ks_db m)) (new_acc first)"
    using ses by (simp add: overlay_def new_acc_def)
  from rocksdb.apply_commands_run [OF ideal_rocksdb ideal_reads this cb] ideal_apply_commands [OF acc] first bound
  have run: "length (aa_mutations acc) = length cs"
    "abs_state (snd (spec_mutations (aa_mutations acc) (view (ks_db m)))) = snd (spec_run cmds (abs_state (view (ks_db m))))"
    "fill_replies (aa_replies acc) (fst (spec_mutations (aa_mutations acc) (view (ks_db m)))) = fst (spec_run cmds (abs_state (view (ks_db m))))"
    "sessions_ok (snd (spec_mutations (aa_mutations acc) (view (ks_db m))))"
    by (auto simp: next_index_def new_acc_def)
  show ?thesis
  proof (cases "aa_mutations acc = []")
    case True
    with kv run rs ses show ?thesis by (auto simp: KV_ApplyBatch_def)
  next
    case False
    with ApplyBatch_spec [OF kv False] run rs show ?thesis by simp
  qed
qed

lemma applied_run:
  assumes "applied R m i cs m'" and "sessions_ok (view (ks_db m))" and "client_batch cs cmds"
    and "i = ks_last_applied m + 1" and "ks_last_applied m + int (length cs) \<le> INT64_MAX"
  shows "abs_state (view (ks_db m')) = snd (spec_run cmds (abs_state (view (ks_db m)))) \<and>
     sessions_ok (view (ks_db m')) \<and> ks_last_applied m' = ks_last_applied m + int (length cs)"
  using assms
proof (induction arbitrary: cmds rule: applied.induct)
  case (applied_Nil m i)
  then show ?case by (simp add: client_batch_def)
next
  case (applied_batch i cs m rs m' ds m'')
  from applied_batch.prems(2) obtain xs ys where c: "cmds = xs @ ys" "client_batch cs xs" "client_batch ds ys"
    using client_batch_append by blast
  have one: "abs_state (view (ks_db m')) = snd (spec_run xs (abs_state (view (ks_db m))))" "sessions_ok (view (ks_db m'))"
    "ks_last_applied m' = ks_last_applied m + int (length cs)"
    using ApplyBatch_returned [OF applied_batch.hyps(1) applied_batch.prems(1) c(2)] applied_batch.prems(3,4) by simp_all
  with applied_batch.IH [OF one(2) c(3)] applied_batch.prems(3,4) c(1) show ?case
    by (simp add: spec_run_append)
qed

end

end
