(* ===== verification/NodeTheorems.thy ===== *)
theory NodeTheorems
  imports Applied
begin

text \<open>
  What a single node guarantees: the invariant over every sequence of operations, restart after a
  failure at any point, the commit rule, and the order of application.
\<close>

section \<open>A concrete environment\<close>

definition demo_env :: "memdb raft_env" where
  "demo_env = \<lparr>en_rocks = mem_ops, en_codec = demo_codec, en_entry_size = (\<lambda>e. length (le_command e) + 16),
     en_clock = (\<lambda>n. 0), en_steady = (\<lambda>n. 0), en_rand = (\<lambda>n. 150), en_send_ok = (\<lambda>n. True),
     en_executor = False, en_submit_ok = (\<lambda>n. True)\<rparr>"

interpretation memraft: raft_storage mem_ops mem_view demo_codec demo_env
  by unfold_locales (simp_all add: demo_env_def)

definition demo_peers :: "peer_info list" where
  "demo_peers = [\<lparr>pi_id = 0, pi_host = ''a'', pi_raft_port = 9080\<rparr>,
                 \<lparr>pi_id = 1, pi_host = ''b'', pi_raft_port = 9081\<rparr>,
                 \<lparr>pi_id = 2, pi_host = ''c'', pi_raft_port = 9082\<rparr>]"

definition empty_store :: "memdb kv_store" where
  "empty_store = \<lparr>ks_db = mem_empty, ks_last_applied = 0\<rparr>"

definition fresh_node :: "int \<Rightarrow> memdb node" where
  "fresh_node i = new_node i demo_peers empty_store (new_log mem_empty) 0 (- 1)"

lemma demo_peers_valid:
  "i \<in> {0, 1, 2} \<Longrightarrow> ValidatePeers i demo_peers = Inr ()" "\<forall>p\<in>set demo_peers. pi_id p \<le> INT32_MAX"
  by (auto simp: ValidatePeers_def demo_peers_def)

lemma fresh_node_ok:
  assumes "i \<in> {0, 1, 2}"
  shows "node_ok mem_view demo_codec (fresh_node i) demo_alog" and "caught_up (fresh_node i)"
proof -
  have "kv_ok mem_view empty_store"
    by (simp add: kv_ok_def empty_store_def mem_empty_def mem_view_def mem_canon_def fun_eq_iff)
  moreover have "agrees (pi_id ` set demo_peers) demo_alog (ks_last_applied empty_store)"
    by (simp add: agrees_def demo_alog_def empty_store_def hard_of_def al_last_def al_last_term_def)
  ultimately show "node_ok mem_view demo_codec (fresh_node i) demo_alog"
    unfolding fresh_node_def
    by (rule new_node_ok [OF demo_peers_valid(1) [OF assms] demo_peers_valid(2) demo_log_rel])
      (simp_all add: demo_alog_def hard_of_def)
  show "caught_up (fresh_node i)" by (simp add: caught_up_def fresh_node_def new_node_def)
qed

section \<open>The invariant over sequences of operations\<close>

definition node_forward :: "'db node \<Rightarrow> alog \<Rightarrow> 'db node \<Rightarrow> alog \<Rightarrow> bool" where
  "node_forward s a t a' \<longleftrightarrow>
     hard_le (nd_hard s) (nd_hard t) \<and> log_keeps (nd_commit_index s) a a' \<and>
     nd_commit_index s \<le> nd_commit_index t \<and> nd_last_applied s \<le> nd_last_applied t"

definition disk_forward ::
  "('db \<Rightarrow> bytes \<Rightarrow> bytes option) \<Rightarrow> entry_codec \<Rightarrow> 'db node \<Rightarrow> alog \<Rightarrow> 'db node \<Rightarrow> bool" where
  "disk_forward view C s a t \<longleftrightarrow>
     (\<exists>a' k. disk_ok view C (peer_ids s) (ks_db (nd_sm t)) (rl_db (nd_log t)) a' k \<and>
        hard_le (nd_hard s) (hard_of a') \<and> log_saves (nd_commit_index s) a a' \<and> nd_last_applied s \<le> k)"

lemma node_forward_refl: "node_ok view C s a \<Longrightarrow> node_forward s a s a"
  by (simp add: node_forward_def log_keeps_refl node_ok_def log_part_def)

lemma node_forward_trans: "node_forward s a t b \<Longrightarrow> node_forward t b u c \<Longrightarrow> node_forward s a u c"
  unfolding node_forward_def by (auto intro: hard_le_trans log_keeps_trans)

lemma disk_forward_trans:
  assumes "node_forward s a t b" and "disk_forward view C t b u" and "nd_peers t = nd_peers s"
  shows "disk_forward view C s a u"
  using assms unfolding node_forward_def disk_forward_def
  by (auto intro: hard_le_trans log_saves_trans order_trans)

lemma node_ok_disk_forward:
  assumes "node_ok view C s a"
  shows "disk_forward view C s a s"
proof -
  obtain k where "disk_ok view C (peer_ids s) (ks_db (nd_sm s)) (rl_db (nd_log s)) a k" "nd_last_applied s \<le> k"
    using assms by (rule node_ok_disk)
  moreover have "hard_of a = nd_hard s" "log_saves (nd_commit_index s) a a"
    using assms by (auto simp: node_ok_def log_part_def intro: log_saves_keeps log_keeps_refl)
  ultimately show ?thesis unfolding disk_forward_def by (intro exI [of _ a] exI [of _ k]) simp
qed

context raft_storage
begin

lemma wp_run_ops:
  assumes "node_ok view C s a" "caught_up s" "list_all op_in_range ops"
  shows "wp (run_ops E ops s)
     (\<lambda>_ t. \<exists>a'. node_ok view C t a' \<and> caught_up t \<and> nd_id t = nd_id s \<and> nd_peers t = nd_peers s \<and> node_forward s a t a')
     (\<lambda>_. disk_forward view C s a)"
  using assms
proof (induction ops arbitrary: s a)
  case Nil
  then show ?case by (auto intro: node_forward_refl)
next
  case (Cons op ops)
  have "steps view C (op_votes op) s a (run_op E op s)" using Cons.prems by (intro steps_run_op) simp_all
  then have "wp (run_op E op s) (\<lambda>_ u. wp (run_ops E ops u)
     (\<lambda>_ t. \<exists>a'. node_ok view C t a' \<and> caught_up t \<and> nd_id t = nd_id s \<and> nd_peers t = nd_peers s \<and> node_forward s a t a')
     (\<lambda>_. disk_forward view C s a)) (\<lambda>_. disk_forward view C s a)"
    unfolding steps_def
  proof (rule wp_mono)
    show "disk_forward view C s a u" if "dead view C s a u" for u using that by (auto simp: dead_def disk_forward_def)
    fix u assume u: "step_ok view C (op_votes op) s a u"
    then obtain b where b: "node_ok view C u b" "node_forward s a u b" "nd_id u = nd_id s" "nd_peers u = nd_peers s"
      by (auto simp: step_ok_def node_forward_def vote_le_def)
    have "caught_up u" using u by (simp add: step_ok_def)
    from Cons.IH [OF b(1) this] Cons.prems(3)
    have "wp (run_ops E ops u)
     (\<lambda>_ t. \<exists>a'. node_ok view C t a' \<and> caught_up t \<and> nd_id t = nd_id u \<and> nd_peers t = nd_peers u \<and> node_forward u b t a')
     (\<lambda>_. disk_forward view C u b)" by simp
    then show "wp (run_ops E ops u)
     (\<lambda>_ t. \<exists>a'. node_ok view C t a' \<and> caught_up t \<and> nd_id t = nd_id s \<and> nd_peers t = nd_peers s \<and> node_forward s a t a')
     (\<lambda>_. disk_forward view C s a)"
      by (rule wp_mono) (use b in \<open>auto intro: node_forward_trans disk_forward_trans [OF b(2)]\<close>)
  qed
  then show ?case by (simp add: wp_bindR)
qed

lemma restart_returns:
  assumes d: "disk_ok view C (pi_id ` set peers) kd ld a k" and v: "ValidatePeers i peers = Inr ()"
    and ids: "\<forall>p\<in>set peers. pi_id p \<le> INT32_MAX" and av: "available R view kd" "available R view ld"
  shows "\<exists>m s sd. RocksDBStore_open R kd = Inr m \<and> RaftNode_new E i peers (m, ld) = Ok s sd \<and>
     restarted view C i peers a k s \<and> ks_last_applied m = k \<and>
     replayed (view kd) k (al_pending a) (view (ks_db (nd_sm s))) (nd_last_applied s)"
proof -
  let ?s = "\<lparr>ks_db = kd, ks_last_applied = k\<rparr>"
  have ok: "alog_ok a" "represents C (view ld) a" "kv_ok view ?s" "agrees (pi_id ` set peers) a k"
    using d by (auto simp: disk_ok_def)
  obtain d' where o: "RocksDBStore_open R kd = Inr \<lparr>ks_db = d', ks_last_applied = k\<rparr>" "view d' = view kd"
    using reopen [OF ok(3)] av(1) by (auto simp: available_def)
  then have d': "d' = snd (db_open R kd)"
    by (auto simp: RocksDBStore_open_def bindE_eq_Inr Let_def split: prod.splits option.splits if_splits)
  let ?m = "\<lparr>ks_db = d', ks_last_applied = k\<rparr>"
  have m: "kv_ok view ?m" using ok(3) o(2) by (simp add: kv_ok_def)
  have "scans_ok R (ks_db ?m)" "writes_ok R (ks_db ?m)"
    using available_open [OF av(1)] av(1) d' by (auto simp: available_def)
  with RaftNode_new_returns [OF v ok(1,2) m _ ids av(2)] ok(4)
  obtain s sd where s: "RaftNode_new E i peers (?m, ld) = Ok s sd" by auto
  have "fst (db_open R ld) = St_ok" using available_open [OF av(2)] by simp
  from wp_RaftNode_new [OF v ids ok(1,2) m _ this] ok(4) s
  have "restarted view C i peers a k s \<and> replayed (view kd) k (al_pending a) (view (ks_db (nd_sm s))) (nd_last_applied s)"
    by (simp add: o(2))
  with o s show ?thesis by auto
qed

end

text \<open>
  C1. The invariant of a node. From a node that satisfies it, after any sequence of messages, timer
  ticks, proposals, reads, executor steps, starts and stops: if the operations return, the node
  satisfies it again, nothing committed waits to be applied unless the executor is busy, term and
  vote never went back, commit and applied index never decreased and the committed prefix of the log
  is what it was; if one throws, the two databases still hold all of that.
\<close>

theorem node_invariant:
  assumes "raft_storage R view C E" and "node_ok view C s a" and "caught_up s" and "list_all op_in_range ops"
  shows "wp (run_ops E ops s)
     (\<lambda>_ t. \<exists>a'. node_ok view C t a' \<and> caught_up t \<and> node_forward s a t a')
     (\<lambda>_ t. disk_forward view C s a t)"
  by (rule wp_mono [OF raft_storage.wp_run_ops [OF assms]]) auto

theorem node_invariant_witness:
  "node_ok mem_view demo_codec (fresh_node 1) demo_alog \<and>
   wp (run_ops demo_env [OpStart, OpMessage 0 (RequestVote
         \<lparr>rv_term = 3, rv_candidate_id = 0, rv_last_log_index = 0, rv_last_log_term = 0, rv_prevote = False\<rparr>)] (fresh_node 1))
     (\<lambda>_ t. \<exists>a'. node_ok mem_view demo_codec t a' \<and> caught_up t \<and> node_forward (fresh_node 1) demo_alog t a')
     (\<lambda>_ t. disk_forward mem_view demo_codec (fresh_node 1) demo_alog t)"
  using node_invariant [OF memraft.raft_storage_axioms fresh_node_ok, of 1
      "[OpStart, OpMessage 0 (RequestVote
         \<lparr>rv_term = 3, rv_candidate_id = 0, rv_last_log_index = 0, rv_last_log_term = 0, rv_prevote = False\<rparr>)]"]
    fresh_node_ok [of 1]
  by simp

text \<open>
  C3. A node restarts. Wherever a sequence of operations ends, with a return or with an exception, a
  new process on the two databases returns from the constructors, provided the storage works again.
  The new node satisfies the invariant, its term and vote are not older than before, every entry that
  was committed is still in the log or covered by its snapshot, and nothing applied is undone: its store
  holds exactly what the database of the state machine held, at the index stored with it; or, when the
  log database holds a staged snapshot installation, exactly the entries of the staged snapshot, at the
  snapshot's index.
\<close>

theorem crash_restart:
  assumes "raft_storage R view C E" and s: "node_ok view C s a" "caught_up s" and "list_all op_in_range ops"
    and v: "ValidatePeers (nd_id s) (nd_peers s) = Inr ()"
    and t: "t = res_state (run_ops E ops s)"
    and av: "available R view (ks_db (nd_sm t))" "available R view (rl_db (nd_log t))"
  shows "\<exists>m s' sd a'.
     RocksDBStore_open R (ks_db (nd_sm t)) = Inr m \<and>
     RaftNode_new E (nd_id s) (nd_peers s) (m, rl_db (nd_log t)) = Ok s' sd \<and>
     node_ok view C s' a' \<and> hard_le (nd_hard s) (nd_hard s') \<and> log_keeps (nd_commit_index s) a a' \<and>
     nd_last_applied s \<le> nd_last_applied s' \<and>
     (case view (rl_db (nd_log t)) SnapshotIntentKey of
        None \<Rightarrow> view (ks_db (nd_sm s')) = view (ks_db (nd_sm t)) \<and> nd_last_applied s' = ks_last_applied m
      | Some intent \<Rightarrow> \<exists>u data es. intent = EncodeTail (nd_last_applied s') u @ data \<and> decode_snapshot data = Inr es \<and>
          view (ks_db (nd_sm s')) = (map_of (rev es))(AppliedKey := Some (be8 (nd_last_applied s'))))"
proof -
  have "disk_forward view C s a t"
  proof (cases "run_ops E ops s")
    case (Ok x u)
    with raft_storage.wp_run_ops [OF assms(1-4)] t obtain a' where
      "node_ok view C t a'" "node_forward s a t a'" "nd_peers t = nd_peers s" by auto
    then show ?thesis using disk_forward_trans node_ok_disk_forward by blast
  next
    case (Throw e u)
    with raft_storage.wp_run_ops [OF assms(1-4)] t show ?thesis by simp
  qed
  then obtain a' k where d: "disk_ok view C (peer_ids s) (ks_db (nd_sm t)) (rl_db (nd_log t)) a' k"
    "hard_le (nd_hard s) (hard_of a')" "log_saves (nd_commit_index s) a a'" "nd_last_applied s \<le> k"
    by (auto simp: disk_forward_def)
  have "\<forall>p\<in>set (nd_peers s). pi_id p \<le> INT32_MAX" using s(1) by (auto simp: node_ok_def member_ok_def)
  from raft_storage.restart_returns [OF assms(1) d(1) v this av] obtain m s' sd where
    r: "RocksDBStore_open R (ks_db (nd_sm t)) = Inr m" "RaftNode_new E (nd_id s) (nd_peers s) (m, rl_db (nd_log t)) = Ok s' sd"
    "restarted view C (nd_id s) (nd_peers s) a' k s'" "ks_last_applied m = k"
    "replayed (view (ks_db (nd_sm t))) k (al_pending a') (view (ks_db (nd_sm s'))) (nd_last_applied s')" by blast
  then obtain b where b: "node_ok view C s' b" "still log_keeps a' b" by (auto simp: restarted_def)
  have "view (rl_db (nd_log t)) SnapshotIntentKey = map_option (\<lambda>(i, u, d). EncodeTail i u @ d) (al_pending a')"
    using d(1) by (simp add: disk_ok_def represents_def)
  with r(4,5) have "case view (rl_db (nd_log t)) SnapshotIntentKey of
        None \<Rightarrow> view (ks_db (nd_sm s')) = view (ks_db (nd_sm t)) \<and> nd_last_applied s' = ks_last_applied m
      | Some intent \<Rightarrow> \<exists>u data es. intent = EncodeTail (nd_last_applied s') u @ data \<and> decode_snapshot data = Inr es \<and>
          view (ks_db (nd_sm s')) = (map_of (rev es))(AppliedKey := Some (be8 (nd_last_applied s')))"
    by (cases "al_pending a'") auto
  with r b d show ?thesis by (auto simp: restarted_def still_def)
qed

theorem crash_restart_witness:
  "\<exists>m s' sd a'.
     RocksDBStore_open mem_ops (ks_db (nd_sm (Stop (fresh_node 1)))) = Inr m \<and>
     RaftNode_new demo_env 1 demo_peers (m, rl_db (nd_log (Stop (fresh_node 1)))) = Ok s' sd \<and>
     node_ok mem_view demo_codec s' a' \<and> hard_le (0, - 1) (nd_hard s') \<and> log_keeps 0 demo_alog a' \<and>
     mem_view (ks_db (nd_sm s')) = mem_view (ks_db (nd_sm (Stop (fresh_node 1))))"
proof -
  have f: "nd_id (fresh_node 1) = 1" "nd_peers (fresh_node 1) = demo_peers" "nd_hard (fresh_node 1) = (0, - 1)"
    "nd_commit_index (fresh_node 1) = 0"
    by (simp_all add: fresh_node_def new_node_def nd_hard_def empty_store_def)
  have "Stop (fresh_node 1) = upd_reads (\<lambda>r. r\<lparr>rs_can_serve_read := False\<rparr>)
      ((fresh_node 1)\<lparr>nd_running := False, nd_state := FOLLOWER, nd_leader_id := - 1\<rparr>)"
    by (simp add: Stop_def FailPending_def ClearReadIndexQueues_def fresh_node_def new_node_def new_reads_def upd_reads_def Let_def)
  then have db: "ks_db (nd_sm (Stop (fresh_node 1))) = mem_empty" "rl_db (nd_log (Stop (fresh_node 1))) = mem_empty"
    by (simp_all add: upd_reads_def fresh_node_def new_node_def empty_store_def new_log_def)
  have "available mem_ops mem_view mem_empty"
    unfolding available_def
    by (intro conjI mem_opens_ok) (auto simp: mem_empty_def mem_defs writes_ok_def)
  then have av: "available mem_ops mem_view (ks_db (nd_sm (Stop (fresh_node 1))))"
    "available mem_ops mem_view (rl_db (nd_log (Stop (fresh_node 1))))" by (simp_all add: db)
  have intent: "mem_view (rl_db (nd_log (Stop (fresh_node 1)))) SnapshotIntentKey = None"
    by (simp add: db mem_view_def mem_canon_def mem_empty_def)
  have "ValidatePeers (nd_id (fresh_node 1)) (nd_peers (fresh_node 1)) = Inr ()"
    using demo_peers_valid(1) [of 1] by (simp add: f)
  from crash_restart [OF memraft.raft_storage_axioms fresh_node_ok _ this _ av, of "[OpStop]"] f intent show ?thesis
    by (simp, blast)
qed

section \<open>The commit rule\<close>

lemma kth_largest:
  fixes xs :: "int list"
  assumes "0 < q" and "q \<le> length xs"
  shows "q \<le> length (filter (\<lambda>x. rev (sort xs) ! (q - 1) \<le> x) xs)"
proof -
  let ?n = "length xs - q" and ?c = "rev (sort xs) ! (q - 1)"
  have c: "?c = sort xs ! ?n" using assms by (simp add: rev_nth)
  have "?c \<le> x" if "x \<in> set (drop ?n (sort xs))" for x
  proof -
    from that obtain i where "x = sort xs ! (?n + i)" "?n + i < length (sort xs)"
      using assms by (auto simp: in_set_conv_nth add.commute)
    then show ?thesis unfolding c by (simp add: sorted_nth_mono)
  qed
  then have "filter (\<lambda>x. ?c \<le> x) (drop ?n (sort xs)) = drop ?n (sort xs)" by (simp add: filter_id_conv)
  then have "q \<le> length (filter (\<lambda>x. ?c \<le> x) (drop ?n (sort xs)))" using assms by simp
  also have "\<dots> \<le> length (filter (\<lambda>x. ?c \<le> x) (take ?n (sort xs) @ drop ?n (sort xs)))"
    by (simp del: append_take_drop_id)
  also have "\<dots> = length (filter (\<lambda>x. ?c \<le> x) xs)"
    by (simp add: filter_sort)
  finally show ?thesis .
qed

context raft_storage
begin

lemma ApplyCommitted_commit:
  assumes s: "safe view C M s0 a0 s" and "ApplyCommitted E s = Ok x t"
  shows "nd_commit_index t = nd_commit_index s"
proof -
  obtain b where "node_ok view C s b" using s by (auto simp: safe_def)
  from wp_ApplyCommitted [OF this, of UNIV] assms(2) show ?thesis by (auto simp: drained_def split: if_splits)
qed

lemma AdvanceCommitIndex_commit:
  assumes s: "node_ok view C s a" and ok: "AdvanceCommitIndex E s = Ok x t"
  defines "c \<equiv> rev (sort (map (\<lambda>p. the (nd_match_index s (pi_id p))) (nd_peers s))) ! (QuorumSize s - 1)"
  shows "nd_commit_index t = nd_commit_index s \<or>
     nd_commit_index s < c \<and> nd_commit_index t = c \<and> al_get_term a c = nd_current_term s"
proof -
  let ?F = "\<lambda>i r. bindR r (\<lambda>xs s. bindR (liftR (at_key (nd_match_index s) i) s) (\<lambda>x. Ok (x # xs)))"
  let ?next = "if c > nd_commit_index s then
      bindR (LogTerm E c s) (\<lambda>t s. Ok () (if t = nd_current_term s then s\<lparr>nd_commit_index := c\<rparr> else s)) else Ok () s"
  have safe: "safe view C {} s a s" using s by (rule safe_refl)
  have "foldr ?F (map pi_id (nd_peers s)) (Ok [] s) = Ok (map (\<lambda>p. the (nd_match_index s (pi_id p))) (nd_peers s)) s"
    using match_list [of "map pi_id (nd_peers s)" s] ok by (auto simp: AdvanceCommitIndex_def comp_def)
  then have "bindR ?next (\<lambda>_. ApplyCommitted E) = Ok x t"
    using ok unfolding AdvanceCommitIndex_def Let_def c_def [symmetric] by (simp only: bindR.simps c_def [symmetric])
  then obtain u where u: "?next = Ok () u" and t: "ApplyCommitted E u = Ok x t" by (auto simp: bindR_Ok_iff)
  show ?thesis
  proof (cases "nd_commit_index s < c \<and> LogTerm E c s = Ok (nd_current_term s) s")
    case True
    have "safe view C {} s a (s\<lparr>nd_commit_index := c\<rparr>)"
      using True LogTerm_Ok(2) [OF safe conjunct2 [OF True]] safe_term_ge [OF safe] by (intro safe_commit [OF safe]) simp_all
    from ApplyCommitted_commit [OF this] u t True LogTerm_alog(2) [OF s conjunct2 [OF True]] show ?thesis by simp
  next
    case False
    then have "u = s" using u by (auto simp: bindR_Ok_iff LogTerm_def liftR_Ok split: if_splits)
    with ApplyCommitted_commit [OF safe] t show ?thesis by simp
  qed
qed

end

text \<open>
  C4. The commit rule. When \<open>AdvanceCommitIndex\<close> moves the commit index, a majority of the members
  is known to hold the log up to the new index, and the entry there is of the leader's own term.
\<close>

theorem commit_rule:
  assumes "raft_storage R view C E" and "node_ok view C s a"
    and "AdvanceCommitIndex E s = Ok x t" and "nd_commit_index t \<noteq> nd_commit_index s"
  shows "nd_commit_index s < nd_commit_index t \<and>
     QuorumSize s \<le> length (filter (\<lambda>p. nd_commit_index t \<le> the (nd_match_index s (pi_id p))) (nd_peers s)) \<and>
     al_get_term a (nd_commit_index t) = nd_current_term s"
proof -
  let ?ms = "map (\<lambda>p. the (nd_match_index s (pi_id p))) (nd_peers s)"
  have "nd_peers s \<noteq> []" using assms(2) by (auto simp: node_ok_def member_ok_def)
  then have q: "0 < QuorumSize s" "QuorumSize s \<le> length ?ms"
    by (auto simp: QuorumSize_def Suc_le_eq)
  from raft_storage.AdvanceCommitIndex_commit [OF assms(1-3)] assms(4) kth_largest [OF q] show ?thesis
    by (auto simp: filter_map comp_def)
qed

text \<open>A leader of three members that has the first entry on two of them.\<close>

definition led_log :: "memdb raft_log" where
  "led_log = res_state (AppendBatch mem_ops demo_codec [demo_entry 1 1 []] (res_state (SaveHardState mem_ops 1 0 (new_log mem_empty))))"

definition led_alog :: alog where
  "led_alog = demo_alog\<lparr>al_entries := [demo_entry 1 1 []], al_hard := Some (1, 0)\<rparr>"

lemma mem_write_ok: "\<not> fail_writes d \<Longrightarrow>
   write_req mem_ops ops op d = Ok () (d\<lparr>mem_data := fold mem_apply_op ops (mem_canon d)\<rparr>)"
  by (simp add: write_req_def mem_defs RequireStorageOK_def)

lemma mem_put_ok: "\<not> fail_writes d \<Longrightarrow>
   put_req mem_ops k v op d = Ok () (d\<lparr>mem_data := mem_apply_op (PutOp k v) (mem_canon d)\<rparr>)"
  by (simp add: put_req_def mem_defs RequireStorageOK_def)

lemma led_log_rel: "log_rel mem_view demo_codec led_log led_alog" "\<not> fail_reads (rl_db led_log)"
proof -
  obtain l where save: "SaveHardState mem_ops 1 0 (new_log mem_empty) = Ok () l" "\<not> fail_writes (rl_db l)" "\<not> fail_reads (rl_db l)"
    "rl_last_index l = 0" "rl_last_term l = 0"
    by (simp add: SaveHardState_def mem_put_ok new_log_def mem_empty_def)
  have r1: "log_rel mem_view demo_codec l (al_save 1 0 demo_alog)"
    using memlog.SaveHardState_step [OF demo_log_rel, of 1 0] save(1) by (simp add: log_step_def)
  have "append_ok [demo_entry 1 1 []] (al_save 1 0 demo_alog)"
    by (simp add: append_ok_def al_save_def demo_alog_def demo_entry_def al_last_def al_last_term_def)
  note st = memlog.AppendBatch_step [OF r1 this]
  have ap: "AppendBatch mem_ops demo_codec [demo_entry 1 1 []] l = Ok () led_log" "\<not> fail_reads (rl_db led_log)"
    using save by (simp_all add: led_log_def AppendBatch_def demo_entry_def demo_codec_def log_write_def mem_write_ok)
  with st show "log_rel mem_view demo_codec led_log led_alog" "\<not> fail_reads (rl_db led_log)"
    by (simp_all add: log_step_def led_alog_def al_append_def al_save_def demo_alog_def)
qed

definition led_node :: "memdb node" where
  "led_node = (new_node 0 demo_peers empty_store led_log 1 0)
     \<lparr>nd_state := LEADER, nd_match_index := [0 \<mapsto> 1, 1 \<mapsto> 1, 2 \<mapsto> 0]\<rparr>"

lemma led_node_ok: "node_ok mem_view demo_codec led_node led_alog"
proof -
  have "kv_ok mem_view empty_store"
    by (simp add: kv_ok_def empty_store_def mem_empty_def mem_view_def mem_canon_def fun_eq_iff)
  moreover have "agrees (pi_id ` set demo_peers) led_alog (ks_last_applied empty_store)"
    by (simp add: agrees_def led_alog_def demo_alog_def demo_entry_def empty_store_def demo_peers_def hard_of_def al_last_def al_last_term_def)
  ultimately have "node_ok mem_view demo_codec (new_node 0 demo_peers empty_store led_log 1 0) led_alog"
    by (rule new_node_ok [OF demo_peers_valid(1) [of 0, simplified] demo_peers_valid(2) led_log_rel(1)])
      (simp_all add: led_alog_def demo_alog_def hard_of_def)
  then show ?thesis
    by (simp add: node_ok_def led_node_def member_ok_def log_part_def job_ok_def job_log_def nd_hard_def new_node_def flights_ok_def)
qed

lemma led_advance: "AdvanceCommitIndex demo_env led_node = Ok () (led_node\<lparr>nd_commit_index := 1\<rparr>)"
proof -
  have "GetTerm mem_ops demo_codec led_log 1 = Inr 1"
    using memlog.GetTerm_ok [OF led_log_rel(1) mem_reads_ok [OF led_log_rel(2)], of 1]
    by (simp add: al_get_term_def al_get_def led_alog_def demo_alog_def demo_entry_def al_last_def)
  moreover have "nd_peers led_node = demo_peers" "nd_log led_node = led_log" "nd_running led_node = False"
    "nd_commit_index led_node = 0" "nd_current_term led_node = 1" "nd_apply_inflight led_node = False"
    "nd_match_index led_node = [0 \<mapsto> 1, 1 \<mapsto> 1, 2 \<mapsto> 0]" "nd_last_applied led_node = 0"
    by (simp_all add: led_node_def new_node_def empty_store_def)
  ultimately show ?thesis
    by (simp add: AdvanceCommitIndex_def demo_peers_def at_key_def QuorumSize_def LogTerm_def ApplyCommitted_def
        MaybeSnapshot_def demo_env_def)
qed

theorem commit_rule_witness:
  "QuorumSize led_node \<le> length (filter (\<lambda>p. 1 \<le> the (nd_match_index led_node (pi_id p))) (nd_peers led_node)) \<and>
   al_get_term led_alog 1 = nd_current_term led_node"
  using commit_rule [OF memraft.raft_storage_axioms led_node_ok led_advance]
  by (simp add: led_node_def new_node_def empty_store_def)

section \<open>Application in log order\<close>

lemma client_batch_take: "client_batch cs cmds \<Longrightarrow> client_batch (take n cs) (take n cmds)"
  by (auto simp: client_batch_def take_map [symmetric] list_all_iff dest: in_set_takeD)

lemma log_commands_take:
  assumes "i \<le> j + 1" and "j \<le> k"
  shows "take (nat (j - i + 1)) (log_commands a i k) = log_commands a i j"
  using log_commands_append [OF assms] by simp

context raft_storage
begin

lemma drained_run:
  assumes s: "node_ok view C s a" and job: "nd_job s = None" and d: "drained R s a sub t"
    and cb: "client_batch (log_commands a (nd_last_applied s + 1) (nd_commit_index s)) cmds"
    and ses: "sessions_ok (view (ks_db (nd_sm s)))" and le: "nd_last_applied t \<le> nd_commit_index s"
  shows "abs_state (view (ks_db (nd_sm t))) =
     snd (spec_run (take (nat (nd_last_applied t - nd_last_applied s)) cmds) (abs_state (view (ks_db (nd_sm s)))))"
proof -
  let ?i = "nd_last_applied s + 1" and ?n = "nat (nd_last_applied t - nd_last_applied s)"
  have la: "ks_last_applied (nd_sm s) = nd_last_applied s" and ge: "nd_last_applied s \<le> nd_last_applied t"
    using s job d by (simp_all add: node_ok_def job_ok_def drained_def)
  have "take ?n (log_commands a ?i (nd_commit_index s)) = log_commands a ?i (nd_last_applied t)"
    using log_commands_take [of ?i "nd_last_applied t" "nd_commit_index s" a] ge le by simp
  with client_batch_take [OF cb, of ?n] have "client_batch (log_commands a ?i (nd_last_applied t)) (take ?n cmds)" by simp
  note cb' = this
  have run: "applied R (nd_sm s) ?i (log_commands a ?i (nd_last_applied t)) (nd_sm t)"
    using d by (simp add: drained_def)
  have "nd_last_applied t \<le> INT64_MAX"
    using s le al_index_bounds [of a] by (auto simp: node_ok_def log_part_def log_rel_def)
  then show ?thesis using applied_run [OF run ses cb'] la ge by simp
qed

end

text \<open>
  C5. The state machine follows the log. \<open>ApplyCommitted\<close> on a running node, whatever the sizes of its
  batches, either throws or applies the committed commands in log order, each once: the store ends as
  the abstract machine run over them ends, up to the applied index. If the executor did not take the
  work, the applied index is the commit index: the loop always gets to the end.
\<close>

theorem apply_in_log_order:
  assumes "raft_storage R view C E" and "node_ok view C s a" and "nd_running s" and "\<not> nd_apply_inflight s"
    and "client_batch (log_commands a (nd_last_applied s + 1) (nd_commit_index s)) cmds"
    and "sessions_ok (view (ks_db (nd_sm s)))"
  shows "wp (ApplyCommitted E s)
     (\<lambda>_ t. (nd_apply_inflight t \<or> nd_last_applied t = nd_commit_index s) \<and> nd_last_applied t \<le> nd_commit_index s \<and>
        abs_state (view (ks_db (nd_sm t))) =
          snd (spec_run (take (nat (nd_last_applied t - nd_last_applied s)) cmds) (abs_state (view (ks_db (nd_sm s))))))
     (\<lambda>_ t. disk_forward view C s a t)"
proof (rule wp_mono [OF raft_storage.wp_ApplyCommitted [OF assms(1,2), of UNIV]])
  show "disk_forward view C s a t" if "dead view C s a t" for t using that by (auto simp: dead_def disk_forward_def)
  fix t assume "safe view C UNIV s a t \<and> caught_up t \<and>
    (if nd_apply_inflight s then t = s else \<exists>sub. drained R s a sub t)"
  then obtain sub where t: "drained R s a sub t" "safe view C UNIV s a t" using assms(4) by auto
  have job: "nd_job s = None" using assms(2,4) by (auto simp: node_ok_def job_ok_def split: option.splits)
  have "nd_last_applied t \<le> nd_commit_index t" using t(2) by (auto simp: safe_def node_ok_def log_part_def)
  then have le: "nd_last_applied t \<le> nd_commit_index s" using t(1) by (simp add: drained_def)
  from raft_storage.drained_run [OF assms(1,2) job t(1) assms(5,6) le] le t(1) assms(3)
  show "(nd_apply_inflight t \<or> nd_last_applied t = nd_commit_index s) \<and> nd_last_applied t \<le> nd_commit_index s \<and>
        abs_state (view (ks_db (nd_sm t))) =
          snd (spec_run (take (nat (nd_last_applied t - nd_last_applied s)) cmds) (abs_state (view (ks_db (nd_sm s)))))"
    by (auto simp: drained_def split: if_splits)
qed

theorem apply_in_log_order_witness:
  "wp (ApplyCommitted demo_env (led_node\<lparr>nd_commit_index := 1, nd_running := True\<rparr>))
     (\<lambda>_ t. (nd_apply_inflight t \<or> nd_last_applied t = 1) \<and>
        abs_state (mem_view (ks_db (nd_sm t))) =
          snd (spec_run (take (nat (nd_last_applied t)) [CNoop]) (abs_state (mem_view mem_empty))))
     (\<lambda>_ t. disk_forward mem_view demo_codec (led_node\<lparr>nd_commit_index := 1, nd_running := True\<rparr>) led_alog t)"
proof -
  let ?s = "led_node\<lparr>nd_commit_index := 1, nd_running := True\<rparr>"
  have f: "nd_last_applied ?s = 0" "nd_commit_index ?s = 1" "\<not> nd_apply_inflight ?s" "ks_db (nd_sm ?s) = mem_empty"
    by (simp_all add: led_node_def new_node_def empty_store_def)
  have ok: "node_ok mem_view demo_codec ?s led_alog"
    using led_node_ok
    by (auto simp: node_ok_def member_ok_def log_part_def job_ok_def job_log_def nd_hard_def led_node_def new_node_def
        flights_ok_def led_alog_def demo_alog_def al_last_def)
  have "log_commands led_alog (nd_last_applied ?s + 1) (nd_commit_index ?s) = [[]]"
    unfolding f(1,2) by (simp add: log_commands_def al_get_def led_alog_def demo_alog_def al_last_def demo_entry_def)
  then have cb: "client_batch (log_commands led_alog (nd_last_applied ?s + 1) (nd_commit_index ?s)) [CNoop]"
    by (simp add: client_batch_def decode_command_def)
  have ses: "sessions_ok (mem_view (ks_db (nd_sm ?s)))"
    unfolding f(4) by (simp add: sessions_ok_def mem_empty_def mem_view_def mem_canon_def)
  have run: "nd_running ?s" by simp
  show ?thesis
    using apply_in_log_order [OF memraft.raft_storage_axioms ok run f(3) cb ses] unfolding f(1,2,4)
    by (rule wp_mono) simp_all
qed

end
