(* ===== verification/Cluster.thy ===== *)
theory Cluster
  imports NodeTheorems
begin

text \<open>
  A cluster of nodes over an unreliable network. A member is up, with the state of its node, or down,
  with what its two databases hold. The network is the set of all messages ever sent: a message may be
  lost, delayed, duplicated and reordered. Every step of a member has its own clock, randomness,
  transport and storage behaviour. The theory shows that a term has one leader at most.
\<close>

section \<open>Members, network and steps\<close>

datatype 'db member = Up "'db node" | Down 'db 'db

text \<open>
  \<open>cl_ballots\<close> and \<open>cl_elected\<close> are history: the votes (voter, term, candidate) that members held and
  the (member, term) pairs in which a member was leader. No step reads them.
\<close>

record 'db cluster =
  cl_members :: "int \<Rightarrow> 'db member"
  cl_net :: "(int \<times> int \<times> raft_rpc) set"
  cl_ballots :: "(int \<times> int \<times> int) set"
  cl_elected :: "(int \<times> int) set"

abbreviation ids_of :: "peer_info list \<Rightarrow> int set" where
  "ids_of peers \<equiv> pi_id ` set peers"

definition configured :: "peer_info list \<Rightarrow> bool" where
  "configured peers \<longleftrightarrow> list_all (\<lambda>p. ValidatePeers (pi_id p) peers = Inr () \<and> pi_id p \<le> INT32_MAX) peers"

definition sent :: "int \<Rightarrow> 'db node \<Rightarrow> 'db node \<Rightarrow> (int \<times> int \<times> raft_rpc) set" where
  "sent i s t = {(i, p, m) |p m. EvSend p m \<in> set (drop (length (nd_events s)) (nd_events t))}"

definition ballot :: "int \<Rightarrow> 'db node \<Rightarrow> (int \<times> int \<times> int) set" where
  "ballot i s = (if nd_voted_for s = - 1 then {} else {(i, nd_current_term s, nd_voted_for s)})"

definition set_up :: "int \<Rightarrow> 'db node \<Rightarrow> 'db cluster \<Rightarrow> 'db cluster" where
  "set_up i s c = c\<lparr>cl_members := (cl_members c)(i := Up s),
     cl_ballots := ballot i s \<union> cl_ballots c,
     cl_elected := (if nd_state s = LEADER then {(i, nd_current_term s)} else {}) \<union> cl_elected c\<rparr>"

definition set_down :: "int \<Rightarrow> 'db \<Rightarrow> 'db \<Rightarrow> 'db cluster \<Rightarrow> 'db cluster" where
  "set_down i kd ld c = c\<lparr>cl_members := (cl_members c)(i := Down kd ld)\<rparr>"

definition transmit :: "(int \<times> int \<times> raft_rpc) set \<Rightarrow> 'db cluster \<Rightarrow> 'db cluster" where
  "transmit out c = c\<lparr>cl_net := cl_net c \<union> out\<rparr>"

text \<open>A message operation takes its message from the network.\<close>

fun op_from :: "(int \<times> int \<times> raft_rpc) set \<Rightarrow> int \<Rightarrow> node_op \<Rightarrow> bool" where
  "op_from net i (OpMessage peer m) \<longleftrightarrow> (peer, i, m) \<in> net \<and> rpc_in_range m"
| "op_from net i _ \<longleftrightarrow> True"

inductive cluster_step ::
  "('db \<Rightarrow> bytes \<Rightarrow> bytes option) \<Rightarrow> entry_codec \<Rightarrow> peer_info list \<Rightarrow> 'db cluster \<Rightarrow> 'db cluster \<Rightarrow> bool"
  for view :: "'db \<Rightarrow> bytes \<Rightarrow> bytes option" and C :: entry_codec and peers :: "peer_info list" where
  operate: "i \<in> ids_of peers \<Longrightarrow> cl_members c i = Up s \<Longrightarrow> raft_storage R view C E \<Longrightarrow> op_from (cl_net c) i op \<Longrightarrow>
     run_op E op s = Ok () t \<Longrightarrow> cluster_step view C peers c (set_up i t (transmit (sent i s t) c))"
| fail: "i \<in> ids_of peers \<Longrightarrow> cl_members c i = Up s \<Longrightarrow> raft_storage R view C E \<Longrightarrow> op_from (cl_net c) i op \<Longrightarrow>
     run_op E op s = Throw e t \<Longrightarrow>
     cluster_step view C peers c (set_down i (ks_db (nd_sm t)) (rl_db (nd_log t)) (transmit (sent i s t) c))"
| crash: "i \<in> ids_of peers \<Longrightarrow> cl_members c i = Up s \<Longrightarrow>
     cluster_step view C peers c (set_down i (ks_db (nd_sm s)) (rl_db (nd_log s)) c)"
| reopen: "i \<in> ids_of peers \<Longrightarrow> cl_members c i = Down kd ld \<Longrightarrow> view kd' = view kd \<Longrightarrow> view ld' = view ld \<Longrightarrow>
     cluster_step view C peers c (set_down i kd' ld' c)"
| restart: "i \<in> ids_of peers \<Longrightarrow> cl_members c i = Down kd ld \<Longrightarrow> raft_storage R view C E \<Longrightarrow>
     RocksDBStore_open R kd = Inr m \<Longrightarrow> fst (db_open R ld) = St_ok \<Longrightarrow> RaftNode_new E i peers (m, ld) = Ok s sd \<Longrightarrow>
     cluster_step view C peers c (set_up i s c)"
| restart_fails: "i \<in> ids_of peers \<Longrightarrow> cl_members c i = Down kd ld \<Longrightarrow> raft_storage R view C E \<Longrightarrow>
     RocksDBStore_open R kd = Inr m \<Longrightarrow> fst (db_open R ld) = St_ok \<Longrightarrow> RaftNode_new E i peers (m, ld) = Throw e (m', d') \<Longrightarrow>
     cluster_step view C peers c (set_down i (ks_db m') d' c)"

text \<open>The members start from databases that an earlier life of the cluster may have left.\<close>

definition cluster_init ::
  "('db \<Rightarrow> bytes \<Rightarrow> bytes option) \<Rightarrow> entry_codec \<Rightarrow> peer_info list \<Rightarrow> 'db cluster \<Rightarrow> bool" where
  "cluster_init view C peers c \<longleftrightarrow>
     cl_net c = {} \<and> cl_ballots c = {} \<and> cl_elected c = {} \<and>
     (\<forall>i\<in>ids_of peers. \<exists>kd ld a k. cl_members c i = Down kd ld \<and> disk_ok view C (ids_of peers) kd ld a k)"

section \<open>Majorities\<close>

locale quorums =
  fixes quorum :: "'a set \<Rightarrow> bool"
  assumes quorums_meet: "quorum V \<Longrightarrow> quorum W \<Longrightarrow> V \<inter> W \<noteq> {}"
begin

text \<open>Where every voter casts one ballot, two candidates with a quorum each are one.\<close>

lemma one_winner:
  assumes "quorum V" and "quorum W" and "\<And>v c d. cast v c \<Longrightarrow> cast v d \<Longrightarrow> c = d"
    and "\<And>v. v \<in> V \<Longrightarrow> cast v c" and "\<And>v. v \<in> W \<Longrightarrow> cast v d"
  shows "c = d"
  using quorums_meet [OF assms(1,2)] assms(3-5) by blast

end

definition majority :: "'a set \<Rightarrow> 'a set \<Rightarrow> bool" where
  "majority U V \<longleftrightarrow> finite U \<and> V \<subseteq> U \<and> card U < 2 * card V"

interpretation majorities: quorums "majority U" for U :: "'a set"
proof
  fix V W :: "'a set" assume v: "majority U V" and w: "majority U W"
  then have f: "finite U" "finite V" "finite W" by (auto simp: majority_def dest: finite_subset)
  have "card (V \<union> W) \<le> card U" using v w f(1) by (intro card_mono) (auto simp: majority_def)
  with card_Un_disjoint [OF f(2,3)] v w show "V \<inter> W \<noteq> {}" by (auto simp: majority_def)
qed

lemma configuredD:
  assumes "configured peers" and "i \<in> ids_of peers"
  shows "ValidatePeers i peers = Inr ()" "\<forall>p\<in>set peers. pi_id p \<le> INT32_MAX" "0 \<le> i" "card (ids_of peers) = length peers"
proof -
  show v: "ValidatePeers i peers = Inr ()" and "\<forall>p\<in>set peers. pi_id p \<le> INT32_MAX"
    using assms by (auto simp: configured_def list_all_iff)
  show "0 \<le> i" "card (ids_of peers) = length peers"
    using ValidatePeers_Inr [OF v] assms(2) distinct_card [of "map pi_id peers"] by auto
qed

lemma quorum_majority:
  assumes "configured peers" and "i \<in> ids_of peers" and "V \<subseteq> ids_of peers" and "length peers div 2 + 1 \<le> card V"
  shows "majority (ids_of peers) V"
  using configuredD(4) [OF assms(1,2)] assms(3,4) by (simp add: majority_def)

section \<open>The cluster invariant\<close>

definition ballots_le :: "(int \<times> int \<times> int) set \<Rightarrow> int \<Rightarrow> int \<times> int \<Rightarrow> bool" where
  "ballots_le B i h \<longleftrightarrow> (\<forall>t c. (i, t, c) \<in> B \<longrightarrow> hard_le (t, c) h)"

definition ballots_ok :: "int set \<Rightarrow> (int \<times> int \<times> int) set \<Rightarrow> bool" where
  "ballots_ok ids B \<longleftrightarrow>
     (\<forall>v t c. (v, t, c) \<in> B \<longrightarrow> v \<in> ids \<and> c \<noteq> - 1) \<and>
     (\<forall>v t c d. (v, t, c) \<in> B \<longrightarrow> (v, t, d) \<in> B \<longrightarrow> c = d)"

definition net_ok :: "(int \<times> int \<times> int) set \<Rightarrow> (int \<times> int \<times> raft_rpc) set \<Rightarrow> bool" where
  "net_ok B net \<longleftrightarrow>
     (\<forall>v c r. (v, c, RequestVoteResponse r) \<in> net \<longrightarrow> rvr_vote_granted r \<longrightarrow> \<not> rvr_prevote r \<longrightarrow> c \<noteq> - 1 \<longrightarrow>
        (v, rvr_term r, c) \<in> B)"

definition elected_ok :: "int set \<Rightarrow> (int \<times> int \<times> int) set \<Rightarrow> (int \<times> int) set \<Rightarrow> bool" where
  "elected_ok ids B L \<longleftrightarrow>
     (\<forall>i t. (i, t) \<in> L \<longrightarrow> (\<exists>V. majority ids V \<and> (\<forall>v\<in>V. (v, t, i) \<in> B)))"

fun member_inv ::
  "('db \<Rightarrow> bytes \<Rightarrow> bytes option) \<Rightarrow> entry_codec \<Rightarrow> peer_info list \<Rightarrow> (int \<times> int \<times> int) set \<Rightarrow> int \<Rightarrow> 'db member \<Rightarrow> bool" where
  "member_inv view C peers B i (Up s) \<longleftrightarrow>
     (\<exists>a. node_ok view C s a) \<and> caught_up s \<and> nd_id s = i \<and> nd_peers s = peers \<and> ballots_le B i (nd_hard s) \<and>
     (electing (nd_state s) \<longrightarrow> (\<forall>v\<in>nd_votes s. (v, nd_current_term s, i) \<in> B)) \<and>
     (nd_state s = LEADER \<longrightarrow> QuorumSize s \<le> card (nd_votes s))"
| "member_inv view C peers B i (Down kd ld) \<longleftrightarrow>
     (\<exists>a k. disk_ok view C (ids_of peers) kd ld a k \<and> ballots_le B i (hard_of a))"

definition cluster_inv ::
  "('db \<Rightarrow> bytes \<Rightarrow> bytes option) \<Rightarrow> entry_codec \<Rightarrow> peer_info list \<Rightarrow> 'db cluster \<Rightarrow> bool" where
  "cluster_inv view C peers c \<longleftrightarrow>
     (\<forall>i\<in>ids_of peers. member_inv view C peers (cl_ballots c) i (cl_members c i)) \<and>
     ballots_ok (ids_of peers) (cl_ballots c) \<and> net_ok (cl_ballots c) (cl_net c) \<and>
     elected_ok (ids_of peers) (cl_ballots c) (cl_elected c)"

lemma ballots_le_hard: "ballots_le B i h \<Longrightarrow> hard_le h h' \<Longrightarrow> ballots_le B i h'"
  unfolding ballots_le_def by (blast intro: hard_le_trans)

text \<open>A new ballot of another member changes nothing for this one.\<close>

lemma member_inv_ballot:
  assumes "member_inv view C peers B j m" and "\<forall>b\<in>N. fst b \<noteq> j"
  shows "member_inv view C peers (N \<union> B) j m"
  using assms by (cases m) (force simp: ballots_le_def)+

lemma ballots_ok_add:
  assumes "ballots_ok ids B" and "ballots_le B i (nd_hard s)" and "i \<in> ids"
  shows "ballots_ok ids (ballot i s \<union> B)"
  using assms by (auto simp: ballots_ok_def ballots_le_def ballot_def nd_hard_def)

lemma ballots_le_add: "ballots_le B i (nd_hard s) \<Longrightarrow> ballots_le (ballot i s \<union> B) i (nd_hard s)"
  by (auto simp: ballots_le_def ballot_def nd_hard_def)

lemma net_ok_mono: "net_ok B net \<Longrightarrow> net_ok (N \<union> B) net"
  unfolding net_ok_def by blast

lemma elected_ok_mono: "elected_ok ids B L \<Longrightarrow> elected_ok ids (N \<union> B) L"
  unfolding elected_ok_def by blast

text \<open>Putting a member up: what has to be shown of its new state.\<close>

lemma cluster_inv_set_up:
  assumes inv: "cluster_inv view C peers c" and cf: "configured peers" and i: "i \<in> ids_of peers"
    and s: "node_ok view C s a" "caught_up s" "nd_id s = i" "nd_peers s = peers"
    and le: "ballots_le (cl_ballots c) i (nd_hard s)"
    and votes: "electing (nd_state s) \<Longrightarrow> \<forall>v\<in>nd_votes s. (v, nd_current_term s, i) \<in> ballot i s \<union> cl_ballots c"
    and lead: "nd_state s = LEADER \<Longrightarrow> QuorumSize s \<le> card (nd_votes s)"
    and net: "net_ok (ballot i s \<union> cl_ballots c) (cl_net c \<union> out)"
  shows "cluster_inv view C peers (set_up i s (transmit out c))"
proof -
  let ?B = "ballot i s \<union> cl_ballots c"
  have old: "ballots_ok (ids_of peers) (cl_ballots c)" "elected_ok (ids_of peers) (cl_ballots c) (cl_elected c)"
    and mem: "\<And>j. j \<in> ids_of peers \<Longrightarrow> member_inv view C peers (cl_ballots c) j (cl_members c j)"
    using inv by (auto simp: cluster_inv_def)
  have B: "ballots_ok (ids_of peers) ?B" by (rule ballots_ok_add [OF old(1) le i])
  have "member_inv view C peers ?B j (cl_members c j)" if "j \<in> ids_of peers" "j \<noteq> i" for j
    using that by (intro member_inv_ballot mem) (auto simp: ballot_def)
  moreover have up: "member_inv view C peers ?B i (Up s)"
    using s votes lead ballots_le_add [OF le] by auto
  moreover have "elected_ok (ids_of peers) ?B ((if nd_state s = LEADER then {(i, nd_current_term s)} else {}) \<union> cl_elected c)"
  proof (cases "nd_state s = LEADER")
    case True
    then have v: "\<forall>v\<in>nd_votes s. (v, nd_current_term s, i) \<in> ?B" using up by (simp add: electing_def)
    then have "nd_votes s \<subseteq> ids_of peers" using B by (auto simp: ballots_ok_def)
    then have "majority (ids_of peers) (nd_votes s)"
      using lead [OF True] s(4) by (intro quorum_majority [OF cf i]) (auto simp: QuorumSize_def)
    with v elected_ok_mono [OF old(2), of "ballot i s"] True show ?thesis by (auto simp: elected_ok_def)
  qed (use elected_ok_mono [OF old(2)] in simp)
  ultimately show ?thesis using B net unfolding cluster_inv_def set_up_def transmit_def by simp
qed

lemma cluster_inv_set_down:
  assumes "cluster_inv view C peers c" and "disk_ok view C (ids_of peers) kd ld a k"
    and "ballots_le (cl_ballots c) i (hard_of a)" and "net_ok (cl_ballots c) (cl_net c \<union> out)"
  shows "cluster_inv view C peers (set_down i kd ld (transmit out c))"
  using assms by (auto simp: cluster_inv_def set_down_def transmit_def)

section \<open>Every step keeps the invariant\<close>

lemma sent_vote_event:
  assumes "emitted (vote_event t) s t" and "(v, c, RequestVoteResponse r) \<in> sent i s t" and "rvr_vote_granted r" "\<not> rvr_prevote r"
  shows "v = i \<and> c = nd_voted_for t \<and> rvr_term r = nd_current_term t"
  using assms by (fastforce simp: emitted_def sent_def vote_event_def list_all_iff)

lemma sent_no_vote:
  assumes "emitted no_vote s t" and "(v, c, RequestVoteResponse r) \<in> sent i s t" and "rvr_vote_granted r"
  shows "rvr_prevote r"
  using assms by (fastforce simp: emitted_def sent_def no_vote_def list_all_iff)

lemma op_votes_message:
  "(v, n) \<in> op_votes op \<Longrightarrow>
   \<exists>r. op = OpMessage v (RequestVoteResponse r) \<and> rvr_vote_granted r \<and> \<not> rvr_prevote r \<and> n = rvr_term r"
  by (induction op rule: op_votes.induct) (auto split: if_splits)

lemma operate_inv:
  assumes inv: "cluster_inv view C peers c" and cf: "configured peers" and i: "i \<in> ids_of peers"
    and s: "cl_members c i = Up s" and E: "raft_storage R view C E" and op: "op_from (cl_net c) i op"
    and run: "run_op E op s = Ok () t"
  shows "cluster_inv view C peers (set_up i t (transmit (sent i s t) c))"
proof -
  let ?B = "cl_ballots c" and ?N = "ballot i t"
  have m: "member_inv view C peers ?B i (Up s)" and net: "net_ok ?B (cl_net c)" using inv i s by (auto simp: cluster_inv_def)
  then obtain a where a: "node_ok view C s a" "caught_up s" "nd_id s = i" "nd_peers s = peers" "ballots_le ?B i (nd_hard s)"
    by auto
  have i0: "i \<noteq> - 1" using configuredD(3) [OF cf i] by simp
  have rng: "op_in_range op" using op by (cases op) auto
  have M: "(v, n, i) \<in> ?B" if "(v, n) \<in> op_votes op" for v n
    using op_votes_message [OF that] op net i0 by (auto simp: net_ok_def)
  from raft_storage.steps_run_op [OF E a(1,2) rng] run
  have st: "step_ok view C (op_votes op) s a t" by (simp add: steps_def)
  then obtain a' where a': "node_ok view C t a'" "caught_up t" and v: "vote_le (op_votes op) s t"
    and em: "emitted (vote_event t) s t"
    by (auto simp: step_ok_def)
  note vd = vote_leD [OF v]
  have own: "(i, nd_current_term t, i) \<in> ?N" if "nd_voted_for t = i" using that i0 by (simp add: ballot_def)
  have votes: "\<forall>w\<in>nd_votes t. (w, nd_current_term t, i) \<in> ?N \<union> ?B" if el: "electing (nd_state t)"
    using vd(4) [OF el] vd(1) a(3) m own M by auto
  have lead: "QuorumSize t \<le> card (nd_votes t)" if "nd_state t = LEADER"
    using vd(5) [OF that] m vd(2) by (auto simp: QuorumSize_def)
  have "net_ok (?N \<union> ?B) (cl_net c \<union> sent i s t)"
    using net sent_vote_event [OF em] by (force simp: net_ok_def ballot_def)
  with vd(1,2) a(3,4) votes lead show ?thesis
    by (intro cluster_inv_set_up [OF inv cf i a' _ _ ballots_le_hard [OF a(5) vd(3)]]) simp_all
qed

lemma fail_inv:
  assumes inv: "cluster_inv view C peers c" and i: "i \<in> ids_of peers"
    and s: "cl_members c i = Up s" and E: "raft_storage R view C E" and op: "op_from (cl_net c) i op"
    and run: "run_op E op s = Throw e t"
  shows "cluster_inv view C peers (set_down i (ks_db (nd_sm t)) (rl_db (nd_log t)) (transmit (sent i s t) c))"
proof -
  have "member_inv view C peers (cl_ballots c) i (Up s)" and net: "net_ok (cl_ballots c) (cl_net c)"
    using inv i s by (auto simp: cluster_inv_def)
  then obtain a where a: "node_ok view C s a" "caught_up s" "nd_peers s = peers" "ballots_le (cl_ballots c) i (nd_hard s)" by auto
  have rng: "op_in_range op" using op by (cases op) auto
  from raft_storage.steps_run_op [OF E a(1,2) rng] run have "dead view C s a t" by (simp add: steps_def)
  then obtain b k where d: "disk_ok view C (ids_of peers) (ks_db (nd_sm t)) (rl_db (nd_log t)) b k"
    "hard_le (nd_hard s) (hard_of b)" and em: "emitted no_vote s t"
    using a(3) by (auto simp: dead_def)
  have "net_ok (cl_ballots c) (cl_net c \<union> sent i s t)"
    using net sent_no_vote [OF em] by (fastforce simp: net_ok_def)
  then show ?thesis by (rule cluster_inv_set_down [OF inv d(1) ballots_le_hard [OF a(4) d(2)]])
qed

lemma transmit_none: "transmit {} c = c"
  by (simp add: transmit_def)

lemma crash_inv:
  assumes inv: "cluster_inv view C peers c" and i: "i \<in> ids_of peers" and s: "cl_members c i = Up s"
  shows "cluster_inv view C peers (set_down i (ks_db (nd_sm s)) (rl_db (nd_log s)) c)"
proof -
  have "member_inv view C peers (cl_ballots c) i (Up s)" and net: "net_ok (cl_ballots c) (cl_net c \<union> {})"
    using inv i s by (auto simp: cluster_inv_def)
  then obtain a where a: "node_ok view C s a" "nd_peers s = peers" "ballots_le (cl_ballots c) i (nd_hard s)" by auto
  obtain k where "disk_ok view C (ids_of peers) (ks_db (nd_sm s)) (rl_db (nd_log s)) a k"
    using node_ok_disk [OF a(1)] a(2) by blast
  moreover have "hard_of a = nd_hard s" using a(1) by (simp add: node_ok_def log_part_def)
  ultimately show ?thesis using cluster_inv_set_down [OF inv _ _ net] a(3) by (simp add: transmit_none)
qed

lemma reopen_inv:
  assumes inv: "cluster_inv view C peers c" and i: "i \<in> ids_of peers" and d: "cl_members c i = Down kd ld"
    and v: "view kd' = view kd" "view ld' = view ld"
  shows "cluster_inv view C peers (set_down i kd' ld' c)"
proof -
  have "member_inv view C peers (cl_ballots c) i (Down kd ld)" and net: "net_ok (cl_ballots c) (cl_net c \<union> {})"
    using inv i d by (auto simp: cluster_inv_def)
  then obtain a k where "disk_ok view C (ids_of peers) kd ld a k" "ballots_le (cl_ballots c) i (hard_of a)" by auto
  then show ?thesis
    using cluster_inv_set_down [OF inv _ _ net, of kd' ld' a k i] v by (simp add: transmit_none disk_ok_def kv_ok_def)
qed

context raft_storage
begin

lemma opened_disk:
  assumes d: "disk_ok view C ids kd ld a k" and m: "RocksDBStore_open R kd = Inr m"
  shows "kv_ok view m" "ks_last_applied m = k"
proof -
  from open_kv_ok [OF m] show "kv_ok view m" by simp
  then show "ks_last_applied m = k"
    using open_kv_ok [OF m] d kv_ok_same_view [of m "\<lparr>ks_db = kd, ks_last_applied = k\<rparr>"] by (simp add: disk_ok_def)
qed

lemma wp_restart:
  assumes cf: "configured peers" and i: "i \<in> ids_of peers" and d: "disk_ok view C (ids_of peers) kd ld a k"
    and m: "RocksDBStore_open R kd = Inr m" and l: "fst (db_open R ld) = St_ok"
  shows "wp (RaftNode_new E i peers (m, ld))
     (\<lambda>s _. restarted view C i peers a k s)
     (\<lambda>_ (m', d'). \<exists>a' k. disk_ok view C (ids_of peers) (ks_db m') d' a' k \<and> still log_saves a a')"
proof -
  have a: "alog_ok a" "represents C (view ld) a" "agrees (ids_of peers) a (ks_last_applied m)" "ks_last_applied m = k"
    using d opened_disk [OF d m] by (auto simp: disk_ok_def)
  show ?thesis
    by (rule wp_mono [OF wp_RaftNode_new [OF configuredD(1,2) [OF cf i] a(1,2) opened_disk(1) [OF d m] a(3) l]])
      (use a(4) in auto)
qed

end

lemma restart_inv:
  assumes inv: "cluster_inv view C peers c" and cf: "configured peers" and i: "i \<in> ids_of peers"
    and d: "cl_members c i = Down kd ld" and E: "raft_storage R view C E" and m: "RocksDBStore_open R kd = Inr m"
    and l: "fst (db_open R ld) = St_ok"
  shows "RaftNode_new E i peers (m, ld) = Ok s sd \<Longrightarrow> cluster_inv view C peers (set_up i s c)"
    and "RaftNode_new E i peers (m, ld) = Throw e (m', d') \<Longrightarrow> cluster_inv view C peers (set_down i (ks_db m') d' c)"
proof -
  have "member_inv view C peers (cl_ballots c) i (Down kd ld)" and net: "net_ok (cl_ballots c) (cl_net c \<union> {})"
    using inv i d by (auto simp: cluster_inv_def)
  then obtain a k where a: "disk_ok view C (ids_of peers) kd ld a k" "ballots_le (cl_ballots c) i (hard_of a)" by auto
  note wp = raft_storage.wp_restart [OF E cf i a(1) m l]
  {
    assume "RaftNode_new E i peers (m, ld) = Ok s sd"
    with wp have r: "restarted view C i peers a k s" by simp
    then obtain b where "node_ok view C s b" by (auto simp: restarted_def)
    then have "cluster_inv view C peers (set_up i s (transmit {} c))"
      using r a(2) net_ok_mono [OF net, of "ballot i s"]
      by (intro cluster_inv_set_up [OF inv cf i]) (auto simp: restarted_def electing_def)
    then show "cluster_inv view C peers (set_up i s c)" by (simp add: transmit_none)
  next
    assume "RaftNode_new E i peers (m, ld) = Throw e (m', d')"
    with wp obtain b n where "disk_ok view C (ids_of peers) (ks_db m') d' b n" "still log_saves a b" by auto
    then show "cluster_inv view C peers (set_down i (ks_db m') d' c)"
      using cluster_inv_set_down [OF inv _ _ net, of "ks_db m'" d' b n i] a(2) by (simp add: transmit_none still_def)
  }
qed

lemma cluster_step_inv:
  assumes "cluster_step view C peers c d" and "configured peers" and "cluster_inv view C peers c"
  shows "cluster_inv view C peers d"
  using assms
proof (induction rule: cluster_step.induct)
  case (operate i c s R E op t)
  then show ?case by (blast intro: operate_inv)
next
  case (fail i c s R E op e t)
  then show ?case by (blast intro: fail_inv)
next
  case (crash i c s)
  then show ?case by (blast intro: crash_inv)
next
  case (reopen i c kd ld kd' ld')
  then show ?case by (blast intro: reopen_inv)
next
  case (restart i c kd ld R E m s sd)
  then show ?case by (blast intro: restart_inv)
next
  case (restart_fails i c kd ld R E m e m' d')
  then show ?case by (blast intro: restart_inv)
qed

lemma cluster_init_inv:
  assumes "cluster_init view C peers c"
  shows "cluster_inv view C peers c"
  unfolding cluster_inv_def
proof (intro conjI ballI)
  fix i assume "i \<in> ids_of peers"
  then obtain kd ld a k where "cl_members c i = Down kd ld" "disk_ok view C (ids_of peers) kd ld a k"
    using assms unfolding cluster_init_def by blast
  then show "member_inv view C peers (cl_ballots c) i (cl_members c i)"
    using assms by (auto simp: cluster_init_def ballots_le_def)
qed (use assms in \<open>simp_all add: cluster_init_def ballots_ok_def net_ok_def elected_ok_def\<close>)

lemma cluster_steps_inv:
  assumes "(cluster_step view C peers)\<^sup>*\<^sup>* c d" and "configured peers" and "cluster_inv view C peers c"
  shows "cluster_inv view C peers d"
  using assms by (induction rule: rtranclp_induct) (blast intro: cluster_step_inv)+

text \<open>The history only grows, and it records the leaders.\<close>

lemma elected_step_grows: "cluster_step view C peers c d \<Longrightarrow> cl_elected c \<subseteq> cl_elected d"
  by (induction rule: cluster_step.induct) (simp_all add: set_up_def set_down_def transmit_def)

lemma elected_grows: "(cluster_step view C peers)\<^sup>*\<^sup>* c d \<Longrightarrow> cl_elected c \<subseteq> cl_elected d"
  by (induction rule: rtranclp_induct) (blast dest: elected_step_grows)+

definition elected_members :: "peer_info list \<Rightarrow> 'db cluster \<Rightarrow> bool" where
  "elected_members peers c \<longleftrightarrow>
     (\<forall>i\<in>ids_of peers. \<forall>s. cl_members c i = Up s \<longrightarrow> nd_state s = LEADER \<longrightarrow> (i, nd_current_term s) \<in> cl_elected c)"

lemma elected_step: "cluster_step view C peers c d \<Longrightarrow> elected_members peers c \<Longrightarrow> elected_members peers d"
  by (induction rule: cluster_step.induct) (simp_all add: elected_members_def set_up_def set_down_def transmit_def)

lemma elected_steps: "(cluster_step view C peers)\<^sup>*\<^sup>* c d \<Longrightarrow> elected_members peers c \<Longrightarrow> elected_members peers d"
  by (induction rule: rtranclp_induct) (blast intro: elected_step)+

lemma one_elected:
  assumes "cluster_inv view C peers c" and "(i, t) \<in> cl_elected c" and "(j, t) \<in> cl_elected c"
  shows "i = j"
proof -
  have el: "elected_ok (ids_of peers) (cl_ballots c) (cl_elected c)" and B: "ballots_ok (ids_of peers) (cl_ballots c)"
    using assms(1) by (simp_all add: cluster_inv_def)
  obtain V where V: "majority (ids_of peers) V" "\<forall>v\<in>V. (v, t, i) \<in> cl_ballots c"
    using el assms(2) unfolding elected_ok_def by blast
  obtain W where W: "majority (ids_of peers) W" "\<forall>v\<in>W. (v, t, j) \<in> cl_ballots c"
    using el assms(3) unfolding elected_ok_def by blast
  show ?thesis
  proof (rule majorities.one_winner [OF V(1) W(1), where cast = "\<lambda>v x. (v, t, x) \<in> cl_ballots c"])
    show "a = b" if "(v, t, a) \<in> cl_ballots c" "(v, t, b) \<in> cl_ballots c" for v a b
      using B that unfolding ballots_ok_def by blast
  qed (use V W in blast)+
qed

section \<open>A run that elects a leader\<close>

text \<open>A cluster of one member: it starts on empty databases, and its first timer tick makes it leader.\<close>

definition lone_peers :: "peer_info list" where
  "lone_peers = [\<lparr>pi_id = 0, pi_host = ''a'', pi_raft_port = 9080\<rparr>]"

definition lone_cluster :: "memdb cluster" where
  "lone_cluster = \<lparr>cl_members = (\<lambda>i. Down mem_empty mem_empty), cl_net = {}, cl_ballots = {}, cl_elected = {}\<rparr>"

definition clock_env :: "int \<Rightarrow> memdb raft_env" where
  "clock_env c = demo_env\<lparr>en_clock := (\<lambda>n. c), en_executor := True\<rparr>"

lemma clock_env_simps [simp]:
  "en_rocks (clock_env c) = mem_ops" "en_codec (clock_env c) = demo_codec" "en_clock (clock_env c) n = c"
  "en_steady (clock_env c) n = 0" "en_rand (clock_env c) n = 150" "en_executor (clock_env c) = True"
  "en_submit_ok (clock_env c) n = True"
  by (simp_all add: clock_env_def demo_env_def)

interpretation clockraft: raft_storage mem_ops mem_view demo_codec "clock_env c" for c
  by unfold_locales simp_all

definition lone_node :: "memdb node" where
  "lone_node = new_node 0 lone_peers empty_store (new_log mem_empty) 0 (- 1)"

lemma lone_node_simps [simp]:
  "nd_id lone_node = 0" "nd_peers lone_node = lone_peers" "nd_current_term lone_node = 0" "nd_voted_for lone_node = - 1"
  "nd_state lone_node = FOLLOWER" "nd_commit_index lone_node = 0" "nd_last_applied lone_node = 0" "nd_running lone_node = False"
  "nd_apply_inflight lone_node = False" "nd_oracle lone_node = 0" "nd_inflight lone_node = peer_map lone_peers no_flight"
  "nd_pending lone_node = []" "nd_reads lone_node = new_reads" "nd_events lone_node = []"
  "nd_snapshot_receive lone_node = no_receive" "nd_leader_id lone_node = - 1" "nd_snapshot_threshold lone_node = 0"
  "nd_log lone_node = new_log mem_empty" "nd_storage_healthy lone_node" "nd_pending_bytes lone_node = 0" "nd_votes lone_node = {}"
  by (simp_all add: lone_node_def new_node_def empty_store_def)

lemma lone_restart: "RaftNode_new (clock_env c) 0 lone_peers (empty_store, mem_empty) = Ok lone_node (empty_store, mem_empty)"
proof -
  have "ValidatePeers 0 lone_peers = Inr ()" by code_simp
  moreover have "RaftLog_open mem_ops demo_codec mem_empty = Ok (new_log mem_empty) mem_empty" by code_simp
  moreover have "LoadHardState mem_ops (new_log mem_empty) = Inr (False, 0, - 1)" by code_simp
  moreover have "LoadPendingSnapshot mem_ops (new_log mem_empty) = Inr None" by code_simp
  ultimately show ?thesis
    by (simp add: RaftNode_new_def replay_pending_def liftR_def lone_node_def) (simp add: new_log_def empty_store_def)
qed

lemmas clock_reads = ask_def Now_def ResetElectionTimer_def SteadyNow_def

definition started_node :: "memdb node" where
  "started_node = lone_node\<lparr>nd_running := True, nd_election_deadline := 150000000, nd_oracle := 2\<rparr>"

lemma lone_start: "run_op (clock_env 0) OpStart lone_node = Ok () started_node"
proof -
  have "FailPending m s = s" if "nd_pending s = []" "nd_pending_bytes s = 0" for m and s :: "memdb node"
    using that by (simp add: FailPending_def)
  moreover have "ClearReadIndexQueues m s = s" if "nd_reads s = new_reads" for m and s :: "memdb node"
    using that by (simp add: ClearReadIndexQueues_def new_reads_def upd_reads_def Let_def)
  moreover have "(\<lambda>i. map_option (\<lambda>_. no_flight) (peer_map ps no_flight i)) = peer_map ps no_flight" for ps
    by (auto simp: peer_map_def)
  ultimately show ?thesis
    by (simp add: Start_def BecomeFollower_def ApplyCommitted_def clock_reads MaybeSnapshot_def upd_reads_def started_node_def)
      (simp add: lone_node_def new_node_def new_reads_def)
qed

text \<open>The node of the new leader just before and after it commits its first entry.\<close>

definition proposed_node :: "memdb node" where
  "proposed_node = started_node\<lparr>nd_current_term := 1, nd_voted_for := 0, nd_state := LEADER, nd_votes := {0},
     nd_leader_id := 0, nd_next_index := [0 \<mapsto> 1], nd_match_index := [0 \<mapsto> 1], nd_inflight := [0 \<mapsto> no_flight],
     nd_heartbeat_timer_ms := 50, nd_election_deadline := 1150000000, nd_log := led_log, nd_oracle := 8,
     nd_metrics := new_metrics\<lparr>nm_leader_log_write :=
       Batch_Observe (ElapsedMicros 0 0) 1 0 (nm_leader_log_write new_metrics), nm_proposal_batches := 1\<rparr>,
     nd_pending := [(1, \<lparr>pd_callback = None, pd_bytes = 0, pd_created_at = 1000000000\<rparr>)]\<rparr>"

definition committed_node :: "memdb node" where
  "committed_node = proposed_node\<lparr>nd_commit_index := 1, nd_apply_inflight := True, nd_oracle := 9,
     nd_job := Some \<lparr>aj_first = 1, aj_commands = [[]], aj_bytes = 0, aj_result = None, aj_work_us = 0, aj_finished = 0\<rparr>\<rparr>"

lemma proposed_node_simps [simp]:
  "nd_peers proposed_node = lone_peers" "nd_match_index proposed_node = [0 \<mapsto> 1]" "nd_commit_index proposed_node = 0"
  "nd_log proposed_node = led_log" "nd_current_term proposed_node = 1" "nd_apply_inflight proposed_node = False"
  "nd_last_applied proposed_node = 0" "nd_running proposed_node" "nd_oracle proposed_node = 8"
  by (simp_all add: proposed_node_def started_node_def)

lemma committed_node_simps [simp]:
  "nd_oracle committed_node = 9" "nd_peer_active committed_node = Map.empty" "nd_id committed_node = 0"
  "nd_state committed_node = LEADER" "nd_inflight committed_node = [0 \<mapsto> no_flight]" "nd_heartbeat_timer_ms committed_node = 50"
  "nd_peers committed_node = lone_peers" "nd_reads committed_node = new_reads" "nd_running committed_node"
  "nd_pending committed_node = [(1, \<lparr>pd_callback = None, pd_bytes = 0, pd_created_at = 1000000000\<rparr>)]"
  "nd_commit_index committed_node = 1" "nd_current_term committed_node = 1"
  by (simp_all add: committed_node_def proposed_node_def started_node_def)
    (simp_all add: lone_node_def new_node_def)

lemma led_log_reads:
  "GetTerm mem_ops demo_codec led_log 1 = Inr 1" "Log_Get mem_ops demo_codec led_log 1 = Inr (Some (demo_entry 1 1 []))"
  using memlog.GetTerm_ok [OF led_log_rel(1) mem_reads_ok [OF led_log_rel(2)], of 1]
    memlog.Log_Get_ok [OF led_log_rel(1) mem_reads_ok [OF led_log_rel(2)], of 1]
  by (simp_all add: al_get_term_def al_get_def led_alog_def demo_alog_def demo_entry_def al_last_def)

lemma lone_commit: "AdvanceCommitIndex (clock_env c) proposed_node = Ok () committed_node"
  by (simp add: AdvanceCommitIndex_def lone_peers_def at_key_def liftR_def QuorumSize_def LogTerm_def led_log_reads
      ApplyCommitted_def submit_apply_def ask_def committed_node_def demo_entry_def)

lemma lone_election:
  "BecomePreCandidate (clock_env 1000000000) (started_node\<lparr>nd_oracle := 3\<rparr>) =
   Ok () (committed_node\<lparr>nd_leader_since := 1000000000, nd_peer_active := [0 \<mapsto> 1000000000], nd_oracle := 11\<rparr>)"
proof -
  obtain l where l: "SaveHardState mem_ops 1 0 (new_log mem_empty) = Ok () l" "rl_last_index l = 0"
    "AppendBatch mem_ops demo_codec [\<lparr>le_index = 1, le_term = 1, le_command = []\<rparr>] l = Ok () led_log"
    by (simp add: led_log_def SaveHardState_def mem_put_ok new_log_def mem_empty_def AppendBatch_def demo_entry_def
        demo_codec_def log_write_def mem_write_ok)
  have q: "QuorumSize s = 1" if "nd_peers s = lone_peers" for s :: "memdb node"
    using that by (simp add: QuorumSize_def lone_peers_def)
  have ap: "append_own (clock_env 1000000000) [\<lparr>le_index = 1, le_term = 1, le_command = []\<rparr>] 0 s =
      Ok () (s\<lparr>nd_log := led_log, nd_oracle := nd_oracle s + 2, nd_metrics := (nd_metrics s)\<lparr>nm_leader_log_write :=
        Batch_Observe (ElapsedMicros 0 0) 1 0 (nm_leader_log_write (nd_metrics s))\<rparr>\<rparr>)"
    if "nd_log s = l" for s :: "memdb node"
    using that l(3) by (simp add: append_own_def clock_reads on_log_def upd_metrics_def)
  have lone: "(peer_map [\<lparr>pi_id = 0, pi_host = ''a'', pi_raft_port = 9080\<rparr>] x)(0 \<mapsto> y) = [0 \<mapsto> y]" for x y :: 'z
    by (auto simp: peer_map_def)
  have "nm_proposal_batches new_metrics = 0" by (simp add: new_metrics_def)
  with lone_commit [of 1000000000, unfolded proposed_node_def started_node_def lone_node_def new_node_def, simplified]
  show ?thesis
    apply (simp add: started_node_def BecomePreCandidate_def BecomeCandidate_def q clock_reads on_log_def l)
    apply (simp add: BecomeLeader_def Propose_def ProposeBatch_def Let_def override_on_def LastIndex_def IsLeader_def
        upd_reads_def upd_metrics_def l add_pending_def clock_reads map_emplace_def new_entries_def
        BroadcastAppendEntries_def lone_peers_def del: lone_node_simps)
    apply (simp add: lone_node_def new_node_def ap lone_peers_def NotePeerContact_def clock_reads new_reads_def lone)
    done
qed

lemma lone_tick: "\<exists>t. run_op (clock_env 1000000000) OpTick started_node = Ok () t \<and> IsLeader t"
proof -
  have "\<exists>t. leader_tick (clock_env 1000000000)
      (committed_node\<lparr>nd_leader_since := 1000000000, nd_peer_active := [0 \<mapsto> 1000000000], nd_oracle := 11\<rparr>) = Ok () t \<and> IsLeader t"
    by (simp add: leader_tick_def Let_def lone_peers_def CheckReadIndexTimeout_def clock_reads new_reads_def set_completing_def
        upd_reads_def timeout_reads_def FinishReadIndexRounds_def TryStartReadRound_def MaybeSendReadProbes_def CheckQuorum_def
        NotePeerContact_def QuorumSize_def IsLeader_def ExpireUncommittedProposals_def expired_def upd_metrics_def)
  with lone_election show ?thesis by (simp add: Tick_def clock_reads started_node_def)
qed

lemma lone_cluster_init: "cluster_init mem_view demo_codec lone_peers lone_cluster"
proof -
  have "disk_ok mem_view demo_codec ids mem_empty mem_empty demo_alog 0" for ids
    using demo_log_rel
    by (auto simp: disk_ok_def log_rel_def new_log_def kv_ok_def agrees_def hard_of_def demo_alog_def al_last_def
        al_last_term_def mem_empty_def mem_view_def mem_canon_def fun_eq_iff)
  then show ?thesis by (auto simp: cluster_init_def lone_cluster_def)
qed

lemma lone_elects:
  "\<exists>c s. (cluster_step mem_view demo_codec lone_peers)\<^sup>*\<^sup>* lone_cluster c \<and> cl_members c 0 = Up s \<and> IsLeader s"
proof -
  obtain t where t: "run_op (clock_env 1000000000) OpTick started_node = Ok () t" "IsLeader t" using lone_tick by blast
  let ?step = "cluster_step mem_view demo_codec lone_peers"
  let ?c1 = "set_up 0 lone_node lone_cluster"
  let ?c2 = "set_up 0 started_node (transmit (sent 0 lone_node started_node) ?c1)"
  have i: "0 \<in> ids_of lone_peers" by (simp add: lone_peers_def)
  have kd: "RocksDBStore_open mem_ops mem_empty = Inr empty_store" by code_simp
  have ld: "fst (db_open mem_ops mem_empty) = St_ok" by code_simp
  have "?step lone_cluster ?c1"
    by (rule cluster_step.restart [OF i _ clockraft.raft_storage_axioms kd ld lone_restart]) (simp add: lone_cluster_def)
  moreover have "?step ?c1 ?c2"
    by (rule cluster_step.operate [OF i _ clockraft.raft_storage_axioms _ lone_start]) (simp_all add: set_up_def)
  moreover have "?step ?c2 (set_up 0 t (transmit (sent 0 started_node t) ?c2))"
    by (rule cluster_step.operate [OF i _ clockraft.raft_storage_axioms _ t(1)]) (simp_all add: set_up_def)
  ultimately have "?step\<^sup>*\<^sup>* lone_cluster (set_up 0 t (transmit (sent 0 started_node t) ?c2))"
    by (meson rtranclp.rtrancl_refl rtranclp.rtrancl_into_rtrancl)
  with t(2) show ?thesis by (intro exI conjI) (auto simp: set_up_def)
qed

text \<open>
  C2. Election safety. In every run of a cluster from databases of an earlier life, over a network that
  loses, delays, duplicates and reorders messages, with storage failures, crashes and restarts of any
  member at any time: if a member is leader of a term at one point and a member is leader of the same
  term at that or a later point, they are the same member.
\<close>

theorem election_safety:
  assumes "configured peers" and "cluster_init view C peers c0"
    and "(cluster_step view C peers)\<^sup>*\<^sup>* c0 c" and "(cluster_step view C peers)\<^sup>*\<^sup>* c d"
    and "i \<in> ids_of peers" "cl_members c i = Up s" "IsLeader s"
    and "j \<in> ids_of peers" "cl_members d j = Up t" "IsLeader t"
    and "nd_current_term s = nd_current_term t"
  shows "i = j"
proof -
  have "elected_members peers c0" using assms(2) by (force simp: elected_members_def cluster_init_def)
  then have "elected_members peers c" "elected_members peers d" using assms(3,4) by (blast intro: elected_steps)+
  then have "(i, nd_current_term t) \<in> cl_elected d" "(j, nd_current_term t) \<in> cl_elected d"
    using assms(5-11) elected_grows [OF assms(4)] unfolding elected_members_def IsLeader_def by (metis subsetD)+
  moreover have "cluster_inv view C peers d"
    using cluster_steps_inv [OF _ assms(1) cluster_init_inv [OF assms(2)]] assms(3,4) by (meson rtranclp_trans)
  ultimately show ?thesis by (rule one_elected [rotated])
qed

theorem election_safety_witness:
  "\<exists>c s i. (cluster_step mem_view demo_codec lone_peers)\<^sup>*\<^sup>* lone_cluster c \<and>
     i \<in> ids_of lone_peers \<and> cl_members c i = Up s \<and> IsLeader s \<and> i = 0"
proof -
  have cf: "configured lone_peers" by code_simp
  have i: "0 \<in> ids_of lone_peers" by (simp add: lone_peers_def)
  obtain c s where c: "(cluster_step mem_view demo_codec lone_peers)\<^sup>*\<^sup>* lone_cluster c" "cl_members c 0 = Up s" "IsLeader s"
    using lone_elects by blast
  from election_safety [OF cf lone_cluster_init c(1) rtranclp.rtrancl_refl i c(2,3) i c(2,3) refl] c i show ?thesis by blast
qed

end
