(* ===== verification/MetricsText.thy ===== *)
theory MetricsText
  imports Policies
begin

text \<open>
  The text that the metrics port serves (\<open>src/src/common/prometheus_text.h\<close>): the classification of
  an HTTP request, the conversion of the \<open>INFO\<close> field list to the Prometheus exposition format, the
  health report and the HTTP response. The lemmas show that a request is classified once and for all,
  that every line of the exposition is well formed whatever the fields hold, and that every integer
  field is exported with its value.
\<close>

section \<open>Fields\<close>

datatype metrics_request_kind = Incomplete | MetricsOk | Health | NotFound | MethodNotAllowed | BadRequest

definition EndsWith :: "string \<Rightarrow> string \<Rightarrow> bool" where
  "EndsWith text suffix \<longleftrightarrow> length text \<ge> length suffix \<and> drop (length text - length suffix) text = suffix"

definition isalpha :: "char \<Rightarrow> bool" where
  "isalpha c \<longleftrightarrow> 65 \<le> (of_char c :: nat) \<and> (of_char c :: nat) \<le> 90 \<or> 97 \<le> (of_char c :: nat) \<and> (of_char c :: nat) \<le> 122"

definition IsIntegerField :: "string \<Rightarrow> bool" where
  "IsIntegerField text =
     (case text of
        [] \<Rightarrow> False
      | c # rest \<Rightarrow> (let digits = (if c = CHR ''-'' then rest else text) in digits \<noteq> [] \<and> list_all is_digit digits))"

definition IsCumulativeField :: "string \<Rightarrow> bool" where
  "IsCumulativeField key \<longleftrightarrow>
     \<not> (key = ''queued_write_bytes'' \<or> key = ''pending_proposal_bytes'' \<or>
        key = ''client_input_bytes'' \<or> key = ''client_output_reserved_bytes'') \<and>
     (EndsWith key ''_count'' \<or> EndsWith key ''_total_us'' \<or> EndsWith key ''_entries'' \<or> EndsWith key ''_bytes'' \<or>
      key = ''replication_retry_attempts'' \<or> key = ''proposal_timeouts'' \<or>
      key = ''read_index_total'' \<or> key = ''read_index_succeeded'' \<or>
      key = ''read_index_timeout'' \<or> key = ''read_index_not_leader'' \<or>
      key = ''read_index_overload'' \<or> key = ''read_index_lease'' \<or>
      key = ''overload_rejections'' \<or> key = ''flush_immediate_scheduled'' \<or>
      key = ''flush_delayed_scheduled'' \<or> key = ''flush_promotions'' \<or>
      key = ''proposal_batches'' \<or> key = ''apply_batches'')"

definition FieldHelp :: "string \<Rightarrow> string" where
  "FieldHelp key =
     (if key = ''node_id'' then ''This process'' @ [QUOTE] @ ''s Raft node id.''
      else if key = ''leader_id'' then ''Current leader id, or -1 when this node does not know one.''
      else if key = ''term'' then ''Current Raft term.''
      else if key = ''commit_index'' then ''Highest log index known to be committed.''
      else if key = ''last_applied'' then ''Highest log index applied to the state machine.''
      else if key = ''apply_lag'' then ''Committed entries not yet applied (commit_index - last_applied).''
      else if key = ''overload_rejections'' then ''Admission failures that rejected a request or closed a connection.''
      else if key = ''snapshot_index'' then ''Last included index of the latest snapshot, or 0 when none exists.''
      else if EndsWith key ''_total_us'' then ''Sum of successful stage samples, in microseconds, since process start.''
      else if EndsWith key ''_max_us'' then ''Largest successful stage sample, in microseconds, since process start.''
      else if EndsWith key ''_avg_us'' then ''Integer-truncated mean of successful stage samples, in microseconds.''
      else if EndsWith key ''_count'' then ''Successful stage samples since process start.''
      else ''INFO field exported for scraping.'')"

definition ValidMetricKey :: "string \<Rightarrow> bool" where
  "ValidMetricKey key \<longleftrightarrow>
     \<not> (key = [] \<or> \<not> isalpha (hd key)) \<and> list_all (\<lambda>ch. isalpha ch \<or> is_digit ch \<or> ch = CHR ''_'') key"

section \<open>The exposition\<close>

definition kRoles :: "string list" where
  "kRoles = [''leader'', ''follower'', ''candidate'', ''pre-candidate'', ''stopped'']"

definition role_sample :: "string \<Rightarrow> string \<Rightarrow> bytes" where
  "role_sample v role =
     ''raftkv_role{role='' @ [CHR 0x22] @ role @ [CHR 0x22] @ ''} '' @ (if v = role then ''1'' else ''0'') @ [LF]"

definition role_block :: "string \<Rightarrow> bytes" where
  "role_block v =
     ''# HELP raftkv_role Current Raft role. One known role is 1.'' @ [LF] @
     ''# TYPE raftkv_role gauge'' @ [LF] @ concat (map (role_sample v) kRoles)"

definition field_block :: "string \<Rightarrow> string \<Rightarrow> bytes" where
  "field_block key v =
     ''# HELP raftkv_'' @ key @ '' '' @ FieldHelp key @ [LF] @ ''# TYPE raftkv_'' @ key @
     (if IsCumulativeField key then '' counter'' else '' gauge'') @ [LF] @
     ''raftkv_'' @ key @ '' '' @ v @ [LF]"

definition prometheus_line :: "bytes \<Rightarrow> bytes" where
  "prometheus_line line =
     (let line = (if line \<noteq> [] \<and> last line = CR then butlast line else line) in
      case find_pos line '':'' 0 of
        None \<Rightarrow> []
      | Some colon \<Rightarrow>
          if colon = 0 then []
          else
            (let key = substr line 0 colon; v = drop (colon + 1) line in
             if key = ''namespace'' then []
             else if key = ''state'' then role_block v
             else if \<not> ValidMetricKey key \<or> \<not> IsIntegerField v then []
             else field_block key v))"

text \<open>The loop of \<open>PrometheusText\<close> from position \<open>pos\<close>; it ends because every turn moves \<open>pos\<close> on.\<close>

function prometheus_loop :: "bytes \<Rightarrow> nat \<Rightarrow> bytes" where
  "prometheus_loop info pos =
     (if pos < length info then
        (let e = (case find_pos info [LF] pos of None \<Rightarrow> length info | Some e \<Rightarrow> e) in
         prometheus_line (substr info pos (e - pos)) @
         prometheus_loop info (e + (if e < length info then 1 else 0)))
      else [])"
  by pat_completeness auto

lemma find_pos_inside: "find_pos s p pos = Some e \<Longrightarrow> pos \<le> e \<and> e + length p \<le> length s"
  by (auto simp: find_pos_def split: if_splits dest: find_from_Some_le)

termination prometheus_loop
proof (relation "measure (\<lambda>(info, pos). length info - pos)")
  fix info pos e
  assume "pos < length info" and "e = (case find_pos info [LF] pos of None \<Rightarrow> length info | Some e \<Rightarrow> e)"
  then have "pos < e + (if e < length info then 1 else 0)"
    using find_pos_inside [of info "[LF]" pos] by (auto split: option.splits)
  with \<open>pos < length info\<close>
  show "((info, e + (if e < length info then 1 else 0)), info, pos) \<in> measure (\<lambda>(info, pos). length info - pos)" by simp
qed simp

declare prometheus_loop.simps [simp del]

definition PrometheusText :: "bytes \<Rightarrow> bytes" where
  "PrometheusText info = prometheus_loop info 0"

section \<open>Requests and responses\<close>

definition ClassifyMetricsRequest :: "bytes \<Rightarrow> metrics_request_kind" where
  "ClassifyMetricsRequest raw =
     (case find_pos raw (CRLF @ CRLF) 0 of
        None \<Rightarrow> Incomplete
      | Some _ \<Rightarrow>
     (case find_pos raw CRLF 0 of
        None \<Rightarrow> BadRequest
      | Some line_end \<Rightarrow>
          if line_end = 0 then BadRequest
          else
            (let line = substr raw 0 line_end in
             case find_pos line '' '' 0 of
               None \<Rightarrow> BadRequest
             | Some method_end \<Rightarrow>
                 if method_end = 0 then BadRequest
                 else case find_pos line '' '' (method_end + 1) of
                   None \<Rightarrow> BadRequest
                 | Some path_end \<Rightarrow>
                     (let meth = substr line 0 method_end;
                          target = substr line (method_end + 1) (path_end - method_end - 1);
                          version = drop (path_end + 1) line in
                      if version \<noteq> ''HTTP/1.0'' \<and> version \<noteq> ''HTTP/1.1'' then BadRequest
                      else
                        (let target = (case find_pos target ''?'' 0 of None \<Rightarrow> target | Some q \<Rightarrow> substr target 0 q) in
                         if meth \<noteq> ''GET'' then MethodNotAllowed
                         else if target = ''/health'' then Health
                         else if target \<noteq> ''/metrics'' then NotFound
                         else MetricsOk)))))"

definition HealthText :: "int \<Rightarrow> string \<Rightarrow> int \<Rightarrow> int \<Rightarrow> bool \<Rightarrow> bool \<Rightarrow> bytes" where
  "HealthText node_id state t leader_id healthy storage_healthy =
     (if healthy then ''ok'' else ''unavailable'') @ [LF] @
     ''node_id:'' @ to_string node_id @ [LF] @ ''state:'' @ state @ [LF] @ ''term:'' @ to_string t @ [LF] @
     ''leader_id:'' @ to_string leader_id @ [LF] @
     ''storage_healthy:'' @ to_string (if storage_healthy then 1 else 0) @ [LF]"

definition MetricsHttpResponse :: "int \<Rightarrow> string \<Rightarrow> bytes \<Rightarrow> string \<Rightarrow> bytes" where
  "MetricsHttpResponse status reason body content_type =
     ''HTTP/1.1 '' @ to_string status @ '' '' @ reason @ CRLF @
     ''Content-Type: '' @ content_type @ CRLF @
     ''Content-Length: '' @ to_string_nat (length body) @ CRLF @ ''Connection: close'' @ CRLF @ CRLF @ body"

section \<open>A request is classified once\<close>

lemma find_from_part: "find_from (p @ q) s = Some i \<Longrightarrow> \<exists>j. find_from p s = Some j"
proof (induction s arbitrary: i)
  case (Cons c s)
  show ?case
  proof (cases "take (length (p @ q)) (c # s) = p @ q")
    case True
    have "take (length p) (c # s) = take (length p) (take (length (p @ q)) (c # s))" unfolding take_take by simp
    also have "\<dots> = p" unfolding True by simp
    finally show ?thesis by simp
  next
    case False
    with Cons show ?thesis by auto
  qed
qed (auto split: if_splits)

text \<open>
  C37. The verdict on a request is final. As soon as the header block of a request has arrived it is
  classified, and no bytes that arrive later change the verdict.
\<close>

theorem ClassifyMetricsRequest_final:
  assumes "ClassifyMetricsRequest raw \<noteq> Incomplete"
  shows "ClassifyMetricsRequest (raw @ later) = ClassifyMetricsRequest raw"
proof -
  obtain i where i: "find_pos raw (CRLF @ CRLF) 0 = Some i"
    using assms by (auto simp: ClassifyMetricsRequest_def split: option.splits)
  then obtain e where e: "find_pos raw CRLF 0 = Some e"
    using find_from_part [of CRLF CRLF raw i] by (auto simp: find_pos_def)
  have "find_pos (raw @ later) (CRLF @ CRLF) 0 = Some i" "find_pos (raw @ later) CRLF 0 = Some e"
    using i e by (auto simp: find_pos_def intro: find_from_append)
  moreover have "substr (raw @ later) 0 e = substr raw 0 e" using find_pos_inside [OF e] by (simp add: substr_def)
  ultimately show ?thesis using i e unfolding ClassifyMetricsRequest_def by simp
qed

theorem ClassifyMetricsRequest_final_witness:
  "ClassifyMetricsRequest ((''GET /metrics HTTP/1.1'' @ CRLF @ CRLF) @ ''POST'') = MetricsOk"
proof -
  have "ClassifyMetricsRequest (''GET /metrics HTTP/1.1'' @ CRLF @ CRLF) = MetricsOk" by code_simp
  with ClassifyMetricsRequest_final [of "''GET /metrics HTTP/1.1'' @ CRLF @ CRLF" "''POST''"] show ?thesis by simp
qed

section \<open>The loop goes through the lines\<close>


lemma find_pos_shift: "find_pos (pre @ s) p (length pre + pos) = map_option (\<lambda>i. length pre + i) (find_pos s p pos)"
  by (simp add: find_pos_def option.map_comp comp_def add.assoc)

lemma prometheus_loop_shift: "prometheus_loop (pre @ info) (length pre + pos) = prometheus_loop info pos"
proof (induction info pos rule: prometheus_loop.induct)
  case (1 info pos)
  show ?case
  proof (cases "pos < length info")
    case True
    let ?e = "case find_pos info [LF] pos of None \<Rightarrow> length info | Some e \<Rightarrow> e"
    have "(case find_pos (pre @ info) [LF] (length pre + pos) of None \<Rightarrow> length (pre @ info) | Some e \<Rightarrow> e) = length pre + ?e"
      by (simp add: find_pos_shift split: option.splits)
    moreover have "substr (pre @ info) (length pre + pos) (?e - pos) = substr info pos (?e - pos)" by (simp add: substr_def)
    ultimately show ?thesis
      using True "1.IH" [OF True refl]
      by (subst (1 2) prometheus_loop.simps) (simp add: Let_def add.assoc)
  next
    case False
    then show ?thesis by (subst (1 2) prometheus_loop.simps) simp
  qed
qed

lemma find_from_char: "c \<notin> set l \<Longrightarrow> find_from [c] (l @ c # rest) = Some (length l)"
  by (induction l) auto

lemma find_from_absent: "c \<notin> set l \<Longrightarrow> find_from [c] l = None"
  by (induction l) auto

lemma PrometheusText_line:
  assumes "LF \<notin> set l"
  shows "PrometheusText (l @ LF # rest) = prometheus_line l @ PrometheusText rest"
proof -
  have "find_pos (l @ LF # rest) [LF] 0 = Some (length l)" using assms by (simp add: find_pos_def find_from_char)
  moreover have "prometheus_loop (l @ LF # rest) (length l + 1) = prometheus_loop rest 0"
    using prometheus_loop_shift [of "l @ [LF]" rest 0] by simp
  ultimately show ?thesis
    unfolding PrometheusText_def by (subst prometheus_loop.simps) (simp add: Let_def substr_def)
qed

lemma PrometheusText_last_line:
  assumes "LF \<notin> set l"
  shows "PrometheusText l = prometheus_line l"
proof (cases "l = []")
  case True
  then show ?thesis
    by (simp add: PrometheusText_def prometheus_loop.simps prometheus_line_def find_pos_def)
next
  case False
  have "find_pos l [LF] 0 = None" using assms by (simp add: find_pos_def find_from_absent)
  moreover have "prometheus_loop l (length l) = []" by (simp add: prometheus_loop.simps)
  ultimately show ?thesis
    using False unfolding PrometheusText_def by (subst prometheus_loop.simps) (simp add: Let_def substr_def)
qed

text \<open>The lines of a text, cut at every newline.\<close>

fun split_lines :: "bytes \<Rightarrow> bytes list" where
  "split_lines [] = [[]]"
| "split_lines (c # s) =
     (if c = LF then [] # split_lines s
      else (case split_lines s of [] \<Rightarrow> [[c]] | l # ls \<Rightarrow> (c # l) # ls))"

lemma split_lines_one: "LF \<notin> set l \<Longrightarrow> split_lines l = [l]"
  by (induction l) auto

lemma split_lines_cut: "LF \<notin> set l \<Longrightarrow> split_lines (l @ LF # rest) = l # split_lines rest"
  by (induction l) auto

lemma PrometheusText_lines: "PrometheusText info = concat (map prometheus_line (split_lines info))"
proof (induction info rule: length_induct)
  case (1 info)
  show ?case
  proof (cases "LF \<in> set info")
    case True
    then obtain l rest where i: "info = l @ LF # rest" "LF \<notin> set l" by (meson split_list_first)
    then have "PrometheusText rest = concat (map prometheus_line (split_lines rest))" using 1 by simp
    then show ?thesis unfolding i(1) by (simp only: PrometheusText_line [OF i(2)] split_lines_cut [OF i(2)] list.map concat.simps)
  qed (simp add: PrometheusText_last_line split_lines_one)
qed

section \<open>The exposition is well formed\<close>

text \<open>
  The reference: the fields of the text, a key and a value around the first colon of a line, and the
  block of lines that the exposition format asks for each of them.
\<close>

definition line_field :: "bytes \<Rightarrow> (string \<times> string) list" where
  "line_field line =
     (let line = (if line \<noteq> [] \<and> last line = CR then butlast line else line);
          key = takeWhile (\<lambda>c. c \<noteq> CHR '':'') line in
      if length key < length line then [(key, drop (length key + 1) line)] else [])"

fun exported :: "string \<times> string \<Rightarrow> bool" where
  "exported (key, v) \<longleftrightarrow> key \<noteq> ''namespace'' \<and> (key = ''state'' \<or> ValidMetricKey key \<and> IsIntegerField v)"

definition exported_fields :: "bytes \<Rightarrow> (string \<times> string) list" where
  "exported_fields info = filter exported (concat (map line_field (split_lines info)))"

fun exposition_block :: "string \<times> string \<Rightarrow> string list" where
  "exposition_block (key, v) =
     (if key = ''state'' then
        [''# HELP raftkv_role Current Raft role. One known role is 1.'',
         ''# TYPE raftkv_role gauge''] @
        map (\<lambda>role. ''raftkv_role{role='' @ [CHR 0x22] @ role @ [CHR 0x22] @ ''} '' @ (if v = role then ''1'' else ''0''))
          [''leader'', ''follower'', ''candidate'', ''pre-candidate'', ''stopped'']
      else
        [''# HELP raftkv_'' @ key @ '' '' @ FieldHelp key,
         ''# TYPE raftkv_'' @ key @ (if IsCumulativeField key then '' counter'' else '' gauge''),
         ''raftkv_'' @ key @ '' '' @ v])"

definition series_name :: "string \<Rightarrow> bool" where
  "series_name n \<longleftrightarrow>
     take 7 n = ''raftkv_'' \<and> ValidMetricKey (drop 7 n) \<or>
     n \<in> (\<lambda>role. ''raftkv_role{role='' @ [CHR 0x22] @ role @ [CHR 0x22] @ ''}'') ` set kRoles"

text \<open>A line of the format: a help text, a type, or a sample, and never two lines in one.\<close>

inductive exposition_line :: "string \<Rightarrow> bool" where
  help_line: "ValidMetricKey k \<Longrightarrow> LF \<notin> set text \<Longrightarrow> exposition_line (''# HELP raftkv_'' @ k @ '' '' @ text)"
| type_line: "ValidMetricKey k \<Longrightarrow> ty \<in> {''counter'', ''gauge''} \<Longrightarrow> exposition_line (''# TYPE raftkv_'' @ k @ '' '' @ ty)"
| sample_line: "series_name n \<Longrightarrow> IsIntegerField v \<Longrightarrow> exposition_line (n @ '' '' @ v)"

definition unlines :: "string list \<Rightarrow> bytes" where
  "unlines ls = concat (map (\<lambda>l. l @ [LF]) ls)"

lemma unlines_simps [simp]: "unlines [] = []" "unlines (l # ls) = l @ [LF] @ unlines ls"
  "unlines (ls @ ms) = unlines ls @ unlines ms"
  by (simp_all add: unlines_def)

lemma unlines_concat: "unlines (concat ls) = concat (map unlines ls)"
  by (induction ls) simp_all

lemma FieldHelp_one_line: "LF \<notin> set (FieldHelp key)"
  by (simp add: FieldHelp_def)

lemma role_block_lines: "role_block v = unlines (exposition_block (''state'', v))"
  by (simp add: role_block_def role_sample_def kRoles_def)

lemma field_block_lines: "key \<noteq> ''state'' \<Longrightarrow> field_block key v = unlines (exposition_block (key, v))"
  by (simp add: field_block_def)

lemma role_block_form: "list_all exposition_line (exposition_block (''state'', v))"
proof -
  have role: "ValidMetricKey ''role''" by code_simp
  have "IsIntegerField (if b then ''1'' else ''0'')" for b by (cases b) (simp_all add: IsIntegerField_def is_digit_def)
  then have "exposition_line ((''raftkv_role{role='' @ [CHR 0x22] @ r @ [CHR 0x22] @ ''}'') @ '' '' @ (if b then ''1'' else ''0''))"
    if "r \<in> set kRoles" for r b
    using that by (intro exposition_line.sample_line) (auto simp: series_name_def)
  then have "list_all exposition_line (map (\<lambda>role. (''raftkv_role{role='' @ [CHR 0x22] @ role @ [CHR 0x22] @ ''}'') @ '' '' @
      (if v = role then ''1'' else ''0'')) kRoles)"
    unfolding list_all_iff set_map by blast
  moreover have "exposition_line (''# HELP raftkv_'' @ ''role'' @ '' '' @ ''Current Raft role. One known role is 1.'')"
    "exposition_line (''# TYPE raftkv_'' @ ''role'' @ '' '' @ ''gauge'')"
    by (intro exposition_line.intros role; simp)+
  moreover have "exposition_block (''state'', v) =
      (''# HELP raftkv_'' @ ''role'' @ '' '' @ ''Current Raft role. One known role is 1.'') #
      (''# TYPE raftkv_'' @ ''role'' @ '' '' @ ''gauge'') #
      map (\<lambda>role. (''raftkv_role{role='' @ [CHR 0x22] @ role @ [CHR 0x22] @ ''}'') @ '' '' @ (if v = role then ''1'' else ''0'')) kRoles"
    by (simp add: kRoles_def)
  ultimately show ?thesis by (simp only: list.pred_inject simp_thms)
qed

lemma field_block_form:
  assumes "ValidMetricKey key" and "IsIntegerField v" and "key \<noteq> ''state''"
  shows "list_all exposition_line (exposition_block (key, v))"
proof -
  have ty: "(if IsCumulativeField key then '' counter'' else '' gauge'') =
      '' '' @ (if IsCumulativeField key then ''counter'' else ''gauge'')" by simp
  have "series_name (''raftkv_'' @ key)" using assms(1) by (simp add: series_name_def)
  note sample = exposition_line.sample_line [OF this assms(2), unfolded append_assoc]
  have "(if IsCumulativeField key then ''counter'' else ''gauge'') \<in> {''counter'', ''gauge''}" by simp
  from exposition_line.type_line [OF assms(1) this] exposition_line.help_line [OF assms(1) FieldHelp_one_line [of key]] sample
  show ?thesis unfolding exposition_block.simps ty if_not_P [OF assms(3)] by (simp only: list.pred_inject simp_thms)
qed

lemma exported_form: "exported f \<Longrightarrow> list_all exposition_line (exposition_block f)"
  using role_block_form [of "snd f"] field_block_form [of "fst f" "snd f"] by (cases f) (metis exported.simps fst_conv snd_conv)

lemma find_pos_colon:
  "find_pos l '':'' 0 = (let key = takeWhile (\<lambda>c. c \<noteq> CHR '':'') l in
     if length key < length l then Some (length key) else None)"
proof (cases "CHR '':'' \<in> set l")
  case True
  then obtain k v where l: "l = k @ CHR '':'' # v" "CHR '':'' \<notin> set k" by (meson split_list_first)
  then have "takeWhile (\<lambda>c. c \<noteq> CHR '':'') l = k" by (auto simp: takeWhile_tail takeWhile_eq_all_conv)
  with l show ?thesis by (simp add: find_pos_def find_from_char)
next
  case False
  then have "takeWhile (\<lambda>c. c \<noteq> CHR '':'') l = l" by (auto simp: takeWhile_eq_all_conv)
  then show ?thesis using False unfolding Let_def by (simp only: find_pos_def) (simp add: find_from_absent)
qed

lemma prometheus_line_blocks: "prometheus_line line = concat (map (unlines \<circ> exposition_block) (filter exported (line_field line)))"
proof -
  define l where "l = (if line \<noteq> [] \<and> last line = CR then butlast line else line)"
  define key where "key = takeWhile (\<lambda>c. c \<noteq> CHR '':'') l"
  have field: "line_field line = (if length key < length l then [(key, drop (length key + 1) l)] else [])"
    unfolding line_field_def l_def [symmetric] Let_def key_def [symmetric] by simp
  have key: "substr l 0 (length key) = key" by (simp add: substr_def key_def) (metis takeWhile_eq_take)
  have "\<not> ValidMetricKey []" by (simp add: ValidMetricKey_def)
  then show ?thesis
    unfolding prometheus_line_def l_def [symmetric] find_pos_colon Let_def key_def [symmetric] field
    by (simp add: key role_block_lines field_block_lines del: exposition_block.simps)
qed

text \<open>
  C35. The exposition is well formed and complete. Whatever the \<open>INFO\<close> text holds, \<open>PrometheusText\<close> is, for
  each field of the text that is exported and in the order of the text, that field's block of lines:
  for \<open>state\<close> the help line, the type line and one sample per role, of which the node's role is 1; for a
  field with a metric name and an integer value its help line, its type line and its sample. Nothing
  else is written, and every line is a help line, a type line or a sample whose name is a metric name
  and whose value is an integer: no field can inject a line of another form.
\<close>

theorem PrometheusText_wellformed:
  "PrometheusText info = unlines (concat (map exposition_block (exported_fields info))) \<and>
   list_all exposition_line (concat (map exposition_block (exported_fields info)))"
proof
  have "concat (map prometheus_line ls) =
      unlines (concat (map exposition_block (filter exported (concat (map line_field ls)))))" for ls
    by (induction ls) (simp_all add: prometheus_line_blocks unlines_concat del: exposition_block.simps exported.simps)
  then show "PrometheusText info = unlines (concat (map exposition_block (exported_fields info)))"
    by (simp only: PrometheusText_lines exported_fields_def)
  have "list_all exported (exported_fields info)" by (simp add: exported_fields_def list_all_iff)
  then show "list_all exposition_line (concat (map exposition_block (exported_fields info)))"
    using exported_form by (auto simp: list_all_iff)
qed

section \<open>Every field is exported\<close>

lemma not_in_key: "ValidMetricKey k \<Longrightarrow> c \<in> {LF, CHR '':''} \<Longrightarrow> c \<notin> set k"
  by (auto simp: ValidMetricKey_def list_all_iff isalpha_def is_digit_def)

lemma not_in_integer: "IsIntegerField v \<Longrightarrow> c \<in> {LF, CR} \<Longrightarrow> c \<notin> set v"
  by (auto simp: IsIntegerField_def list_all_iff Let_def split: list.splits if_splits)

text \<open>
  C36. A scrape reports what \<open>INFO\<close> reports. A line of the field list whose key is a metric name and
  whose value is an integer becomes that metric's help line, its type line (a counter exactly for a
  cumulative field) and its sample with exactly that value, and the rest of the list is exported as if
  the line were not there.
\<close>

theorem PrometheusText_field:
  assumes "ValidMetricKey k" and "IsIntegerField v" and "k \<noteq> ''namespace''" and "k \<noteq> ''state''"
  shows "PrometheusText (info_line k v @ rest) =
    ''# HELP raftkv_'' @ k @ '' '' @ FieldHelp k @ [LF] @
    ''# TYPE raftkv_'' @ k @ (if IsCumulativeField k then '' counter'' else '' gauge'') @ [LF] @
    ''raftkv_'' @ k @ '' '' @ v @ [LF] @
    PrometheusText rest"
proof -
  let ?l = "k @ '':'' @ v"
  have key: "k \<noteq> []" "LF \<notin> set k" "CHR '':'' \<notin> set k" and "LF \<notin> set v"
    using assms(1,2) not_in_key [OF assms(1)] not_in_integer [OF assms(2)] by (auto simp: ValidMetricKey_def)
  then have "PrometheusText (info_line k v @ rest) = prometheus_line (?l @ [CR]) @ PrometheusText rest"
    using PrometheusText_line [of "?l @ [CR]" rest] by (simp add: info_line_def)
  moreover have "find_pos ?l '':'' 0 = Some (length k)" using key(3) by (simp add: find_pos_def find_from_char)
  then have "prometheus_line (?l @ [CR]) = field_block k v"
    using assms key(1) by (simp add: prometheus_line_def substr_def butlast_append)
  ultimately show ?thesis by (simp add: field_block_def)
qed

theorem PrometheusText_field_witness:
  "PrometheusText (info_line ''commit_index'' ''42'') =
    ''# HELP raftkv_commit_index Highest log index known to be committed.'' @ [LF] @
    ''# TYPE raftkv_commit_index gauge'' @ [LF] @ ''raftkv_commit_index 42'' @ [LF]"
  using PrometheusText_field [of "''commit_index''" "''42''" "[]"]
  by (simp add: ValidMetricKey_def IsIntegerField_def isalpha_def is_digit_def FieldHelp_def IsCumulativeField_def EndsWith_def
      PrometheusText_def prometheus_loop.simps)

end
