(* ===== verification/Executor.thy ===== *)
theory Executor
  imports Prelude
begin

text \<open>
  The serial executor (\<open>src/src/raft/serial_apply_executor.cc\<close>) behind the interface of
  \<open>src/src/raft/apply_executor.h\<close>. A job is a pair of work and completion; what its work returns or
  throws is an outcome. Two threads run: the owner, which submits, stops and runs dispatched
  completions, and the worker, which runs \<open>Run\<close>. Every section under the mutex, every call of the work
  and every dispatch is one step, and the steps of the two threads interleave freely. A wait on the
  condition variable is a step that is enabled when its predicate holds, so spurious and lost
  wake-ups need no step of their own.
\<close>

section \<open>State and operations\<close>

type_synonym outcome = "exn + bytes list"

text \<open>Where the worker stands in \<open>Run\<close>.\<close>

datatype 'j worker = Waiting | Working 'j | Worked 'j outcome | Released 'j outcome | Exited

record 'j executor =
  ex_job :: "'j option"
  ex_busy :: bool
  ex_stopping :: bool
  ex_worker :: "'j worker"
  ex_posted :: "('j \<times> outcome) list"
  ex_accepted :: "'j list"
  ex_done :: "('j \<times> outcome) list"

text \<open>
  \<open>ex_posted\<close> are the completions that wait on the owner's loop. \<open>ex_accepted\<close> and \<open>ex_done\<close> record
  history: the jobs that \<open>Submit\<close> took and the completions that ran.
\<close>

definition new_executor :: "'j executor" where
  "new_executor = \<lparr>ex_job = None, ex_busy = False, ex_stopping = False, ex_worker = Waiting,
     ex_posted = [], ex_accepted = [], ex_done = []\<rparr>"

text \<open>\<open>None\<close> stands for an empty work or completion.\<close>

definition Submit :: "'j option \<Rightarrow> 'j executor \<Rightarrow> ('j executor, bool) res" where
  "Submit job x =
     (case job of
        None \<Rightarrow> Throw (Invalid_argument ''apply executor requires work and completion'') x
      | Some j \<Rightarrow>
          if ex_busy x \<or> ex_stopping x then Ok False x
          else Ok True (x\<lparr>ex_job := Some j, ex_busy := True, ex_accepted := ex_accepted x @ [j]\<rparr>))"

definition Stop_request :: "'j executor \<Rightarrow> 'j executor" where
  "Stop_request x = x\<lparr>ex_stopping := True\<rparr>"

text \<open>\<open>Run\<close>, one step at a time. The second argument is what the work returns or throws, if it runs.\<close>

fun worker_step :: "outcome \<Rightarrow> 'j executor \<Rightarrow> 'j executor option" where
  "worker_step r x =
     (case ex_worker x of
        Waiting \<Rightarrow>
          if \<not> (ex_stopping x \<or> ex_job x \<noteq> None) then None
          else (case ex_job x of
                  None \<Rightarrow> Some (x\<lparr>ex_worker := Exited\<rparr>)
                | Some j \<Rightarrow> Some (x\<lparr>ex_worker := Working j, ex_job := None\<rparr>))
      | Working j \<Rightarrow> Some (x\<lparr>ex_worker := Worked j r\<rparr>)
      | Worked j o' \<Rightarrow> Some (x\<lparr>ex_worker := Released j o', ex_busy := False\<rparr>)
      | Released j o' \<Rightarrow> Some (x\<lparr>ex_worker := Waiting, ex_posted := ex_posted x @ [(j, o')]\<rparr>)
      | Exited \<Rightarrow> None)"

definition run_completion :: "'j executor \<Rightarrow> 'j executor option" where
  "run_completion x =
     (case ex_posted x of [] \<Rightarrow> None | c # cs \<Rightarrow> Some (x\<lparr>ex_posted := cs, ex_done := ex_done x @ [c]\<rparr>))"

inductive executor_step :: "'j executor \<Rightarrow> 'j executor \<Rightarrow> bool" where
  submit: "Submit (Some j) x = Ok b y \<Longrightarrow> executor_step x y"
| stop: "executor_step x (Stop_request x)"
| worker: "worker_step r x = Some y \<Longrightarrow> executor_step x y"
| complete: "run_completion x = Some y \<Longrightarrow> executor_step x y"

inductive_simps executor_step_iff: "executor_step x y"

section \<open>The invariant\<close>

fun in_worker :: "'j worker \<Rightarrow> 'j list" where
  "in_worker (Working j) = [j]"
| "in_worker (Worked j r) = [j]"
| "in_worker (Released j r) = [j]"
| "in_worker _ = []"

fun holds_busy :: "'j worker \<Rightarrow> bool" where
  "holds_busy (Working j) = True"
| "holds_busy (Worked j r) = True"
| "holds_busy _ = False"

definition executor_ok :: "'j executor \<Rightarrow> bool" where
  "executor_ok x \<longleftrightarrow>
     ex_accepted x = map fst (ex_done x @ ex_posted x) @ in_worker (ex_worker x) @ (case ex_job x of None \<Rightarrow> [] | Some j \<Rightarrow> [j]) \<and>
     ex_busy x = (ex_job x \<noteq> None \<or> holds_busy (ex_worker x)) \<and>
     \<not> (ex_job x \<noteq> None \<and> holds_busy (ex_worker x)) \<and>
     (ex_worker x = Exited \<longrightarrow> ex_stopping x \<and> ex_job x = None)"

lemma executor_ok_new: "executor_ok new_executor"
  by (simp add: executor_ok_def new_executor_def)

lemma executor_ok_step: "executor_step x y \<Longrightarrow> executor_ok x \<Longrightarrow> executor_ok y"
  by (induction rule: executor_step.induct)
    (auto simp: executor_ok_def Submit_def Stop_request_def run_completion_def
      split: worker.splits option.splits list.splits if_splits)

lemma executor_ok_steps: "executor_step\<^sup>*\<^sup>* x y \<Longrightarrow> executor_ok x \<Longrightarrow> executor_ok y"
  by (induction rule: rtranclp_induct) (blast intro: executor_ok_step)+

section \<open>The interface\<close>

text \<open>
  What a client of \<open>apply_executor.h\<close> relies on: \<open>outstanding\<close> are the accepted jobs whose completion
  did not run yet. Accepted work joins them at the end, a completion takes the first of them, nothing
  else changes them, and an executor with none of them that was not told to stop accepts.
\<close>

locale apply_executor =
  fixes submit :: "'j \<Rightarrow> 'x \<Rightarrow> bool \<times> 'x"
    and complete :: "'x \<Rightarrow> ('j \<times> 'x) option"
    and internal :: "'x \<Rightarrow> 'x \<Rightarrow> bool"
    and outstanding :: "'x \<Rightarrow> 'j list"
    and stopped :: "'x \<Rightarrow> bool"
    and good :: "'x \<Rightarrow> bool"
  assumes submit_law: "good x \<Longrightarrow> submit j x = (b, y) \<Longrightarrow>
          good y \<and> outstanding y = (if b then outstanding x @ [j] else outstanding x) \<and> stopped y = stopped x"
    and submit_accepts: "good x \<Longrightarrow> outstanding x = [] \<Longrightarrow> \<not> stopped x \<Longrightarrow> fst (submit j x)"
    and complete_law: "good x \<Longrightarrow> complete x = Some (j, y) \<Longrightarrow>
          good y \<and> outstanding x = j # outstanding y \<and> stopped y = stopped x"
    and internal_law: "good x \<Longrightarrow> internal x y \<Longrightarrow> good y \<and> outstanding y = outstanding x \<and> stopped y = stopped x"
begin

text \<open>
  A client that submits only when it has nothing outstanding, as \<open>ApplyCommitted\<close> does with
  \<open>_apply_inflight\<close>: the client's flag is the outstanding job, and nothing is refused.
\<close>

lemma client_submit:
  "good x \<Longrightarrow> outstanding x = [] \<Longrightarrow> \<not> stopped x \<Longrightarrow> \<exists>y. submit j x = (True, y) \<and> good y \<and> outstanding y = [j] \<and> \<not> stopped y"
  using submit_law [of x j] submit_accepts [of x j] by (cases "submit j x") auto

lemma client_complete:
  "good x \<Longrightarrow> outstanding x = [j] \<Longrightarrow> complete x = Some (i, y) \<Longrightarrow> i = j \<and> good y \<and> outstanding y = [] \<and> stopped y = stopped x"
  using complete_law [of x i y] by auto

end

definition submit_job :: "'j \<Rightarrow> 'j executor \<Rightarrow> bool \<times> 'j executor" where
  "submit_job j x = (case Submit (Some j) x of Ok b y \<Rightarrow> (b, y) | Throw e y \<Rightarrow> (False, y))"

definition complete_job :: "'j executor \<Rightarrow> ('j \<times> 'j executor) option" where
  "complete_job x = (case ex_posted x of [] \<Rightarrow> None | c # cs \<Rightarrow> map_option (Pair (fst c)) (run_completion x))"

definition outstanding_jobs :: "'j executor \<Rightarrow> 'j list" where
  "outstanding_jobs x = drop (length (ex_done x)) (ex_accepted x)"

lemma outstanding_jobs_ok:
  "executor_ok x \<Longrightarrow> outstanding_jobs x =
     map fst (ex_posted x) @ in_worker (ex_worker x) @ (case ex_job x of None \<Rightarrow> [] | Some j \<Rightarrow> [j])"
  by (simp add: outstanding_jobs_def executor_ok_def)

lemma busy_outstanding: "executor_ok x \<Longrightarrow> ex_busy x \<Longrightarrow> outstanding_jobs x \<noteq> []"
  by (auto simp: outstanding_jobs_ok) (auto simp: executor_ok_def elim!: holds_busy.elims)

interpretation serial: apply_executor submit_job complete_job "\<lambda>x y. \<exists>r. worker_step r x = Some y"
  outstanding_jobs ex_stopping executor_ok
proof
  fix x y :: "'j executor" and j :: 'j and b
  assume x: "executor_ok x"
  show "executor_ok y \<and> outstanding_jobs y = (if b then outstanding_jobs x @ [j] else outstanding_jobs x) \<and>
      ex_stopping y = ex_stopping x" if "submit_job j x = (b, y)"
    using that x executor_ok_step [OF executor_step.submit [of j x b y] x]
    by (auto simp: submit_job_def Submit_def outstanding_jobs_def executor_ok_def split: if_splits)
  show "fst (submit_job j x)" if "outstanding_jobs x = []" "\<not> ex_stopping x"
    using that busy_outstanding [OF x] by (auto simp: submit_job_def Submit_def)
  show "executor_ok y \<and> outstanding_jobs x = j # outstanding_jobs y \<and> ex_stopping y = ex_stopping x"
    if c: "complete_job x = Some (j, y)"
  proof -
    obtain c cs where p: "ex_posted x = c # cs" "j = fst c" "y = x\<lparr>ex_posted := cs, ex_done := ex_done x @ [c]\<rparr>"
      using c by (auto simp: complete_job_def run_completion_def split: list.splits)
    then have y: "executor_ok y" using x by (simp add: executor_ok_def)
    show ?thesis using p y outstanding_jobs_ok [OF x] outstanding_jobs_ok [OF y] by simp
  qed
  show "executor_ok y \<and> outstanding_jobs y = outstanding_jobs x \<and> ex_stopping y = ex_stopping x"
    if w: "\<exists>r. worker_step r x = Some y"
  proof -
    obtain r where r: "worker_step r x = Some y" using w by blast
    have y: "executor_ok y" by (rule executor_ok_step [OF executor_step.worker [OF r] x])
    have "ex_accepted y = ex_accepted x" "ex_done y = ex_done x" "ex_stopping y = ex_stopping x"
      using r by (auto split: worker.splits option.splits if_splits)
    with y show ?thesis by (simp add: outstanding_jobs_def)
  qed
qed

section \<open>Correctness\<close>

text \<open>
  C16. Accepted work completes exactly once and in order. In every interleaving of the two threads the
  jobs that \<open>Submit\<close> accepted are, in this order: those whose completion ran on the owner thread,
  those whose completion is dispatched, the one in the worker and the queued one. A job is refused
  only while another is queued or running, or after \<open>Stop\<close>.
\<close>

theorem executor_exactly_once:
  assumes "executor_step\<^sup>*\<^sup>* new_executor x"
  shows "ex_accepted x = map fst (ex_done x) @ map fst (ex_posted x) @ in_worker (ex_worker x) @
           (case ex_job x of None \<Rightarrow> [] | Some j \<Rightarrow> [j]) \<and>
         (Submit (Some j) x = Ok False x \<longleftrightarrow> ex_stopping x \<or> ex_job x \<noteq> None \<or> holds_busy (ex_worker x))"
  using executor_ok_steps [OF assms executor_ok_new] by (auto simp: executor_ok_def Submit_def)

theorem executor_exactly_once_witness:
  "ex_accepted (res_state (Submit (Some (7 :: int)) new_executor)) = [7]"
proof -
  have "executor_step\<^sup>*\<^sup>* new_executor (res_state (Submit (Some (7 :: int)) new_executor))"
    by (intro r_into_rtranclp executor_step.submit [of 7 _ True]) (simp add: Submit_def new_executor_def)
  from executor_exactly_once [OF this] show ?thesis by (simp add: Submit_def new_executor_def)
qed

text \<open>After \<open>Stop\<close> the worker needs at most six steps: this counts the ones that are left.\<close>

fun steps_left :: "'j executor \<Rightarrow> nat" where
  "steps_left x =
     (case ex_worker x of Waiting \<Rightarrow> 1 | Working j \<Rightarrow> 4 | Worked j r \<Rightarrow> 3 | Released j r \<Rightarrow> 2 | Exited \<Rightarrow> 0) +
     (if ex_job x = None then 0 else 4)"

fun worker_run :: "outcome list \<Rightarrow> 'j executor \<Rightarrow> 'j executor" where
  "worker_run [] x = x"
| "worker_run (r # rs) x = (case worker_step r x of None \<Rightarrow> x | Some y \<Rightarrow> worker_run rs y)"

lemma worker_step_stopping:
  assumes "ex_stopping x" and "ex_worker x \<noteq> Exited"
  shows "\<exists>y. worker_step r x = Some y \<and> ex_stopping y \<and> steps_left x = Suc (steps_left y)"
  using assms by (cases "ex_worker x"; cases "ex_job x") simp_all

lemma worker_run_ok: "executor_ok x \<Longrightarrow> executor_ok (worker_run rs x) \<and> ex_accepted (worker_run rs x) = ex_accepted x"
proof (induction rs arbitrary: x)
  case (Cons r rs)
  then show ?case
  proof (cases "worker_step r x")
    case (Some y)
    then have "executor_ok y" by (rule executor_ok_step [OF executor_step.worker Cons.prems])
    moreover have "ex_accepted y = ex_accepted x" using Some by (auto split: worker.splits option.splits if_splits)
    ultimately show ?thesis using Cons.IH [of y] Some by (simp del: worker_step.simps)
  qed (simp del: worker_step.simps)
qed simp

lemma worker_run_exits:
  assumes "ex_stopping x" and "steps_left x \<le> length rs"
  shows "ex_worker (worker_run rs x) = Exited"
  using assms
proof (induction rs arbitrary: x)
  case Nil
  then show ?case by (auto split: worker.splits)
next
  case (Cons r rs)
  show ?case
  proof (cases "ex_worker x = Exited")
    case False
    from worker_step_stopping [OF Cons.prems(1) False, of r] Cons.prems(2) show ?thesis
      by (auto simp del: worker_step.simps steps_left.simps intro: Cons.IH)
  qed simp
qed

text \<open>
  C17. \<open>Stop\<close> terminates and drains. From every reachable state, once \<open>Stop\<close> has set its flag, the worker
  returns from \<open>Run\<close> after at most six of its steps, whatever the work returns or throws, so the join
  in \<open>Stop\<close> returns; and then every accepted job has had its completion dispatched.
\<close>

theorem executor_stop_drains:
  assumes "executor_step\<^sup>*\<^sup>* new_executor x" and "6 \<le> length rs"
  shows "ex_worker (worker_run rs (Stop_request x)) = Exited \<and>
         ex_accepted x = map fst (ex_done (worker_run rs (Stop_request x)) @ ex_posted (worker_run rs (Stop_request x)))"
proof -
  have x: "executor_ok x" using assms(1) executor_ok_new by (rule executor_ok_steps)
  have s: "executor_ok (Stop_request x)" using executor_step.stop x by (rule executor_ok_step)
  have "steps_left (Stop_request x) \<le> 6"
    using s by (auto simp: executor_ok_def Stop_request_def split: worker.splits)
  then have e: "ex_worker (worker_run rs (Stop_request x)) = Exited"
    using assms(2) by (intro worker_run_exits) (simp_all add: Stop_request_def)
  moreover have "ex_accepted (Stop_request x) = ex_accepted x" by (simp add: Stop_request_def)
  ultimately show ?thesis using worker_run_ok [OF s, of rs] e by (auto simp: executor_ok_def)
qed

theorem executor_stop_drains_witness:
  "ex_worker (worker_run (replicate 6 (Inr [])) (Stop_request (new_executor :: int executor))) = Exited"
  using executor_stop_drains [OF rtranclp.rtrancl_refl, of "replicate 6 (Inr [])", where 'a = int] by simp

text \<open>An owner that keeps at most one job in flight; the second argument is its flag.\<close>

inductive one_in_flight :: "'j executor \<Rightarrow> 'j option \<Rightarrow> bool" where
  idle: "one_in_flight new_executor None"
| work: "one_in_flight x f \<Longrightarrow> worker_step r x = Some y \<Longrightarrow> one_in_flight y f"
| give: "one_in_flight x None \<Longrightarrow> submit_job j x = (b, y) \<Longrightarrow> one_in_flight y (if b then Some j else None)"
| take_back: "one_in_flight x f \<Longrightarrow> complete_job x = Some (j, y) \<Longrightarrow> one_in_flight y None"

lemma one_in_flight_outstanding:
  "one_in_flight x f \<Longrightarrow> executor_ok x \<and> \<not> ex_stopping x \<and> outstanding_jobs x = (case f of None \<Rightarrow> [] | Some j \<Rightarrow> [j])"
proof (induction rule: one_in_flight.induct)
  case idle
  show ?case by (simp add: executor_ok_new) (simp add: new_executor_def outstanding_jobs_def)
next
  case (work x f r y)
  then show ?case using serial.internal_law [of x y] by auto
next
  case (give x j b y)
  then show ?case using serial.client_submit [of x j] by auto
next
  case (take_back x f j y)
  then show ?case using serial.complete_law [of x j y] by (cases f) auto
qed

text \<open>
  C18. The owner is never refused. An owner that keeps at most one job in flight, as \<open>ApplyCommitted\<close> does,
  and has not called \<open>Stop\<close>, gets every job accepted: the executor is free again before the completion
  of the last job is dispatched.
\<close>

theorem executor_never_refuses:
  assumes "one_in_flight x None"
  shows "\<exists>y. Submit (Some j) x = Ok True y"
  using one_in_flight_outstanding [OF assms] serial.client_submit [of x j]
  by (auto simp: submit_job_def Submit_def split: if_splits)

theorem executor_never_refuses_witness: "\<exists>y. Submit (Some (7 :: int)) new_executor = Ok True y"
  by (rule executor_never_refuses [OF one_in_flight.idle])

end
