(* ===== verification/Transport.thy ===== *)
theory Transport
  imports Prelude
begin

text \<open>
  The TCP library. The peer manager and the server call connections of the muduo library, which is not
  part of the repository: the record \<open>muduo_ops\<close> holds what they call on a connection, by its name,
  over a state of the library of any type. The locale \<open>muduo\<close> states what the program relies on: the
  output buffer of a connection grows only by what is sent on it. A network in memory satisfies it.
\<close>

section \<open>The interface\<close>

record 'net muduo_ops =
  mu_connected :: "string \<Rightarrow> 'net \<Rightarrow> bool"
  mu_queued :: "string \<Rightarrow> 'net \<Rightarrow> nat"
  mu_capacity :: "string \<Rightarrow> 'net \<Rightarrow> nat"
  mu_send :: "string \<Rightarrow> bytes \<Rightarrow> 'net \<Rightarrow> 'net"
  mu_shrink :: "string \<Rightarrow> 'net \<Rightarrow> 'net"
  mu_startRead :: "string \<Rightarrow> 'net \<Rightarrow> 'net"
  mu_stopRead :: "string \<Rightarrow> 'net \<Rightarrow> 'net"
  mu_shutdown :: "string \<Rightarrow> 'net \<Rightarrow> 'net"
  mu_forceClose :: "string \<Rightarrow> 'net \<Rightarrow> 'net"
  mu_forceCloseWithDelay :: "string \<Rightarrow> 'net \<Rightarrow> 'net"
  mu_connect :: "string \<Rightarrow> string \<Rightarrow> int \<Rightarrow> 'net \<Rightarrow> 'net"

text \<open>
  \<open>mu_queued\<close> is \<open>outputBuffer()->readableBytes()\<close> and \<open>mu_capacity\<close> its \<open>internalCapacity()\<close>;
  \<open>mu_connect name host port\<close> starts a new client.
\<close>

locale muduo =
  fixes N :: "'net muduo_ops"
  assumes send_queued: "mu_queued N c (mu_send N c b n) \<le> mu_queued N c n + length b"
    and send_other: "c' \<noteq> c \<Longrightarrow> mu_queued N c' (mu_send N c b n) = mu_queued N c' n"
    and quiet_ops [simp]:
      "mu_queued N c' (mu_shrink N c n) = mu_queued N c' n"
      "mu_queued N c' (mu_startRead N c n) = mu_queued N c' n"
      "mu_queued N c' (mu_stopRead N c n) = mu_queued N c' n"
      "mu_queued N c' (mu_shutdown N c n) = mu_queued N c' n"
      "mu_queued N c' (mu_forceClose N c n) = mu_queued N c' n"
      "mu_queued N c' (mu_forceCloseWithDelay N c n) = mu_queued N c' n"
      "mu_queued N c' (mu_connect N name host port n) = mu_queued N c' n"

section \<open>A network in memory\<close>

record mem_net =
  mn_closed :: "string list"
  mn_paused :: "string list"
  mn_sent :: "(string \<times> bytes) list"
  mn_opened :: "string list"

definition mem_queued :: "string \<Rightarrow> mem_net \<Rightarrow> nat" where
  "mem_queued c n = sum_list (map (length \<circ> snd) (filter (\<lambda>s. fst s = c) (mn_sent n)))"

definition mem_net_ops :: "mem_net muduo_ops" where
  "mem_net_ops =
     \<lparr>mu_connected = (\<lambda>c n. c \<notin> set (mn_closed n)), mu_queued = mem_queued, mu_capacity = mem_queued,
      mu_send = (\<lambda>c b n. n\<lparr>mn_sent := mn_sent n @ [(c, b)]\<rparr>), mu_shrink = (\<lambda>c n. n),
      mu_startRead = (\<lambda>c n. n\<lparr>mn_paused := removeAll c (mn_paused n)\<rparr>),
      mu_stopRead = (\<lambda>c n. n\<lparr>mn_paused := c # mn_paused n\<rparr>),
      mu_shutdown = (\<lambda>c n. n\<lparr>mn_closed := c # mn_closed n\<rparr>),
      mu_forceClose = (\<lambda>c n. n\<lparr>mn_closed := c # mn_closed n\<rparr>),
      mu_forceCloseWithDelay = (\<lambda>c n. n),
      mu_connect = (\<lambda>name host port n. n\<lparr>mn_opened := name # mn_opened n\<rparr>)\<rparr>"

definition mem_net_init :: mem_net where
  "mem_net_init = \<lparr>mn_closed = [], mn_paused = [], mn_sent = [], mn_opened = []\<rparr>"

interpretation memnet: muduo mem_net_ops
  by unfold_locales (auto simp: mem_net_ops_def mem_queued_def)

end
