(* ===== verification/PeerManager.thy ===== *)
theory PeerManager
  imports RaftNode Transport
begin

text \<open>
  The connections between the members (\<open>src/src/raft/peer_manager.cc\<close>). A connection is named, as
  muduo names it; names are never reused. Every member connects to the members with a larger id and
  accepts the others. A connection carries the frames of one peer: outgoing ones are bound to the
  configured peer, incoming ones to the sender of their first frame.

  The state holds the two maps of the class, the reconnect policies with the timers they armed, and
  the bytes received on each connection. \<open>pm_links\<close> records which callbacks a connection was created
  with and whether it is up, and \<open>pm_dispatched\<close> what was passed to the handler. The clock is an argument, the handler and
  the state it works on are parameters.
\<close>

section \<open>State and operations\<close>

datatype link = Incoming | Outgoing int

record 'net peer_manager =
  pm_self :: int
  pm_peers :: "peer_info list"
  pm_clients :: "int \<Rightarrow> string option"
  pm_retry :: "int \<Rightarrow> retry_policy option"
  pm_client_generation :: "64 word"
  pm_started :: bool
  pm_alive :: bool
  pm_connections :: "int \<Rightarrow> string option"
  pm_connection_peers :: "string \<Rightarrow> int option"
  pm_buffers :: "string \<Rightarrow> bytes"
  pm_timers :: "(peer_info \<times> int \<times> 64 word) list"
  pm_net :: 'net
  pm_links :: "string \<Rightarrow> (link \<times> bool) option"
  pm_dispatched :: "(string \<times> int \<times> raft_msg_type \<times> bytes) list"

definition PeerManager_new :: "int \<Rightarrow> peer_info list \<Rightarrow> 'net \<Rightarrow> exn + 'net peer_manager" where
  "PeerManager_new self_id all_peers net =
     bindE (ValidatePeers self_id all_peers) (\<lambda>_.
       Inr \<lparr>pm_self = self_id, pm_peers = all_peers, pm_clients = (\<lambda>_. None), pm_retry = (\<lambda>_. None),
            pm_client_generation = 0, pm_started = False, pm_alive = True, pm_connections = (\<lambda>_. None),
            pm_connection_peers = (\<lambda>_. None), pm_buffers = (\<lambda>_. []), pm_timers = [], pm_net = net,
            pm_links = (\<lambda>_. None), pm_dispatched = []\<rparr>)"

definition PeerManager_destroy :: "'net peer_manager \<Rightarrow> 'net peer_manager" where
  "PeerManager_destroy pm = pm\<lparr>pm_alive := False\<rparr>"

definition client_name :: "int \<Rightarrow> 64 word \<Rightarrow> string" where
  "client_name peer_id generation = ''RaftPeerClient-'' @ to_string peer_id @ ''-'' @ to_string_u64 generation"

definition ConnectToPeer :: "'net muduo_ops \<Rightarrow> peer_info \<Rightarrow> 'net peer_manager \<Rightarrow> 'net peer_manager" where
  "ConnectToPeer N peer pm =
     (let generation = pm_client_generation pm + 1; name = client_name (pi_id peer) generation in
      pm\<lparr>pm_client_generation := generation, pm_clients := (pm_clients pm)(pi_id peer := Some name),
         pm_net := mu_connect N name (pi_host peer) (pi_raft_port peer) (pm_net pm)\<rparr>)"

definition PeerManager_Start :: "'net muduo_ops \<Rightarrow> 'net peer_manager \<Rightarrow> 'net peer_manager" where
  "PeerManager_Start N pm =
     (if pm_started pm then pm
      else
        fold (\<lambda>peer pm. if pi_id peer = pm_self pm then pm
                        else if pi_id peer > pm_self pm then ConnectToPeer N peer pm else pm)
          (pm_peers pm) (pm\<lparr>pm_started := True\<rparr>))"

definition OnServerConnection :: "string \<Rightarrow> bool \<Rightarrow> 'net peer_manager \<Rightarrow> 'net peer_manager" where
  "OnServerConnection conn connected pm =
     (if \<not> pm_alive pm then pm
      else if connected then pm
      else pm\<lparr>pm_connection_peers := (pm_connection_peers pm)(conn := None),
              pm_connections := (\<lambda>p. if pm_connections pm p = Some conn then None else pm_connections pm p)\<rparr>)"

definition retry_of :: "int \<Rightarrow> 'net peer_manager \<Rightarrow> retry_policy" where
  "retry_of peer_id pm = (case pm_retry pm peer_id of None \<Rightarrow> retry_init | Some r \<Rightarrow> r)"

definition PeerClientConnection :: "int \<Rightarrow> string \<Rightarrow> bool \<Rightarrow> int \<Rightarrow> 'net peer_manager \<Rightarrow> 'net peer_manager" where
  "PeerClientConnection now conn connected peer_id pm =
     (if \<not> pm_alive pm then pm
      else if connected then
        pm\<lparr>pm_retry := (pm_retry pm)(peer_id := Some (Retry_Connected now (retry_of peer_id pm))),
           pm_connections := (pm_connections pm)(peer_id := Some conn),
           pm_connection_peers := (pm_connection_peers pm)(conn := Some peer_id)\<rparr>
      else
        (let pm = pm\<lparr>pm_connection_peers := (pm_connection_peers pm)(conn := None)\<rparr> in
         if pm_connections pm peer_id = Some conn then
           (case Retry_Disconnected now (retry_of peer_id pm) of (plan, retry) \<Rightarrow>
              (let pm = pm\<lparr>pm_connections := (pm_connections pm)(peer_id := None),
                           pm_retry := (pm_retry pm)(peer_id := Some retry)\<rparr> in
               if rpl_token plan = 0 then pm
               else case find (\<lambda>peer. pi_id peer = peer_id) (pm_peers pm) of
                      None \<Rightarrow> pm
                    | Some peer \<Rightarrow> pm\<lparr>pm_timers := pm_timers pm @ [(peer, rpl_delay_ms plan, rpl_token plan)]\<rparr>))
         else pm))"

text \<open>The callback of a reconnect timer: \<open>_retry.at(peer.id).Consume(token)\<close>.\<close>

definition OnRetryTimer :: "'net muduo_ops \<Rightarrow> peer_info \<Rightarrow> 64 word \<Rightarrow> 'net peer_manager \<Rightarrow> ('net peer_manager, unit) res" where
  "OnRetryTimer N peer token pm =
     (if \<not> pm_alive pm then Ok () pm
      else case pm_retry pm (pi_id peer) of
        None \<Rightarrow> Throw (Out_of_range ''map::at'') pm
      | Some r \<Rightarrow>
          (case Retry_Consume token r of (consumed, r) \<Rightarrow>
             (let pm = pm\<lparr>pm_retry := (pm_retry pm)(pi_id peer := Some r)\<rparr> in
              Ok () (if consumed then ConnectToPeer N peer pm else pm))))"

abbreviation kMaxPeerQueued :: nat where "kMaxPeerQueued \<equiv> 4194304"

definition Send ::
  "'net muduo_ops \<Rightarrow> int \<Rightarrow> raft_msg_type \<Rightarrow> bytes \<Rightarrow> 'net peer_manager \<Rightarrow> ('net peer_manager, bool) res" where
  "Send N peer_id type payload pm =
     (case pm_connections pm peer_id of
        None \<Rightarrow> Ok False pm
      | Some conn \<Rightarrow>
          if \<not> mu_connected N conn (pm_net pm) then Ok False pm
          else
            (let queued = mu_queued N conn (pm_net pm) in
             if queued > kMaxPeerQueued \<or> length payload > kMaxPeerQueued - kHeaderSize \<or>
                length payload + kHeaderSize > kMaxPeerQueued - queued then Ok False pm
             else
               bindR (liftR (Encode type (pm_self pm) payload) pm) (\<lambda>frame pm.
                 Ok True (pm\<lparr>pm_net := mu_send N conn frame (pm_net pm)\<rparr>))))"

definition Broadcast ::
  "'net muduo_ops \<Rightarrow> raft_msg_type \<Rightarrow> bytes \<Rightarrow> 'net peer_manager \<Rightarrow> ('net peer_manager, unit) res" where
  "Broadcast N type payload pm =
     foldR (\<lambda>peer pm. if pi_id peer = pm_self pm then Ok () pm
                      else bindR (Send N (pi_id peer) type payload pm) (\<lambda>_. Ok ()))
       (pm_peers pm) pm"

definition RegisterPeerConnection :: "int \<Rightarrow> string \<Rightarrow> 'net peer_manager \<Rightarrow> bool \<times> 'net peer_manager" where
  "RegisterPeerConnection peer_id conn pm =
     (let known = list_ex (\<lambda>peer. pi_id peer = peer_id \<and> peer_id \<noteq> pm_self pm) (pm_peers pm);
          bound = pm_connection_peers pm conn in
      if \<not> known then (False, pm)
      else if bound \<noteq> None \<and> bound \<noteq> Some peer_id then (False, pm)
      else if bound = None \<and> peer_id > pm_self pm then (False, pm)
      else (True, pm\<lparr>pm_connection_peers := (pm_connection_peers pm)(conn := Some peer_id),
                     pm_connections := (pm_connections pm)(peer_id := Some conn)\<rparr>))"

definition close_connection :: "'net muduo_ops \<Rightarrow> string \<Rightarrow> 'net peer_manager \<Rightarrow> 'net peer_manager" where
  "close_connection N conn pm = pm\<lparr>pm_net := mu_forceClose N conn (pm_net pm)\<rparr>"

definition retrieve :: "string \<Rightarrow> nat \<Rightarrow> 'net peer_manager \<Rightarrow> 'net peer_manager" where
  "retrieve conn consumed pm = pm\<lparr>pm_buffers := (pm_buffers pm)(conn := drop consumed (pm_buffers pm conn))\<rparr>"

definition note_dispatch :: "string \<Rightarrow> decoded_raft_msg \<Rightarrow> 'net peer_manager \<Rightarrow> 'net peer_manager" where
  "note_dispatch conn m pm =
     pm\<lparr>pm_dispatched := pm_dispatched pm @ [(conn, dm_sender_id m, dm_type m, dm_payload m)]\<rparr>"

type_synonym 'r handler = "int \<Rightarrow> raft_msg_type \<Rightarrow> bytes \<Rightarrow> 'r \<Rightarrow> ('r, unit) res"

text \<open>
  The loop of \<open>ParseAndDispatch\<close>: the first argument bounds its turns by the bytes in the buffer, each
  turn takes at least one. A rejected stream is closed, an exception of the handler leaves the loop.
\<close>

fun dispatch_loop ::
  "nat \<Rightarrow> 'net muduo_ops \<Rightarrow> 'r handler \<Rightarrow> string \<Rightarrow> 'net peer_manager \<times> 'r \<Rightarrow> ('net peer_manager \<times> 'r, unit) res" where
  "dispatch_loop 0 N h conn (pm, r) = Ok () (pm, r)"
| "dispatch_loop (Suc n) N h conn (pm, r) =
     (if length (pm_buffers pm conn) < 4 then Ok () (pm, r)
      else case TryDecode (pm_buffers pm conn) of
        Inl e \<Rightarrow> Ok () (close_connection N conn pm, r)
      | Inr None \<Rightarrow> Ok () (pm, r)
      | Inr (Some (m, consumed)) \<Rightarrow>
          (case RegisterPeerConnection (dm_sender_id m) conn pm of
             (False, pm) \<Rightarrow> Ok () (close_connection N conn pm, r)
           | (True, pm) \<Rightarrow>
               (let pm = note_dispatch conn m (retrieve conn consumed pm) in
                case h (dm_sender_id m) (dm_type m) (dm_payload m) r of
                  Throw e r \<Rightarrow> Throw e (pm, r)
                | Ok _ r \<Rightarrow> dispatch_loop n N h conn (pm, r))))"

definition ParseAndDispatch ::
  "'net muduo_ops \<Rightarrow> 'r handler \<Rightarrow> string \<Rightarrow> 'net peer_manager \<times> 'r \<Rightarrow> ('net peer_manager \<times> 'r, unit) res" where
  "ParseAndDispatch N h conn s = dispatch_loop (length (pm_buffers (fst s) conn)) N h conn s"

text \<open>A message callback: muduo has appended the chunk to the buffer.\<close>

definition OnPeerMessage ::
  "'net muduo_ops \<Rightarrow> 'r handler \<Rightarrow> string \<Rightarrow> bytes \<Rightarrow> 'net peer_manager \<times> 'r \<Rightarrow> ('net peer_manager \<times> 'r, unit) res" where
  "OnPeerMessage N h conn chunk s =
     (case s of (pm, r) \<Rightarrow>
       (let pm = pm\<lparr>pm_buffers := (pm_buffers pm)(conn := pm_buffers pm conn @ chunk)\<rparr> in
        if \<not> pm_alive pm then Ok () (pm, r) else ParseAndDispatch N h conn (pm, r)))"


section \<open>The dispatch loop\<close>

lemma decoded_length:
  assumes "TryDecode b = Inr (Some (m, n))"
  shows "kHeaderSize \<le> n" "n \<le> length b" "length b - n \<le> length b - 1"
  using decode_verdict [of b "[]"] assms by auto

lemma Register_buffers: "RegisterPeerConnection p conn pm = (b, pm') \<Longrightarrow> pm_buffers pm' = pm_buffers pm"
  by (auto simp: RegisterPeerConnection_def Let_def split: if_splits)

lemma note_retrieve_buffers: "pm_buffers (note_dispatch conn m (retrieve conn n pm)) = (pm_buffers pm)(conn := drop n (pm_buffers pm conn))"
  by (simp add: note_dispatch_def retrieve_def)

text \<open>The bound on the turns is never reached: more turns change nothing.\<close>

lemma dispatch_loop_fuel:
  "length (pm_buffers pm conn) \<le> n \<Longrightarrow> n \<le> k \<Longrightarrow> dispatch_loop k N h conn (pm, r) = dispatch_loop n N h conn (pm, r)"
proof (induction n arbitrary: k pm r)
  case 0
  then show ?case by (cases k) auto
next
  case (Suc n)
  then obtain k' where k: "k = Suc k'" "n \<le> k'" by (cases k) auto
  have "dispatch_loop k' N h conn (pm2, r') = dispatch_loop n N h conn (pm2, r')"
    if t: "TryDecode (pm_buffers pm conn) = Inr (Some (m, c))" and reg: "RegisterPeerConnection q conn pm = (b, pm1)"
      and pm2: "pm2 = note_dispatch conn m (retrieve conn c pm1)" for m c q b pm1 pm2 r'
  proof (rule Suc.IH [OF _ k(2)])
    show "length (pm_buffers pm2 conn) \<le> n"
      using decoded_length [OF t] Register_buffers [OF reg] Suc.prems(1) by (simp add: pm2 note_retrieve_buffers)
  qed
  then show ?case
    unfolding k dispatch_loop.simps
    by (auto simp: Let_def split: sum.splits option.splits prod.splits bool.splits res.splits)
qed

lemma ParseAndDispatch_unfold:
  "ParseAndDispatch N h conn (pm, r) =
     (if length (pm_buffers pm conn) < 4 then Ok () (pm, r)
      else case TryDecode (pm_buffers pm conn) of
        Inl e \<Rightarrow> Ok () (close_connection N conn pm, r)
      | Inr None \<Rightarrow> Ok () (pm, r)
      | Inr (Some (m, consumed)) \<Rightarrow>
          (case RegisterPeerConnection (dm_sender_id m) conn pm of
             (False, pm) \<Rightarrow> Ok () (close_connection N conn pm, r)
           | (True, pm) \<Rightarrow>
               (let pm = note_dispatch conn m (retrieve conn consumed pm) in
                case h (dm_sender_id m) (dm_type m) (dm_payload m) r of
                  Throw e r \<Rightarrow> Throw e (pm, r)
                | Ok _ r \<Rightarrow> ParseAndDispatch N h conn (pm, r))))"
proof (cases "length (pm_buffers pm conn)")
  case (Suc n)
  have "dispatch_loop n N h conn (pm2, r') = ParseAndDispatch N h conn (pm2, r')"
    if t: "TryDecode (pm_buffers pm conn) = Inr (Some (m, c))" and reg: "RegisterPeerConnection q conn pm = (b, pm1)"
      and pm2: "pm2 = note_dispatch conn m (retrieve conn c pm1)" for m c q b pm1 pm2 r'
    unfolding ParseAndDispatch_def fst_conv
  proof (rule dispatch_loop_fuel [OF order_refl])
    show "length (pm_buffers pm2 conn) \<le> n"
      using decoded_length [OF t] Register_buffers [OF reg] Suc by (simp add: pm2 note_retrieve_buffers)
  qed
  then show ?thesis
    unfolding ParseAndDispatch_def [of N h conn "(pm, r)"] fst_conv Suc dispatch_loop.simps
    by (auto simp: Let_def split: sum.splits option.splits prod.splits bool.splits res.splits)
qed (simp add: ParseAndDispatch_def)

section \<open>Frames arrive in order\<close>

definition may_register :: "int \<Rightarrow> string \<Rightarrow> 'net peer_manager \<Rightarrow> bool" where
  "may_register sender conn pm \<longleftrightarrow>
     sender \<in> pi_id ` set (pm_peers pm) \<and> sender \<noteq> pm_self pm \<and>
     (pm_connection_peers pm conn = Some sender \<or> pm_connection_peers pm conn = None \<and> sender \<le> pm_self pm)"

lemma may_register_ok:
  assumes "may_register sender conn pm"
  shows "\<exists>pm'. RegisterPeerConnection sender conn pm = (True, pm') \<and> may_register sender conn pm' \<and>
     pm_buffers pm' = pm_buffers pm \<and> pm_alive pm' = pm_alive pm"
  using assms by (auto simp: may_register_def RegisterPeerConnection_def Let_def list_ex_iff)

abbreviation handle_all :: "'r handler \<Rightarrow> int \<Rightarrow> (raft_msg_type \<times> bytes) list \<Rightarrow> 'r \<Rightarrow> ('r, unit) res" where
  "handle_all h sender msgs \<equiv> foldR (\<lambda>m. h sender (fst m) (snd m)) msgs"

abbreviation encoded :: "int \<Rightarrow> (raft_msg_type \<times> bytes) list \<Rightarrow> bytes list \<Rightarrow> bool" where
  "encoded sender \<equiv> list_all2 (\<lambda>m f. Encode (fst m) sender (snd m) = Inr f)"

lemma encoded_length: "Encode t s p = Inr f \<Longrightarrow> 4 \<le> length f"
  by (simp add: Encode_Inr)

lemma ParseAndDispatch_frames:
  assumes "encoded sender msgs fs" and "sender \<le> INT32_MAX" and "may_register sender conn pm" and "pm_alive pm"
    and "pm_buffers pm conn = concat fs @ b" and "TryDecode b = Inr None" and "handle_all h sender msgs r = Ok () r'"
  shows "\<exists>pm'. ParseAndDispatch N h conn (pm, r) = Ok () (pm', r') \<and> may_register sender conn pm' \<and> pm_alive pm' \<and>
     pm_buffers pm' conn = b"
  using assms
proof (induction msgs fs arbitrary: pm r rule: list_all2_induct)
  case Nil
  then show ?case by (subst ParseAndDispatch_unfold) simp
next
  case (Cons m msgs f fs)
  have dec: "TryDecode (pm_buffers pm conn) =
      Inr (Some (\<lparr>dm_type = fst m, dm_sender_id = sender, dm_payload = snd m\<rparr>, length f))"
    using decode_frame [OF Cons.hyps(1) Cons.prems(1), of "concat fs @ b"] Cons.prems(4) by simp
  obtain pm1 where reg: "RegisterPeerConnection sender conn pm = (True, pm1)" "may_register sender conn pm1"
    "pm_buffers pm1 = pm_buffers pm" "pm_alive pm1"
    using may_register_ok [OF Cons.prems(2)] Cons.prems(3) by auto
  obtain r1 where r1: "h sender (fst m) (snd m) r = Ok () r1" "handle_all h sender msgs r1 = Ok () r'"
    using Cons.prems(6) by (auto simp: bindR_eq_Ok)
  let ?pm = "note_dispatch conn \<lparr>dm_type = fst m, dm_sender_id = sender, dm_payload = snd m\<rparr> (retrieve conn (length f) pm1)"
  have "may_register sender conn ?pm" "pm_alive ?pm" "pm_buffers ?pm conn = concat fs @ b"
    using reg Cons.prems(4) by (simp_all add: may_register_def note_dispatch_def retrieve_def)
  from Cons.IH [OF Cons.prems(1) this Cons.prems(5) r1(2)] show ?case
    using encoded_length [OF Cons.hyps(1)] Cons.prems(4) dec
    by (subst ParseAndDispatch_unfold) (simp add: reg(1) r1(1) Let_def)
qed

text \<open>A received prefix of a stream of frames is some whole frames and the start of the next.\<close>

lemma frames_prefix:
  assumes "encoded sender msgs fs" and "sender \<le> INT32_MAX" and "p @ q = concat fs"
  shows "\<exists>msgs1 msgs2 fs1 fs2 b. msgs = msgs1 @ msgs2 \<and> fs = fs1 @ fs2 \<and> encoded sender msgs1 fs1 \<and> encoded sender msgs2 fs2 \<and>
     p = concat fs1 @ b \<and> TryDecode b = Inr None \<and> b @ q = concat fs2"
  using assms
proof (induction msgs fs arbitrary: p rule: list_all2_induct)
  case Nil
  then show ?case by (intro exI [of _ "[]"]) (simp add: TryDecode_def)
next
  case (Cons m msgs f fs)
  show ?case
  proof (cases "length f \<le> length p")
    case True
    then obtain p' where p: "p = f @ p'"
      using Cons.prems(2) by (metis append_eq_append_conv_if append_take_drop_id concat.simps(2) take_append take_all_iff
          append_eq_conv_conj diff_is_0_eq take_0 append_Nil2)
    then have "p' @ q = concat fs" using Cons.prems(2) by simp
    from Cons.IH [OF Cons.prems(1) this] obtain msgs1 msgs2 fs1 fs2 b where
      "msgs = msgs1 @ msgs2" "fs = fs1 @ fs2" "encoded sender msgs1 fs1" "encoded sender msgs2 fs2"
      "p' = concat fs1 @ b" "TryDecode b = Inr None" "b @ q = concat fs2" by blast
    then show ?thesis
      using p Cons.hyps(1)
      by (intro exI [of _ "m # msgs1"] exI [of _ msgs2] exI [of _ "f # fs1"] exI [of _ fs2] exI [of _ b]) simp
  next
    case False
    then obtain g where g: "f = p @ g" "g \<noteq> []"
      using Cons.prems(2) by (metis append_eq_append_conv2 concat.simps(2) length_append not_add_less1 not_le append_Nil2 linorder_le_cases le_add1 order_refl)
    have "TryDecode p = Inr None"
    proof (rule ccontr)
      assume "TryDecode p \<noteq> Inr None"
      with decode_verdict [of p g] decode_frame [OF Cons.hyps(1) Cons.prems(1), of "[]"] g have
        "TryDecode p = Inr (Some (\<lparr>dm_type = fst m, dm_sender_id = sender, dm_payload = snd m\<rparr>, length f))" by simp
      from decoded_length [OF this] g show False by simp
    qed
    then show ?thesis
      using Cons.hyps Cons.prems(2)
      by (intro exI [of _ "[]"] exI [of _ "m # msgs"] exI [of _ "f # fs"] exI [of _ p]) simp
  qed
qed

lemma feed_frames:
  assumes "encoded sender msgs fs" and "sender \<le> INT32_MAX" and "may_register sender conn pm" and "pm_alive pm"
    and "pm_buffers pm conn @ concat chunks = concat fs" and "handle_all h sender msgs r = Ok () r'"
    and "TryDecode (pm_buffers pm conn) = Inr None"
  shows "\<exists>pm'. foldR (OnPeerMessage N h conn) chunks (pm, r) = Ok () (pm', r') \<and> pm_buffers pm' conn = []"
  using assms
proof (induction chunks arbitrary: pm r msgs fs)
  case Nil
  obtain msgs1 msgs2 fs1 fs2 b where f: "msgs = msgs1 @ msgs2" "fs = fs1 @ fs2" "encoded sender msgs1 fs1" "encoded sender msgs2 fs2"
      "pm_buffers pm conn = concat fs1 @ b" "TryDecode b = Inr None" "b @ [] = concat fs2"
    using frames_prefix [OF Nil.prems(1,2), of "pm_buffers pm conn" "[]"] Nil.prems(5) by auto
  have "fs = []"
  proof (cases fs)
    case (Cons f gs)
    then obtain m where "Encode (fst m) sender (snd m) = Inr f" using Nil.prems(1) by (auto simp: list_all2_Cons2)
    from decode_frame [OF this Nil.prems(2), of "concat gs"] Cons Nil.prems(5,7) show ?thesis by simp
  qed simp
  with Nil.prems show ?case by auto
next
  case (Cons c chunks)
  let ?pm = "pm\<lparr>pm_buffers := (pm_buffers pm)(conn := pm_buffers pm conn @ c)\<rparr>"
  have "(pm_buffers pm conn @ c) @ concat chunks = concat fs" using Cons.prems(5) by simp
  from frames_prefix [OF Cons.prems(1,2) this] obtain msgs1 msgs2 fs1 fs2 b where
    f: "msgs = msgs1 @ msgs2" "encoded sender msgs1 fs1" "encoded sender msgs2 fs2"
      "pm_buffers pm conn @ c = concat fs1 @ b" "TryDecode b = Inr None" "b @ concat chunks = concat fs2" by blast
  obtain r1 where r1: "handle_all h sender msgs1 r = Ok () r1" "handle_all h sender msgs2 r1 = Ok () r'"
    using Cons.prems(6) by (auto simp: f(1) foldR_append bindR_eq_Ok)
  have "may_register sender conn ?pm" "pm_alive ?pm" "pm_buffers ?pm conn = concat fs1 @ b"
    using Cons.prems(3,4) f(4) by (simp_all add: may_register_def)
  from ParseAndDispatch_frames [where N = N and conn = conn and pm = ?pm and h = h, OF f(2) Cons.prems(2) this f(5) r1(1)] obtain pm1 where
    p1: "ParseAndDispatch N h conn (?pm, r) = Ok () (pm1, r1)" "may_register sender conn pm1" "pm_alive pm1" "pm_buffers pm1 conn = b"
    by blast
  have "OnPeerMessage N h conn c (pm, r) = Ok () (pm1, r1)"
    using p1(1) Cons.prems(4) by (simp add: OnPeerMessage_def Let_def)
  with Cons.IH [OF f(3) Cons.prems(2) p1(2,3) _ r1(2)] p1(4) f(5,6) show ?case by simp
qed


text \<open>
  C13. What a peer sends is what the handler gets. Take any messages that a peer framed with \<open>Encode\<close>,
  and any way in which TCP cuts the stream of their frames into chunks. If the connection is bound to
  the peer, or still unbound and the peer may open it, and the handler returns on these messages, then
  feeding the chunks one by one passes exactly these messages to the handler, once each and in order,
  and leaves nothing in the buffer.
\<close>

theorem frames_in_order:
  assumes "encoded sender msgs fs" and "sender \<le> INT32_MAX" and "may_register sender conn pm" and "pm_alive pm"
    and "pm_buffers pm conn = []" and "concat chunks = concat fs" and "handle_all h sender msgs r = Ok () r'"
  shows "\<exists>pm'. foldR (OnPeerMessage N h conn) chunks (pm, r) = Ok () (pm', r') \<and> pm_buffers pm' conn = []"
  using feed_frames [where h = h, OF assms(1-4) _ assms(7)] assms(5,6) by (simp add: TryDecode_def)

definition demo_manager :: "mem_net peer_manager" where
  "demo_manager = projr (PeerManager_new 1 [\<lparr>pi_id = 0, pi_host = ''a'', pi_raft_port = 9080\<rparr>,
     \<lparr>pi_id = 1, pi_host = ''b'', pi_raft_port = 9081\<rparr>, \<lparr>pi_id = 2, pi_host = ''c'', pi_raft_port = 9082\<rparr>] mem_net_init)"

lemma demo_manager_fields:
  "pm_self demo_manager = 1" "pi_id ` set (pm_peers demo_manager) = {0, 1, 2}" "pm_alive demo_manager"
  "pm_buffers demo_manager = (\<lambda>_. [])" "pm_connection_peers demo_manager = (\<lambda>_. None)"
  "pm_connections demo_manager = (\<lambda>_. None)" "pm_links demo_manager = (\<lambda>_. None)" "pm_dispatched demo_manager = []"
  "pm_net demo_manager = mem_net_init"
  by (auto simp: demo_manager_def PeerManager_new_def ValidatePeers_def)

theorem frames_in_order_witness:
  "\<exists>f g pm'. Encode kRequestVote 0 ''ab'' = Inr f \<and> Encode kAppendEntries 0 ''c'' = Inr g \<and>
     foldR (OnPeerMessage mem_net_ops (\<lambda>i t p r. Ok () (r @ [(i, t, p)])) ''c1'') [take 3 f, drop 3 f @ g] (demo_manager, []) =
       Ok () (pm', [(0, kRequestVote, ''ab''), (0, kAppendEntries, ''c'')])"
proof -
  obtain f g where f: "Encode kRequestVote 0 ''ab'' = Inr f" "Encode kAppendEntries 0 ''c'' = Inr g"
    by (simp add: Encode_def IsValidType_def)
  have may: "may_register 0 ''c1'' demo_manager"
    unfolding may_register_def demo_manager_fields by simp
  have e: "encoded 0 [(kRequestVote, ''ab''), (kAppendEntries, ''c'')] [f, g]" using f by simp
  have c: "concat [take 3 f, drop 3 f @ g] = concat [f, g]" by simp
  have "handle_all (\<lambda>i t p r. Ok () (r @ [(i, t, p)])) 0 [(kRequestVote, ''ab''), (kAppendEntries, ''c'')] [] =
      Ok () [(0, kRequestVote, ''ab''), (0, kAppendEntries, ''c'')]" by simp
  from frames_in_order [where h = "\<lambda>i t p r. Ok () (r @ [(i, t, p)])" and N = mem_net_ops,
      OF e _ may demo_manager_fields(3) _ c this] f show ?thesis
    by (simp add: demo_manager_fields) blast
qed

section \<open>Every connection speaks for one peer\<close>

text \<open>
  The life of the manager: connections come up under fresh names, deliver bytes while they are up, and
  go down once. Handler exceptions end the process, so the steps are those of an operation that
  returned; the manager is alive throughout. In between, the library writes its output buffers to the
  sockets (\<open>drained\<close>), and the rest of the process works (\<open>work\<close>).
\<close>

inductive peer_step ::
  "'net muduo_ops \<Rightarrow> 'r handler \<Rightarrow> 'net peer_manager \<times> 'r \<Rightarrow> 'net peer_manager \<times> 'r \<Rightarrow> bool"
  for N :: "'net muduo_ops" and h :: "'r handler" where
  start: "peer_step N h (pm, r) (PeerManager_Start N pm, r)"
| accepted: "pm_links pm c = None \<Longrightarrow>
     peer_step N h (pm, r) (OnServerConnection c True (pm\<lparr>pm_links := (pm_links pm)(c := Some (Incoming, True))\<rparr>), r)"
| connected: "pm_links pm c = None \<Longrightarrow> p \<in> pi_id ` set (pm_peers pm) \<Longrightarrow> p > pm_self pm \<Longrightarrow>
     peer_step N h (pm, r) (PeerClientConnection now c True p (pm\<lparr>pm_links := (pm_links pm)(c := Some (Outgoing p, True))\<rparr>), r)"
| message: "pm_links pm c = Some (k, True) \<Longrightarrow> OnPeerMessage N h c chunk (pm, r) = Ok () s \<Longrightarrow> peer_step N h (pm, r) s"
| incoming_down: "pm_links pm c = Some (Incoming, True) \<Longrightarrow>
     peer_step N h (pm, r) (OnServerConnection c False (pm\<lparr>pm_links := (pm_links pm)(c := Some (Incoming, False))\<rparr>), r)"
| outgoing_down: "pm_links pm c = Some (Outgoing p, True) \<Longrightarrow>
     peer_step N h (pm, r) (PeerClientConnection now c False p (pm\<lparr>pm_links := (pm_links pm)(c := Some (Outgoing p, False))\<rparr>), r)"
| timer: "OnRetryTimer N peer token pm = Ok () pm' \<Longrightarrow> peer_step N h (pm, r) (pm', r)"
| send: "Send N p t b pm = Ok x pm' \<Longrightarrow> peer_step N h (pm, r) (pm', r)"
| drained: "(\<And>c. mu_queued N c net \<le> mu_queued N c (pm_net pm)) \<Longrightarrow> peer_step N h (pm, r) (pm\<lparr>pm_net := net\<rparr>, r)"
| work: "peer_step N h (pm, r) (pm, r')"

fun speaks_for :: "int set \<Rightarrow> int \<Rightarrow> link \<Rightarrow> int \<Rightarrow> bool" where
  "speaks_for ids self Incoming p \<longleftrightarrow> p \<in> ids \<and> p < self"
| "speaks_for ids self (Outgoing q) p \<longleftrightarrow> p = q \<and> q \<in> ids \<and> self < q"

definition links_ok :: "'net peer_manager \<Rightarrow> bool" where
  "links_ok pm \<longleftrightarrow>
     pm_alive pm \<and>
     (\<forall>p c. pm_connections pm p = Some c \<longrightarrow> pm_connection_peers pm c = Some p) \<and>
     (\<forall>c p. pm_connection_peers pm c = Some p \<longrightarrow>
        (\<exists>k. pm_links pm c = Some (k, True) \<and> speaks_for (pi_id ` set (pm_peers pm)) (pm_self pm) k p)) \<and>
     (\<forall>c q. pm_links pm c = Some (Outgoing q, True) \<longrightarrow> pm_connection_peers pm c = Some q) \<and>
     (\<forall>c f t b. (c, f, t, b) \<in> set (pm_dispatched pm) \<longrightarrow>
        (\<exists>k u. pm_links pm c = Some (k, u) \<and> speaks_for (pi_id ` set (pm_peers pm)) (pm_self pm) k f \<and>
           (u \<longrightarrow> pm_connection_peers pm c = Some f))) \<and>
     (\<forall>c f g t b t' b'. (c, f, t, b) \<in> set (pm_dispatched pm) \<longrightarrow> (c, g, t', b') \<in> set (pm_dispatched pm) \<longrightarrow> f = g)"


lemma links_okD:
  assumes "links_ok pm"
  shows "pm_alive pm"
    and "pm_connections pm p = Some c \<Longrightarrow> pm_connection_peers pm c = Some p"
    and "pm_connection_peers pm c = Some p \<Longrightarrow>
      \<exists>k. pm_links pm c = Some (k, True) \<and> speaks_for (pi_id ` set (pm_peers pm)) (pm_self pm) k p"
    and "pm_links pm c = Some (Outgoing q, True) \<Longrightarrow> pm_connection_peers pm c = Some q"
    and "(c, f, t, b) \<in> set (pm_dispatched pm) \<Longrightarrow>
      \<exists>k u. pm_links pm c = Some (k, u) \<and> speaks_for (pi_id ` set (pm_peers pm)) (pm_self pm) k f \<and>
        (u \<longrightarrow> pm_connection_peers pm c = Some f)"
    and "(c, f, t, b) \<in> set (pm_dispatched pm) \<Longrightarrow> (c, g, t', b') \<in> set (pm_dispatched pm) \<Longrightarrow> f = g"
  using assms unfolding links_ok_def by blast+

lemma links_okI:
  assumes "pm_alive pm"
    and "\<And>p c. pm_connections pm p = Some c \<Longrightarrow> pm_connection_peers pm c = Some p"
    and "\<And>c p. pm_connection_peers pm c = Some p \<Longrightarrow>
      \<exists>k. pm_links pm c = Some (k, True) \<and> speaks_for (pi_id ` set (pm_peers pm)) (pm_self pm) k p"
    and "\<And>c q. pm_links pm c = Some (Outgoing q, True) \<Longrightarrow> pm_connection_peers pm c = Some q"
    and "\<And>c f t b. (c, f, t, b) \<in> set (pm_dispatched pm) \<Longrightarrow>
      \<exists>k u. pm_links pm c = Some (k, u) \<and> speaks_for (pi_id ` set (pm_peers pm)) (pm_self pm) k f \<and>
        (u \<longrightarrow> pm_connection_peers pm c = Some f)"
    and "\<And>c f g t b t' b'. (c, f, t, b) \<in> set (pm_dispatched pm) \<Longrightarrow> (c, g, t', b') \<in> set (pm_dispatched pm) \<Longrightarrow> f = g"
  shows "links_ok pm"
  unfolding links_ok_def using assms by blast

text \<open>What the invariant reads.\<close>

definition link_view :: "'net peer_manager \<Rightarrow> _" where
  "link_view pm = (pm_self pm, pm_peers pm, pm_alive pm, pm_connections pm, pm_connection_peers pm, pm_links pm, pm_dispatched pm)"

lemma links_ok_cong: "link_view pm = link_view pm' \<Longrightarrow> links_ok pm = links_ok pm'"
  by (simp add: link_view_def links_ok_def)

lemma registered_ok:
  assumes ok: "links_ok pm" and up: "pm_links pm c = Some (k, True)"
    and reg: "RegisterPeerConnection (dm_sender_id m) c pm = (True, pm')"
  shows "links_ok (note_dispatch c m (retrieve c n pm'))" (is "links_ok ?pm")
proof -
  note d = links_okD [OF ok]
  let ?ids = "pi_id ` set (pm_peers pm)" and ?f = "dm_sender_id m"
  have f: "?f \<in> ?ids" "?f \<noteq> pm_self pm" and bound: "pm_connection_peers pm c \<in> {None, Some ?f}"
    "pm_connection_peers pm c = None \<Longrightarrow> ?f \<le> pm_self pm"
    and pm': "pm' = pm\<lparr>pm_connection_peers := (pm_connection_peers pm)(c := Some ?f),
       pm_connections := (pm_connections pm)(?f := Some c)\<rparr>"
    using reg by (auto simp: RegisterPeerConnection_def Let_def list_ex_iff split: if_splits intro: rev_image_eqI)
  have F: "pm_alive ?pm = pm_alive pm" "pm_self ?pm = pm_self pm" "pm_peers ?pm = pm_peers pm" "pm_links ?pm = pm_links pm"
    "pm_connections ?pm = (pm_connections pm)(?f := Some c)" "pm_connection_peers ?pm = (pm_connection_peers pm)(c := Some ?f)"
    "pm_dispatched ?pm = pm_dispatched pm @ [(c, ?f, dm_type m, dm_payload m)]"
    by (simp_all add: pm' note_dispatch_def retrieve_def)
  have speaks: "speaks_for ?ids (pm_self pm) k ?f"
  proof (cases "pm_connection_peers pm c")
    case None
    then have "k = Incoming" using d(4) [of c] up by (cases k) auto
    with None bound(2) f show ?thesis by simp
  next
    case (Some g)
    with bound(1) d(3) [OF Some] up show ?thesis by auto
  qed
  have same: "g = ?f" if "(c, g, t', b') \<in> set (pm_dispatched pm)" for g t' b'
    using d(5) [OF that] up bound(1) by auto
  show ?thesis
  proof (rule links_okI, unfold F)
    show "pm_alive pm" by (rule d(1))
    show "((pm_connection_peers pm)(c := Some ?f)) c' = Some p" if "((pm_connections pm)(?f := Some c)) p = Some c'" for p c'
      using that d(2) [of p c'] bound(1) by (auto split: if_splits)
    show "\<exists>k. pm_links pm c' = Some (k, True) \<and> speaks_for ?ids (pm_self pm) k p"
      if "((pm_connection_peers pm)(c := Some ?f)) c' = Some p" for c' p
      using that d(3) [of c' p] up speaks by (auto split: if_splits)
    show "((pm_connection_peers pm)(c := Some ?f)) c' = Some q" if "pm_links pm c' = Some (Outgoing q, True)" for c' q
      using that d(4) [OF that] bound(1) by auto
    show "\<exists>k u. pm_links pm c' = Some (k, u) \<and> speaks_for ?ids (pm_self pm) k g \<and>
        (u \<longrightarrow> ((pm_connection_peers pm)(c := Some ?f)) c' = Some g)"
      if "(c', g, t, b) \<in> set (pm_dispatched pm @ [(c, ?f, dm_type m, dm_payload m)])" for c' g t b
      using that d(5) [of c' g t b] same [of g t b] up speaks by auto
    show "g = g'" if "(c', g, t, b) \<in> set (pm_dispatched pm @ [(c, ?f, dm_type m, dm_payload m)])"
      "(c', g', t', b') \<in> set (pm_dispatched pm @ [(c, ?f, dm_type m, dm_payload m)])" for c' g g' t b t' b'
      using that d(6) [of c' g t b g' t' b'] same [of g t b] same [of g' t' b'] by auto
  qed
qed

lemma dispatch_loop_links:
  assumes "dispatch_loop n N h c (pm, r) = Ok () (pm', r')" and "links_ok pm" and "pm_links pm c = Some (k, True)"
  shows "links_ok pm'"
  using assms
proof (induction n arbitrary: pm r)
  case 0
  then show ?case by simp
next
  case (Suc n)
  have close: "links_ok (close_connection N c pm)"
    using Suc.prems(2) links_ok_cong [of "close_connection N c pm" pm] by (simp add: close_connection_def link_view_def)
  show ?case
  proof (cases "length (pm_buffers pm c) < 4")
    case True
    with Suc.prems show ?thesis by simp
  next
    case long: False
    show ?thesis
    proof (cases "TryDecode (pm_buffers pm c)")
      case (Inl e)
      with Suc.prems long close show ?thesis by auto
    next
      case dec: (Inr o')
      show ?thesis
      proof (cases o')
        case None
        with Suc.prems long dec show ?thesis by simp
      next
        case (Some mc)
        obtain m n' where mc: "mc = (m, n')" by (cases mc)
        obtain reg pm1 where reg: "RegisterPeerConnection (dm_sender_id m) c pm = (reg, pm1)" by fastforce
        show ?thesis
        proof (cases reg)
          case False
          then have "pm1 = pm" using reg by (auto simp: RegisterPeerConnection_def Let_def split: if_splits)
          with False Suc.prems long dec Some mc reg close show ?thesis by auto
        next
          case True
          let ?pm = "note_dispatch c m (retrieve c n' pm1)"
          have "RegisterPeerConnection (dm_sender_id m) c pm = (True, pm1)" using reg True by simp
          then have "links_ok ?pm" by (rule registered_ok [OF Suc.prems(2,3)])
          moreover have "pm_links ?pm c = Some (k, True)"
            using reg True Suc.prems(3)
            by (auto simp: RegisterPeerConnection_def Let_def note_dispatch_def retrieve_def split: if_splits)
          ultimately show ?thesis
            using Suc.prems(1) long dec Some mc reg True Suc.IH [of ?pm]
            by (auto simp: Let_def split: res.splits)
        qed
      qed
    qed
  qed
qed

lemma dispatch_loop_table:
  "dispatch_loop n N h c (pm, r) = Ok () (pm', r') \<Longrightarrow> pm_self pm' = pm_self pm \<and> pm_peers pm' = pm_peers pm"
proof (induction n arbitrary: pm r)
  case (Suc n)
  have "pm_self pm1 = pm_self pm \<and> pm_peers pm1 = pm_peers pm" if "RegisterPeerConnection q c pm = (b, pm1)" for q b pm1
    using that by (auto simp: RegisterPeerConnection_def Let_def split: if_splits)
  with Suc show ?case
    by (fastforce simp: Let_def close_connection_def note_dispatch_def retrieve_def
        split: if_splits sum.splits option.splits prod.splits bool.splits res.splits)
qed simp

lemma ConnectToPeer_view: "link_view (ConnectToPeer N peer pm) = link_view pm"
  by (simp add: ConnectToPeer_def link_view_def Let_def)

lemma Start_view: "link_view (PeerManager_Start N pm) = link_view pm"
proof -
  have "link_view (fold (\<lambda>peer pm. if pi_id peer = pm_self pm then pm
      else if pi_id peer > pm_self pm then ConnectToPeer N peer pm else pm) ps pm) = link_view pm" for ps and pm :: "'a peer_manager"
    by (induction ps arbitrary: pm) (simp_all add: ConnectToPeer_view)
  from this [of "pm_peers pm" "pm\<lparr>pm_started := True\<rparr>"] show ?thesis by (simp add: PeerManager_Start_def link_view_def)
qed

lemma OnRetryTimer_view: "OnRetryTimer N peer token pm = Ok () pm' \<Longrightarrow> link_view pm' = link_view pm"
  using ConnectToPeer_view [of N peer]
  by (auto simp: OnRetryTimer_def Let_def split: if_splits option.splits prod.splits) (simp_all add: link_view_def)

lemma Send_view: "Send N p t b pm = Ok x pm' \<Longrightarrow> link_view pm' = link_view pm"
  by (auto simp: Send_def Let_def liftR_def link_view_def split: option.splits if_splits sum.splits)

text \<open>A fresh connection comes up, bound to a peer if this member opened it, and a connection goes down.\<close>

lemma opened_ok:
  assumes ok: "links_ok pm" and fresh: "pm_links pm c = None"
    and k: "case b of None \<Rightarrow> k = Incoming | Some p \<Rightarrow> k = Outgoing p \<and> speaks_for (pi_id ` set (pm_peers pm)) (pm_self pm) k p"
    and pm': "link_view pm' = link_view (pm\<lparr>pm_links := (pm_links pm)(c := Some (k, True)),
       pm_connections := (case b of None \<Rightarrow> pm_connections pm | Some p \<Rightarrow> (pm_connections pm)(p := Some c)),
       pm_connection_peers := (pm_connection_peers pm)(c := b)\<rparr>)" (is "_ = link_view ?pm")
  shows "links_ok pm'"
proof -
  note d = links_okD [OF ok]
  have unbound: "pm_connection_peers pm c = None" using d(3) [of c] fresh by (cases "pm_connection_peers pm c") auto
  have unused: "pm_connections pm p \<noteq> Some c" for p using d(2) [of p c] unbound by auto
  have silent: "(c, f, t, b) \<notin> set (pm_dispatched pm)" for f t b using d(5) [of c f t b] fresh by auto
  have "links_ok ?pm"
  proof (rule links_okI)
    show "pm_alive ?pm" using d(1) by simp
    show "pm_connection_peers ?pm c' = Some p" if "pm_connections ?pm p = Some c'" for p c'
      using that d(2) [of p c'] unused [of p] by (auto split: option.splits if_splits)
    show "\<exists>k. pm_links ?pm c' = Some (k, True) \<and> speaks_for (pi_id ` set (pm_peers ?pm)) (pm_self ?pm) k p"
      if "pm_connection_peers ?pm c' = Some p" for c' p
      using that d(3) [of c' p] k by (auto split: option.splits if_splits)
    show "pm_connection_peers ?pm c' = Some q" if "pm_links ?pm c' = Some (Outgoing q, True)" for c' q
      using that d(4) [of c' q] k by (auto split: option.splits if_splits)
    show "\<exists>k u. pm_links ?pm c' = Some (k, u) \<and> speaks_for (pi_id ` set (pm_peers ?pm)) (pm_self ?pm) k f \<and>
        (u \<longrightarrow> pm_connection_peers ?pm c' = Some f)" if "(c', f, t, b') \<in> set (pm_dispatched ?pm)" for c' f t b'
      using that d(5) [of c' f t b'] silent [of f t b'] by auto
    show "f = g" if "(c', f, t, b) \<in> set (pm_dispatched ?pm)" "(c', g, t', b') \<in> set (pm_dispatched ?pm)" for c' f g t b t' b'
      using that d(6) [of c' f t b g t' b'] by simp
  qed
  with links_ok_cong [OF pm'] show ?thesis by simp
qed

lemma closed_ok:
  assumes ok: "links_ok pm" and up: "pm_links pm c = Some (k, True)"
    and v: "link_view pm' = link_view (pm\<lparr>pm_links := (pm_links pm)(c := Some (k, False)),
       pm_connection_peers := (pm_connection_peers pm)(c := None),
       pm_connections := (\<lambda>p. if pm_connections pm p = Some c then None else pm_connections pm p)\<rparr>)" (is "_ = link_view ?pm")
  shows "links_ok pm'"
proof -
  note d = links_okD [OF ok]
  have "links_ok ?pm"
  proof (rule links_okI)
    show "pm_alive ?pm" using d(1) by simp
    show "pm_connection_peers ?pm c' = Some p" if "pm_connections ?pm p = Some c'" for p c'
      using that d(2) [of p c'] by (auto split: if_splits)
    show "\<exists>k. pm_links ?pm c' = Some (k, True) \<and> speaks_for (pi_id ` set (pm_peers ?pm)) (pm_self ?pm) k p"
      if "pm_connection_peers ?pm c' = Some p" for c' p
      using that d(3) [of c' p] by (auto split: if_splits)
    show "pm_connection_peers ?pm c' = Some q" if "pm_links ?pm c' = Some (Outgoing q, True)" for c' q
      using that d(4) [of c' q] by (auto split: if_splits)
    show "\<exists>k u. pm_links ?pm c' = Some (k, u) \<and> speaks_for (pi_id ` set (pm_peers ?pm)) (pm_self ?pm) k f \<and>
        (u \<longrightarrow> pm_connection_peers ?pm c' = Some f)" if sent: "(c', f, t, b) \<in> set (pm_dispatched ?pm)" for c' f t b
    proof -
      from sent d(5) [of c' f t b] obtain k' u where l: "pm_links pm c' = Some (k', u)"
        "speaks_for (pi_id ` set (pm_peers pm)) (pm_self pm) k' f" "u \<longrightarrow> pm_connection_peers pm c' = Some f" by auto
      show ?thesis
      proof (cases "c' = c")
        case True
        with l up show ?thesis by (intro exI [of _ k'] exI [of _ False]) simp
      next
        case False
        with l show ?thesis by (intro exI [of _ k'] exI [of _ u]) simp
      qed
    qed
    show "f = g" if "(c', f, t, b) \<in> set (pm_dispatched ?pm)" "(c', g, t', b') \<in> set (pm_dispatched ?pm)" for c' f g t b t' b'
      using that d(6) [of c' f t b g t' b'] by simp
  qed
  with links_ok_cong [OF v] show ?thesis by simp
qed

lemma outgoing_down_view:
  assumes ok: "links_ok pm" and up: "pm_links pm c = Some (Outgoing p, True)"
  shows "link_view (PeerClientConnection now c False p (pm\<lparr>pm_links := (pm_links pm)(c := Some (Outgoing p, False))\<rparr>)) =
     link_view (pm\<lparr>pm_links := (pm_links pm)(c := Some (Outgoing p, False)),
       pm_connection_peers := (pm_connection_peers pm)(c := None),
       pm_connections := (\<lambda>q. if pm_connections pm q = Some c then None else pm_connections pm q)\<rparr>)"
proof -
  have "pm_connections pm q \<noteq> Some c" if "q \<noteq> p" for q
    using links_okD(2) [OF ok, of q c] links_okD(4) [OF ok up] that by auto
  then have "(\<lambda>q. if pm_connections pm q = Some c then None else pm_connections pm q) =
      (if pm_connections pm p = Some c then (pm_connections pm)(p := None) else pm_connections pm)" by fastforce
  with links_okD(1) [OF ok] show ?thesis
    by (simp add: PeerClientConnection_def link_view_def Let_def split: prod.splits option.splits)
qed

lemma peer_step_links:
  assumes "peer_step N h s s'" and "links_ok (fst s)"
  shows "links_ok (fst s') \<and> pm_self (fst s') = pm_self (fst s) \<and> pm_peers (fst s') = pm_peers (fst s)"
  using assms
proof (induction rule: peer_step.induct)
  case (start pm r)
  then show ?case using links_ok_cong [OF Start_view [of N pm]] Start_view [of N pm] by (simp add: link_view_def)
next
  case (accepted pm c r)
  let ?pm = "OnServerConnection c True (pm\<lparr>pm_links := (pm_links pm)(c := Some (Incoming, True))\<rparr>)"
  have "pm_connection_peers pm c = None"
    using links_okD(3) [OF accepted.prems, of c] accepted.hyps by (cases "pm_connection_peers pm c") auto
  then have v: "link_view ?pm = link_view (pm\<lparr>pm_links := (pm_links pm)(c := Some (Incoming, True)),
     pm_connections := (case None of None \<Rightarrow> pm_connections pm | Some p \<Rightarrow> (pm_connections pm)(p := Some c)),
     pm_connection_peers := (pm_connection_peers pm)(c := None)\<rparr>)"
    by (simp add: OnServerConnection_def link_view_def fun_upd_idem)
  have "links_ok ?pm" by (rule opened_ok [OF accepted.prems [unfolded fst_conv] accepted.hyps _ v]) simp
  then show ?case by (simp add: OnServerConnection_def)
next
  case (connected pm c p r now)
  let ?pm = "PeerClientConnection now c True p (pm\<lparr>pm_links := (pm_links pm)(c := Some (Outgoing p, True))\<rparr>)"
  have v: "link_view ?pm = link_view (pm\<lparr>pm_links := (pm_links pm)(c := Some (Outgoing p, True)),
     pm_connections := (case Some p of None \<Rightarrow> pm_connections pm | Some p \<Rightarrow> (pm_connections pm)(p := Some c)),
     pm_connection_peers := (pm_connection_peers pm)(c := Some p)\<rparr>)"
    using links_okD(1) [OF connected.prems] by (simp add: PeerClientConnection_def link_view_def)
  have "links_ok ?pm"
    by (rule opened_ok [OF connected.prems [unfolded fst_conv] connected.hyps(1) _ v]) (use connected.hyps(2,3) in simp)
  then show ?case by (simp add: PeerClientConnection_def)
next
  case (message pm c k chunk r s)
  let ?pm = "pm\<lparr>pm_buffers := (pm_buffers pm)(c := pm_buffers pm c @ chunk)\<rparr>"
  have "links_ok ?pm" using message.prems links_ok_cong [of ?pm pm] by (simp add: link_view_def)
  moreover have "ParseAndDispatch N h c (?pm, r) = Ok () s"
    using message.hyps(2) links_okD(1) [OF message.prems] by (simp add: OnPeerMessage_def Let_def)
  ultimately show ?case
    using dispatch_loop_links [of _ N h c ?pm r "fst s" "snd s" k] dispatch_loop_table [of _ N h c ?pm r "fst s" "snd s"]
      message.hyps(1) by (simp add: ParseAndDispatch_def)
next
  case (incoming_down pm c r)
  let ?pm = "OnServerConnection c False (pm\<lparr>pm_links := (pm_links pm)(c := Some (Incoming, False))\<rparr>)"
  have v: "link_view ?pm = link_view (pm\<lparr>pm_links := (pm_links pm)(c := Some (Incoming, False)),
     pm_connection_peers := (pm_connection_peers pm)(c := None),
     pm_connections := (\<lambda>p. if pm_connections pm p = Some c then None else pm_connections pm p)\<rparr>)"
    using links_okD(1) [OF incoming_down.prems] by (simp add: OnServerConnection_def link_view_def cong: if_cong)
  from closed_ok [OF incoming_down.prems [unfolded fst_conv] incoming_down.hyps v] v show ?case by (simp add: link_view_def)
next
  case (outgoing_down pm c p r now)
  note v = outgoing_down_view [of pm c p now, OF outgoing_down.prems [unfolded fst_conv] outgoing_down.hyps]
  from closed_ok [OF outgoing_down.prems [unfolded fst_conv] outgoing_down.hyps v] v show ?case by (simp add: link_view_def)
next
  case (timer peer token pm pm' r)
  then show ?case
    using links_ok_cong [OF OnRetryTimer_view [OF timer.hyps]] OnRetryTimer_view [OF timer.hyps] by (simp add: link_view_def)
next
  case (send p t b pm x pm' r)
  then show ?case using links_ok_cong [OF Send_view [OF send.hyps]] Send_view [OF send.hyps] by (simp add: link_view_def)
next
  case (drained net pm r)
  then show ?case using links_ok_cong [of "pm\<lparr>pm_net := net\<rparr>" pm] by (simp add: link_view_def)
qed simp

lemma check_peers_nonneg: "check_peers ps ids = Inr ids' \<Longrightarrow> i \<in> ids' \<Longrightarrow> i \<in> ids \<or> 0 \<le> i"
  by (induction ps ids rule: check_peers.induct) (auto split: if_splits)

lemma new_links_ok:
  assumes "PeerManager_new self peers net = Inr pm"
  shows "links_ok pm" "pm_self pm = self" "pm_peers pm = peers" "pm_net pm = net" "0 \<le> self"
  using assms check_peers_nonneg [of peers "{}" _ self]
  by (auto simp: PeerManager_new_def bindE_eq_Inr links_ok_def ValidatePeers_def split: if_splits)

lemma peer_steps_links:
  assumes "PeerManager_new self peers net = Inr pm0" and "(peer_step N h)\<^sup>*\<^sup>* (pm0, r0) s"
  shows "links_ok (fst s) \<and> pm_self (fst s) = self \<and> pm_peers (fst s) = peers"
  using assms(2)
proof (induction rule: rtranclp_induct)
  case base
  then show ?case using new_links_ok [OF assms(1)] by simp
next
  case (step s s')
  then show ?case using peer_step_links [OF step.hyps(2)] by simp
qed

text \<open>
  C14. A connection speaks for one peer. In every history of a manager, all messages that one connection
  passed to the handler carry the same sender; the sender is another member of the table; on a
  connection that this member opened it is the configured peer, and on one that it accepted a member
  with a smaller id. A frame with any other sender closes the connection and is not dispatched.
\<close>

theorem one_sender_per_connection:
  assumes "PeerManager_new self peers net = Inr pm0" and "(peer_step N h)\<^sup>*\<^sup>* (pm0, r0) (pm, r)"
    and "(c, f, t, b) \<in> set (pm_dispatched pm)"
  shows "f \<in> pi_id ` set peers \<and> f \<noteq> self \<and>
     (\<exists>k u. pm_links pm c = Some (k, u) \<and> speaks_for (pi_id ` set peers) self k f) \<and>
     {g. \<exists>t' b'. (c, g, t', b') \<in> set (pm_dispatched pm)} = {f}"
proof -
  have ok: "links_ok pm" "pm_self pm = self" "pm_peers pm = peers"
    using peer_steps_links [OF assms(1,2)] by simp_all
  from links_okD(5) [OF ok(1) assms(3)] obtain k u where
    k: "pm_links pm c = Some (k, u)" "speaks_for (pi_id ` set peers) self k f" by (auto simp: ok(2,3))
  then have "f \<in> pi_id ` set peers" "f \<noteq> self" by (cases k; simp)+
  moreover have "{g. \<exists>t' b'. (c, g, t', b') \<in> set (pm_dispatched pm)} = {f}"
    using assms(3) links_okD(6) [OF ok(1) assms(3)] by blast
  ultimately show ?thesis using k by blast
qed

lemma demo_manager_new: "PeerManager_new 1 (pm_peers demo_manager) mem_net_init = Inr demo_manager"
  by (simp add: demo_manager_def PeerManager_new_def ValidatePeers_def)

theorem one_sender_per_connection_witness:
  "\<exists>f pm. Encode kRequestVote 0 ''ab'' = Inr f \<and>
     (peer_step mem_net_ops (\<lambda>i t p r. Ok () ()))\<^sup>*\<^sup>* (demo_manager, ()) (pm, ()) \<and>
     {g. \<exists>t' b'. (''c1'', g, t', b') \<in> set (pm_dispatched pm)} = {0}"
proof -
  let ?h = "\<lambda>i t p r. Ok () ()" and ?up = "demo_manager\<lparr>pm_links := [''c1'' \<mapsto> (Incoming, True)]\<rparr>"
  obtain f where f: "Encode kRequestVote 0 ''ab'' = Inr f" by (simp add: Encode_def IsValidType_def)
  from decode_frame [OF f, of "[]"] have dec: "TryDecode f = Inr (Some (\<lparr>dm_type = kRequestVote, dm_sender_id = 0, dm_payload = ''ab''\<rparr>, length f))"
    by simp
  have up: "peer_step mem_net_ops ?h (demo_manager, ()) (?up, ())"
    using peer_step.accepted [of demo_manager "''c1''" mem_net_ops ?h "()"]
    by (simp add: demo_manager_fields OnServerConnection_def fun_upd_def)
  let ?in = "?up\<lparr>pm_buffers := (pm_buffers demo_manager)(''c1'' := f)\<rparr>"
  let ?reg = "?in\<lparr>pm_connection_peers := [''c1'' \<mapsto> 0], pm_connections := [0 \<mapsto> ''c1'']\<rparr>"
  have "0 \<in> pi_id ` set (pm_peers demo_manager)" by (simp add: demo_manager_fields)
  then have "\<exists>peer\<in>set (pm_peers demo_manager). pi_id peer = 0" by (metis imageE)
  then have reg: "RegisterPeerConnection 0 ''c1'' ?in = (True, ?reg)"
    by (simp add: RegisterPeerConnection_def list_ex_iff demo_manager_fields Let_def)
  have "ParseAndDispatch mem_net_ops ?h ''c1'' (?in, ()) = Ok () (note_dispatch ''c1'' \<lparr>dm_type = kRequestVote, dm_sender_id = 0, dm_payload = ''ab''\<rparr>
      (retrieve ''c1'' (length f) ?reg), ())"
    using encoded_length [OF f] dec
    by (subst ParseAndDispatch_unfold, simp add: reg Let_def)
       (subst ParseAndDispatch_unfold, simp add: note_retrieve_buffers)
  then have "\<exists>pm. OnPeerMessage mem_net_ops ?h ''c1'' f (?up, ()) = Ok () (pm, ()) \<and> pm_dispatched pm = [(''c1'', 0, kRequestVote, ''ab'')]"
    by (simp add: OnPeerMessage_def demo_manager_fields note_dispatch_def retrieve_def)
  then obtain pm where pm: "OnPeerMessage mem_net_ops ?h ''c1'' f (?up, ()) = Ok () (pm, ())"
    "pm_dispatched pm = [(''c1'', 0, kRequestVote, ''ab'')]" by blast
  have run: "(peer_step mem_net_ops ?h)\<^sup>*\<^sup>* (demo_manager, ()) (pm, ())"
    using up peer_step.message [OF _ pm(1), of Incoming] by (simp add: converse_rtranclp_into_rtranclp)
  from one_sender_per_connection [OF demo_manager_new run, of "''c1''" 0 kRequestVote "''ab''"] pm(2) run f show ?thesis
    by auto
qed

section \<open>The output of a connection is bounded\<close>

context muduo
begin

lemma Send_total:
  assumes "0 \<le> pm_self pm"
  shows "\<exists>x pm'. Send N p t b pm = Ok x pm'"
  using assms by (auto simp: Send_def Let_def liftR_def Encode_def split: option.splits)

lemma Send_queue:
  assumes "Send N p t b pm = Ok x pm'" and "\<And>c. mu_queued N c (pm_net pm) \<le> kMaxPeerQueued"
  shows "mu_queued N c (pm_net pm') \<le> kMaxPeerQueued"
proof (cases "pm_net pm' = pm_net pm")
  case False
  then obtain d f where f: "pm_net pm' = mu_send N d f (pm_net pm)" "Encode t (pm_self pm) b = Inr f"
    "length b + kHeaderSize \<le> kMaxPeerQueued - mu_queued N d (pm_net pm)"
    using assms(1) by (auto simp: Send_def Let_def liftR_def split: option.splits if_splits sum.splits)
  then have "length f + mu_queued N d (pm_net pm) \<le> kMaxPeerQueued"
    using assms(2) [of d] by (simp add: Encode_Inr)
  then show ?thesis
    using send_queued [of d f "pm_net pm"] send_other [of c d f "pm_net pm"] assms(2) [of c] f(1) by (cases "c = d") simp_all
qed (use assms(2) in simp)

lemma dispatch_loop_queue:
  "dispatch_loop n N h c (pm, r) = Ok () (pm', r') \<Longrightarrow> mu_queued N d (pm_net pm') = mu_queued N d (pm_net pm)"
proof (induction n arbitrary: pm r)
  case (Suc n)
  have "pm_net pm1 = pm_net pm" if "RegisterPeerConnection q c pm = (b, pm1)" for q b pm1
    using that by (auto simp: RegisterPeerConnection_def Let_def split: if_splits)
  with Suc show ?case
    by (fastforce simp: Let_def close_connection_def note_dispatch_def retrieve_def
        split: if_splits sum.splits option.splits prod.splits bool.splits res.splits)
qed simp

lemma ConnectToPeer_queue: "mu_queued N d (pm_net (ConnectToPeer N peer pm)) = mu_queued N d (pm_net pm)"
  by (simp add: ConnectToPeer_def Let_def)

lemma Start_queue: "mu_queued N d (pm_net (PeerManager_Start N pm)) = mu_queued N d (pm_net pm)"
proof -
  have "mu_queued N d (pm_net (fold (\<lambda>peer pm. if pi_id peer = pm_self pm then pm
      else if pi_id peer > pm_self pm then ConnectToPeer N peer pm else pm) ps pm)) = mu_queued N d (pm_net pm)" for ps pm
    by (induction ps arbitrary: pm) (simp_all add: ConnectToPeer_queue)
  then show ?thesis by (simp add: PeerManager_Start_def)
qed

lemma peer_step_queue:
  assumes "peer_step N h s s'" and "\<And>c. mu_queued N c (pm_net (fst s)) \<le> kMaxPeerQueued"
  shows "mu_queued N c (pm_net (fst s')) \<le> kMaxPeerQueued"
  using assms
proof (induction rule: peer_step.induct)
  case (message pm d k chunk r s)
  from message.hyps message.prems [of c] show ?case
    by (cases s) (auto simp: OnPeerMessage_def Let_def ParseAndDispatch_def dest!: dispatch_loop_queue [where d = c] split: if_splits)
next
  case (outgoing_down pm d p r now)
  from outgoing_down.prems [of c] show ?case by (simp add: PeerClientConnection_def Let_def split: prod.splits option.splits)
next
  case (send p t b pm x pm' r)
  then show ?case using Send_queue [OF send.hyps] by simp
next
  case (timer peer token pm pm' r)
  from timer.hyps timer.prems [of c] show ?case by (auto simp: OnRetryTimer_def Let_def ConnectToPeer_queue split: if_splits option.splits prod.splits)
next
  case (drained net pm r)
  from drained.hyps [of c] drained.prems [of c] show ?case by simp
qed (simp_all add: Start_queue OnServerConnection_def PeerClientConnection_def)

end

text \<open>
  C15. The manager never queues more than 4 MiB on a connection and never fails to answer. For any
  implementation of the TCP interface, in every history of the manager that starts with nothing
  queued, the output buffer of every connection stays within the limit; and at every point \<open>Send\<close>
  returns, for every peer and payload: the frame was queued, or it reports that it was not.
\<close>

theorem peer_queue_bounded:
  assumes "muduo N" and "PeerManager_new self peers net = Inr pm0" and "\<forall>c. mu_queued N c net = 0"
    and "(peer_step N h)\<^sup>*\<^sup>* (pm0, r0) (pm, r)"
  shows "mu_queued N c (pm_net pm) \<le> kMaxPeerQueued \<and> (\<exists>x pm'. Send N p t b pm = Ok x pm')"
proof -
  have "\<forall>c. mu_queued N c (pm_net (fst s)) \<le> kMaxPeerQueued" if "(peer_step N h)\<^sup>*\<^sup>* (pm0, r0) s" for s
    using that
  proof (induction rule: rtranclp_induct)
    case (step s s')
    then show ?case using muduo.peer_step_queue [OF assms(1) step.hyps(2)] by blast
  qed (use assms(3) new_links_ok(4) [OF assms(2)] in simp)
  from this [OF assms(4)] muduo.Send_total [OF assms(1), of pm] new_links_ok(5) [OF assms(2)]
    peer_steps_links [OF assms(2,4)] show ?thesis by simp
qed

theorem peer_queue_bounded_witness:
  "\<exists>pm. (peer_step mem_net_ops (\<lambda>i t p r. Ok () ()))\<^sup>*\<^sup>* (demo_manager, ()) (pm, ()) \<and>
     mn_sent (pm_net pm) \<noteq> [] \<and> mu_queued mem_net_ops ''c2'' (pm_net pm) \<le> kMaxPeerQueued \<and>
     (\<exists>x pm'. Send mem_net_ops 2 kRequestVote ''ab'' pm = Ok x pm')"
proof -
  let ?h = "\<lambda>i t p r. Ok () ()"
  define up where "up = PeerClientConnection 0 ''c2'' True 2
    (demo_manager\<lparr>pm_links := (pm_links demo_manager)(''c2'' := Some (Outgoing 2, True))\<rparr>)"
  have step: "peer_step mem_net_ops ?h (demo_manager, ()) (up, ())"
    unfolding up_def by (rule peer_step.connected) (simp_all add: demo_manager_fields)
  have up: "pm_connections up 2 = Some ''c2''" "pm_net up = mem_net_init" "pm_self up = 1"
    by (simp_all add: up_def PeerClientConnection_def demo_manager_fields)
  obtain f where f: "Encode kRequestVote (pm_self up) ''ab'' = Inr f" by (simp add: Encode_def IsValidType_def up)
  let ?pm = "up\<lparr>pm_net := mem_net_init\<lparr>mn_sent := [(''c2'', f)]\<rparr>\<rparr>"
  have "Send mem_net_ops 2 kRequestVote ''ab'' up = Ok True ?pm"
    using f by (simp add: Send_def up mem_net_ops_def mem_queued_def mem_net_init_def)
  with step have run: "(peer_step mem_net_ops ?h)\<^sup>*\<^sup>* (demo_manager, ()) (?pm, ())"
    by (meson peer_step.send r_into_rtranclp rtranclp.rtrancl_into_rtrancl)
  have empty: "\<forall>c. mu_queued mem_net_ops c mem_net_init = 0" by (simp add: mem_net_ops_def mem_queued_def mem_net_init_def)
  from run peer_queue_bounded [OF memnet.muduo_axioms demo_manager_new empty run] show ?thesis
    by (intro exI [of _ ?pm]) simp
qed

end
