(* ===== verification/Server.thy ===== *)
theory Server
  imports NodeOps PeerManager SessionQueue Namespaces MetricsText "HOL-Library.AList"
begin

text \<open>
  The client side of the server (\<open>src/src/server/main.cpp\<close>): sessions, command execution, the write
  queue and its flushes, and the metrics port, on top of the node, the namespaces and muduo.

  \<^item> The globals of the file are the fields of one record. Sessions are kept by connection name; a
    weak pointer to a session is the name, and it is live while the session is in the table, which is
    also as long as the connection lives. The byte accounts are \<open>size_t\<close>, so additions and
    subtractions wrap around.
  \<^item> The event loop is \<open>srv_tasks\<close>, in the order of \<open>queueInLoop\<close>, and \<open>srv_timers\<close>, the tokens of the
    armed flush timers. Cancelling a timer takes it out of them; since it may already be on its way, it
    moves to \<open>srv_cancelled_timers\<close>, from where it may still fire or never do so.
  \<^item> A callback handed to the node is a number, and \<open>srv_callbacks\<close> says what it does. The node reports
    a completion as an event; \<open>srv_ready\<close> holds those that were not run yet. They run when the operation
    of the node has returned, in the order of the events, and what a callback makes ready runs before
    the callbacks behind it.
  \<^item> \<open>cs_stream\<close>, \<open>cs_started\<close> and \<open>cs_replies\<close> record history: the bytes received, the commands taken
    from the queue and the replies sent, each with the number of commands that were started by then.
\<close>

section \<open>State\<close>

record client_session =
  cs_input :: command_buffer
  cs_queue :: session_queue
  cs_waiting :: bool
  cs_closing :: bool
  cs_drain_scheduled :: bool
  cs_accounted_output :: nat
  cs_executing :: bool
  cs_stream :: bytes
  cs_started :: "queued_command list"
  cs_replies :: "(nat \<times> bytes) list"

record queued_write =
  qw_command :: bytes
  qw_conn :: string
  qw_enqueued_at :: int

record server_flags =
  fg_node_id :: int
  fg_client_port :: int
  fg_raft_port :: int
  fg_metrics_port :: int
  fg_peers :: string
  fg_leader_only_reads :: bool
  fg_linearizable_reads :: bool
  fg_lease_reads :: bool
  fg_group_commit_ms :: int
  fg_async_apply :: bool
  fg_max_clients :: int
  fg_snapshot_threshold :: int

datatype completion = WriteDone string int | ReadDone string bytes

datatype loop_task = DrainTask string | FlushTask "64 word"

record ('db, 'net) server =
  srv_flags :: server_flags
  srv_node :: "'db node"
  srv_net :: 'net
  srv_namespaces :: namespaces
  srv_sessions :: "(string \<times> client_session) list"
  srv_input_bytes :: nat
  srv_output_bytes :: nat
  srv_queued_write_bytes :: nat
  srv_overload_rejections :: "64 word"
  srv_write_queue_wait :: latency_stats
  srv_write_completed :: latency_stats
  srv_local_read :: latency_stats
  srv_flush_immediate :: "64 word"
  srv_flush_delayed :: "64 word"
  srv_flush_promoted :: "64 word"
  srv_writes :: "queued_write list"
  srv_flush_policy :: flush_policy
  srv_flush_timer :: "64 word option"
  srv_metrics_requests :: "(string \<times> bytes) list"
  srv_tasks :: "loop_task list"
  srv_timers :: "64 word list"
  srv_cancelled_timers :: "64 word list"
  srv_callbacks :: "(nat \<times> completion) list"
  srv_next_callback :: nat
  srv_ready :: "raft_event list"

abbreviation kMaxTotalInput :: nat where "kMaxTotalInput \<equiv> 67108864"
abbreviation kMaxTotalOutput :: nat where "kMaxTotalOutput \<equiv> 67108864"
abbreviation kMaxClientOutput :: nat where "kMaxClientOutput \<equiv> 4194304"
abbreviation kMaxQueuedWrites :: nat where "kMaxQueuedWrites \<equiv> 1024"
abbreviation kMaxQueuedWriteBytes :: nat where "kMaxQueuedWriteBytes \<equiv> 16777216"
abbreviation kMaxMetricsRequest :: nat where "kMaxMetricsRequest \<equiv> 4096"

definition new_session :: client_session where
  "new_session = \<lparr>cs_input = \<lparr>cb_bytes = [], cb_offset = 0\<rparr>, cs_queue = \<lparr>sq_items = [], sq_queued_bytes = 0\<rparr>,
     cs_waiting = False, cs_closing = False, cs_drain_scheduled = False, cs_accounted_output = 0,
     cs_executing = False, cs_stream = [], cs_started = [], cs_replies = []\<rparr>"

text \<open>Arithmetic of \<open>size_t\<close>.\<close>

definition size_add :: "nat \<Rightarrow> nat \<Rightarrow> nat" where "size_add a b = (a + b) mod 2 ^ 64"
definition size_sub :: "nat \<Rightarrow> nat \<Rightarrow> nat" where "size_sub a b = (a + 2 ^ 64 - b) mod 2 ^ 64"

definition session :: "string \<Rightarrow> ('db, 'net) server \<Rightarrow> client_session option" where
  "session c sv = map_of (srv_sessions sv) c"

definition upd_session :: "string \<Rightarrow> (client_session \<Rightarrow> client_session) \<Rightarrow> ('db, 'net) server \<Rightarrow> ('db, 'net) server" where
  "upd_session c f sv = sv\<lparr>srv_sessions := AList.map_entry c f (srv_sessions sv)\<rparr>"

definition upd_net :: "('net \<Rightarrow> 'net) \<Rightarrow> ('db, 'net) server \<Rightarrow> ('db, 'net) server" where
  "upd_net f sv = sv\<lparr>srv_net := f (srv_net sv)\<rparr>"

definition reject_overload :: "nat \<Rightarrow> ('db, 'net) server \<Rightarrow> ('db, 'net) server" where
  "reject_overload n sv = sv\<lparr>srv_overload_rejections := srv_overload_rejections sv + word_of_nat n\<rparr>"

text \<open>A call of the node. The completions it reports become ready before those that wait.\<close>

fun is_completion :: "raft_event \<Rightarrow> bool" where
  "is_completion (EvSend p m) = False"
| "is_completion _ = True"

definition call_node :: "('db node \<Rightarrow> ('db node, 'a) res) \<Rightarrow> ('db, 'net) server \<Rightarrow> (('db, 'net) server, 'a) res" where
  "call_node f sv =
     (case f (srv_node sv) of
        Throw e n \<Rightarrow> Throw e (sv\<lparr>srv_node := n\<rparr>)
      | Ok x n \<Rightarrow> Ok x (sv\<lparr>srv_node := n,
          srv_ready := filter is_completion (drop (length (nd_events (srv_node sv))) (nd_events n)) @ srv_ready sv\<rparr>))"

definition steady :: "'db raft_env \<Rightarrow> ('db, 'net) server \<Rightarrow> (('db, 'net) server, int) res" where
  "steady E = call_node (SteadyNow E)"

definition register :: "completion \<Rightarrow> ('db, 'net) server \<Rightarrow> ('db, 'net) server" where
  "register k sv = sv\<lparr>srv_callbacks := srv_callbacks sv @ [(srv_next_callback sv, k)],
     srv_next_callback := Suc (srv_next_callback sv)\<rparr>"

definition drop_callback :: "nat \<Rightarrow> ('db, 'net) server \<Rightarrow> ('db, 'net) server" where
  "drop_callback i sv = sv\<lparr>srv_callbacks := filter (\<lambda>k. fst k \<noteq> i) (srv_callbacks sv)\<rparr>"

section \<open>Replies\<close>

definition CloseClient :: "'net muduo_ops \<Rightarrow> string \<Rightarrow> ('db, 'net) server \<Rightarrow> ('db, 'net) server" where
  "CloseClient N c sv = upd_net (mu_forceClose N c) (upd_session c (\<lambda>s. s\<lparr>cs_closing := True\<rparr>) sv)"

definition AccountOutput :: "'net muduo_ops \<Rightarrow> string \<Rightarrow> ('db, 'net) server \<Rightarrow> ('db, 'net) server" where
  "AccountOutput N c sv =
     (case session c sv of
        None \<Rightarrow> sv
      | Some s \<Rightarrow>
          (let queued = mu_queued N c (srv_net sv);
               sv = upd_session c (\<lambda>s. s\<lparr>cs_accounted_output := queued\<rparr>)
                      (sv\<lparr>srv_output_bytes := size_add (size_sub (srv_output_bytes sv) (cs_accounted_output s)) queued\<rparr>) in
           if queued = 0 \<and> mu_capacity N c (srv_net sv) > 262144 then upd_net (mu_shrink N c) sv else sv))"

definition accounted :: "string \<Rightarrow> ('db, 'net) server \<Rightarrow> nat" where
  "accounted c sv = (case session c sv of None \<Rightarrow> 0 | Some s \<Rightarrow> cs_accounted_output s)"

definition SendReply :: "'net muduo_ops \<Rightarrow> string \<Rightarrow> bytes \<Rightarrow> ('db, 'net) server \<Rightarrow> ('db, 'net) server" where
  "SendReply N c reply sv =
     (case session c sv of
        None \<Rightarrow> sv
      | Some s \<Rightarrow>
          if cs_closing s \<or> \<not> mu_connected N c (srv_net sv) then sv
          else
            (let sv = AccountOutput N c sv in
             if length reply > size_sub kMaxClientOutput (accounted c sv) \<or>
                length reply > size_sub kMaxTotalOutput (srv_output_bytes sv)
             then CloseClient N c (reject_overload 1 sv)
             else AccountOutput N c
                    (upd_session c (\<lambda>s. s\<lparr>cs_replies := cs_replies s @ [(length (cs_started s), reply)]\<rparr>) (upd_net (mu_send N c reply) sv))))"

definition moved :: "('db, 'net) server \<Rightarrow> bytes" where
  "moved sv = Error (''MOVED '' @ to_string (nd_leader_id (srv_node sv)))"

section \<open>Scheduling\<close>

definition ScheduleDrain :: "string \<Rightarrow> ('db, 'net) server \<Rightarrow> ('db, 'net) server" where
  "ScheduleDrain c sv =
     (case session c sv of
        None \<Rightarrow> sv
      | Some s \<Rightarrow>
          if cs_drain_scheduled s \<or> cs_closing s \<or> cs_waiting s \<or> UnreadBytes (cs_input s) = 0 then sv
          else upd_session c (\<lambda>s. s\<lparr>cs_drain_scheduled := True\<rparr>) (sv\<lparr>srv_tasks := srv_tasks sv @ [DrainTask c]\<rparr>))"

definition cancel_timer :: "64 word \<Rightarrow> ('db, 'net) server \<Rightarrow> ('db, 'net) server" where
  "cancel_timer token sv =
     (if token \<in> set (srv_timers sv)
      then sv\<lparr>srv_timers := remove1 token (srv_timers sv), srv_cancelled_timers := srv_cancelled_timers sv @ [token]\<rparr>
      else sv)"

definition arm_flush :: "flush_plan \<Rightarrow> ('db, 'net) server \<Rightarrow> ('db, 'net) server" where
  "arm_flush plan sv =
     (if fp_action plan = ActNone then sv
      else
        (let sv = (case srv_flush_timer sv of
                     None \<Rightarrow> sv
                   | Some token \<Rightarrow>
                       (cancel_timer token sv)\<lparr>srv_flush_timer := None, srv_flush_promoted := srv_flush_promoted sv + 1\<rparr>) in
         if fp_action plan = Immediate
         then sv\<lparr>srv_flush_immediate := srv_flush_immediate sv + 1, srv_tasks := srv_tasks sv @ [FlushTask (fp_token plan)]\<rparr>
         else sv\<lparr>srv_flush_delayed := srv_flush_delayed sv + 1, srv_flush_timer := Some (fp_token plan),
                 srv_timers := srv_timers sv @ [fp_token plan]\<rparr>))"

definition ScheduleFlush :: "'db raft_env \<Rightarrow> ('db, 'net) server \<Rightarrow> (('db, 'net) server, unit) res" where
  "ScheduleFlush E sv =
     (case srv_writes sv of
        [] \<Rightarrow> Ok () sv
      | w # ws \<Rightarrow>
          bindR (steady E sv) (\<lambda>now sv.
            (let remaining = fg_group_commit_ms (srv_flags sv) * 1000000 - (now - qw_enqueued_at w) in
             case Flush_Request (length (srv_writes sv)) (srv_queued_write_bytes sv) (remaining \<le> 0) (srv_flush_policy sv) of
               Throw e p \<Rightarrow> Throw e (sv\<lparr>srv_flush_policy := p\<rparr>)
             | Ok plan p \<Rightarrow> Ok () (arm_flush plan (sv\<lparr>srv_flush_policy := p\<rparr>)))))"

section \<open>Commands\<close>

text \<open>
  The result of a command says whether it is complete: then \<open>OnCommandComplete\<close> follows. Otherwise the
  command is a write in the queue or a read that the node will confirm.
\<close>

definition SubmitWrite ::
  "'net muduo_ops \<Rightarrow> 'db raft_env \<Rightarrow> string \<Rightarrow> bytes list \<Rightarrow> ('db, 'net) server \<Rightarrow> (('db, 'net) server, bool) res" where
  "SubmitWrite N E c args sv =
     (let key_index = WriteKeyIndex args;
          command = SerializeCommand (args[key_index := MakeKey (srv_namespaces sv) c (args ! key_index)]) in
      if length command > kMaxCommandBytes then Ok True (SendReply N c (Error ''command too large'') sv)
      else if \<not> IsLeader (srv_node sv) then Ok True (SendReply N c (moved sv) sv)
      else if length (srv_writes sv) \<ge> kMaxQueuedWrites \<or>
              length command > size_sub kMaxQueuedWriteBytes (srv_queued_write_bytes sv)
      then Ok True (SendReply N c (Error ''BUSY write queue full'') (reject_overload 1 sv))
      else
        bindR (steady E sv) (\<lambda>now sv.
        bindR (ScheduleFlush E
                 (upd_session c (\<lambda>s. s\<lparr>cs_waiting := True\<rparr>)
                   (sv\<lparr>srv_writes := srv_writes sv @ [\<lparr>qw_command = command, qw_conn = c, qw_enqueued_at = now\<rparr>],
                       srv_queued_write_bytes := size_add (srv_queued_write_bytes sv) (length command)\<rparr>)))
          (\<lambda>_. Ok False)))"

definition BuildNodeInfo :: "string option \<Rightarrow> ('db, 'net) server \<Rightarrow> bytes" where
  "BuildNodeInfo ns sv =
     (let n = srv_node sv in
      info_line ''node_id'' (to_string (nd_id n)) @
      info_line ''state'' (StateName n) @
      info_line ''leader_id'' (to_string (nd_leader_id n)) @
      info_line ''term'' (to_string (nd_current_term n)) @
      info_line ''commit_index'' (to_string (nd_commit_index n)) @
      info_line ''last_applied'' (to_string (nd_last_applied n)) @
      (case ns of None \<Rightarrow> [] | Some x \<Rightarrow> info_line ''namespace'' x) @
      info_line ''connected_clients'' (to_string_nat (length (srv_sessions sv))) @
      info_line ''queued_writes'' (to_string_nat (length (srv_writes sv))) @
      info_line ''queued_write_bytes'' (to_string_nat (srv_queued_write_bytes sv)) @
      info_line ''pending_proposals'' (to_string_nat (length (nd_pending n))) @
      info_line ''pending_proposal_bytes'' (to_string_nat (nd_pending_bytes n)) @
      info_line ''proposal_batches'' (to_string_u64 (nm_proposal_batches (nd_metrics n))) @
      info_line ''apply_batches'' (to_string_u64 (nm_apply_batches (nd_metrics n))) @
      info_line ''async_apply'' (if fg_async_apply (srv_flags sv) then ''1'' else ''0'') @
      info_line ''apply_inflight'' (if nd_apply_inflight n then ''1'' else ''0'') @
      info_line ''apply_lag'' (to_string (nd_commit_index n - nd_last_applied n)) @
      info_line ''snapshot_index'' (to_string (SnapshotIndex n)) @
      info_line ''client_input_bytes'' (to_string_nat (srv_input_bytes sv)) @
      info_line ''client_output_reserved_bytes'' (to_string_nat (srv_output_bytes sv)) @
      info_line ''overload_rejections'' (to_string_u64 (srv_overload_rejections sv)) @
      info_line ''flush_immediate_scheduled'' (to_string_u64 (srv_flush_immediate sv)) @
      info_line ''flush_delayed_scheduled'' (to_string_u64 (srv_flush_delayed sv)) @
      info_line ''flush_promotions'' (to_string_u64 (srv_flush_promoted sv)) @
      Latency_ToInfo ''write_queue_wait'' (srv_write_queue_wait sv) @
      Latency_ToInfo ''write_completed'' (srv_write_completed sv) @
      Latency_ToInfo ''local_read'' (srv_local_read sv) @
      MetricsInfo n)"

definition value_reply :: "bytes option \<Rightarrow> bytes" where
  "value_reply v = (case v of None \<Rightarrow> ''$-1'' @ CRLF | Some value \<Rightarrow> Bulk value)"

definition read_local ::
  "'net muduo_ops \<Rightarrow> 'db raft_env \<Rightarrow> string \<Rightarrow> bytes \<Rightarrow> ('db, 'net) server \<Rightarrow> (('db, 'net) server, unit) res" where
  "read_local N E c raw_key sv =
     (let key = MakeKey (srv_namespaces sv) c raw_key in
      bindR (steady E sv) (\<lambda>started sv.
      bindR (liftR (KV_Get (en_rocks E) (nd_sm (srv_node sv)) key) sv) (\<lambda>value sv.
      bindR (steady E sv) (\<lambda>finished sv.
        Ok () (SendReply N c (value_reply value)
                 (sv\<lparr>srv_local_read := Latency_Observe (ElapsedMicros started finished) (srv_local_read sv)\<rparr>))))))"

definition ExecuteCommand ::
  "'net muduo_ops \<Rightarrow> 'db raft_env \<Rightarrow> string \<Rightarrow> queued_command \<Rightarrow> ('db, 'net) server \<Rightarrow> (('db, 'net) server, bool) res" where
  "ExecuteCommand N E c cmd sv =
     (let args = qc_args cmd; reply = (\<lambda>text. Ok True (SendReply N c text sv)) in
      case qc_type cmd of
        ERROR \<Rightarrow> reply (Error (qc_error_message cmd))
      | READ \<Rightarrow>
          if args ! 0 = ''PING'' then reply (''+PONG'' @ CRLF)
          else if args ! 0 = ''SELECT'' then
            (if \<not> IsValidName (args ! 1) then reply (Error ''invalid namespace name'')
             else Ok True (SendReply N c (''+OK'' @ CRLF)
                             (sv\<lparr>srv_namespaces := SetNs c (args ! 1) (srv_namespaces sv)\<rparr>)))
          else if args ! 0 = ''GET'' then
            (if fg_linearizable_reads (srv_flags sv) then
               (if \<not> IsLeader (srv_node sv) then reply (moved sv)
                else
                  bindR (call_node (RequestReadIndex E (srv_next_callback sv))
                           (register (ReadDone c (MakeKey (srv_namespaces sv) c (args ! 1))) sv))
                    (\<lambda>_. Ok False))
             else if fg_leader_only_reads (srv_flags sv) \<and> \<not> IsLeader (srv_node sv) then reply (moved sv)
             else bindR (read_local N E c (args ! 1) sv) (\<lambda>_. Ok True))
          else if args ! 0 = ''INFO'' then reply (Bulk (BuildNodeInfo (Some (GetNs (srv_namespaces sv) c)) sv))
          else reply (Error ''ERR unknown command'')
      | WRITE \<Rightarrow> SubmitWrite N E c args sv)"

text \<open>The part of \<open>OnCommandComplete\<close> before it runs the next command.\<close>

definition finish_command :: "'net muduo_ops \<Rightarrow> string \<Rightarrow> ('db, 'net) server \<Rightarrow> ('db, 'net) server" where
  "finish_command N c sv =
     (case session c sv of
        None \<Rightarrow> sv
      | Some s \<Rightarrow>
          (let sv = upd_session c (\<lambda>s. s\<lparr>cs_executing := False\<rparr>) sv in
           if \<not> SessionQueue_IsFull (cs_queue s) \<and> mu_connected N c (srv_net sv) \<and> \<not> cs_closing s
           then upd_net (mu_startRead N c) sv else sv))"

definition start_command :: "string \<Rightarrow> queued_command \<Rightarrow> session_queue \<Rightarrow> ('db, 'net) server \<Rightarrow> ('db, 'net) server" where
  "start_command c cmd queue =
     upd_session c (\<lambda>s. s\<lparr>cs_executing := True, cs_queue := queue, cs_started := cs_started s @ [cmd]\<rparr>)"

text \<open>
  \<open>ExecuteNextCommand\<close> and \<open>OnCommandComplete\<close> call each other until a command has to wait or the queue
  is empty. Every turn takes a command from the queue, so its length bounds the turns.
\<close>

fun command_loop ::
  "nat \<Rightarrow> 'net muduo_ops \<Rightarrow> 'db raft_env \<Rightarrow> string \<Rightarrow> ('db, 'net) server \<Rightarrow> (('db, 'net) server, unit) res" where
  "command_loop n N E c sv =
     (case session c sv of
        None \<Rightarrow> Ok () sv
      | Some s \<Rightarrow>
          if cs_executing s \<or> cs_closing s \<or> \<not> mu_connected N c (srv_net sv) then Ok () sv
          else case PopFront (cs_queue s) of
            None \<Rightarrow> Ok () (ScheduleDrain c sv)
          | Some (cmd, queue) \<Rightarrow>
              (case n of
                 0 \<Rightarrow> Ok () sv
               | Suc m \<Rightarrow>
                   bindR (ExecuteCommand N E c cmd (start_command c cmd queue sv)) (\<lambda>complete sv.
                     if complete then command_loop m N E c (finish_command N c sv) else Ok () sv)))"

declare command_loop.simps [simp del]

definition queued_commands :: "string \<Rightarrow> ('db, 'net) server \<Rightarrow> nat" where
  "queued_commands c sv = (case session c sv of None \<Rightarrow> 0 | Some s \<Rightarrow> length (sq_items (cs_queue s)))"

definition ExecuteNextCommand ::
  "'net muduo_ops \<Rightarrow> 'db raft_env \<Rightarrow> string \<Rightarrow> ('db, 'net) server \<Rightarrow> (('db, 'net) server, unit) res" where
  "ExecuteNextCommand N E c sv = command_loop (queued_commands c sv) N E c sv"

definition OnCommandComplete ::
  "'net muduo_ops \<Rightarrow> 'db raft_env \<Rightarrow> string \<Rightarrow> ('db, 'net) server \<Rightarrow> (('db, 'net) server, unit) res" where
  "OnCommandComplete N E c sv = ExecuteNextCommand N E c (finish_command N c sv)"

section \<open>Completions\<close>

definition release :: "string \<Rightarrow> ('db, 'net) server \<Rightarrow> ('db, 'net) server" where
  "release c = upd_session c (\<lambda>s. s\<lparr>cs_executing := False, cs_waiting := False\<rparr>)"

definition deliverable :: "'net muduo_ops \<Rightarrow> string \<Rightarrow> ('db, 'net) server \<Rightarrow> bool" where
  "deliverable N c sv =
     (case session c sv of
        None \<Rightarrow> False | Some s \<Rightarrow> CanDeliverClientReply (mu_connected N c (srv_net sv)) (cs_closing s))"

definition observe_completed :: "'db raft_env \<Rightarrow> int \<Rightarrow> ('db, 'net) server \<Rightarrow> (('db, 'net) server, unit) res" where
  "observe_completed E enqueued_at sv =
     bindR (steady E sv) (\<lambda>now sv.
       Ok () (sv\<lparr>srv_write_completed := Latency_Observe (ElapsedMicros enqueued_at now) (srv_write_completed sv)\<rparr>))"

text \<open>The callback of a proposal and the callback of a read.\<close>

definition write_done ::
  "'net muduo_ops \<Rightarrow> 'db raft_env \<Rightarrow> string \<Rightarrow> int \<Rightarrow> bool \<Rightarrow> bytes \<Rightarrow> ('db, 'net) server \<Rightarrow> (('db, 'net) server, unit) res" where
  "write_done N E c enqueued_at ok response sv =
     bindR (if ok then observe_completed E enqueued_at sv else Ok () sv) (\<lambda>_ sv.
       if \<not> deliverable N c sv then Ok () (release c sv)
       else OnCommandComplete N E c (upd_session c (\<lambda>s. s\<lparr>cs_waiting := False\<rparr>) (SendReply N c response sv)))"

definition read_done_callback ::
  "'net muduo_ops \<Rightarrow> 'db raft_env \<Rightarrow> string \<Rightarrow> bytes \<Rightarrow> bool \<Rightarrow> string \<Rightarrow> ('db, 'net) server \<Rightarrow> (('db, 'net) server, unit) res" where
  "read_done_callback N E c key success err sv =
     (if \<not> deliverable N c sv then Ok () (release c sv)
      else case DecideLinearizableGet success (IsLeader (srv_node sv)) err of
        Redirect \<Rightarrow> OnCommandComplete N E c (SendReply N c (moved sv) sv)
      | Fail \<Rightarrow> OnCommandComplete N E c (SendReply N c (Error err) sv)
      | Serve \<Rightarrow>
          bindR (liftR (KV_Get (en_rocks E) (nd_sm (srv_node sv)) key) sv) (\<lambda>value sv.
            OnCommandComplete N E c (SendReply N c (value_reply value) sv)))"

fun run_callback ::
  "'net muduo_ops \<Rightarrow> 'db raft_env \<Rightarrow> raft_event \<Rightarrow> ('db, 'net) server \<Rightarrow> (('db, 'net) server, unit) res" where
  "run_callback N E (EvSend p m) sv = Ok () sv"
| "run_callback N E (EvPropose i ok response) sv =
     (case map_of (srv_callbacks sv) i of
        Some (WriteDone c enqueued_at) \<Rightarrow> write_done N E c enqueued_at ok response (drop_callback i sv)
      | _ \<Rightarrow> Ok () sv)"
| "run_callback N E (EvRead i success read_index err) sv =
     (case map_of (srv_callbacks sv) i of
        Some (ReadDone c key) \<Rightarrow> read_done_callback N E c key success err (drop_callback i sv)
      | _ \<Rightarrow> Ok () sv)"

section \<open>Running the ready callbacks\<close>

text \<open>
  What a callback may do to the queues and the callback table: a run of commands takes commands from
  the queue, or it changes neither. So running all ready callbacks ends, although a callback runs
  commands, commands call the node, and the node makes further callbacks ready.
\<close>

definition total_queued :: "('db, 'net) server \<Rightarrow> nat" where
  "total_queued sv = sum_list (map (\<lambda>cs. length (sq_items (cs_queue (snd cs)))) (srv_sessions sv))"

abbreviation queues :: "('db, 'net) server \<Rightarrow> (string \<times> session_queue) list" where
  "queues sv \<equiv> map (\<lambda>cs. (fst cs, cs_queue (snd cs))) (srv_sessions sv)"

lemma total_queued_queues: "total_queued sv = sum_list (map (\<lambda>cq. length (sq_items (snd cq))) (queues sv))"
  by (simp add: total_queued_def comp_def)

lemma map_entry_view:
  assumes "\<And>s. g (f s) = g s"
  shows "map (\<lambda>cs. (fst cs, g (snd cs))) (AList.map_entry c f al) = map (\<lambda>cs. (fst cs, g (snd cs))) al"
  using assms by (induction al) auto

lemma map_entry_sum:
  fixes h :: "'v \<Rightarrow> nat"
  assumes "map_of al c = Some v"
  shows "sum_list (map (\<lambda>cs. h (snd cs)) (AList.map_entry c f al)) + h v = sum_list (map (\<lambda>cs. h (snd cs)) al) + h (f v)"
  using assms by (induction al) auto

definition same_work :: "('db, 'net) server \<Rightarrow> ('db, 'net) server \<Rightarrow> bool" where
  "same_work sv sv' \<longleftrightarrow> queues sv' = queues sv \<and> srv_callbacks sv' = srv_callbacks sv"

lemma same_work_refl [simp]: "same_work sv sv"
  by (simp add: same_work_def)

lemma same_work_trans: "same_work sv sv1 \<Longrightarrow> same_work sv1 sv2 \<Longrightarrow> same_work sv sv2"
  by (simp add: same_work_def)

lemma same_work_upd_session [simp]:
  "(\<And>s. cs_queue (f s) = cs_queue s) \<Longrightarrow> same_work sv (upd_session c f sv')  = same_work sv sv'"
  by (simp add: same_work_def upd_session_def map_entry_view)

lemma same_work_upd_net [simp]: "same_work sv (upd_net f sv') = same_work sv sv'"
  by (simp add: same_work_def upd_net_def)

lemma same_work_updates [simp]:
  "same_work sv (sv'\<lparr>srv_output_bytes := n\<rparr>) = same_work sv sv'"
  "same_work sv (sv'\<lparr>srv_tasks := ts\<rparr>) = same_work sv sv'"
  "same_work sv (sv'\<lparr>srv_node := x\<rparr>) = same_work sv sv'"
  "same_work sv (sv'\<lparr>srv_ready := es\<rparr>) = same_work sv sv'"
  "same_work sv (sv'\<lparr>srv_overload_rejections := w\<rparr>) = same_work sv sv'"
  "same_work sv (sv'\<lparr>srv_flush_policy := p\<rparr>) = same_work sv sv'"
  "same_work sv (sv'\<lparr>srv_flush_timer := to\<rparr>) = same_work sv sv'"
  "same_work sv (sv'\<lparr>srv_flush_promoted := w\<rparr>) = same_work sv sv'"
  "same_work sv (sv'\<lparr>srv_flush_immediate := w\<rparr>) = same_work sv sv'"
  "same_work sv (sv'\<lparr>srv_flush_delayed := w\<rparr>) = same_work sv sv'"
  "same_work sv (sv'\<lparr>srv_timers := tks\<rparr>) = same_work sv sv'"
  "same_work sv (sv'\<lparr>srv_cancelled_timers := tks\<rparr>) = same_work sv sv'"
  "same_work sv (sv'\<lparr>srv_writes := qs\<rparr>) = same_work sv sv'"
  "same_work sv (sv'\<lparr>srv_queued_write_bytes := n\<rparr>) = same_work sv sv'"
  "same_work sv (sv'\<lparr>srv_local_read := l\<rparr>) = same_work sv sv'"
  "same_work sv (sv'\<lparr>srv_write_completed := l\<rparr>) = same_work sv sv'"
  "same_work sv (sv'\<lparr>srv_namespaces := m\<rparr>) = same_work sv sv'"
  by (simp_all add: same_work_def)

lemma same_work_CloseClient [simp]: "same_work sv (CloseClient N c sv') = same_work sv sv'"
  by (simp add: CloseClient_def)

lemma same_work_reject [simp]: "same_work sv (reject_overload n sv') = same_work sv sv'"
  by (simp add: reject_overload_def)

lemma same_work_AccountOutput [simp]: "same_work sv (AccountOutput N c sv') = same_work sv sv'"
  by (simp add: AccountOutput_def Let_def split: option.splits)

lemma same_work_SendReply [simp]: "same_work sv (SendReply N c reply sv') = same_work sv sv'"
  by (simp add: SendReply_def Let_def split: option.splits)

lemma same_work_ScheduleDrain [simp]: "same_work sv (ScheduleDrain c sv') = same_work sv sv'"
  by (simp add: ScheduleDrain_def split: option.splits)

lemma same_work_arm_flush [simp]: "same_work sv (arm_flush plan sv') = same_work sv sv'"
  by (simp add: arm_flush_def cancel_timer_def Let_def split: option.splits)

lemma same_work_finish_command [simp]: "same_work sv (finish_command N c sv') = same_work sv sv'"
  by (simp add: finish_command_def Let_def split: option.splits)

lemma same_work_release [simp]: "same_work sv (release c sv') = same_work sv sv'"
  by (simp add: release_def)

lemma keeps_call_node [keeps_rules]:
  "(\<And>n. P (sv\<lparr>srv_node := n\<rparr>)) \<Longrightarrow> (\<And>n es. P (sv\<lparr>srv_node := n, srv_ready := es\<rparr>)) \<Longrightarrow> keeps P (call_node f sv)"
  by (auto simp: call_node_def split: res.splits)

lemma keeps_steady [keeps_rules]:
  "(\<And>n. P (sv\<lparr>srv_node := n\<rparr>)) \<Longrightarrow> (\<And>n es. P (sv\<lparr>srv_node := n, srv_ready := es\<rparr>)) \<Longrightarrow> keeps P (steady E sv)"
  unfolding steady_def by (rule keeps_call_node)

lemma same_work_ScheduleFlush: "same_work sv0 sv \<Longrightarrow> keeps (same_work sv0) (ScheduleFlush E sv)"
  by (auto simp: ScheduleFlush_def Let_def intro!: keeps_rules split: list.splits res.splits)

lemma same_work_SubmitWrite: "same_work sv0 sv \<Longrightarrow> keeps (same_work sv0) (SubmitWrite N E c args sv)"
  by (auto simp: SubmitWrite_def Let_def intro!: keeps_rules same_work_ScheduleFlush)

lemma same_work_read_local: "same_work sv0 sv \<Longrightarrow> keeps (same_work sv0) (read_local N E c k sv)"
  by (auto simp: read_local_def Let_def intro!: keeps_rules)

text \<open>A command leaves the queues alone.\<close>

lemma keeps_mono: "keeps P r \<Longrightarrow> (\<And>s. P s \<Longrightarrow> Q s) \<Longrightarrow> keeps Q r"
  by (cases r) auto

lemma ExecuteCommand_queues: "keeps (\<lambda>sv'. queues sv' = queues sv) (ExecuteCommand N E c cmd sv)"
proof -
  have w: "keeps (same_work sv) r \<Longrightarrow> keeps (\<lambda>sv'. queues sv' = queues sv) r" for r :: "(('a, 'b) server, 'c) res"
    by (erule keeps_mono) (simp add: same_work_def)
  have s: "queues (SendReply N c txt0 sv) = queues sv" for txt0 and sv :: "('a, 'b) server"
    using same_work_SendReply [of sv N c txt0 sv] by (simp add: same_work_def)
  show ?thesis
    unfolding ExecuteCommand_def Let_def
    by (cases "qc_type cmd")
      (auto intro!: keeps_rules w [OF same_work_SubmitWrite] w [OF same_work_read_local] simp: s register_def)
qed

lemma total_queued_start:
  assumes "session c sv = Some s" and "PopFront (cs_queue s) = Some (cmd, queue)"
  shows "Suc (total_queued (start_command c cmd queue sv)) = total_queued sv"
proof -
  have "length (sq_items (cs_queue s)) = Suc (length (sq_items queue))"
    using assms(2) by (auto simp: PopFront_def split: list.splits)
  with map_entry_sum [of "srv_sessions sv" c s "\<lambda>s. length (sq_items (cs_queue s))"
      "\<lambda>s. s\<lparr>cs_executing := True, cs_queue := queue, cs_started := cs_started s @ [cmd]\<rparr>"] assms(1)
  show ?thesis by (simp add: session_def total_queued_def start_command_def upd_session_def)
qed

lemma same_work_total: "same_work sv sv' \<Longrightarrow> total_queued sv' = total_queued sv"
  by (simp add: same_work_def total_queued_queues)

definition less_work :: "('db, 'net) server \<Rightarrow> ('db, 'net) server \<Rightarrow> bool" where
  "less_work sv sv' \<longleftrightarrow> same_work sv sv' \<or> total_queued sv' < total_queued sv"

lemma less_work_same: "same_work sv sv' \<Longrightarrow> less_work sv sv'"
  by (simp add: less_work_def)

lemma same_work_callbacks: "same_work sv sv' \<Longrightarrow> srv_callbacks sv' = srv_callbacks sv"
  by (simp add: same_work_def)

lemma command_loop_work:
  assumes "command_loop n N E c sv = Ok () sv'"
  shows "less_work sv sv'"
  using assms
proof (induction n arbitrary: sv)
  case 0
  then show ?case by (subst (asm) command_loop.simps) (auto simp: less_work_def split: option.splits if_splits)
next
  case (Suc n)
  show ?case
  proof (cases "\<exists>s cmd queue. session c sv = Some s \<and> \<not> (cs_executing s \<or> cs_closing s \<or> \<not> mu_connected N c (srv_net sv)) \<and>
      PopFront (cs_queue s) = Some (cmd, queue)")
    case False
    with Suc.prems show ?thesis
      by (subst (asm) command_loop.simps) (auto simp: less_work_def split: option.splits if_splits)
  next
    case True
    then obtain s cmd queue where s: "session c sv = Some s" "\<not> (cs_executing s \<or> cs_closing s \<or> \<not> mu_connected N c (srv_net sv))"
      "PopFront (cs_queue s) = Some (cmd, queue)" by blast
    with Suc.prems obtain b sv1 where x: "ExecuteCommand N E c cmd (start_command c cmd queue sv) = Ok b sv1"
      and k: "(if b then command_loop n N E c (finish_command N c sv1) else Ok () sv1) = Ok () sv'"
      by (subst (asm) command_loop.simps) (auto simp: bindR_eq_Ok)
    have "total_queued sv1 < total_queued sv"
      using ExecuteCommand_queues [of "start_command c cmd queue sv" N E c cmd] x total_queued_start [OF s(1,3)]
      by (simp add: total_queued_queues)
    moreover have "total_queued (finish_command N c sv1) = total_queued sv1" by (rule same_work_total) simp
    ultimately show ?thesis
      using k Suc.IH [of "finish_command N c sv1"] by (auto simp: less_work_def split: if_splits dest: same_work_total)
  qed
qed

lemma OnCommandComplete_work:
  assumes "OnCommandComplete N E c sv = Ok () sv'"
  shows "less_work sv sv'"
  using command_loop_work [OF assms [unfolded OnCommandComplete_def ExecuteNextCommand_def]]
    same_work_finish_command [of sv N c sv]
  unfolding less_work_def by (metis same_work_refl same_work_total same_work_trans)

lemma deliver_work:
  assumes "same_work sv sv1" and "OnCommandComplete N E c sv1 = Ok () sv'"
  shows "less_work sv sv'"
  using OnCommandComplete_work [OF assms(2)] same_work_trans [OF assms(1)] same_work_total [OF assms(1)] by (auto simp: less_work_def)

lemma write_done_work:
  assumes "write_done N E c enqueued_at ok response sv = Ok () sv'"
  shows "less_work sv sv'"
proof -
  have "keeps (same_work sv) (if ok then observe_completed E enqueued_at sv else Ok () sv)"
    by (auto simp: observe_completed_def intro!: keeps_rules)
  with assms obtain sv1 where sv1: "same_work sv sv1" and
    "(if \<not> deliverable N c sv1 then Ok () (release c sv1)
      else OnCommandComplete N E c (upd_session c (\<lambda>s. s\<lparr>cs_waiting := False\<rparr>) (SendReply N c response sv1))) = Ok () sv'"
    unfolding write_done_def bindR_eq_Ok by auto
  then show ?thesis
    using deliver_work [of sv "upd_session c (\<lambda>s. s\<lparr>cs_waiting := False\<rparr>) (SendReply N c response sv1)" N E c sv']
    by (auto simp: less_work_same split: if_splits)
qed

lemma read_done_work:
  assumes "read_done_callback N E c key success err sv = Ok () sv'"
  shows "less_work sv sv'"
  using assms
  by (auto simp: read_done_callback_def bindR_eq_Ok liftR_def less_work_same intro: deliver_work [of sv "SendReply N c _ sv"]
      split: if_splits linearizable_get_action.splits sum.splits)

lemma drop_callback_less:
  assumes "map_of (srv_callbacks sv) i = Some k"
  shows "length (srv_callbacks (drop_callback i sv)) < length (srv_callbacks sv)"
    and "total_queued (drop_callback i sv) = total_queued sv"
proof -
  have "(i, k) \<in> set (srv_callbacks sv)" using assms by (rule map_of_SomeD)
  then show "length (srv_callbacks (drop_callback i sv)) < length (srv_callbacks sv)"
    unfolding drop_callback_def by (simp add: length_filter_less)
qed (simp add: drop_callback_def total_queued_def)

definition ready_measure :: "(('db, 'net) server \<times> ('db, 'net) server) set" where
  "ready_measure = measures [total_queued, \<lambda>sv. length (srv_callbacks sv), \<lambda>sv. length (srv_ready sv)]"

lemma run_callback_less:
  assumes "srv_ready sv = e # es" and "run_callback N E e (sv\<lparr>srv_ready := es\<rparr>) = Ok () sv'"
  shows "(sv', sv) \<in> ready_measure"
proof -
  let ?sv = "sv\<lparr>srv_ready := es\<rparr>"
  have lazy: "?thesis" if "sv' = ?sv"
    using assms(1) by (simp add: ready_measure_def that total_queued_def)
  have called: "?thesis" if "map_of (srv_callbacks ?sv) i = Some k"
    "less_work (drop_callback i ?sv) sv'" for i k
  proof -
    have "total_queued ?sv = total_queued sv" by (simp add: total_queued_def)
    with drop_callback_less [OF that(1)] that(2) show ?thesis
      by (auto simp: ready_measure_def less_work_def same_work_total same_work_callbacks)
  qed
  show ?thesis
  proof (cases e)
    case (EvSend p m)
    then show ?thesis using assms(2) lazy by simp
  next
    case (EvPropose i ok response)
    then show ?thesis
      using assms(2) lazy called [of i] write_done_work [of N E _ _ ok response "drop_callback i ?sv" sv']
      by (auto split: option.splits completion.splits)
  next
    case (EvRead i success read_index err)
    then show ?thesis
      using assms(2) lazy called [of i] read_done_work [of N E _ _ success err "drop_callback i ?sv" sv']
      by (auto split: option.splits completion.splits)
  qed
qed

lemma bindR_cong [fundef_cong]:
  "m = m' \<Longrightarrow> (\<And>x s. m' = Ok x s \<Longrightarrow> f x s = g x s) \<Longrightarrow> bindR m f = bindR m' g"
  by (cases m') auto

function settle ::
  "'net muduo_ops \<Rightarrow> 'db raft_env \<Rightarrow> ('db, 'net) server \<Rightarrow> (('db, 'net) server, unit) res" where
  "settle N E sv =
     (case srv_ready sv of
        [] \<Rightarrow> Ok () sv
      | e # es \<Rightarrow> bindR (run_callback N E e (sv\<lparr>srv_ready := es\<rparr>)) (\<lambda>_. settle N E))"
  by pat_completeness auto
termination
proof (relation "inv_image ready_measure (\<lambda>(N, E, sv). sv)")
  show "wf (inv_image ready_measure (\<lambda>(N, E, sv). sv))" by (simp add: ready_measure_def)
qed (use run_callback_less in auto)

declare settle.simps [simp del]

section \<open>The bound of the command loop\<close>

lemma map_of_queues: "map_of (queues sv) c = map_option cs_queue (session c sv)"
proof -
  have "map_of (map (\<lambda>cs. (fst cs, cs_queue (snd cs))) al) c = map_option cs_queue (map_of al c)"
    for al :: "(string \<times> client_session) list"
    by (induction al) auto
  from this [of "srv_sessions sv"] show ?thesis by (simp only: session_def)
qed

lemma queued_commands_queues: "queued_commands c sv = (case map_of (queues sv) c of None \<Rightarrow> 0 | Some q \<Rightarrow> length (sq_items q))"
  unfolding map_of_queues queued_commands_def by (cases "session c sv") simp_all

lemma queued_after_command:
  assumes "session c sv = Some s" and "PopFront (cs_queue s) = Some (cmd, queue)"
    and "ExecuteCommand N E c cmd (start_command c cmd queue sv) = Ok b sv1"
  shows "Suc (queued_commands c (finish_command N c sv1)) = queued_commands c sv"
proof -
  have "queues (finish_command N c sv1) = queues sv1"
    using same_work_finish_command [of sv1 N c sv1] by (simp add: same_work_def)
  moreover have "queues sv1 = queues (start_command c cmd queue sv)"
    using ExecuteCommand_queues [of "start_command c cmd queue sv" N E c cmd] assms(3) by simp
  ultimately have "queued_commands c (finish_command N c sv1) = queued_commands c (start_command c cmd queue sv)"
    by (simp only: queued_commands_queues)
  moreover have "session c (start_command c cmd queue sv) = Some (s\<lparr>cs_executing := True, cs_queue := queue, cs_started := cs_started s @ [cmd]\<rparr>)"
  proof -
    have "map_of (AList.map_entry c f al) c = map_option f (map_of al c)" for f and al :: "(string \<times> client_session) list"
      by (induction al) auto
    with assms(1) show ?thesis by (simp add: start_command_def upd_session_def session_def)
  qed
  ultimately show ?thesis using assms(1,2) by (auto simp: queued_commands_def PopFront_def split: list.splits)
qed

text \<open>The recursion of the code: the bound plays no part.\<close>

lemma ExecuteNextCommand_unfold:
  "ExecuteNextCommand N E c sv =
     (case session c sv of
        None \<Rightarrow> Ok () sv
      | Some s \<Rightarrow>
          if cs_executing s \<or> cs_closing s \<or> \<not> mu_connected N c (srv_net sv) then Ok () sv
          else case PopFront (cs_queue s) of
            None \<Rightarrow> Ok () (ScheduleDrain c sv)
          | Some (cmd, queue) \<Rightarrow>
              bindR (ExecuteCommand N E c cmd (start_command c cmd queue sv)) (\<lambda>complete.
                if complete then OnCommandComplete N E c else Ok ()))"
proof -
  have turn: "bindR (ExecuteCommand N E c cmd (start_command c cmd queue sv)) (\<lambda>complete sv.
        if complete then command_loop n N E c (finish_command N c sv) else Ok () sv) =
      bindR (ExecuteCommand N E c cmd (start_command c cmd queue sv)) (\<lambda>complete.
        if complete then OnCommandComplete N E c else Ok ())"
    if "session c sv = Some s" "PopFront (cs_queue s) = Some (cmd, queue)" "queued_commands c sv = Suc n" for s cmd queue n
  proof (cases "ExecuteCommand N E c cmd (start_command c cmd queue sv)")
    case (Ok b sv1)
    have "queued_commands c (finish_command N c sv1) = n" using queued_after_command [OF that(1,2) Ok] that(3) by simp
    with Ok show ?thesis by (simp add: OnCommandComplete_def ExecuteNextCommand_def)
  qed simp
  show ?thesis
  proof (cases "\<exists>s cmd queue. session c sv = Some s \<and> PopFront (cs_queue s) = Some (cmd, queue)")
    case True
    then obtain s cmd queue where s: "session c sv = Some s" "PopFront (cs_queue s) = Some (cmd, queue)" by blast
    then obtain n where n: "queued_commands c sv = Suc n" by (auto simp: queued_commands_def PopFront_def split: list.splits)
    show ?thesis
      unfolding ExecuteNextCommand_def n
      by (subst command_loop.simps) (simp only: s option.case prod.case nat.case turn [OF s n])
  next
    case False
    then have "session c sv = None \<or> (\<exists>s. session c sv = Some s \<and> PopFront (cs_queue s) = None)"
      by (metis option.exhaust prod.exhaust)
    then show ?thesis
      unfolding ExecuteNextCommand_def
      by (subst command_loop.simps) (elim disjE exE conjE; simp only: option.case)
  qed
qed

end
