(* ===== verification/ServerLoop.thy ===== *)
theory ServerLoop
  imports Server
begin

text \<open>
  What the event loop of the server runs (\<open>src/src/server/main.cpp\<close>): flushes of the write queue,
  draining of the input buffers, and the connection and message callbacks of the client port and of
  the metrics port. An entry point that calls the node ends with \<open>settle\<close>, which runs the callbacks
  that the node made ready.
\<close>

section \<open>Flushing the write queue\<close>

definition batch_size :: "queued_write list \<Rightarrow> nat" where
  "batch_size ws = sum_list (map (\<lambda>w. length (qw_command w)) ws)"

text \<open>The loop of \<open>FlushQueuedWrites\<close>; the first argument is what is left of the work budget.\<close>

fun collect_writes ::
  "nat \<Rightarrow> 'net muduo_ops \<Rightarrow> 'db raft_env \<Rightarrow> queued_write list \<Rightarrow> ('db, 'net) server \<Rightarrow> (('db, 'net) server, queued_write list) res" where
  "collect_writes 0 N E batch sv = Ok batch sv"
| "collect_writes (Suc n) N E batch sv =
     (case srv_writes sv of
        [] \<Rightarrow> Ok batch sv
      | w # ws \<Rightarrow>
          if batch \<noteq> [] \<and> length (qw_command w) > size_sub kFlushMaxBytes (batch_size batch) then Ok batch sv
          else
            (let sv = sv\<lparr>srv_writes := ws,
                         srv_queued_write_bytes := size_sub (srv_queued_write_bytes sv) (length (qw_command w))\<rparr> in
             if \<not> deliverable N (qw_conn w) sv then collect_writes n N E batch sv
             else
               bindR (steady E sv) (\<lambda>now sv.
                 collect_writes n N E (batch @ [w])
                   (sv\<lparr>srv_write_queue_wait :=
                        Latency_Observe (ElapsedMicros (qw_enqueued_at w) now) (srv_write_queue_wait sv)\<rparr>))))"

text \<open>The callbacks of a batch get consecutive numbers.\<close>

definition proposals_of :: "nat \<Rightarrow> queued_write list \<Rightarrow> proposal list" where
  "proposals_of first ws = map2 (\<lambda>i w. \<lparr>pp_command = qw_command w, pp_callback = Some i\<rparr>) [first..<first + length ws] ws"

definition register_writes :: "queued_write list \<Rightarrow> ('db, 'net) server \<Rightarrow> ('db, 'net) server" where
  "register_writes ws = fold (\<lambda>w. register (WriteDone (qw_conn w) (qw_enqueued_at w))) ws"

definition refuse_write ::
  "'net muduo_ops \<Rightarrow> 'db raft_env \<Rightarrow> int \<Rightarrow> queued_write \<Rightarrow> ('db, 'net) server \<Rightarrow> (('db, 'net) server, unit) res" where
  "refuse_write N E index w sv =
     (if \<not> deliverable N (qw_conn w) sv then Ok () (release (qw_conn w) sv)
      else
        (let sv = upd_session (qw_conn w) (\<lambda>s. s\<lparr>cs_waiting := False\<rparr>) sv in
         bindR (OnCommandComplete N E (qw_conn w)
                  (SendReply N (qw_conn w)
                     (if index = - 1 then moved sv else Error ''BUSY proposal capacity exhausted'') sv))
           (\<lambda>_. settle N E)))"

definition propose_writes ::
  "'net muduo_ops \<Rightarrow> 'db raft_env \<Rightarrow> queued_write list \<Rightarrow> ('db, 'net) server \<Rightarrow> (('db, 'net) server, unit) res" where
  "propose_writes N E batch sv =
     (let first = srv_next_callback sv in
      bindR (call_node (ProposeBatch E (proposals_of first batch)) (register_writes batch sv)) (\<lambda>index sv.
        if index < 0 then
          foldR (refuse_write N E index) batch
            (fold drop_callback [first..<first + length batch]
               (if index = - 2 then reject_overload (length batch) sv else sv))
        else settle N E sv))"

definition FlushQueuedWrites ::
  "'net muduo_ops \<Rightarrow> 'db raft_env \<Rightarrow> ('db, 'net) server \<Rightarrow> (('db, 'net) server, unit) res" where
  "FlushQueuedWrites N E sv =
     bindR (collect_writes kFlushMaxEntries N E [] sv) (\<lambda>batch sv.
     bindR (if batch = [] then Ok () sv else propose_writes N E batch sv) (\<lambda>_. ScheduleFlush E))"

text \<open>The closure that \<open>ScheduleFlush\<close> puts on the loop.\<close>

definition OnFlush :: "'net muduo_ops \<Rightarrow> 'db raft_env \<Rightarrow> 64 word \<Rightarrow> ('db, 'net) server \<Rightarrow> (('db, 'net) server, unit) res" where
  "OnFlush N E token sv =
     (case Flush_Consume token (srv_flush_policy sv) of
        (False, p) \<Rightarrow> Ok () sv
      | (True, p) \<Rightarrow> FlushQueuedWrites N E (sv\<lparr>srv_flush_policy := p, srv_flush_timer := None\<rparr>))"

section \<open>Draining a connection\<close>

text \<open>What \<open>DrainClient\<close> does with the session \<open>s\<close> that it has drained: after an invalid frame, and otherwise.\<close>

definition reject_frame ::
  "'net muduo_ops \<Rightarrow> string \<Rightarrow> client_session \<Rightarrow> string \<Rightarrow> ('db, 'net) server \<Rightarrow> ('db, 'net) server" where
  "reject_frame N c s err sv =
     (let sv = upd_net (mu_stopRead N c) sv;
          sv = (if ShouldReplyInvalidFrame (cs_executing s) (cs_waiting s) (sq_items (cs_queue s) = [])
                then SendReply N c (Error err) sv else sv);
          sv = upd_session c (\<lambda>s. s\<lparr>cs_closing := True\<rparr>) sv
      in upd_net (mu_forceCloseWithDelay N c) (upd_net (mu_shutdown N c) sv))"

definition resume_client ::
  "'net muduo_ops \<Rightarrow> 'db raft_env \<Rightarrow> string \<Rightarrow> client_session \<Rightarrow> bool \<Rightarrow> ('db, 'net) server \<Rightarrow> (('db, 'net) server, unit) res" where
  "resume_client N E c s stop_read sv =
     (let sv = (if stop_read then upd_net (mu_stopRead N c) sv else sv) in
      if \<not> cs_executing s \<and> sq_items (cs_queue s) \<noteq> [] then
        bindR (ExecuteNextCommand N E c sv) (\<lambda>_. settle N E)
      else if mu_connected N c (srv_net sv) \<and> \<not> cs_executing s then Ok () (ScheduleDrain c sv)
      else Ok () sv)"

definition DrainClient :: "'net muduo_ops \<Rightarrow> 'db raft_env \<Rightarrow> string \<Rightarrow> ('db, 'net) server \<Rightarrow> (('db, 'net) server, unit) res" where
  "DrainClient N E c sv =
     bindR (steady E sv) (\<lambda>now sv.
     case session c sv of
       None \<Rightarrow> Ok () sv
     | Some s \<Rightarrow>
         (case DrainCommands kMaxCommandsPerTurn
                 (mu_connected N c (srv_net sv) \<and> \<not> cs_closing s \<and> \<not> cs_drain_scheduled s) now (cs_input s) (cs_queue s) of
            (input, queue, dr) \<Rightarrow>
              (let s = s\<lparr>cs_input := input, cs_queue := queue\<rparr>;
                   sv = upd_session c (\<lambda>_. s)
                          (sv\<lparr>srv_input_bytes := size_sub (srv_input_bytes sv) (dr_consumed_bytes dr)\<rparr>) in
               if dr_invalid dr then Ok () (reject_frame N c s (dr_invalid_error dr) sv)
               else resume_client N E c s (dr_stop_read dr) sv)))"

definition OnDrain :: "'net muduo_ops \<Rightarrow> 'db raft_env \<Rightarrow> string \<Rightarrow> ('db, 'net) server \<Rightarrow> (('db, 'net) server, unit) res" where
  "OnDrain N E c sv =
     (if session c sv = None then Ok () sv
      else DrainClient N E c (upd_session c (\<lambda>s. s\<lparr>cs_drain_scheduled := False\<rparr>) sv))"

fun run_task :: "'net muduo_ops \<Rightarrow> 'db raft_env \<Rightarrow> loop_task \<Rightarrow> ('db, 'net) server \<Rightarrow> (('db, 'net) server, unit) res" where
  "run_task N E (DrainTask c) = OnDrain N E c"
| "run_task N E (FlushTask token) = OnFlush N E token"

section \<open>Callbacks of the client port\<close>

definition OnClientConnection :: "'net muduo_ops \<Rightarrow> string \<Rightarrow> bool \<Rightarrow> ('db, 'net) server \<Rightarrow> ('db, 'net) server" where
  "OnClientConnection N c connected sv =
     (if connected then
        (if length (srv_sessions sv) \<ge> nat (fg_max_clients (srv_flags sv))
         then upd_net (mu_forceClose N c) (reject_overload 1 sv)
         else sv\<lparr>srv_sessions := AList.update c new_session (srv_sessions sv)\<rparr>)
      else
        (let sv = (case session c sv of
                     None \<Rightarrow> sv
                   | Some s \<Rightarrow>
                       sv\<lparr>srv_input_bytes := size_sub (srv_input_bytes sv) (UnreadBytes (cs_input s)),
                          srv_output_bytes := size_sub (srv_output_bytes sv) (cs_accounted_output s),
                          srv_sessions := AList.delete c (srv_sessions sv)\<rparr>)
         in sv\<lparr>srv_namespaces := RemoveNs c (srv_namespaces sv)\<rparr>))"

definition OnWriteComplete :: "'net muduo_ops \<Rightarrow> string \<Rightarrow> ('db, 'net) server \<Rightarrow> ('db, 'net) server" where
  "OnWriteComplete N c sv = (if session c sv \<noteq> None then AccountOutput N c sv else sv)"

definition OnClientMessage ::
  "'net muduo_ops \<Rightarrow> 'db raft_env \<Rightarrow> string \<Rightarrow> bytes \<Rightarrow> ('db, 'net) server \<Rightarrow> (('db, 'net) server, unit) res" where
  "OnClientMessage N E c chunk sv =
     (case session c sv of
        None \<Rightarrow> Ok () (upd_net (mu_forceClose N c) sv)
      | Some s \<Rightarrow>
          if cs_closing s then Ok () sv
          else if length chunk > size_sub kMaxTotalInput (srv_input_bytes sv) then
            Ok () (CloseClient N c (reject_overload 1 sv))
          else
            (case CommandBuffer_Append chunk (cs_input s) of
               (False, input) \<Rightarrow> Ok () (CloseClient N c (reject_overload 1 sv))
             | (True, input) \<Rightarrow>
                 DrainClient N E c
                   (upd_session c (\<lambda>s. s\<lparr>cs_input := input, cs_stream := cs_stream s @ chunk\<rparr>)
                     (sv\<lparr>srv_input_bytes := size_add (srv_input_bytes sv) (length chunk)\<rparr>))))"

section \<open>Callbacks of the metrics port\<close>

definition ReplyMetrics :: "'net muduo_ops \<Rightarrow> string \<Rightarrow> bytes \<Rightarrow> ('db, 'net) server \<Rightarrow> ('db, 'net) server" where
  "ReplyMetrics N c http sv = upd_net (mu_shutdown N c) (upd_net (mu_send N c http) sv)"

definition OnMetricsConnection :: "'net muduo_ops \<Rightarrow> string \<Rightarrow> bool \<Rightarrow> ('db, 'net) server \<Rightarrow> ('db, 'net) server" where
  "OnMetricsConnection N c connected sv =
     (if connected then
        (if length (srv_metrics_requests sv) \<ge> 16 then upd_net (mu_forceClose N c) sv
         else sv\<lparr>srv_metrics_requests := AList.map_default c [] (\<lambda>r. r) (srv_metrics_requests sv)\<rparr>)
      else sv\<lparr>srv_metrics_requests := AList.delete c (srv_metrics_requests sv)\<rparr>)"

definition health_reply :: "('db, 'net) server \<Rightarrow> bytes" where
  "health_reply sv =
     (let n = srv_node sv; storage_healthy = nd_storage_healthy n;
          up = storage_healthy \<and> StateName n \<noteq> ''stopped'' in
      MetricsHttpResponse (if up then 200 else 503) (if up then ''OK'' else ''Service Unavailable'')
        (HealthText (nd_id n) (StateName n) (nd_current_term n) (nd_leader_id n) up storage_healthy)
        ''text/plain; charset=utf-8'')"

definition metrics_reply :: "metrics_request_kind \<Rightarrow> ('db, 'net) server \<Rightarrow> bytes" where
  "metrics_reply kind sv =
     (case kind of
        MetricsOk \<Rightarrow> MetricsHttpResponse 200 ''OK'' (PrometheusText (BuildNodeInfo None sv))
                 ''text/plain; version=0.0.4; charset=utf-8''
      | Health \<Rightarrow> health_reply sv
      | NotFound \<Rightarrow> MetricsHttpResponse 404 ''Not Found'' (''not found'' @ [LF]) ''text/plain; charset=utf-8''
      | MethodNotAllowed \<Rightarrow>
          MetricsHttpResponse 405 ''Method Not Allowed'' (''method not allowed'' @ [LF]) ''text/plain; charset=utf-8''
      | _ \<Rightarrow> MetricsHttpResponse 400 ''Bad Request'' (''bad request'' @ [LF]) ''text/plain; charset=utf-8'')"

definition OnMetricsMessage :: "'net muduo_ops \<Rightarrow> string \<Rightarrow> bytes \<Rightarrow> ('db, 'net) server \<Rightarrow> ('db, 'net) server" where
  "OnMetricsMessage N c chunk sv =
     (case map_of (srv_metrics_requests sv) c of
        None \<Rightarrow> upd_net (mu_forceClose N c) sv
      | Some request \<Rightarrow>
          (let close = (\<lambda>sv. sv\<lparr>srv_metrics_requests := AList.delete c (srv_metrics_requests sv)\<rparr>) in
           if length request + length chunk > kMaxMetricsRequest then
             close (ReplyMetrics N c (MetricsHttpResponse 400 ''Bad Request'' (''request too large'' @ [LF])
                                        ''text/plain; charset=utf-8'') sv)
           else
             (let request = request @ chunk; kind = ClassifyMetricsRequest request;
                  sv = sv\<lparr>srv_metrics_requests := AList.update c request (srv_metrics_requests sv)\<rparr> in
              if kind = Incomplete then sv else close (ReplyMetrics N c (metrics_reply kind sv) sv))))"

end
