(* ===== verification/ServerStart.thy ===== *)
theory ServerStart
  imports ServerLoop
begin

text \<open>
  Configuration and start of the server (\<open>ParsePeers\<close> and \<open>RunServer\<close> in \<open>src/src/server/main.cpp\<close>),
  and its life: a step relation over the callbacks that the event loop makes.
\<close>

section \<open>Configuration\<close>

text \<open>\<open>std::from_chars\<close> into an \<open>int\<close>, required to consume the whole text.\<close>

definition ParseInteger :: "string \<Rightarrow> exn + int" where
  "ParseInteger s =
     (let neg = (s \<noteq> [] \<and> hd s = CHR ''-''); digits = (if neg then tl s else s);
          v = (if neg then - int (dec_value digits) else int (dec_value digits)) in
      if digits = [] \<or> \<not> list_all is_digit digits \<or> v < - 2147483648 \<or> v > INT32_MAX
      then Inl (Invalid_argument ''invalid integer in peer configuration'') else Inr v)"

text \<open>The tokens that \<open>std::getline\<close> reads from a stream with the delimiter \<open>','\<close>.\<close>

function getline_tokens :: "string \<Rightarrow> string list" where
  "getline_tokens s =
     (if s = [] then []
      else takeWhile (\<lambda>c. c \<noteq> CHR '','') s # getline_tokens (drop 1 (dropWhile (\<lambda>c. c \<noteq> CHR '','') s)))"
  by pat_completeness auto
termination
proof (relation "measure length")
  fix s :: string
  assume "s \<noteq> []"
  then have "0 < length s" by simp
  with length_dropWhile_le [of "\<lambda>c. c \<noteq> CHR '',''" s] have "length (dropWhile (\<lambda>c. c \<noteq> CHR '','') s) - 1 < length s"
    by linarith
  then show "(drop 1 (dropWhile (\<lambda>c. c \<noteq> CHR '','') s), s) \<in> measure length" by simp
qed simp

declare getline_tokens.simps [simp del]

definition parse_peer :: "string \<Rightarrow> exn + peer_info" where
  "parse_peer token =
     (let first = length (takeWhile (\<lambda>c. c \<noteq> CHR '':'') token);
          last = length token - 1 - length (takeWhile (\<lambda>c. c \<noteq> CHR '':'') (rev token)) in
      if CHR '':'' \<notin> set token \<or> first = last then Inl (Invalid_argument ''peer must be id:host:port'')
      else
        bindE (ParseInteger (take first token)) (\<lambda>i.
        bindE (ParseInteger (drop (last + 1) token)) (\<lambda>port.
          Inr \<lparr>pi_id = i, pi_host = substr token (first + 1) (last - first - 1), pi_raft_port = port\<rparr>)))"

fun parse_peer_list :: "string list \<Rightarrow> exn + peer_info list" where
  "parse_peer_list [] = Inr []"
| "parse_peer_list (t # ts) = bindE (parse_peer t) (\<lambda>p. bindE (parse_peer_list ts) (\<lambda>ps. Inr (p # ps)))"

definition ParsePeers :: "int \<Rightarrow> string \<Rightarrow> exn + peer_info list" where
  "ParsePeers node_id s =
     bindE (parse_peer_list (getline_tokens s)) (\<lambda>peers. bindE (ValidatePeers node_id peers) (\<lambda>_. Inr peers))"

definition check_flags :: "server_flags \<Rightarrow> exn + peer_info list" where
  "check_flags f =
     (if fg_group_commit_ms f < 0 \<or> fg_group_commit_ms f > 10 \<or> fg_max_clients f < 1 \<or> fg_snapshot_threshold f < 0
      then Inl (Invalid_argument ''invalid group_commit_ms, max_clients, or snapshot_threshold'')
      else
        bindE (ParsePeers (fg_node_id f) (fg_peers f)) (\<lambda>peers.
          if fg_client_port f < 1 \<or> fg_client_port f > 65535 \<or> fg_raft_port f < 1 \<or> fg_raft_port f > 65535 \<or>
             fg_metrics_port f < 0 \<or> fg_metrics_port f > 65535
          then Inl (Invalid_argument ''invalid listening port'')
          else if fg_metrics_port f \<noteq> 0 \<and> (fg_metrics_port f = fg_client_port f \<or> fg_metrics_port f = fg_raft_port f)
          then Inl (Invalid_argument ''metrics_port collides with client_port or raft_port'')
          else if list_ex (\<lambda>p. pi_id p = fg_node_id f \<and> pi_raft_port p \<noteq> fg_raft_port f) peers
          then Inl (Invalid_argument ''self peer port differs from raft_port'')
          else Inr peers))"

section \<open>Start\<close>

definition new_server :: "server_flags \<Rightarrow> 'db node \<Rightarrow> 'net \<Rightarrow> ('db, 'net) server" where
  "new_server f n net =
     \<lparr>srv_flags = f, srv_node = n, srv_net = net, srv_namespaces = (\<lambda>_. None), srv_sessions = [],
      srv_input_bytes = 0, srv_output_bytes = 0, srv_queued_write_bytes = 0, srv_overload_rejections = 0,
      srv_write_queue_wait = latency_init, srv_write_completed = latency_init, srv_local_read = latency_init,
      srv_flush_immediate = 0, srv_flush_delayed = 0, srv_flush_promoted = 0, srv_writes = [],
      srv_flush_policy = flush_init, srv_flush_timer = None, srv_metrics_requests = [], srv_tasks = [],
      srv_timers = [], srv_cancelled_timers = [], srv_callbacks = [], srv_next_callback = 0, srv_ready = []\<rparr>"

text \<open>
  \<open>RunServer\<close> up to \<open>loop.loop()\<close>, on the two databases that the paths name: the server and the peer
  manager, or the exception that ends the process.
\<close>

definition RunServer ::
  "'net muduo_ops \<Rightarrow> 'db raft_env \<Rightarrow> server_flags \<Rightarrow> 'db \<Rightarrow> 'db \<Rightarrow> 'net \<Rightarrow> exn + ('db, 'net) server \<times> 'net peer_manager" where
  "RunServer N E f kv_path log_path net =
     bindE (check_flags f) (\<lambda>peers.
     bindE (RocksDBStore_open (en_rocks E) kv_path) (\<lambda>state_machine.
     bindE (PeerManager_new (fg_node_id f) peers net) (\<lambda>peer_manager.
     case RaftNode_new E (fg_node_id f) peers (state_machine, log_path) of
       Throw e _ \<Rightarrow> Inl e
     | Ok raft _ \<Rightarrow>
         (case bindR (SetSnapshotThreshold (fg_snapshot_threshold f) raft) (\<lambda>_ raft.
                 Start E (SetLeaseReads (fg_lease_reads f) raft)) of
            Throw e _ \<Rightarrow> Inl e
          | Ok _ raft \<Rightarrow> Inr (new_server f raft net, PeerManager_Start N peer_manager)))))"

section \<open>The life of the server\<close>

text \<open>
  The events of the loop. A connection belongs to the port that accepted it, under a name of its own;
  it comes up with an empty output buffer and goes down once. Between two events the library writes
  output buffers to the sockets, and connections may break. The node runs when a message arrives, when
  the timer fires, and for the two halves of a job of the executor. An exception that leaves a callback
  ends the process.
\<close>

datatype port = ClientPort | MetricsPort

fun loop_op :: "node_op \<Rightarrow> bool" where
  "loop_op (OpMessage from m) = True"
| "loop_op OpTick = True"
| "loop_op OpWork = True"
| "loop_op OpFinish = True"
| "loop_op _ = False"

inductive server_step ::
  "'net muduo_ops \<Rightarrow> 'db raft_env \<Rightarrow> (string \<Rightarrow> port option) \<times> ('db, 'net) server \<Rightarrow>
   (string \<Rightarrow> port option) \<times> ('db, 'net) server \<Rightarrow> bool"
  for N :: "'net muduo_ops" and E :: "'db raft_env" where
  client_up: "L c = None \<Longrightarrow> mu_queued N c (srv_net sv) = 0 \<Longrightarrow>
     server_step N E (L, sv) (L(c := Some ClientPort), OnClientConnection N c True sv)"
| client_down: "L c = Some ClientPort \<Longrightarrow> server_step N E (L, sv) (L, OnClientConnection N c False sv)"
| client_data: "L c = Some ClientPort \<Longrightarrow> OnClientMessage N E c chunk sv = Ok () sv' \<Longrightarrow> server_step N E (L, sv) (L, sv')"
| written: "L c = Some ClientPort \<Longrightarrow> server_step N E (L, sv) (L, OnWriteComplete N c sv)"
| task: "srv_tasks sv = t # ts \<Longrightarrow> run_task N E t (sv\<lparr>srv_tasks := ts\<rparr>) = Ok () sv' \<Longrightarrow> server_step N E (L, sv) (L, sv')"
| timer: "token \<in> set (srv_timers sv) \<Longrightarrow>
     server_step N E (L, sv) (L, sv\<lparr>srv_timers := remove1 token (srv_timers sv), srv_tasks := srv_tasks sv @ [FlushTask token]\<rparr>)"
| cancelled_timer: "token \<in> set (srv_cancelled_timers sv) \<Longrightarrow>
     server_step N E (L, sv) (L, sv\<lparr>srv_cancelled_timers := remove1 token (srv_cancelled_timers sv),
       srv_tasks := srv_tasks sv @ [FlushTask token]\<rparr>)"
| metrics_up: "L c = None \<Longrightarrow> server_step N E (L, sv) (L(c := Some MetricsPort), OnMetricsConnection N c True sv)"
| metrics_down: "L c = Some MetricsPort \<Longrightarrow> server_step N E (L, sv) (L, OnMetricsConnection N c False sv)"
| metrics_data: "L c = Some MetricsPort \<Longrightarrow> server_step N E (L, sv) (L, OnMetricsMessage N c chunk sv)"
| node_work: "loop_op op \<Longrightarrow> bindR (call_node (run_op E op) sv) (\<lambda>_. settle N E) = Ok () sv' \<Longrightarrow>
     server_step N E (L, sv) (L, sv')"
| network: "(\<And>c. mu_queued N c net \<le> mu_queued N c (srv_net sv)) \<Longrightarrow>
     (\<And>c. L c \<noteq> None \<Longrightarrow> mu_connected N c net \<Longrightarrow> mu_connected N c (srv_net sv)) \<Longrightarrow>
     server_step N E (L, sv) (L, sv\<lparr>srv_net := net\<rparr>)"

end
