(* ===== verification/ServerInv.thy ===== *)
theory ServerInv
  imports ServerStart Cluster
begin

text \<open>
  The byte accounts of the server. The globals \<open>g_input_bytes\<close>, \<open>g_output_bytes\<close> and
  \<open>g_queued_write_bytes\<close> are kept by differences, so their limits hold only if the differences never
  wrap around. The invariant says that each account is the sum over its owners, within its limit, and
  that every queued write is a command of the state machine. The theory ends with a run of a session.
\<close>

section \<open>The invariant\<close>

text \<open>
  The commands of a connection, started and queued, are the frames at the front of the bytes received,
  in order; the rest is in the input buffer.
\<close>

definition stream_ok :: "client_session \<Rightarrow> bool" where
  "stream_ok s \<longleftrightarrow>
     (\<exists>fs. frames (cs_stream s) (length fs) = (fs, unread (cs_input s)) \<and>
        map qc_args (cs_started s @ sq_items (cs_queue s)) = map (\<lambda>f. upper_verb (fst f)) fs)"

definition classified :: "queued_command \<Rightarrow> bool" where
  "classified q \<longleftrightarrow> qc_type q = cc_type (ClassifyCommand (qc_args q))"

definition session_ok :: "client_session \<Rightarrow> bool" where
  "session_ok s \<longleftrightarrow> buffer_ok (cs_input s) \<and> queue_ok (cs_queue s) \<and> cs_accounted_output s \<le> kMaxClientOutput \<and>
     stream_ok s \<and> list_all classified (sq_items (cs_queue s))"

text \<open>A command that the state machine decodes, with a key of a namespace.\<close>

definition client_command :: "bytes \<Rightarrow> bool" where
  "client_command cmd \<longleftrightarrow> (\<exists>k. decode_command cmd = Some k \<and> cmd_key_ok k)"

lemma write_args:
  assumes "cc_type (ClassifyCommand args) = WRITE" and "user_key key"
  shows "\<exists>k. decode_args (args[WriteKeyIndex args := key]) = Some k \<and> cmd_key_ok k"
    and "args \<noteq> []" and "length args \<le> 6"
proof -
  consider (set) k v where "args = [''SET'', k, v]" | (del) k where "args = [''DEL'', k]"
    | (idemp) "args \<noteq> []" "args ! 0 = ''IDEMP''" "ic_valid (ParseIdempotentCommand args)"
    using assms(1)
    by (auto simp: ClassifyCommand_def wrong_arity_def Let_def length_Suc_conv numeral_eq_Suc split: if_splits)
  note cs = this
  show "args \<noteq> []" using cs by cases auto
  show "length args \<le> 6"
    using cs by cases (auto simp: ParseIdempotentCommand_def no_idempotent_def Let_def split: if_splits option.splits)
  show "\<exists>k. decode_args (args[WriteKeyIndex args := key]) = Some k \<and> cmd_key_ok k"
    using cs
  proof cases
    case idemp
    then have "length args = 5 \<or> length args = 6"
      by (auto simp: ParseIdempotentCommand_def no_idempotent_def Let_def split: if_splits option.splits)
    with idemp assms(2) show ?thesis
      by (auto simp: decode_args_def WriteKeyIndex_def ParseIdempotentCommand_def no_idempotent_def Let_def
          UpperCommand_def toupper_def split: if_splits option.splits)
  qed (use assms(2) in \<open>simp_all add: decode_args_def WriteKeyIndex_def UpperCommand_def toupper_def Let_def\<close>)
qed

lemma client_write:
  assumes "cc_type (ClassifyCommand args) = WRITE" and "ns_ok m"
    and "length (SerializeCommand (args[WriteKeyIndex args := MakeKey m c k])) \<le> kMaxCommandBytes"
  shows "client_command (SerializeCommand (args[WriteKeyIndex args := MakeKey m c k]))"
proof -
  obtain kc where "decode_args (args[WriteKeyIndex args := MakeKey m c k]) = Some kc" "cmd_key_ok kc"
    using write_args(1) [OF assms(1), of "MakeKey m c k"] user_key_MakeKey [OF assms(2)] by blast
  moreover have "decode_command (SerializeCommand (args[WriteKeyIndex args := MakeKey m c k]))
      = decode_args (args[WriteKeyIndex args := MakeKey m c k])"
    using write_args(2,3) [OF assms(1), of "MakeKey m c k"] user_key_MakeKey [OF assms(2)] assms(3)
    by (intro decode_serialized) (simp_all add: Suc_le_eq)
  ultimately show ?thesis by (simp add: client_command_def)
qed

definition input_total :: "('db, 'net) server \<Rightarrow> nat" where
  "input_total sv = sum_list (map (\<lambda>cs. UnreadBytes (cs_input (snd cs))) (srv_sessions sv))"

definition output_total :: "('db, 'net) server \<Rightarrow> nat" where
  "output_total sv = sum_list (map (\<lambda>cs. cs_accounted_output (snd cs)) (srv_sessions sv))"

text \<open>\<open>K\<close> are the connections of the client port, and \<open>X\<close> those whose output buffer may hold more than their account, in the middle of a reply.\<close>

definition accounts_ok :: "'net muduo_ops \<Rightarrow> server_flags \<Rightarrow> string set \<Rightarrow> string set \<Rightarrow> ('db, 'net) server \<Rightarrow> bool" where
  "accounts_ok N F K X sv \<longleftrightarrow>
     srv_flags sv = F \<and> distinct (map fst (srv_sessions sv)) \<and> set (map fst (srv_sessions sv)) \<subseteq> K \<and>
     (\<forall>c s. session c sv = Some s \<longrightarrow> session_ok s \<and>
        (c \<notin> X \<longrightarrow> mu_queued N c (srv_net sv) \<le> cs_accounted_output s)) \<and>
     length (srv_sessions sv) \<le> nat (fg_max_clients F) \<and>
     srv_input_bytes sv = input_total sv \<and> input_total sv \<le> kMaxTotalInput \<and>
     srv_output_bytes sv = output_total sv \<and> output_total sv \<le> kMaxTotalOutput \<and>
     srv_queued_write_bytes sv = batch_size (srv_writes sv) \<and> batch_size (srv_writes sv) \<le> kMaxQueuedWriteBytes \<and>
     length (srv_writes sv) \<le> kMaxQueuedWrites \<and> ns_ok (srv_namespaces sv) \<and>
     (\<forall>w \<in> set (srv_writes sv). length (qw_command w) \<le> kMaxCommandBytes \<and> client_command (qw_command w))"

lemma accounts_okI:
  assumes "srv_flags sv = F" and "distinct (map fst (srv_sessions sv))" and "set (map fst (srv_sessions sv)) \<subseteq> K"
    and "\<And>c s. session c sv = Some s \<Longrightarrow> session_ok s \<and> (c \<notin> X \<longrightarrow> mu_queued N c (srv_net sv) \<le> cs_accounted_output s)"
    and "length (srv_sessions sv) \<le> nat (fg_max_clients F)"
    and "srv_input_bytes sv = input_total sv" and "input_total sv \<le> kMaxTotalInput"
    and "srv_output_bytes sv = output_total sv" and "output_total sv \<le> kMaxTotalOutput"
    and "srv_queued_write_bytes sv = batch_size (srv_writes sv)" and "batch_size (srv_writes sv) \<le> kMaxQueuedWriteBytes"
    and "length (srv_writes sv) \<le> kMaxQueuedWrites"
    and "\<forall>w \<in> set (srv_writes sv). length (qw_command w) \<le> kMaxCommandBytes \<and> client_command (qw_command w)"
    and "ns_ok (srv_namespaces sv)"
  shows "accounts_ok N F K X sv"
  unfolding accounts_ok_def using assms by blast

lemma accounts_okD:
  assumes "accounts_ok N F K X sv"
  shows "distinct (map fst (srv_sessions sv))" and "length (srv_sessions sv) \<le> nat (fg_max_clients F)"
    and "srv_input_bytes sv = input_total sv" and "input_total sv \<le> kMaxTotalInput"
    and "srv_output_bytes sv = output_total sv" and "output_total sv \<le> kMaxTotalOutput"
    and "srv_queued_write_bytes sv = batch_size (srv_writes sv)" and "batch_size (srv_writes sv) \<le> kMaxQueuedWriteBytes"
    and "length (srv_writes sv) \<le> kMaxQueuedWrites"
    and "\<forall>w \<in> set (srv_writes sv). length (qw_command w) \<le> kMaxCommandBytes \<and> client_command (qw_command w)"
    and "set (map fst (srv_sessions sv)) \<subseteq> K" and "srv_flags sv = F" and "ns_ok (srv_namespaces sv)"
  using assms unfolding accounts_ok_def by blast+

lemma accounts_session: "accounts_ok N F K X sv \<Longrightarrow> session c sv = Some s \<Longrightarrow>
    session_ok s \<and> (c \<notin> X \<longrightarrow> mu_queued N c (srv_net sv) \<le> cs_accounted_output s)"
  unfolding accounts_ok_def by blast

lemma size_sub_le [simp]: "b \<le> a \<Longrightarrow> a < 2 ^ 64 \<Longrightarrow> size_sub a b = a - b"
proof -
  assume "b \<le> a" "a < 2 ^ 64"
  then have "a + 2 ^ 64 - b = (a - b) + 2 ^ 64" "a - b < 2 ^ 64" by simp_all
  then show ?thesis unfolding size_sub_def by (metis mod_add_self2 mod_less)
qed

lemma size_add_less [simp]: "a + b < 2 ^ 64 \<Longrightarrow> size_add a b = a + b"
  unfolding size_add_def by (rule mod_less)

text \<open>The part of a session that the accounts read.\<close>

definition quiet_update :: "(client_session \<Rightarrow> client_session) \<Rightarrow> bool" where
  "quiet_update f \<longleftrightarrow> (\<forall>s. UnreadBytes (cs_input (f s)) = UnreadBytes (cs_input s) \<and>
     cs_accounted_output (f s) = cs_accounted_output s \<and> session_ok (f s) = session_ok s)"

lemma map_of_map_entry: "map_of (AList.map_entry c f al) c' = (if c' = c then map_option f (map_of al c) else map_of al c')"
  by (induction al) auto

lemma map_entry_absent: "map_of al c = None \<Longrightarrow> AList.map_entry c f al = al"
  by (induction al) (auto split: if_splits)

lemma session_upd_session [simp]:
  "session c' (upd_session c f sv) = (if c' = c then map_option f (session c sv) else session c' sv)"
  by (simp add: session_def upd_session_def map_of_map_entry)

lemma session_updates [simp]:
  "session c (upd_net f sv) = session c sv"
  "session c (sv\<lparr>srv_input_bytes := x0\<rparr>) = session c sv"
  "session c (sv\<lparr>srv_output_bytes := x1\<rparr>) = session c sv"
  "session c (sv\<lparr>srv_queued_write_bytes := x2\<rparr>) = session c sv"
  "session c (sv\<lparr>srv_tasks := x3\<rparr>) = session c sv"
  "session c (sv\<lparr>srv_node := x4\<rparr>) = session c sv"
  "session c (sv\<lparr>srv_ready := x5\<rparr>) = session c sv"
  "session c (sv\<lparr>srv_net := x6\<rparr>) = session c sv"
  "session c (sv\<lparr>srv_overload_rejections := x7\<rparr>) = session c sv"
  "session c (sv\<lparr>srv_flush_policy := x8\<rparr>) = session c sv"
  "session c (sv\<lparr>srv_flush_timer := x9\<rparr>) = session c sv"
  "session c (sv\<lparr>srv_flush_promoted := x10\<rparr>) = session c sv"
  "session c (sv\<lparr>srv_flush_immediate := x11\<rparr>) = session c sv"
  "session c (sv\<lparr>srv_flush_delayed := x12\<rparr>) = session c sv"
  "session c (sv\<lparr>srv_timers := x13\<rparr>) = session c sv"
  "session c (sv\<lparr>srv_cancelled_timers := x22\<rparr>) = session c sv"
  "session c (sv\<lparr>srv_local_read := x14\<rparr>) = session c sv"
  "session c (sv\<lparr>srv_write_completed := x15\<rparr>) = session c sv"
  "session c (sv\<lparr>srv_write_queue_wait := x16\<rparr>) = session c sv"
  "session c (sv\<lparr>srv_namespaces := x17\<rparr>) = session c sv"
  "session c (sv\<lparr>srv_callbacks := x18\<rparr>) = session c sv"
  "session c (sv\<lparr>srv_next_callback := x19\<rparr>) = session c sv"
  "session c (sv\<lparr>srv_metrics_requests := x20\<rparr>) = session c sv"
  "session c (sv\<lparr>srv_writes := x21\<rparr>) = session c sv"
  by (simp_all add: session_def upd_net_def)

lemma map_entry_keys [simp]: "map fst (AList.map_entry c f al) = map fst al"
  by (induction al) auto

lemma length_map_entry [simp]: "length (AList.map_entry c f al) = length al"
  by (induction al) auto

lemma upd_session_fields [simp]:
  "srv_flags (upd_session c f sv) = srv_flags sv"
  "srv_input_bytes (upd_session c f sv) = srv_input_bytes sv"
  "srv_output_bytes (upd_session c f sv) = srv_output_bytes sv"
  "srv_queued_write_bytes (upd_session c f sv) = srv_queued_write_bytes sv"
  "srv_tasks (upd_session c f sv) = srv_tasks sv"
  "srv_node (upd_session c f sv) = srv_node sv"
  "srv_ready (upd_session c f sv) = srv_ready sv"
  "srv_net (upd_session c f sv) = srv_net sv"
  "srv_overload_rejections (upd_session c f sv) = srv_overload_rejections sv"
  "srv_flush_policy (upd_session c f sv) = srv_flush_policy sv"
  "srv_flush_timer (upd_session c f sv) = srv_flush_timer sv"
  "srv_flush_promoted (upd_session c f sv) = srv_flush_promoted sv"
  "srv_flush_immediate (upd_session c f sv) = srv_flush_immediate sv"
  "srv_flush_delayed (upd_session c f sv) = srv_flush_delayed sv"
  "srv_timers (upd_session c f sv) = srv_timers sv"
  "srv_cancelled_timers (upd_session c f sv) = srv_cancelled_timers sv"
  "srv_local_read (upd_session c f sv) = srv_local_read sv"
  "srv_write_completed (upd_session c f sv) = srv_write_completed sv"
  "srv_write_queue_wait (upd_session c f sv) = srv_write_queue_wait sv"
  "srv_namespaces (upd_session c f sv) = srv_namespaces sv"
  "srv_callbacks (upd_session c f sv) = srv_callbacks sv"
  "srv_next_callback (upd_session c f sv) = srv_next_callback sv"
  "srv_metrics_requests (upd_session c f sv) = srv_metrics_requests sv"
  "srv_writes (upd_session c f sv) = srv_writes sv"
  "map fst (srv_sessions (upd_session c f sv)) = map fst (srv_sessions sv)"
  "length (srv_sessions (upd_session c f sv)) = length (srv_sessions sv)"
  by (simp_all add: upd_session_def)

lemma upd_net_fields [simp]:
  "srv_flags (upd_net g sv) = srv_flags sv"
  "srv_input_bytes (upd_net g sv) = srv_input_bytes sv"
  "srv_output_bytes (upd_net g sv) = srv_output_bytes sv"
  "srv_queued_write_bytes (upd_net g sv) = srv_queued_write_bytes sv"
  "srv_tasks (upd_net g sv) = srv_tasks sv"
  "srv_node (upd_net g sv) = srv_node sv"
  "srv_ready (upd_net g sv) = srv_ready sv"
  "srv_overload_rejections (upd_net g sv) = srv_overload_rejections sv"
  "srv_flush_policy (upd_net g sv) = srv_flush_policy sv"
  "srv_flush_timer (upd_net g sv) = srv_flush_timer sv"
  "srv_flush_promoted (upd_net g sv) = srv_flush_promoted sv"
  "srv_flush_immediate (upd_net g sv) = srv_flush_immediate sv"
  "srv_flush_delayed (upd_net g sv) = srv_flush_delayed sv"
  "srv_timers (upd_net g sv) = srv_timers sv"
  "srv_cancelled_timers (upd_net g sv) = srv_cancelled_timers sv"
  "srv_local_read (upd_net g sv) = srv_local_read sv"
  "srv_write_completed (upd_net g sv) = srv_write_completed sv"
  "srv_write_queue_wait (upd_net g sv) = srv_write_queue_wait sv"
  "srv_namespaces (upd_net g sv) = srv_namespaces sv"
  "srv_callbacks (upd_net g sv) = srv_callbacks sv"
  "srv_next_callback (upd_net g sv) = srv_next_callback sv"
  "srv_metrics_requests (upd_net g sv) = srv_metrics_requests sv"
  "srv_writes (upd_net g sv) = srv_writes sv"
  "srv_sessions (upd_net g sv) = srv_sessions sv" "srv_net (upd_net g sv) = g (srv_net sv)"
  by (simp_all add: upd_net_def)

lemma map_entry_same_sum: "(\<And>s. h (f s) = h s) \<Longrightarrow>
    map (\<lambda>cs. h (snd cs)) (AList.map_entry c f al) = map (\<lambda>cs. h (snd cs)) al"
  by (induction al) auto

text \<open>One session changes, and with it the account of the input bytes.\<close>

lemma accounts_upd_at:
  assumes ok: "accounts_ok N F K X sv"
    and f: "\<And>s. session c sv = Some s \<Longrightarrow> session_ok (f s) \<and> cs_accounted_output (f s) = cs_accounted_output s \<and>
      n + UnreadBytes (cs_input s) = input_total sv + UnreadBytes (cs_input (f s)) \<and> n \<le> kMaxTotalInput"
    and none: "session c sv = None \<Longrightarrow> n = input_total sv"
  shows "accounts_ok N F K X (upd_session c f (sv\<lparr>srv_input_bytes := n\<rparr>))" (is "accounts_ok N F K X ?sv")
proof (cases "session c sv")
  case None
  then have "AList.map_entry c f (srv_sessions sv) = srv_sessions sv"
    unfolding session_def by (rule map_entry_absent)
  then have "?sv = sv"
    using none [OF None] accounts_okD(3) [OF ok] by (simp add: upd_session_def)
  with ok show ?thesis by simp
next
  case (Some s)
  note f = f [OF Some] and s = Some [unfolded session_def]
  have t: "input_total ?sv = n" "output_total ?sv = output_total sv"
    using f map_entry_sum [OF s, of "\<lambda>s. UnreadBytes (cs_input s)" f] map_entry_sum [OF s, of cs_accounted_output f]
    by (simp_all add: input_total_def output_total_def upd_session_def)
  show ?thesis
  proof (rule accounts_okI)
    show "session_ok s' \<and> (c' \<notin> X \<longrightarrow> mu_queued N c' (srv_net ?sv) \<le> cs_accounted_output s')"
      if "session c' ?sv = Some s'" for c' s'
      using that accounts_session [OF ok, of c'] accounts_session [OF ok Some] f Some
      by (cases "c' = c") auto
  qed (use accounts_okD [OF ok] f in \<open>simp_all add: t\<close>)
qed

lemma accounts_upd_session:
  assumes "accounts_ok N F K X sv" and "quiet_update f"
  shows "accounts_ok N F K X (upd_session c f sv)"
proof -
  have "sv\<lparr>srv_input_bytes := input_total sv\<rparr> = sv" using accounts_okD(3) [OF assms(1)] by simp
  with accounts_upd_at [OF assms(1), of c f "input_total sv"] accounts_okD(4) [OF assms(1)] accounts_session [OF assms(1)] assms(2)
  show ?thesis by (simp add: quiet_update_def)
qed

lemma accounts_updates [simp]:
  "accounts_ok N F K X (sv\<lparr>srv_tasks := ts\<rparr>) = accounts_ok N F K X sv"
  "accounts_ok N F K X (sv\<lparr>srv_node := x\<rparr>) = accounts_ok N F K X sv"
  "accounts_ok N F K X (sv\<lparr>srv_ready := es\<rparr>) = accounts_ok N F K X sv"
  "accounts_ok N F K X (sv\<lparr>srv_overload_rejections := w\<rparr>) = accounts_ok N F K X sv"
  "accounts_ok N F K X (sv\<lparr>srv_flush_policy := p\<rparr>) = accounts_ok N F K X sv"
  "accounts_ok N F K X (sv\<lparr>srv_flush_timer := to\<rparr>) = accounts_ok N F K X sv"
  "accounts_ok N F K X (sv\<lparr>srv_flush_promoted := w\<rparr>) = accounts_ok N F K X sv"
  "accounts_ok N F K X (sv\<lparr>srv_flush_immediate := w\<rparr>) = accounts_ok N F K X sv"
  "accounts_ok N F K X (sv\<lparr>srv_flush_delayed := w\<rparr>) = accounts_ok N F K X sv"
  "accounts_ok N F K X (sv\<lparr>srv_timers := tks\<rparr>) = accounts_ok N F K X sv"
  "accounts_ok N F K X (sv\<lparr>srv_cancelled_timers := tks\<rparr>) = accounts_ok N F K X sv"
  "accounts_ok N F K X (sv\<lparr>srv_local_read := l\<rparr>) = accounts_ok N F K X sv"
  "accounts_ok N F K X (sv\<lparr>srv_write_completed := l\<rparr>) = accounts_ok N F K X sv"
  "accounts_ok N F K X (sv\<lparr>srv_write_queue_wait := l\<rparr>) = accounts_ok N F K X sv"
  "accounts_ok N F K X (sv\<lparr>srv_callbacks := ks\<rparr>) = accounts_ok N F K X sv"
  "accounts_ok N F K X (sv\<lparr>srv_next_callback := n\<rparr>) = accounts_ok N F K X sv"
  "accounts_ok N F K X (sv\<lparr>srv_metrics_requests := rs\<rparr>) = accounts_ok N F K X sv"
  by (simp_all add: accounts_ok_def input_total_def output_total_def session_def)

lemma accounts_namespaces [simp]:
  "ns_ok m \<Longrightarrow> accounts_ok N F K X sv \<Longrightarrow> accounts_ok N F K X (sv\<lparr>srv_namespaces := m\<rparr>)"
  by (simp add: accounts_ok_def input_total_def output_total_def session_def)

lemma quiet_session_updates [simp]:
  "quiet_update (cs_waiting_update g)" "quiet_update (cs_closing_update g)" "quiet_update (cs_drain_scheduled_update g)"
  "quiet_update (cs_executing_update g)" "quiet_update (cs_replies_update g')" "quiet_update (\<lambda>s. s\<lparr>cs_replies := rs s\<rparr>)"
  "quiet_update (\<lambda>s. s\<lparr>cs_executing := b, cs_waiting := b'\<rparr>)"
  by (simp_all add: quiet_update_def session_ok_def stream_ok_def)

lemma accounts_sub: "accounts_ok N F K X sv \<Longrightarrow> X \<subseteq> Y \<Longrightarrow> accounts_ok N F K Y sv"
  unfolding accounts_ok_def by blast

lemma part_of_sum:
  fixes h :: "'v \<Rightarrow> nat"
  shows "map_of al c = Some v \<Longrightarrow> h v \<le> sum_list (map (\<lambda>cs. h (snd cs)) al)"
  by (induction al) (auto split: if_splits)

section \<open>Replies keep the accounts\<close>

lemma accounts_recount:
  assumes ok: "accounts_ok N F K {c} sv" and s: "session c sv = Some s"
    and q: "mu_queued N c (srv_net sv) \<le> q" "q \<le> kMaxClientOutput" "output_total sv - cs_accounted_output s + q \<le> kMaxTotalOutput"
  shows "accounts_ok N F K {} (upd_session c (\<lambda>s. s\<lparr>cs_accounted_output := q\<rparr>)
    (sv\<lparr>srv_output_bytes := size_add (size_sub (srv_output_bytes sv) (cs_accounted_output s)) q\<rparr>))" (is "accounts_ok N F K {} ?sv")
proof -
  have le: "cs_accounted_output s \<le> output_total sv"
    using s part_of_sum [of "srv_sessions sv" c s cs_accounted_output] by (simp add: session_def output_total_def)
  have o: "output_total ?sv = output_total sv - cs_accounted_output s + q"
    using s le map_entry_sum [of "srv_sessions sv" c s cs_accounted_output "\<lambda>s. s\<lparr>cs_accounted_output := q\<rparr>"]
    by (simp add: session_def output_total_def upd_session_def)
  have i: "input_total ?sv = input_total sv"
    by (simp add: input_total_def upd_session_def map_entry_same_sum [where h = "\<lambda>s. UnreadBytes (cs_input s)"])
  have a: "srv_output_bytes sv = output_total sv" "output_total sv \<le> kMaxTotalOutput" using ok by (simp_all add: accounts_ok_def)
  have b: "srv_output_bytes ?sv = output_total ?sv"
    unfolding o using a le q(3) by (simp add: upd_session_def)
  show ?thesis
  proof (rule accounts_okI)
    show "session_ok s' \<and> (c' \<notin> {} \<longrightarrow> mu_queued N c' (srv_net ?sv) \<le> cs_accounted_output s')" if "session c' ?sv = Some s'" for c' s'
    proof (cases "c' = c")
      case True
      with that s have "s' = s\<lparr>cs_accounted_output := q\<rparr>" by simp
      with True accounts_session [OF ok s] q show ?thesis by (simp add: session_ok_def stream_ok_def)
    next
      case False
      with that have "session c' sv = Some s'" by simp
      with False accounts_session [OF ok this] show ?thesis by (simp add: upd_session_def)
    qed
    show "srv_output_bytes ?sv = output_total ?sv" by (rule b)
    show "output_total ?sv \<le> kMaxTotalOutput" unfolding o by (rule q(3))
    show "srv_input_bytes ?sv = input_total ?sv" "input_total ?sv \<le> kMaxTotalInput"
      unfolding i using accounts_okD(3,4) [OF ok] by (simp_all add: upd_session_def)
  qed (use accounts_okD(1,2,7-13) [OF ok] in \<open>simp_all add: upd_session_def\<close>)
qed

abbreviation client_conns :: "(string \<Rightarrow> port option) \<Rightarrow> string set" where
  "client_conns L \<equiv> {c. L c = Some ClientPort}"

lemma alist_update_absent: "map_of al c = None \<Longrightarrow> AList.update c v al = al @ [(c, v)]"
  by (induction al) (auto split: if_splits)

lemma alist_delete_sum:
  fixes h :: "'v \<Rightarrow> nat"
  assumes "map_of al c = Some v" and "distinct (map fst al)"
  shows "sum_list (map (\<lambda>cs. h (snd cs)) (AList.delete c al)) + h v = sum_list (map (\<lambda>cs. h (snd cs)) al)"
  using assms
proof (induction al)
  case (Cons a al)
  have "AList.delete c al = al" if "fst a = c"
    using Cons.prems(2) that by (intro delete_id) auto
  with Cons show ?case by (cases a) (auto split: if_splits)
qed simp

lemma accounts_mono: "accounts_ok N F K X sv \<Longrightarrow> K \<subseteq> K' \<Longrightarrow> accounts_ok N F K' X sv"
  unfolding accounts_ok_def by blast

lemma accounts_network:
  assumes "accounts_ok N F K {} sv" and "\<And>c. c \<in> K \<Longrightarrow> mu_queued N c net \<le> mu_queued N c (srv_net sv)"
  shows "accounts_ok N F K {} (sv\<lparr>srv_net := net\<rparr>)"
proof (rule accounts_okI)
  show "session_ok s \<and> (c \<notin> {} \<longrightarrow> mu_queued N c (srv_net (sv\<lparr>srv_net := net\<rparr>)) \<le> cs_accounted_output s)"
    if "session c (sv\<lparr>srv_net := net\<rparr>) = Some s" for c s
  proof -
    have "session c sv = Some s" using that by simp
    moreover from this have "c \<in> K"
      using accounts_okD(11) [OF assms(1)] map_of_SomeD [of "srv_sessions sv" c s] by (force simp: session_def)
    ultimately show ?thesis using accounts_session [OF assms(1)] assms(2) [of c] by fastforce
  qed
qed (use accounts_okD [OF assms(1)] in \<open>simp_all add: input_total_def output_total_def\<close>)

lemma accounts_connect:
  assumes ok: "accounts_ok N F K {} sv" and "c \<notin> K" and "mu_queued N c (srv_net sv) = 0"
    and "length (srv_sessions sv) < nat (fg_max_clients (srv_flags sv))"
  shows "accounts_ok N F (insert c K) {} (sv\<lparr>srv_sessions := AList.update c new_session (srv_sessions sv)\<rparr>)" (is "accounts_ok N F _ {} ?sv")
proof -
  have "c \<notin> fst ` set (srv_sessions sv)" using accounts_okD(11) [OF ok] assms(2) by auto
  then have none: "map_of (srv_sessions sv) c = None" by (simp add: map_of_eq_None_iff)
  have e: "AList.update c new_session (srv_sessions sv) = srv_sessions sv @ [(c, new_session)]"
    using none by (rule alist_update_absent)
  have se: "session c' ?sv = (if c' = c then Some new_session else session c' sv)" for c'
    by (simp add: session_def update_conv')
  have new: "session_ok new_session" "UnreadBytes (cs_input new_session) = 0" "cs_accounted_output new_session = 0"
    by (simp_all add: session_ok_def new_session_def buffer_ok_def queue_ok_def UnreadBytes_def stream_ok_def unread_def)
  show ?thesis
  proof (rule accounts_okI)
    show "session_ok s \<and> (c' \<notin> {} \<longrightarrow> mu_queued N c' (srv_net ?sv) \<le> cs_accounted_output s)" if "session c' ?sv = Some s" for c' s
      using that accounts_session [OF ok, of c' s] assms(3) new(1,3) by (cases "c' = c") (auto simp: se)
  qed (use accounts_okD [OF ok] assms(4) \<open>c \<notin> fst ` set (srv_sessions sv)\<close> in
      \<open>auto simp: e input_total_def output_total_def new(2,3)\<close>)
qed

lemma accounts_disconnect:
  assumes ok: "accounts_ok N F K X sv" and s: "session c sv = Some s"
  shows "accounts_ok N F K X (sv\<lparr>srv_input_bytes := size_sub (srv_input_bytes sv) (UnreadBytes (cs_input s)),
     srv_output_bytes := size_sub (srv_output_bytes sv) (cs_accounted_output s),
     srv_sessions := AList.delete c (srv_sessions sv)\<rparr>)" (is "accounts_ok N F K X ?sv")
proof -
  note s' = s [unfolded session_def] and d = accounts_okD [OF ok]
  have total_sessions: "input_total (sv'\<lparr>srv_sessions := al\<rparr>) = sum_list (map (\<lambda>cs. UnreadBytes (cs_input (snd cs))) al)"
    "output_total (sv'\<lparr>srv_sessions := al\<rparr>) = sum_list (map (\<lambda>cs. cs_accounted_output (snd cs)) al)" for sv' :: "('b, 'a) server" and al
    by (simp_all add: input_total_def output_total_def)
  have i: "input_total (sv\<lparr>srv_sessions := AList.delete c (srv_sessions sv)\<rparr>) + UnreadBytes (cs_input s) = input_total sv"
    using alist_delete_sum [OF s' d(1), of "\<lambda>s. UnreadBytes (cs_input s)"] unfolding total_sessions by (simp add: input_total_def)
  have o: "output_total (sv\<lparr>srv_sessions := AList.delete c (srv_sessions sv)\<rparr>) + cs_accounted_output s = output_total sv"
    using alist_delete_sum [OF s' d(1), of cs_accounted_output] unfolding total_sessions by (simp add: output_total_def)
  show ?thesis
  proof (rule accounts_okI)
    show "session_ok s' \<and> (c' \<notin> X \<longrightarrow> mu_queued N c' (srv_net ?sv) \<le> cs_accounted_output s')" if "session c' ?sv = Some s'" for c' s'
      using that accounts_session [OF ok, of c' s'] by (auto simp: session_def delete_conv split: if_splits)
    show "distinct (map fst (srv_sessions ?sv))" using d(1) by (simp add: distinct_delete)
    show "set (map fst (srv_sessions ?sv)) \<subseteq> K" using d(11) by (auto simp: delete_keys)
    show "length (srv_sessions ?sv) \<le> nat (fg_max_clients F)"
      using d(2) length_delete_le [of c "srv_sessions sv"] by simp
    show "srv_input_bytes ?sv = input_total ?sv" "input_total ?sv \<le> kMaxTotalInput" using i d(3,4) by (simp_all add: total_sessions)
    show "srv_output_bytes ?sv = output_total ?sv" "output_total ?sv \<le> kMaxTotalOutput" using o d(5,6) by (simp_all add: total_sessions)
  qed (use d(7-13) in simp_all)
qed

lemma settle_keeps:
  assumes "P sv" and "\<And>e sv. P sv \<Longrightarrow> keeps P (run_callback N E e sv)" and "\<And>sv es. P sv \<Longrightarrow> P (sv\<lparr>srv_ready := es\<rparr>)"
  shows "keeps P (settle N E sv)"
  using assms
proof (induction N E sv rule: settle.induct)
  case (1 N E sv)
  show ?case
  proof (cases "srv_ready sv")
    case Nil
    then show ?thesis using "1.prems"(1) by (subst settle.simps) simp
  next
    case (Cons e es)
    have "keeps P (bindR (run_callback N E e (sv\<lparr>srv_ready := es\<rparr>)) (\<lambda>_. settle N E))"
    proof (rule keeps_bindR)
      show "keeps P (run_callback N E e (sv\<lparr>srv_ready := es\<rparr>))" by (intro "1.prems")
      show "keeps P (settle N E s)" if "P s" "run_callback N E e (sv\<lparr>srv_ready := es\<rparr>) = Ok x s" for x s
        using "1.IH" [OF Cons that(2) that(1) "1.prems"(2,3)] .
    qed
    then show ?thesis by (subst settle.simps) (simp add: Cons)
  qed
qed

context muduo
begin

lemma accounts_upd_net [simp]:
  "accounts_ok N F K X (upd_net (mu_shrink N c) sv) = accounts_ok N F K X sv"
  "accounts_ok N F K X (upd_net (mu_startRead N c) sv) = accounts_ok N F K X sv"
  "accounts_ok N F K X (upd_net (mu_stopRead N c) sv) = accounts_ok N F K X sv"
  "accounts_ok N F K X (upd_net (mu_shutdown N c) sv) = accounts_ok N F K X sv"
  "accounts_ok N F K X (upd_net (mu_forceClose N c) sv) = accounts_ok N F K X sv"
  "accounts_ok N F K X (upd_net (mu_forceCloseWithDelay N c) sv) = accounts_ok N F K X sv"
  by (simp_all add: accounts_ok_def input_total_def output_total_def session_def upd_net_def)

lemma accounts_send:
  assumes "accounts_ok N F K X sv" and "c \<in> X"
  shows "accounts_ok N F K X (upd_net (mu_send N c b) sv)"
proof -
  have "mu_queued N c' (mu_send N c b n) = mu_queued N c' n" if "c' \<notin> X" for c' n
    using that assms(2) send_other by metis
  with assms(1) show ?thesis by (simp add: accounts_ok_def input_total_def output_total_def session_def upd_net_def)
qed

lemma accounts_recounted:
  assumes "accounts_ok N F K {c} sv"
    and "\<And>s. session c sv = Some s \<Longrightarrow> mu_queued N c (srv_net sv) \<le> kMaxClientOutput \<and>
      output_total sv - cs_accounted_output s + mu_queued N c (srv_net sv) \<le> kMaxTotalOutput"
    and "session c sv \<noteq> None"
  shows "accounts_ok N F K {} (AccountOutput N c sv)"
proof -
  obtain s where s: "session c sv = Some s" using assms(3) by blast
  define R where "R = upd_session c (\<lambda>s. s\<lparr>cs_accounted_output := mu_queued N c (srv_net sv)\<rparr>)
    (sv\<lparr>srv_output_bytes := size_add (size_sub (srv_output_bytes sv) (cs_accounted_output s)) (mu_queued N c (srv_net sv))\<rparr>)"
  have "AccountOutput N c sv = upd_net (mu_shrink N c) R \<or> AccountOutput N c sv = R"
    unfolding AccountOutput_def s option.case Let_def R_def [symmetric] by (simp split: if_split)
  moreover have "accounts_ok N F K {} R"
    unfolding R_def using assms(2) [OF s] by (intro accounts_recount [OF assms(1) s]) simp_all
  ultimately show ?thesis by auto
qed

lemma accounts_AccountOutput [intro]:
  assumes "accounts_ok N F K {} sv"
  shows "accounts_ok N F K {} (AccountOutput N c sv)"
proof (cases "session c sv")
  case None
  then show ?thesis using assms by (simp add: AccountOutput_def)
next
  case (Some s)
  have "cs_accounted_output s \<le> output_total sv"
    using Some part_of_sum [of "srv_sessions sv" c s cs_accounted_output] by (simp add: session_def output_total_def)
  moreover have "output_total sv \<le> kMaxTotalOutput" using assms by (simp add: accounts_ok_def)
  ultimately show ?thesis
    using Some accounts_session [OF assms Some] accounts_sub [OF assms, of "{c}"]
    by (intro accounts_recounted) (auto simp: session_ok_def)
qed

lemma accounts_CloseClient [simp]: "accounts_ok N F K X sv \<Longrightarrow> accounts_ok N F K X (CloseClient N c sv)"
  by (simp add: CloseClient_def accounts_upd_session)

lemma AccountOutput_session:
  assumes "session c sv = Some s"
  shows "session c (AccountOutput N c sv) = Some (s\<lparr>cs_accounted_output := mu_queued N c (srv_net sv)\<rparr>)"
    and "mu_queued N c (srv_net (AccountOutput N c sv)) = mu_queued N c (srv_net sv)"
  using assms by (simp_all add: AccountOutput_def Let_def upd_net_def upd_session_def map_of_map_entry session_def)

lemma accounts_SendReply [intro]:
  assumes ok: "accounts_ok N F K {} sv"
  shows "accounts_ok N F K {} (SendReply N c reply sv)"
proof (cases "session c sv")
  case None
  then show ?thesis using ok by (simp add: SendReply_def)
next
  case (Some s)
  let ?sv = "AccountOutput N c sv"
  let ?s = "s\<lparr>cs_accounted_output := mu_queued N c (srv_net sv)\<rparr>"
  let ?sent = "upd_session c (\<lambda>s. s\<lparr>cs_replies := cs_replies s @ [(length (cs_started s), reply)]\<rparr>) (upd_net (mu_send N c reply) ?sv)"
  note acc = AccountOutput_session [OF Some]
  have ok1: "accounts_ok N F K {} ?sv" using ok by (rule accounts_AccountOutput)
  have out: "srv_output_bytes ?sv = output_total ?sv" "output_total ?sv \<le> kMaxTotalOutput" using ok1 by (simp_all add: accounts_ok_def)
  have small: "cs_accounted_output ?s \<le> kMaxClientOutput" using accounts_session [OF ok1 acc(1)] by (simp add: session_ok_def)
  have part: "cs_accounted_output ?s \<le> output_total ?sv"
    using acc(1) part_of_sum [of "srv_sessions ?sv" c ?s cs_accounted_output] by (simp add: session_def output_total_def)
  have "accounts_ok N F K {} (AccountOutput N c ?sent)"
    if fits: "length reply \<le> size_sub kMaxClientOutput (accounted c ?sv)" "length reply \<le> size_sub kMaxTotalOutput (srv_output_bytes ?sv)"
  proof (rule accounts_recounted)
    show "accounts_ok N F K {c} ?sent"
      using ok1 accounts_sub [OF ok1, of "{c}"] by (intro accounts_upd_session accounts_send) simp_all
    have s': "session c ?sent = Some (?s\<lparr>cs_replies := cs_replies s @ [(length (cs_started s), reply)]\<rparr>)"
      using acc(1) by simp
    show "session c ?sent \<noteq> None" using acc(1) by simp
    have q: "mu_queued N c (srv_net ?sent) \<le> mu_queued N c (srv_net sv) + length reply"
      using send_queued [of c reply "srv_net ?sv"] acc(2) by (simp add: upd_session_def upd_net_def)
    have "output_total ?sent = output_total ?sv"
      by (simp add: output_total_def upd_session_def upd_net_def map_entry_same_sum [where h = cs_accounted_output])
    then show "mu_queued N c (srv_net ?sent) \<le> kMaxClientOutput \<and>
        output_total ?sent - cs_accounted_output s' + mu_queued N c (srv_net ?sent) \<le> kMaxTotalOutput"
      if "session c ?sent = Some s'" for s'
      using that s' q fits small part out acc(1) by (auto simp: accounted_def)
  qed
  then show ?thesis
    using Some ok ok1 by (auto simp: SendReply_def Let_def reject_overload_def)
qed

section \<open>Commands keep the accounts\<close>

lemma accounts_release [simp]: "accounts_ok N F K X sv \<Longrightarrow> accounts_ok N F K X (release c sv)"
  by (simp add: release_def accounts_upd_session)

lemma accounts_callbacks [simp]:
  "accounts_ok N F K X (register k sv) = accounts_ok N F K X sv" "accounts_ok N F K X (drop_callback i sv) = accounts_ok N F K X sv"
  "accounts_ok N F K X (reject_overload n sv) = accounts_ok N F K X sv"
  by (simp_all add: register_def drop_callback_def reject_overload_def)

lemma accounts_ScheduleDrain [simp]: "accounts_ok N F K X sv \<Longrightarrow> accounts_ok N F K X (ScheduleDrain c sv)"
  by (simp add: ScheduleDrain_def accounts_upd_session split: option.splits)

lemma accounts_arm_flush [simp]: "accounts_ok N F K X sv \<Longrightarrow> accounts_ok N F K X (arm_flush plan sv)"
  by (simp add: arm_flush_def cancel_timer_def Let_def split: option.splits)

lemma accounts_ScheduleFlush: "accounts_ok N F K X sv \<Longrightarrow> keeps (accounts_ok N F K X) (ScheduleFlush E sv)"
  by (auto simp: ScheduleFlush_def Let_def intro!: keeps_rules split: list.splits res.splits)

lemma accounts_finish_command [simp]: "accounts_ok N F K X sv \<Longrightarrow> accounts_ok N F K X (finish_command N c sv)"
  by (simp add: finish_command_def Let_def accounts_upd_session split: option.splits)

lemma accounts_push:
  assumes "accounts_ok N F K X sv" and "length (srv_writes sv) < kMaxQueuedWrites" and "length (qw_command w) \<le> kMaxCommandBytes"
    and "client_command (qw_command w)" and "length (qw_command w) \<le> size_sub kMaxQueuedWriteBytes (srv_queued_write_bytes sv)"
  shows "accounts_ok N F K X (sv\<lparr>srv_writes := srv_writes sv @ [w],
    srv_queued_write_bytes := size_add (srv_queued_write_bytes sv) (length (qw_command w))\<rparr>)"
proof -
  note d = accounts_okD(7,8) [OF assms(1)]
  have fits: "batch_size (srv_writes sv) + length (qw_command w) \<le> kMaxQueuedWriteBytes" using assms(5) d by simp
  then have "size_add (srv_queued_write_bytes sv) (length (qw_command w)) = batch_size (srv_writes sv @ [w])"
    using d by (simp add: batch_size_def)
  with fits assms(1-4) show ?thesis
    by (simp add: accounts_ok_def input_total_def output_total_def session_def batch_size_def)
qed

lemma steadyD: "steady E sv = Ok x sv' \<Longrightarrow> \<exists>n es. sv' = sv\<lparr>srv_node := n, srv_ready := es\<rparr>"
  by (auto simp: steady_def call_node_def split: res.splits)

lemma accounts_SubmitWrite:
  assumes ok: "accounts_ok N F K {} sv" and wr: "cc_type (ClassifyCommand args) = WRITE"
  shows "keeps (accounts_ok N F K {}) (SubmitWrite N E c args sv)"
proof -
  define cmd where "cmd = SerializeCommand (args[WriteKeyIndex args := MakeKey (srv_namespaces sv) c (args ! WriteKeyIndex args)])"
  have push: "accounts_ok N F K {} (upd_session c (\<lambda>s. s\<lparr>cs_waiting := True\<rparr>)
      (sv'\<lparr>srv_writes := srv_writes sv' @ [\<lparr>qw_command = cmd, qw_conn = c, qw_enqueued_at = now\<rparr>],
         srv_queued_write_bytes := size_add (srv_queued_write_bytes sv') (length cmd)\<rparr>))"
    if "steady E sv = Ok now sv'" "length cmd \<le> kMaxCommandBytes" "length (srv_writes sv) < kMaxQueuedWrites"
      "length cmd \<le> size_sub kMaxQueuedWriteBytes (srv_queued_write_bytes sv)" for now sv'
    using steadyD [OF that(1)] accounts_push [of F K "{}" sv' "\<lparr>qw_command = cmd, qw_conn = c, qw_enqueued_at = now\<rparr>"] that ok
      client_write [OF wr accounts_okD(13) [OF ok], of c "args ! WriteKeyIndex args", folded cmd_def]
    by (auto intro!: accounts_upd_session)
  show ?thesis
    unfolding SubmitWrite_def Let_def cmd_def [symmetric]
    by (auto intro!: keeps_rules accounts_ScheduleFlush push accounts_SendReply simp: ok)
qed

lemma accounts_read_local: "accounts_ok N F K {} sv \<Longrightarrow> keeps (accounts_ok N F K {}) (read_local N E c k sv)"
  by (auto simp: read_local_def Let_def intro!: keeps_rules accounts_SendReply)

lemma accounts_ExecuteCommand: "accounts_ok N F K {} sv \<Longrightarrow> classified cmd \<Longrightarrow> keeps (accounts_ok N F K {}) (ExecuteCommand N E c cmd sv)"
  unfolding ExecuteCommand_def Let_def
  by (cases "qc_type cmd")
    (auto simp: classified_def ns_ok_SetNs accounts_okD(13)
      intro!: keeps_rules accounts_SendReply accounts_SubmitWrite accounts_read_local)

lemma accounts_start_command:
  assumes ok: "accounts_ok N F K X sv" and "session c sv = Some s" and "PopFront (cs_queue s) = Some (cmd, queue)"
  shows "accounts_ok N F K X (start_command c cmd queue sv)" and "classified cmd"
proof -
  have same: "sv\<lparr>srv_input_bytes := input_total sv\<rparr> = sv" using accounts_okD(3) [OF ok] by simp
  have "session_ok s" using accounts_session [OF ok assms(2)] by simp
  with PopFront_ok [OF _ assms(3)] have "queue_ok queue" "sq_items (cs_queue s) = cmd # sq_items queue" by (simp_all add: session_ok_def)
  with \<open>session_ok s\<close> accounts_upd_at [OF ok, of c "\<lambda>s. s\<lparr>cs_executing := True, cs_queue := queue, cs_started := cs_started s @ [cmd]\<rparr>"
      "input_total sv"] assms(2) accounts_okD(4) [OF ok]
  show "accounts_ok N F K X (start_command c cmd queue sv)" "classified cmd"
    by (simp_all add: start_command_def session_ok_def stream_ok_def same)
qed

lemma accounts_command_loop: "accounts_ok N F K {} sv \<Longrightarrow> keeps (accounts_ok N F K {}) (command_loop n N E c sv)"
proof (induction n arbitrary: sv)
  case 0
  then show ?case by (subst command_loop.simps) (auto split: option.splits)
next
  case (Suc n)
  show ?case
    by (subst command_loop.simps)
      (auto split: option.splits simp: Suc.prems
        intro!: keeps_bindR accounts_ExecuteCommand accounts_start_command(1) accounts_start_command(2) [OF Suc.prems] Suc.IH)
qed

lemma accounts_OnCommandComplete: "accounts_ok N F K {} sv \<Longrightarrow> keeps (accounts_ok N F K {}) (OnCommandComplete N E c sv)"
  by (simp add: OnCommandComplete_def ExecuteNextCommand_def accounts_command_loop)

lemma accounts_ExecuteNextCommand: "accounts_ok N F K {} sv \<Longrightarrow> keeps (accounts_ok N F K {}) (ExecuteNextCommand N E c sv)"
  by (simp add: ExecuteNextCommand_def accounts_command_loop)

section \<open>Callbacks, flushes and input keep the accounts\<close>

lemma accounts_write_done: "accounts_ok N F K {} sv \<Longrightarrow> keeps (accounts_ok N F K {}) (write_done N E c enqueued_at ok response sv)"
  by (auto simp: write_done_def observe_completed_def
      intro!: keeps_rules accounts_OnCommandComplete accounts_upd_session accounts_SendReply)

lemma accounts_read_done: "accounts_ok N F K {} sv \<Longrightarrow> keeps (accounts_ok N F K {}) (read_done_callback N E c key success err sv)"
  by (auto simp: read_done_callback_def split: linearizable_get_action.splits
      intro!: keeps_rules accounts_OnCommandComplete accounts_SendReply)

lemma accounts_run_callback: "accounts_ok N F K {} sv \<Longrightarrow> keeps (accounts_ok N F K {}) (run_callback N E e sv)"
  by (cases e) (auto split: option.splits completion.splits intro!: accounts_write_done accounts_read_done)

lemma accounts_settle: "accounts_ok N F K {} sv \<Longrightarrow> keeps (accounts_ok N F K {}) (settle N E sv)"
  by (erule settle_keeps) (auto intro: accounts_run_callback)

text \<open>What a flush takes from the queue: a batch within the limits of the policy, or one large command.\<close>

definition batch_ok :: "queued_write list \<Rightarrow> bool" where
  "batch_ok ws \<longleftrightarrow> length ws \<le> kFlushMaxEntries \<and> batch_size ws \<le> kFlushMaxBytes \<and>
     (\<forall>w \<in> set ws. length (qw_command w) \<le> kMaxCommandBytes)"

lemma accounts_take_write:
  assumes "accounts_ok N F K X sv" and "srv_writes sv = w # ws"
  shows "accounts_ok N F K X (sv\<lparr>srv_writes := ws, srv_queued_write_bytes := size_sub (srv_queued_write_bytes sv) (length (qw_command w))\<rparr>)"
  using assms accounts_okD(7,8) [OF assms(1)]
  by (simp add: accounts_ok_def input_total_def output_total_def session_def batch_size_def)

lemma accounts_collect_writes:
  "accounts_ok N F K {} sv \<Longrightarrow> keeps (accounts_ok N F K {}) (collect_writes n N E batch sv)"
proof (induction n arbitrary: batch sv)
  case (Suc n)
  show ?case
    using Suc.prems
    by (auto simp: Let_def accounts_take_write split: list.splits intro!: Suc.IH keeps_rules)
qed simp

lemma accounts_refuse_write: "accounts_ok N F K {} sv \<Longrightarrow> keeps (accounts_ok N F K {}) (refuse_write N E index w sv)"
  by (auto simp: refuse_write_def Let_def
      intro!: keeps_rules accounts_OnCommandComplete accounts_SendReply accounts_upd_session accounts_settle)

lemma accounts_register_writes [simp]: "accounts_ok N F K X (register_writes ws sv) = accounts_ok N F K X sv"
  by (induction ws arbitrary: sv) (simp_all add: register_writes_def)

lemma accounts_drop_callbacks [simp]: "accounts_ok N F K X (fold drop_callback is sv) = accounts_ok N F K X sv"
  by (induction "is" arbitrary: sv) simp_all

lemma accounts_propose_writes: "accounts_ok N F K {} sv \<Longrightarrow> keeps (accounts_ok N F K {}) (propose_writes N E batch sv)"
  by (auto simp: propose_writes_def Let_def intro!: keeps_rules accounts_settle accounts_refuse_write)

lemma accounts_FlushQueuedWrites: "accounts_ok N F K {} sv \<Longrightarrow> keeps (accounts_ok N F K {}) (FlushQueuedWrites N E sv)"
  by (auto simp: FlushQueuedWrites_def intro!: keeps_rules accounts_collect_writes accounts_propose_writes accounts_ScheduleFlush)

lemma accounts_OnFlush: "accounts_ok N F K {} sv \<Longrightarrow> keeps (accounts_ok N F K {}) (OnFlush N E token sv)"
  by (auto simp: OnFlush_def split: prod.splits bool.splits intro!: accounts_FlushQueuedWrites)

lemma DrainCommands_account:
  assumes "DrainCommands n keep now (cs_input s) (cs_queue s) = (input', queue', out)" and ok: "session_ok s"
  shows "session_ok (s\<lparr>cs_input := input', cs_queue := queue'\<rparr>) \<and> UnreadBytes (cs_input s) = UnreadBytes input' + dr_consumed_bytes out"
proof (cases keep)
  case False
  with assms show ?thesis by (auto simp: DrainCommands_def drain_start_def)
next
  case True
  have b: "buffer_ok (cs_input s)" "queue_ok (cs_queue s)" using ok by (simp_all add: session_ok_def)
  have "drain_loop n now (cs_input s) (cs_queue s) drain_start = (input', queue', out)"
    using assms(1) True by (simp add: DrainCommands_def)
  from drain_loop_spec [OF this b] obtain gs where
    d: "buffer_ok input'" "queue_ok queue'" "UnreadBytes (cs_input s) = UnreadBytes input' + dr_consumed_bytes out"
    "frames (unread (cs_input s)) (length gs) = (gs, unread input')"
    "sq_items queue' = sq_items (cs_queue s) @ map (\<lambda>(args, len). make_queued now args len) gs"
    by (auto simp: drain_start_def)
  from ok obtain fs where fs: "frames (cs_stream s) (length fs) = (fs, unread (cs_input s))"
    "map qc_args (cs_started s @ sq_items (cs_queue s)) = map (\<lambda>f. upper_verb (fst f)) fs"
    by (auto simp: session_ok_def stream_ok_def)
  have q: "qc_args (make_queued now args len) = upper_verb args" "classified (make_queued now args len)" for args len
    by (simp_all add: make_queued_def classified_def Let_def)
  have "stream_ok (s\<lparr>cs_input := input', cs_queue := queue'\<rparr>)"
    unfolding stream_ok_def
    using frames_frames [OF fs(1) refl d(4)] fs(2) d(5) q(1)
    by (intro exI [of _ "fs @ gs"]) (simp add: case_prod_unfold comp_def)
  with ok d q(2) show ?thesis by (auto simp: session_ok_def list_all_iff)
qed

lemma accounts_drained:
  assumes ok: "accounts_ok N F K X sv" and s: "session c sv = Some s"
    and d: "DrainCommands n keep now (cs_input s) (cs_queue s) = (input', queue', out)"
  shows "accounts_ok N F K X (upd_session c (\<lambda>_. s\<lparr>cs_input := input', cs_queue := queue'\<rparr>)
    (sv\<lparr>srv_input_bytes := size_sub (srv_input_bytes sv) (dr_consumed_bytes out)\<rparr>))"
proof -
  have so: "session_ok s" using accounts_session [OF ok s] by simp
  note a = DrainCommands_account [OF d so]
  have "UnreadBytes (cs_input s) \<le> input_total sv"
    using s part_of_sum [of "srv_sessions sv" c s "\<lambda>s. UnreadBytes (cs_input s)"] by (simp add: session_def input_total_def)
  with a accounts_okD(3,4) [OF ok] so s show ?thesis
    by (intro accounts_upd_at [OF ok]) auto
qed

lemma accounts_reject_frame: "accounts_ok N F K {} sv \<Longrightarrow> accounts_ok N F K {} (reject_frame N c s err sv)"
  by (auto simp: reject_frame_def Let_def intro!: accounts_upd_session accounts_SendReply)

lemma accounts_resume_client: "accounts_ok N F K {} sv \<Longrightarrow> keeps (accounts_ok N F K {}) (resume_client N E c s b sv)"
  by (auto simp: resume_client_def Let_def intro!: keeps_rules accounts_ExecuteNextCommand accounts_settle)

lemma accounts_DrainClient:
  assumes "accounts_ok N F K {} sv"
  shows "keeps (accounts_ok N F K {}) (DrainClient N E c sv)"
  unfolding DrainClient_def
proof (rule keeps_bindR)
  show "keeps (accounts_ok N F K {}) (steady E sv)" using assms by (intro keeps_steady) simp_all
qed (auto simp: Let_def split: option.splits prod.splits
    intro!: accounts_reject_frame accounts_resume_client accounts_drained)

lemma accounts_run_task: "accounts_ok N F K {} sv \<Longrightarrow> keeps (accounts_ok N F K {}) (run_task N E t sv)"
  by (cases t) (auto simp: OnDrain_def intro!: accounts_OnFlush accounts_DrainClient accounts_upd_session)

lemma accounts_received:
  assumes ok: "accounts_ok N F K X sv" and s: "session c sv = Some s"
    and fits: "length chunk \<le> size_sub kMaxTotalInput (srv_input_bytes sv)" and app: "CommandBuffer_Append chunk (cs_input s) = (True, input)"
  shows "accounts_ok N F K X (upd_session c (\<lambda>s. s\<lparr>cs_input := input, cs_stream := cs_stream s @ chunk\<rparr>)
    (sv\<lparr>srv_input_bytes := size_add (srv_input_bytes sv) (length chunk)\<rparr>))"
proof -
  have so: "session_ok s" using accounts_session [OF ok s] by simp
  then have i: "buffer_ok input" "unread input = unread (cs_input s) @ chunk"
    using Append_unread [OF app] by (simp_all add: session_ok_def)
  then have "UnreadBytes input = UnreadBytes (cs_input s) + length chunk" using length_unread by (metis length_append)
  moreover have "input_total sv + length chunk \<le> kMaxTotalInput" using fits accounts_okD(3,4) [OF ok] by simp
  moreover have "session_ok (s\<lparr>cs_input := input, cs_stream := cs_stream s @ chunk\<rparr>)"
  proof -
    from so obtain fs where "frames (cs_stream s) (length fs) = (fs, unread (cs_input s))"
      "map qc_args (cs_started s @ sq_items (cs_queue s)) = map (\<lambda>f. upper_verb (fst f)) fs"
      by (auto simp: session_ok_def stream_ok_def)
    with frames_more [OF this(1) refl, of chunk] i so show ?thesis by (auto simp: session_ok_def stream_ok_def)
  qed
  ultimately show ?thesis
    using s accounts_okD(3,4) [OF ok] by (intro accounts_upd_at [OF ok]) auto
qed

lemma accounts_OnClientMessage: "accounts_ok N F K {} sv \<Longrightarrow> keeps (accounts_ok N F K {}) (OnClientMessage N E c chunk sv)"
  by (auto simp: OnClientMessage_def split: option.splits prod.splits bool.splits
      intro!: accounts_DrainClient accounts_received)

lemma accounts_OnClientConnection:
  assumes ok: "accounts_ok N F K {} sv"
  shows "c \<notin> K \<Longrightarrow> mu_queued N c (srv_net sv) = 0 \<Longrightarrow> accounts_ok N F (insert c K) {} (OnClientConnection N c True sv)"
    and "accounts_ok N F K {} (OnClientConnection N c False sv)"
proof -
  show "accounts_ok N F (insert c K) {} (OnClientConnection N c True sv)" if "c \<notin> K" "mu_queued N c (srv_net sv) = 0"
    using accounts_connect [OF ok that] accounts_mono [OF ok, of "insert c K"] by (auto simp: OnClientConnection_def)
  show "accounts_ok N F K {} (OnClientConnection N c False sv)"
    using ok accounts_disconnect [OF ok, of c] ns_ok_RemoveNs [OF accounts_okD(13) [OF ok], of c] by (auto simp: OnClientConnection_def Let_def split: option.splits)
qed

lemma accounts_ReplyMetrics:
  assumes "accounts_ok N F K {} sv" and "c \<notin> K"
  shows "accounts_ok N F K {} (ReplyMetrics N c http sv)"
proof -
  have "mu_queued N c' (mu_send N c http (srv_net sv)) = mu_queued N c' (srv_net sv)" if "c' \<in> K" for c'
    using send_other [of c' c] that assms(2) by metis
  then have "accounts_ok N F K {} (sv\<lparr>srv_net := mu_send N c http (srv_net sv)\<rparr>)"
    by (intro accounts_network [OF assms(1)]) simp
  then show ?thesis by (simp add: ReplyMetrics_def upd_net_def [of "mu_send N c http"])
qed

lemma accounts_metrics:
  assumes ok: "accounts_ok N F K {} sv" and c: "c \<notin> K"
  shows "accounts_ok N F K {} (OnMetricsConnection N c b sv)" and "accounts_ok N F K {} (OnMetricsMessage N c chunk sv)"
proof -
  show "accounts_ok N F K {} (OnMetricsConnection N c b sv)" using ok by (simp add: OnMetricsConnection_def)
  show "accounts_ok N F K {} (OnMetricsMessage N c chunk sv)"
    using ok c by (auto simp: OnMetricsMessage_def Let_def intro!: accounts_ReplyMetrics split: option.splits)
qed

lemma accounts_step:
  assumes "server_step N E s s'" and "accounts_ok N F (client_conns (fst s)) {} (snd s)"
  shows "accounts_ok N F (client_conns (fst s')) {} (snd s')"
  using assms
proof (induction rule: server_step.induct)
  case (client_up L c sv)
  have "client_conns (L(c := Some ClientPort)) = insert c (client_conns L)" by auto
  with client_up accounts_OnClientConnection(1) [of F "client_conns L" sv c] show ?case by simp
next
  case (client_data L c chunk sv sv')
  then show ?case using accounts_OnClientMessage [of F "client_conns L" sv E c chunk] by simp
next
  case (task sv t ts sv' L)
  then show ?case using accounts_run_task [of F "client_conns L" "sv\<lparr>srv_tasks := ts\<rparr>" E t] by simp
next
  case (metrics_up L c sv)
  have "client_conns (L(c := Some MetricsPort)) = client_conns L" using metrics_up.hyps by auto
  with metrics_up accounts_metrics(1) [of F "client_conns L" sv c] show ?case by simp
next
  case (node_work op sv sv' L)
  have "keeps (accounts_ok N F (client_conns L) {}) (bindR (call_node (run_op E op) sv) (\<lambda>_. settle N E))"
    using node_work.prems by (auto intro!: keeps_rules accounts_settle)
  with node_work show ?case by simp
next
  case (network net sv L)
  then show ?case by (auto intro: accounts_network)
qed (auto simp: OnWriteComplete_def intro!: accounts_OnClientConnection(2) accounts_metrics)

end

lemma accounts_reachable:
  assumes "muduo N" and "(server_step N E)\<^sup>*\<^sup>* (\<lambda>_. None, new_server f n net) (L, sv)"
  shows "accounts_ok N f (client_conns L) {} sv"
proof -
  have "accounts_ok N f (client_conns (fst s)) {} (snd s)" if "(server_step N E)\<^sup>*\<^sup>* (\<lambda>_. None, new_server f n net) s" for s
    using that
  proof (induction rule: rtranclp_induct)
    case base
    show ?case
      by (simp add: accounts_ok_def new_server_def session_def input_total_def output_total_def batch_size_def)
  next
    case (step s s')
    show ?case by (rule muduo.accounts_step [OF assms(1) step.hyps(2) step.IH])
  qed
  from this [OF assms(2)] show ?thesis by simp
qed

lemma steady_eq: "steady E sv = Ok (en_steady E (nd_oracle (srv_node sv)))
    (sv\<lparr>srv_node := (srv_node sv)\<lparr>nd_oracle := Suc (nd_oracle (srv_node sv))\<rparr>\<rparr>)"
  by (simp add: steady_def call_node_def SteadyNow_def ask_def)

lemma map_entry_twice: "AList.map_entry c f (AList.map_entry c g al) = AList.map_entry c (\<lambda>s. f (g s)) al"
  by (induction al) auto

lemma map_entry_same: "map_of al c = Some s \<Longrightarrow> AList.map_entry c (\<lambda>_. s) al = al"
  by (induction al) auto

lemma drain_incomplete:
  assumes "pr_state (TryParseOne (unread input)) = NeedMore" and "\<not> SessionQueue_IsFull queue"
  shows "DrainCommands n keep now input queue = (input, queue, drain_start)"
  using assms by (cases n) (simp_all add: DrainCommands_def CommandBuffer_Next_def unread_def)

section \<open>A session\<close>

text \<open>A client connects and sends a \<open>PING\<close> and the first bytes of another command.\<close>

definition demo_flags :: server_flags where
  "demo_flags = \<lparr>fg_node_id = 0, fg_client_port = 6379, fg_raft_port = 9080, fg_metrics_port = 0, fg_peers = ''0:a:9080'',
     fg_leader_only_reads = False, fg_linearizable_reads = False, fg_lease_reads = False, fg_group_commit_ms = 1,
     fg_async_apply = True, fg_max_clients = 10, fg_snapshot_threshold = 0\<rparr>"

definition demo_chunk :: bytes where
  "demo_chunk = ''*1'' @ CRLF @ ''$4'' @ CRLF @ ''PING'' @ CRLF @ ''*1''"

definition demo_ping :: queued_command where
  "demo_ping = make_queued 0 [''PING''] 14"

lemma demo_drain: "DrainCommands (Suc (Suc n)) True 0 \<lparr>cb_bytes = demo_chunk, cb_offset = 0\<rparr> \<lparr>sq_items = [], sq_queued_bytes = 0\<rparr> = 
   (\<lparr>cb_bytes = demo_chunk, cb_offset = 14\<rparr>, \<lparr>sq_items = [demo_ping], sq_queued_bytes = qc_bytes demo_ping\<rparr>, 
   drain_start\<lparr>dr_enqueued := 1, dr_consumed_bytes := 14\<rparr>)"
  by (simp add: DrainCommands_def drain_start_def SessionQueue_IsFull_def demo_chunk_def demo_ping_def
        Limits_IsFull_def CommandBuffer_Next_def resp_eval resp_need_more_def Enqueue_def
        make_queued_def unread_def UnreadBytes_def AccountedBytes_def retained_sum)

definition demo_session :: client_session where
  "demo_session = new_session\<lparr>cs_input := \<lparr>cb_bytes = demo_chunk, cb_offset = 14\<rparr>, cs_drain_scheduled := True,
     cs_accounted_output := 7, cs_stream := demo_chunk, cs_started := [demo_ping], cs_replies := [(1, ''+PONG'' @ CRLF)]\<rparr>"

definition demo_server :: "(memdb, mem_net) server" where
  "demo_server = (new_server demo_flags lone_node mem_net_init)\<lparr>srv_node := lone_node\<lparr>nd_oracle := 1\<rparr>,
     srv_net := mem_net_init\<lparr>mn_sent := [(''c'', ''+PONG'' @ CRLF)]\<rparr>, srv_sessions := [(''c'', demo_session)],
     srv_input_bytes := 2, srv_output_bytes := 7, srv_tasks := [DrainTask ''c'']\<rparr>"

lemma demo_ping_simps [simp]: "qc_type demo_ping = READ" "qc_args demo_ping = [''PING'']" "qc_bytes demo_ping = 14"
  by (simp_all add: demo_ping_def make_queued_def Let_def upper_verb_def toupper_def ClassifyCommand_def wrong_arity_def AccountedBytes_def)

lemma length_demo_chunk [simp]: "length demo_chunk = 16" "demo_chunk \<noteq> []"
  by (simp_all add: demo_chunk_def)

lemma demo_message: "OnClientMessage mem_net_ops (clock_env 0) ''c'' demo_chunk
   (OnClientConnection mem_net_ops ''c'' True (new_server demo_flags lone_node mem_net_init)) = Ok () demo_server"
proof -
  let ?sv = "OnClientConnection mem_net_ops ''c'' True (new_server demo_flags lone_node mem_net_init)"
  let ?in = "\<lparr>cb_bytes = demo_chunk, cb_offset = 0\<rparr>"
  have 1: "?sv = (new_server demo_flags lone_node mem_net_init)\<lparr>srv_sessions := [(''c'', new_session)]\<rparr>"
    by (simp add: OnClientConnection_def new_server_def demo_flags_def)
  have 2: "OnClientMessage mem_net_ops (clock_env 0) ''c'' demo_chunk ?sv = 
   DrainClient mem_net_ops (clock_env 0) ''c'' ((new_server demo_flags lone_node mem_net_init)\<lparr>srv_sessions := [(''c'', new_session\<lparr>cs_input := ?in, cs_stream := demo_chunk\<rparr>)], srv_input_bytes := 16\<rparr>)"
    unfolding 1
    by (simp add: OnClientMessage_def session_def CommandBuffer_Append_def UnreadBytes_def new_session_def new_server_def upd_session_def)
  have 3: "DrainCommands kMaxCommandsPerTurn True 0 ?in \<lparr>sq_items = [], sq_queued_bytes = 0\<rparr> = 
   (\<lparr>cb_bytes = demo_chunk, cb_offset = 14\<rparr>, \<lparr>sq_items = [demo_ping], sq_queued_bytes = qc_bytes demo_ping\<rparr>, 
   drain_start\<lparr>dr_enqueued := 1, dr_consumed_bytes := 14\<rparr>)"
   using demo_drain [of 126] by simp
  show ?thesis
    unfolding 2
    by (simp add: DrainClient_def steady_eq session_def new_session_def 3 drain_start_def upd_session_def new_server_def
       resume_client_def mem_net_ops_def mem_net_init_def Let_def ExecuteNextCommand_def queued_commands_def command_loop.simps
       PopFront_def start_command_def ExecuteCommand_def SendReply_def AccountOutput_def mem_queued_def accounted_def
       finish_command_def SessionQueue_IsFull_def Limits_IsFull_def ScheduleDrain_def UnreadBytes_def settle.simps upd_net_def demo_server_def demo_session_def)
qed

lemma demo_reachable:
  "(server_step mem_net_ops (clock_env 0))\<^sup>*\<^sup>* (\<lambda>_. None, new_server demo_flags lone_node mem_net_init)
     ((\<lambda>_. None)(''c'' := Some ClientPort), demo_server)"
proof -
  have up: "server_step mem_net_ops (clock_env 0) (\<lambda>_. None, new_server demo_flags lone_node mem_net_init)
      ((\<lambda>_. None)(''c'' := Some ClientPort), OnClientConnection mem_net_ops ''c'' True (new_server demo_flags lone_node mem_net_init))"
    by (rule server_step.client_up) (simp_all add: new_server_def mem_net_ops_def mem_net_init_def mem_queued_def)
  have "server_step mem_net_ops (clock_env 0)
      ((\<lambda>_. None)(''c'' := Some ClientPort), OnClientConnection mem_net_ops ''c'' True (new_server demo_flags lone_node mem_net_init))
      ((\<lambda>_. None)(''c'' := Some ClientPort), demo_server)"
    by (rule server_step.client_data [OF _ demo_message]) simp
  with up show ?thesis by (meson r_into_rtranclp rtranclp.rtrancl_into_rtrancl)
qed

lemma demo_server_simps [simp]:
  "srv_sessions demo_server = [(''c'', demo_session)]" "srv_input_bytes demo_server = 2" "srv_output_bytes demo_server = 7"
  "srv_tasks demo_server = [DrainTask ''c'']" "session ''c'' demo_server = Some demo_session"
  by (simp_all add: demo_server_def session_def)

section \<open>Properties\<close>

text \<open>
  C21. The memory of the clients is accounted for exactly and bounded. For any implementation of the TCP
  interface and from any node, in every reachable state of the server: there are at most
  \<open>max_clients\<close> sessions; \<open>g_input_bytes\<close>, \<open>g_output_bytes\<close> and \<open>g_queued_write_bytes\<close> are the sums of
  the unread input, the accounted output and the queued writes of their owners, so no subtraction ever
  wrapped around; they are at most 64 MiB, 64 MiB and 16 MiB, with at most 1024 writes. A client has
  at most 4 MiB of unread input and 1000 queued commands, and the output buffer of its connection holds at
  most what is accounted for it, at most 4 MiB.
\<close>

theorem server_accounts:
  assumes "muduo N" and "(server_step N E)\<^sup>*\<^sup>* (\<lambda>_. None, new_server f n net) (L, sv)"
  shows "length (srv_sessions sv) \<le> nat (fg_max_clients f) \<and>
     srv_input_bytes sv = (\<Sum>(c, s)\<leftarrow>srv_sessions sv. UnreadBytes (cs_input s)) \<and> srv_input_bytes sv \<le> kMaxTotalInput \<and>
     srv_output_bytes sv = (\<Sum>(c, s)\<leftarrow>srv_sessions sv. cs_accounted_output s) \<and> srv_output_bytes sv \<le> kMaxTotalOutput \<and>
     srv_queued_write_bytes sv = (\<Sum>w\<leftarrow>srv_writes sv. length (qw_command w)) \<and> srv_queued_write_bytes sv \<le> kMaxQueuedWriteBytes \<and>
     length (srv_writes sv) \<le> kMaxQueuedWrites \<and>
     (\<forall>(c, s) \<in> set (srv_sessions sv). UnreadBytes (cs_input s) \<le> kMaxBufferedBytes \<and> length (sq_items (cs_queue s)) \<le> kMaxCommands \<and>
        mu_queued N c (srv_net sv) \<le> cs_accounted_output s \<and> cs_accounted_output s \<le> kMaxClientOutput)"
proof -
  have ok: "accounts_ok N f (client_conns L) {} sv" by (rule accounts_reachable [OF assms])
  have "UnreadBytes (cs_input s) \<le> kMaxBufferedBytes \<and> length (sq_items (cs_queue s)) \<le> kMaxCommands \<and>
      mu_queued N c (srv_net sv) \<le> cs_accounted_output s \<and> cs_accounted_output s \<le> kMaxClientOutput"
    if "(c, s) \<in> set (srv_sessions sv)" for c s
  proof -
    have "session c sv = Some s" using that accounts_okD(1) [OF ok] by (simp add: session_def)
    from accounts_session [OF ok this] show ?thesis by (simp add: session_ok_def buffer_ok_def queue_ok_def)
  qed
  with accounts_okD [OF ok] show ?thesis
    by (auto simp: input_total_def output_total_def batch_size_def case_prod_unfold)
qed

theorem server_accounts_witness:
  "(server_step mem_net_ops (clock_env 0))\<^sup>*\<^sup>* (\<lambda>_. None, new_server demo_flags lone_node mem_net_init)
     ((\<lambda>_. None)(''c'' := Some ClientPort), demo_server) \<and>
   length (srv_sessions demo_server) = 1 \<and> srv_output_bytes demo_server = 7 \<and>
   mu_queued mem_net_ops ''c'' (srv_net demo_server) \<le> cs_accounted_output demo_session"
  using server_accounts [OF memnet.muduo_axioms demo_reachable] demo_reachable by simp

text \<open>
  C25. A partial command keeps the loop busy. In a reachable state, take a connected client for which
  a drain is scheduled, whose buffer holds the beginning of a command, and that has nothing queued or
  running. The drain changes nothing but schedules the same drain again (it only reads the clock), so
  until more bytes arrive every turn of the loop runs it again.
\<close>

theorem incomplete_frame_spins:
  assumes "muduo N" and "(server_step N E)\<^sup>*\<^sup>* (\<lambda>_. None, new_server f n net) (L, sv)"
    and "session c sv = Some s" and "cs_drain_scheduled s" and "\<not> cs_closing s" and "\<not> cs_waiting s" and "\<not> cs_executing s"
    and "mu_connected N c (srv_net sv)" and "sq_items (cs_queue s) = []" and "unread (cs_input s) \<noteq> []"
    and "pr_state (TryParseOne (unread (cs_input s))) = NeedMore"
  shows "\<exists>k. run_task N E (DrainTask c) sv =
    Ok () (sv\<lparr>srv_node := (srv_node sv)\<lparr>nd_oracle := k\<rparr>, srv_tasks := srv_tasks sv @ [DrainTask c]\<rparr>)"
proof -
  have ok: "accounts_ok N f (client_conns L) {} sv" by (rule accounts_reachable [OF assms(1,2)])
  then have "queue_ok (cs_queue s)" using accounts_session [OF ok assms(3)] by (simp add: session_ok_def)
  then have d: "DrainCommands n True now (cs_input s) (cs_queue s) = (cs_input s, cs_queue s, drain_start)" for n now
    using assms(9,11) by (intro drain_incomplete) (simp_all add: SessionQueue_IsFull_def Limits_IsFull_def queue_ok_def)
  define s0 where "s0 = s\<lparr>cs_drain_scheduled := False\<rparr>"
  define m where "m = (srv_node sv)\<lparr>nd_oracle := Suc (nd_oracle (srv_node sv))\<rparr>"
  define sv0 where "sv0 = upd_session c (\<lambda>s. s\<lparr>cs_drain_scheduled := False\<rparr>) sv"
  define sv1 where "sv1 = upd_session c (\<lambda>_. s0) (sv0\<lparr>srv_node := m, srv_input_bytes := srv_input_bytes sv\<rparr>)"
  have u: "UnreadBytes (cs_input s) \<noteq> 0" using assms(10) by (simp add: length_unread [symmetric])
  have t: "s\<lparr>cs_drain_scheduled := True\<rparr> = s" using assms(4) by (cases s) simp
  have b: "size_sub (srv_input_bytes sv) 0 = srv_input_bytes sv" using accounts_okD(3,4) [OF ok] by simp
  have "OnDrain N E c sv = DrainClient N E c sv0" using assms(3) by (simp add: OnDrain_def sv0_def)
  also have "\<dots> = resume_client N E c s0 False sv1"
    using assms(3,5,8) d b
    by (simp add: DrainClient_def steady_eq sv0_def sv1_def s0_def m_def Let_def drain_start_def)
  also have "\<dots> = Ok () (ScheduleDrain c sv1)"
    using assms(7-9) by (simp add: resume_client_def s0_def sv1_def sv0_def)
  also have "ScheduleDrain c sv1 = upd_session c (\<lambda>s. s\<lparr>cs_drain_scheduled := True\<rparr>) (sv1\<lparr>srv_tasks := srv_tasks sv @ [DrainTask c]\<rparr>)"
    using assms(3,5,6) u by (simp add: ScheduleDrain_def sv1_def sv0_def s0_def)
  also have "\<dots> = sv\<lparr>srv_node := m, srv_tasks := srv_tasks sv @ [DrainTask c]\<rparr>"
    using map_entry_same [OF assms(3) [unfolded session_def]] t
    by (simp add: sv1_def sv0_def s0_def upd_session_def map_entry_twice)
  finally show ?thesis by (auto simp: m_def)
qed

theorem incomplete_frame_spins_witness:
  "session ''c'' demo_server = Some demo_session \<and> unread (cs_input demo_session) = ''*1'' \<and>
   (\<exists>k. run_task mem_net_ops (clock_env 0) (DrainTask ''c'') demo_server =
      Ok () (demo_server\<lparr>srv_node := (srv_node demo_server)\<lparr>nd_oracle := k\<rparr>, srv_tasks := [DrainTask ''c'', DrainTask ''c'']\<rparr>))"
proof -
  have u: "unread (cs_input demo_session) = ''*1''" by (simp add: demo_session_def unread_def demo_chunk_def)
  have "mu_connected mem_net_ops ''c'' (srv_net demo_server)"
    by (simp add: demo_server_def mem_net_ops_def mem_net_init_def)
  moreover have "pr_state (TryParseOne ''*1'') = NeedMore" by (simp add: resp_eval resp_need_more_def)
  ultimately show ?thesis
    using incomplete_frame_spins [OF memnet.muduo_axioms demo_reachable, of "''c''" demo_session] u
    by (simp add: demo_session_def new_session_def)
qed

end
