(* ===== verification/ServerOrder.thy ===== *)
theory ServerOrder
  imports ServerInv
begin

text \<open>
  The order of replies on a client connection. A connection has one command in progress at a time; the
  command waits in one place: the write queue, the table of callbacks, or the hands of the code that
  runs. The invariant counts these places, so every command gets one reply before the next one starts.
\<close>

section \<open>Connections that stay closed\<close>

text \<open>An operation on the network never reconnects a connection.\<close>

locale muduo_closing = muduo +
  assumes stays_closed:
    "mu_connected N c' (mu_send N c b n) \<Longrightarrow> mu_connected N c' n"
    "mu_connected N c' (mu_shrink N c n) \<Longrightarrow> mu_connected N c' n"
    "mu_connected N c' (mu_startRead N c n) \<Longrightarrow> mu_connected N c' n"
    "mu_connected N c' (mu_stopRead N c n) \<Longrightarrow> mu_connected N c' n"
    "mu_connected N c' (mu_shutdown N c n) \<Longrightarrow> mu_connected N c' n"
    "mu_connected N c' (mu_forceClose N c n) \<Longrightarrow> mu_connected N c' n"
    "mu_connected N c' (mu_forceCloseWithDelay N c n) \<Longrightarrow> mu_connected N c' n"

interpretation memclosing: muduo_closing mem_net_ops
  by unfold_locales (auto simp: mem_net_ops_def)

section \<open>Turns\<close>

fun cb_conn :: "completion \<Rightarrow> string" where
  "cb_conn (WriteDone c enqueued_at) = c"
| "cb_conn (ReadDone c key) = c"

definition waiting_conns :: "('db, 'net) server \<Rightarrow> string list" where
  "waiting_conns sv = map qw_conn (srv_writes sv) @ map (\<lambda>k. cb_conn (snd k)) (srv_callbacks sv)"

definition live :: "'net muduo_ops \<Rightarrow> string \<Rightarrow> client_session \<Rightarrow> ('db, 'net) server \<Rightarrow> bool" where
  "live N c s sv \<longleftrightarrow> session c sv = Some s \<and> \<not> cs_closing s \<and> mu_connected N c (srv_net sv)"

text \<open>
  \<open>B\<close> are the connections whose command is in the hands of the code that runs, and \<open>A\<close> those of them
  that have their reply. \<open>K\<close> are the connections of the client port.
\<close>

definition turn ::
  "'net muduo_ops \<Rightarrow> string set \<Rightarrow> string list \<Rightarrow> string set \<Rightarrow> string \<Rightarrow> ('db, 'net) server \<Rightarrow> bool" where
  "turn N A B K c sv \<longleftrightarrow>
     (c \<notin> K \<longrightarrow> session c sv = None \<and> count_list (waiting_conns sv @ B) c = 0) \<and>
     (\<forall>s. live N c s sv \<longrightarrow>
        count_list (waiting_conns sv @ B) c = of_bool (cs_executing s) \<and>
        length (cs_started s) = length (cs_replies s) + of_bool (cs_executing s \<and> c \<notin> A) \<and>
        map fst (cs_replies s) = map Suc [0..<length (cs_replies s)])"

definition callback_ids_ok :: "('db, 'net) server \<Rightarrow> bool" where
  "callback_ids_ok sv \<longleftrightarrow> distinct (map fst (srv_callbacks sv)) \<and> (\<forall>i \<in> fst ` set (srv_callbacks sv). i < srv_next_callback sv)"

definition turns :: "'net muduo_ops \<Rightarrow> string set \<Rightarrow> string list \<Rightarrow> string set \<Rightarrow> ('db, 'net) server \<Rightarrow> bool" where
  "turns N A B K sv \<longleftrightarrow> (\<forall>c. turn N A B K c sv) \<and> callback_ids_ok sv"

text \<open>A change that no turn sees, except perhaps the turns of the connections in \<open>X\<close>.\<close>

definition calm :: "'net muduo_ops \<Rightarrow> string set \<Rightarrow> ('db, 'net) server \<Rightarrow> ('db, 'net) server \<Rightarrow> bool" where
  "calm N X sv0 sv \<longleftrightarrow>
     srv_writes sv = srv_writes sv0 \<and> srv_callbacks sv = srv_callbacks sv0 \<and> srv_next_callback sv = srv_next_callback sv0 \<and>
     (\<forall>c. (session c sv = None) = (session c sv0 = None)) \<and>
     (\<forall>c. mu_connected N c (srv_net sv) \<longrightarrow> mu_connected N c (srv_net sv0)) \<and>
     (\<forall>c s. c \<notin> X \<longrightarrow> live N c s sv \<longrightarrow>
        (\<exists>s0. live N c s0 sv0 \<and> cs_executing s = cs_executing s0 \<and> cs_started s = cs_started s0 \<and> cs_replies s = cs_replies s0))"

lemma calm_refl [simp]: "calm N X sv sv"
  by (auto simp: calm_def)

lemma calm_trans:
  assumes a: "calm N X sv0 sv1" and b: "calm N X sv1 sv2"
  shows "calm N X sv0 sv2"
  unfolding calm_def
proof (intro conjI allI impI)
  fix c s assume "c \<notin> X" "live N c s sv2"
  then obtain s1 where s1: "live N c s1 sv1" "cs_executing s = cs_executing s1" "cs_started s = cs_started s1" "cs_replies s = cs_replies s1"
    using b unfolding calm_def by blast
  then obtain s0 where "live N c s0 sv0" "cs_executing s1 = cs_executing s0" "cs_started s1 = cs_started s0" "cs_replies s1 = cs_replies s0"
    using a \<open>c \<notin> X\<close> unfolding calm_def by blast
  with s1 show "\<exists>s0. live N c s0 sv0 \<and> cs_executing s = cs_executing s0 \<and> cs_started s = cs_started s0 \<and> cs_replies s = cs_replies s0"
    by auto
next
  fix c show "(session c sv2 = None) = (session c sv0 = None)" using a b unfolding calm_def by blast
next
  fix c assume "mu_connected N c (srv_net sv2)"
  then show "mu_connected N c (srv_net sv0)" using a b unfolding calm_def by blast
qed (use a b in \<open>simp_all add: calm_def\<close>)

lemma turn_calm:
  assumes t: "turn N A B K c sv" and c: "calm N X sv sv'" "c \<notin> X" and ab: "(c \<in> A') = (c \<in> A)" "count_list B' c = count_list B c"
  shows "turn N A' B' K c sv'"
proof -
  have w: "waiting_conns sv' = waiting_conns sv" using c by (simp add: waiting_conns_def calm_def)
  have n: "(session c sv' = None) = (session c sv = None)" using c unfolding calm_def by blast
  show ?thesis
    unfolding turn_def
  proof (intro conjI impI allI)
    fix s assume "live N c s sv'"
    then obtain s0 where "live N c s0 sv" "cs_executing s = cs_executing s0" "cs_started s = cs_started s0" "cs_replies s = cs_replies s0"
      using c unfolding calm_def by blast
    with t ab w
    show "count_list (waiting_conns sv' @ B') c = of_bool (cs_executing s)"
      "length (cs_started s) = length (cs_replies s) + of_bool (cs_executing s \<and> c \<notin> A')"
      "map fst (cs_replies s) = map Suc [0..<length (cs_replies s)]"
      by (simp_all add: turn_def)
  qed (use t n ab w in \<open>simp_all add: turn_def\<close>)
qed

lemma turns_calm:
  assumes "turns N A B K sv" and "calm N {} sv sv'"
  shows "turns N A B K sv'"
proof -
  have "turn N A B K c sv'" for c using assms by (intro turn_calm [OF _ assms(2)]) (simp_all add: turns_def)
  with assms show ?thesis by (simp add: turns_def callback_ids_ok_def calm_def)
qed

lemma turns_local:
  assumes t: "turns N A B K sv" and c: "calm N {c} sv sv'" and own: "turn N A' B' K c sv'"
    and other: "\<And>c'. c' \<noteq> c \<Longrightarrow> (c' \<in> A') = (c' \<in> A) \<and> count_list B' c' = count_list B c'"
  shows "turns N A' B' K sv'"
proof -
  have "turn N A' B' K c' sv'" if "c' \<noteq> c" for c'
    using t other [OF that] that by (intro turn_calm [OF _ c]) (simp_all add: turns_def)
  moreover have "callback_ids_ok sv'" using t c by (simp add: callback_ids_ok_def calm_def turns_def)
  ultimately show ?thesis using own unfolding turns_def by metis
qed

text \<open>A command changes hands.\<close>

lemma turns_move:
  assumes "turns N A B K sv" and "\<And>c. count_list (waiting_conns sv' @ B') c = count_list (waiting_conns sv @ B) c"
    and "\<And>c. session c sv' = session c sv" and "srv_net sv' = srv_net sv" and "callback_ids_ok sv'"
  shows "turns N A B' K sv'"
proof -
  have "turn N A B' K c sv'" for c
  proof -
    have "turn N A B K c sv" using assms(1) by (simp add: turns_def)
    then show ?thesis using assms(2) [of c] by (simp only: turn_def live_def assms(3,4))
  qed
  with assms(5) show ?thesis by (simp add: turns_def)
qed

lemma turns_drop:
  assumes "turns N A (c # B) K sv" and "\<not> deliverable N c sv"
  shows "turns N A B K sv"
proof -
  have "turn N A B K c' sv" for c'
  proof -
    have t: "turn N A (c # B) K c' sv" using assms(1) by (simp add: turns_def)
    have "\<not> live N c s sv" for s using assms(2) by (auto simp: live_def deliverable_def CanDeliverClientReply_def)
    with t show ?thesis unfolding turn_def by (cases "c' = c") auto
  qed
  with assms(1) show ?thesis by (simp add: turns_def)
qed

lemma turns_updates [simp]:
  "turns N A B K (sv\<lparr>srv_tasks := ts\<rparr>) = turns N A B K sv"
  "turns N A B K (sv\<lparr>srv_node := x\<rparr>) = turns N A B K sv"
  "turns N A B K (sv\<lparr>srv_ready := es\<rparr>) = turns N A B K sv"
  "turns N A B K (sv\<lparr>srv_overload_rejections := w\<rparr>) = turns N A B K sv"
  "turns N A B K (sv\<lparr>srv_flush_policy := p\<rparr>) = turns N A B K sv"
  "turns N A B K (sv\<lparr>srv_flush_timer := to\<rparr>) = turns N A B K sv"
  "turns N A B K (sv\<lparr>srv_flush_promoted := w\<rparr>) = turns N A B K sv"
  "turns N A B K (sv\<lparr>srv_flush_immediate := w\<rparr>) = turns N A B K sv"
  "turns N A B K (sv\<lparr>srv_flush_delayed := w\<rparr>) = turns N A B K sv"
  "turns N A B K (sv\<lparr>srv_timers := tks\<rparr>) = turns N A B K sv"
  "turns N A B K (sv\<lparr>srv_cancelled_timers := tks\<rparr>) = turns N A B K sv"
  "turns N A B K (sv\<lparr>srv_local_read := l\<rparr>) = turns N A B K sv"
  "turns N A B K (sv\<lparr>srv_write_completed := l\<rparr>) = turns N A B K sv"
  "turns N A B K (sv\<lparr>srv_write_queue_wait := l\<rparr>) = turns N A B K sv"
  "turns N A B K (sv\<lparr>srv_namespaces := m\<rparr>) = turns N A B K sv"
  "turns N A B K (sv\<lparr>srv_input_bytes := n\<rparr>) = turns N A B K sv"
  "turns N A B K (sv\<lparr>srv_output_bytes := n\<rparr>) = turns N A B K sv"
  "turns N A B K (sv\<lparr>srv_queued_write_bytes := n\<rparr>) = turns N A B K sv"
  "turns N A B K (sv\<lparr>srv_metrics_requests := rs\<rparr>) = turns N A B K sv"
  by (simp_all add: turns_def turn_def live_def waiting_conns_def callback_ids_ok_def)

lemma calm_updates [simp]:
  "calm N X sv0 (sv\<lparr>srv_tasks := ts\<rparr>) = calm N X sv0 sv"
  "calm N X sv0 (sv\<lparr>srv_node := x\<rparr>) = calm N X sv0 sv"
  "calm N X sv0 (sv\<lparr>srv_ready := es\<rparr>) = calm N X sv0 sv"
  "calm N X sv0 (sv\<lparr>srv_overload_rejections := w\<rparr>) = calm N X sv0 sv"
  "calm N X sv0 (sv\<lparr>srv_output_bytes := n\<rparr>) = calm N X sv0 sv"
  "calm N X sv0 (sv\<lparr>srv_input_bytes := n\<rparr>) = calm N X sv0 sv"
  by (simp_all add: calm_def live_def)

text \<open>Updates of a session that no turn sees.\<close>

definition calm_update :: "(client_session \<Rightarrow> client_session) \<Rightarrow> bool" where
  "calm_update f \<longleftrightarrow> (\<forall>s. (cs_closing s \<longrightarrow> cs_closing (f s)) \<and> cs_executing (f s) = cs_executing s \<and>
     cs_started (f s) = cs_started s \<and> cs_replies (f s) = cs_replies s)"

lemma calm_upd_session [simp]:
  assumes "calm N X sv0 sv" and "c \<in> X \<or> calm_update f"
  shows "calm N X sv0 (upd_session c f sv)"
proof -
  have "\<exists>s0. live N c' s0 sv \<and> cs_executing s = cs_executing s0 \<and> cs_started s = cs_started s0 \<and> cs_replies s = cs_replies s0"
    if "c' \<notin> X" "live N c' s (upd_session c f sv)" for c' s
    using that assms(2) by (cases "c' = c") (auto simp: live_def calm_update_def)
  then have "calm N X sv (upd_session c f sv)" by (auto simp: calm_def)
  with assms(1) show ?thesis by (rule calm_trans)
qed

lemma calm_update_rules [simp]:
  "calm_update (cs_waiting_update g)" "calm_update (cs_drain_scheduled_update g)" "calm_update (cs_accounted_output_update g')"
  "calm_update (\<lambda>s. s\<lparr>cs_closing := True\<rparr>)" "calm_update (\<lambda>s. s\<lparr>cs_input := i, cs_stream := st s\<rparr>)"
  by (simp_all add: calm_update_def)

lemma turn_liveD:
  "turn N A B K c sv \<Longrightarrow> live N c s sv \<Longrightarrow> count_list (waiting_conns sv @ B) c = of_bool (cs_executing s) \<and>
     length (cs_started s) = length (cs_replies s) + of_bool (cs_executing s \<and> c \<notin> A) \<and>
     map fst (cs_replies s) = map Suc [0..<length (cs_replies s)]"
  by (simp add: turn_def)

lemma turn_dead:
  assumes "turn N A B K c sv" and "calm N X sv sv'" and "\<And>s. \<not> live N c s sv'" and "count_list B' c \<le> count_list B c"
  shows "turn N A' B' K c sv'"
proof -
  have "waiting_conns sv' = waiting_conns sv" using assms(2) by (simp add: waiting_conns_def calm_def)
  moreover have "(session c sv' = None) = (session c sv = None)" using assms(2) unfolding calm_def by blast
  ultimately show ?thesis using assms(1,3,4) by (auto simp: turn_def)
qed

abbreviation ok_then :: "('s, 'a) res \<Rightarrow> ('a \<Rightarrow> 's \<Rightarrow> bool) \<Rightarrow> bool" where
  "ok_then r Q \<equiv> wp r Q (\<lambda>_ _. True)"

lemma ok_bind: "ok_then m P \<Longrightarrow> (\<And>x s. m = Ok x s \<Longrightarrow> P x s \<Longrightarrow> ok_then (f x s) Q) \<Longrightarrow> ok_then (bindR m f) Q"
  by (cases m) auto

lemma ok_keeps: "keeps P r \<Longrightarrow> ok_then r (\<lambda>_. P)"
  by (cases r) auto

lemma ok_steady: "turns N A B K sv \<Longrightarrow> ok_then (steady E sv) (\<lambda>_. turns N A B K)"
  by (intro ok_keeps keeps_steady) simp_all

lemma ok_call_node: "turns N A B K sv \<Longrightarrow> ok_then (call_node f sv) (\<lambda>_. turns N A B K)"
  by (intro ok_keeps keeps_call_node) simp_all

lemma ok_lift: "P sv \<Longrightarrow> ok_then (liftR m sv) (\<lambda>_. P)"
  by (intro ok_keeps keeps_liftR)

lemma settle_ok:
  assumes "P sv" and "\<And>e sv. P sv \<Longrightarrow> ok_then (run_callback N E e sv) (\<lambda>_. P)" and "\<And>sv es. P sv \<Longrightarrow> P (sv\<lparr>srv_ready := es\<rparr>)"
  shows "ok_then (settle N E sv) (\<lambda>_. P)"
  using assms
proof (induction N E sv rule: settle.induct)
  case (1 N E sv)
  show ?case
  proof (cases "srv_ready sv")
    case Nil
    then show ?thesis using "1.prems"(1) by (subst settle.simps) simp
  next
    case (Cons e es)
    have "ok_then (bindR (run_callback N E e (sv\<lparr>srv_ready := es\<rparr>)) (\<lambda>_. settle N E)) (\<lambda>_. P)"
    proof (rule ok_bind)
      show "ok_then (run_callback N E e (sv\<lparr>srv_ready := es\<rparr>)) (\<lambda>_. P)" by (intro "1.prems")
      show "ok_then (settle N E s) (\<lambda>_. P)" if "run_callback N E e (sv\<lparr>srv_ready := es\<rparr>) = Ok x s" "P s" for x s
        using "1.IH" [OF Cons that(1) that(2) "1.prems"(2,3)] .
    qed
    then show ?thesis by (subst settle.simps) (simp add: Cons)
  qed
qed

lemma turns_register: "turns N A (cb_conn k # B) K sv \<Longrightarrow> turns N A B K (register k sv)"
proof (rule turns_move)
  assume t: "turns N A (cb_conn k # B) K sv"
  then show "turns N A (cb_conn k # B) K sv" .
  from t show "callback_ids_ok (register k sv)" by (fastforce simp: turns_def callback_ids_ok_def register_def)
qed (simp_all add: register_def waiting_conns_def session_def)

lemma register_writes_eq:
  "register_writes ws sv = sv\<lparr>srv_callbacks := srv_callbacks sv @
     zip [srv_next_callback sv..<srv_next_callback sv + length ws] (map (\<lambda>w. WriteDone (qw_conn w) (qw_enqueued_at w)) ws),
     srv_next_callback := srv_next_callback sv + length ws\<rparr>"
proof (induction ws arbitrary: sv)
  case (Cons w ws)
  have "register_writes (w # ws) sv = register_writes ws (register (WriteDone (qw_conn w) (qw_enqueued_at w)) sv)"
    by (simp add: register_writes_def)
  moreover have "[n..<n + length (w # ws)] = n # [Suc n..<Suc n + length ws]" for n by (simp add: upt_conv_Cons del: upt_Suc)
  ultimately show ?case by (simp add: Cons register_def del: upt_Suc)
qed (simp add: register_writes_def)

lemma drop_callbacks_eq: "fold drop_callback is sv = sv\<lparr>srv_callbacks := filter (\<lambda>k. fst k \<notin> set is) (srv_callbacks sv)\<rparr>"
  by (induction "is" arbitrary: sv) (simp_all add: drop_callback_def conj_commute)

lemma drop_callbacks_overload: "fold drop_callback is (reject_overload n sv) = reject_overload n (fold drop_callback is sv)"
  by (simp add: drop_callbacks_eq reject_overload_def)

lemma turns_reject_overload [simp]: "turns N A B K (reject_overload n sv) = turns N A B K sv"
  by (simp add: reject_overload_def)

lemma turns_register_writes: "turns N A (map qw_conn ws @ B) K sv \<Longrightarrow> turns N A B K (register_writes ws sv)"
proof (induction ws arbitrary: sv)
  case (Cons w ws)
  have "turns N A (map qw_conn ws @ B) K (register (WriteDone (qw_conn w) (qw_enqueued_at w)) sv)"
    using Cons.prems by (intro turns_register) simp
  from Cons.IH [OF this] show ?case by (simp add: register_writes_def)
qed (simp add: register_writes_def)

lemma turns_take_callback:
  assumes t: "turns N A B K sv" and k: "map_of (srv_callbacks sv) i = Some k"
  shows "turns N A (cb_conn k # B) K (drop_callback i sv)"
proof (rule turns_move [OF t])
  have "count_list (map (\<lambda>k. cb_conn (snd k)) (filter (\<lambda>k. fst k \<noteq> i) ks)) c + of_bool (cb_conn k = c) =
      count_list (map (\<lambda>k. cb_conn (snd k)) ks) c" if "distinct (map fst ks)" "map_of ks i = Some k" for ks c
    using that
  proof (induction ks)
    case (Cons a ks)
    have "filter (\<lambda>k. fst k \<noteq> i) ks = ks" if "fst a = i"
      using Cons.prems(1) that by (intro filter_True) (force simp: image_iff)
    with Cons show ?case by (auto split: if_splits)
  qed simp
  note n = this
  have d: "distinct (map fst (srv_callbacks sv))" using t by (simp add: turns_def callback_ids_ok_def)
  show "count_list (waiting_conns (drop_callback i sv) @ cb_conn k # B) c = count_list (waiting_conns sv @ B) c" for c
    by (simp add: waiting_conns_def drop_callback_def flip: n [OF d k])
  show "callback_ids_ok (drop_callback i sv)"
    using t by (auto simp: turns_def callback_ids_ok_def drop_callback_def distinct_map_filter)
qed (simp_all add: drop_callback_def)

context muduo_closing
begin

lemma calm_upd_net [simp]:
  "calm N X sv0 sv \<Longrightarrow> calm N X sv0 (upd_net (mu_send N c b) sv)"
  "calm N X sv0 sv \<Longrightarrow> calm N X sv0 (upd_net (mu_shrink N c) sv)"
  "calm N X sv0 sv \<Longrightarrow> calm N X sv0 (upd_net (mu_startRead N c) sv)"
  "calm N X sv0 sv \<Longrightarrow> calm N X sv0 (upd_net (mu_stopRead N c) sv)"
  "calm N X sv0 sv \<Longrightarrow> calm N X sv0 (upd_net (mu_shutdown N c) sv)"
  "calm N X sv0 sv \<Longrightarrow> calm N X sv0 (upd_net (mu_forceClose N c) sv)"
  "calm N X sv0 sv \<Longrightarrow> calm N X sv0 (upd_net (mu_forceCloseWithDelay N c) sv)"
proof -
  have step: "calm N X sv (upd_net g sv)" if "\<And>c n. mu_connected N c (g n) \<Longrightarrow> mu_connected N c n" for g
    using that by (auto simp: calm_def live_def)
  assume "calm N X sv0 sv"
  then show "calm N X sv0 (upd_net (mu_send N c b) sv)" "calm N X sv0 (upd_net (mu_shrink N c) sv)"
    "calm N X sv0 (upd_net (mu_startRead N c) sv)" "calm N X sv0 (upd_net (mu_stopRead N c) sv)"
    "calm N X sv0 (upd_net (mu_shutdown N c) sv)" "calm N X sv0 (upd_net (mu_forceClose N c) sv)"
    "calm N X sv0 (upd_net (mu_forceCloseWithDelay N c) sv)"
    by (auto intro!: calm_trans [OF _ step] dest: stays_closed)
qed

lemma calm_AccountOutput [simp]: "calm N X sv0 sv \<Longrightarrow> calm N X sv0 (AccountOutput N c sv)"
  by (auto simp: AccountOutput_def Let_def split: option.splits)

lemma calm_CloseClient [simp]: "calm N X sv0 sv \<Longrightarrow> calm N X sv0 (CloseClient N c sv)"
  by (auto simp: CloseClient_def)

lemma calm_ScheduleDrain [simp]: "calm N X sv0 sv \<Longrightarrow> calm N X sv0 (ScheduleDrain c sv)"
  by (auto simp: ScheduleDrain_def split: option.splits)

section \<open>A reply and the end of a turn\<close>

lemma calm_SendReply: "calm N {c} sv (SendReply N c r sv)"
  by (auto simp: SendReply_def Let_def reject_overload_def split: option.splits)

lemma SendReply_session:
  assumes "live N c s (SendReply N c r sv)"
  shows "\<exists>s0. live N c s0 sv \<and> cs_executing s = cs_executing s0 \<and> cs_started s = cs_started s0 \<and> cs_replies s = cs_replies s0 @ [(length (cs_started s0), r)]"
proof -
  let ?sent = "upd_session c (\<lambda>s. s\<lparr>cs_replies := cs_replies s @ [(length (cs_started s), r)]\<rparr>) (upd_net (mu_send N c r) (AccountOutput N c sv))"
  obtain s0 where s0: "session c sv = Some s0" "live N c s0 sv"
    using assms by (auto simp: SendReply_def live_def split: option.splits if_splits)
  let ?s1 = "s0\<lparr>cs_accounted_output := mu_queued N c (srv_net sv)\<rparr>"
  have closed: "\<not> live N c s (CloseClient N c sv')" for sv'
    by (auto simp: live_def CloseClient_def)
  have "SendReply N c r sv = AccountOutput N c ?sent"
    using assms s0 closed by (auto simp: SendReply_def live_def Let_def split: if_splits)
  moreover have "session c ?sent = Some (?s1\<lparr>cs_replies := cs_replies s0 @ [(length (cs_started s0), r)]\<rparr>)"
    using AccountOutput_session(1) [OF s0(1)] by simp
  ultimately have "session c (SendReply N c r sv) = Some (?s1\<lparr>cs_replies := cs_replies s0 @ [(length (cs_started s0), r)], cs_accounted_output := mu_queued N c (srv_net ?sent)\<rparr>)"
    using AccountOutput_session(1) [of c ?sent] by simp
  with assms s0 show ?thesis by (auto simp: live_def)
qed

lemma turns_SendReply:
  assumes t: "turns N {} (c # B) K sv"
  shows "turns N {c} (c # B) K (SendReply N c r sv)"
proof (rule turns_local [OF t calm_SendReply])
  have tc: "turn N {} (c # B) K c sv" using t by (simp add: turns_def)
  show "turn N {c} (c # B) K c (SendReply N c r sv)"
  proof (cases "\<exists>s. live N c s (SendReply N c r sv)")
    case True
    then obtain s s0 where "live N c s (SendReply N c r sv)" "live N c s0 sv" "cs_executing s = cs_executing s0"
      "cs_started s = cs_started s0" "cs_replies s = cs_replies s0 @ [(length (cs_started s0), r)]" using SendReply_session by blast
    moreover have "waiting_conns (SendReply N c r sv) = waiting_conns sv"
      using calm_SendReply [of c sv r] by (simp add: waiting_conns_def calm_def)
    ultimately show ?thesis using tc by (auto simp: turn_def live_def)
  next
    case False
    then show ?thesis using tc by (intro turn_dead [OF tc calm_SendReply]) auto
  qed
qed auto

lemma turns_finish_command:
  assumes t: "turns N {c} (c # B) K sv"
  shows "turns N {} B K (finish_command N c sv)"
proof -
  have calm: "calm N {c} sv (finish_command N c sv)"
    by (auto simp: finish_command_def Let_def split: option.splits)
  have tc: "turn N {c} (c # B) K c sv" using t by (simp add: turns_def)
  show ?thesis
  proof (rule turns_local [OF t calm])
    have l: "\<exists>s0. live N c s0 sv \<and> \<not> cs_executing s \<and> cs_started s = cs_started s0 \<and> cs_replies s = cs_replies s0"
      if "live N c s (finish_command N c sv)" for s
      using that stays_closed(3) by (auto simp: finish_command_def Let_def live_def split: option.splits if_splits)
    have w: "waiting_conns (finish_command N c sv) = waiting_conns sv"
      "(session c (finish_command N c sv) = None) = (session c sv = None)"
      using calm by (simp_all add: waiting_conns_def calm_def)
    show "turn N {} B K c (finish_command N c sv)"
      unfolding turn_def
    proof (intro conjI impI allI)
      fix s assume "live N c s (finish_command N c sv)"
      then obtain s0 where s0: "live N c s0 sv" "\<not> cs_executing s" "cs_started s = cs_started s0" "cs_replies s = cs_replies s0"
        using l by blast
      with turn_liveD [OF tc s0(1)] w show "count_list (waiting_conns (finish_command N c sv) @ B) c = of_bool (cs_executing s)"
        "length (cs_started s) = length (cs_replies s) + of_bool (cs_executing s \<and> c \<notin> {})"
        "map fst (cs_replies s) = map Suc [0..<length (cs_replies s)]"
        by (cases "cs_executing s0"; simp)+
    qed (use tc w in \<open>simp_all add: turn_def\<close>)
  qed auto
qed

lemma turns_start_command:
  assumes t: "turns N {} B K sv" and "live N c s sv" "\<not> cs_executing s"
  shows "turns N {} (c # B) K (start_command c cmd queue sv)"
proof (rule turns_local [OF t])
  show "calm N {c} sv (start_command c cmd queue sv)" by (auto simp: start_command_def)
  have "turn N {} B K c sv" using t by (simp add: turns_def)
  moreover have "waiting_conns (start_command c cmd queue sv) = waiting_conns sv" by (simp add: waiting_conns_def start_command_def)
  ultimately show "turn N {} (c # B) K c (start_command c cmd queue sv)"
    using assms(2,3) by (auto simp: turn_def live_def start_command_def)
qed auto

lemma turns_release:
  assumes t: "turns N {} (c # B) K sv" and "\<not> deliverable N c sv"
  shows "turns N {} B K (release c sv)"
proof (rule turns_local [OF turns_drop [OF assms]])
  show calm: "calm N {c} sv (release c sv)" by (auto simp: release_def)
  have "turn N {} B K c sv" using turns_drop [OF assms] by (simp add: turns_def)
  moreover have dead: "\<not> live N c s (release c sv)" for s
    using assms(2) by (auto simp: live_def release_def deliverable_def CanDeliverClientReply_def)
  ultimately show "turn N {} B K c (release c sv)" by (rule turn_dead [OF _ calm _ le_refl])
qed auto

section \<open>Commands keep the turns\<close>

lemma turns_upd_session: "turns N A B K sv \<Longrightarrow> calm_update f \<Longrightarrow> turns N A B K (upd_session c f sv)"
  by (erule turns_calm) simp

lemma turns_ScheduleFlush: "turns N A B K sv \<Longrightarrow> ok_then (ScheduleFlush E sv) (\<lambda>_. turns N A B K)"
  by (rule ok_keeps) (auto simp: ScheduleFlush_def Let_def arm_flush_def cancel_timer_def intro!: keeps_rules split: list.splits res.splits option.splits)

lemma turns_push_write:
  assumes "turns N A (qw_conn w # B) K sv"
  shows "turns N A B K (sv\<lparr>srv_writes := srv_writes sv @ [w], srv_queued_write_bytes := n\<rparr>)"
  using assms by (rule turns_move) (use assms in \<open>simp_all add: waiting_conns_def turns_def callback_ids_ok_def\<close>)

definition after_command :: "string \<Rightarrow> string list \<Rightarrow> string set \<Rightarrow> bool \<Rightarrow> ('db, 'a) server \<Rightarrow> bool" where
  "after_command c B K complete sv = (if complete then turns N {c} (c # B) K sv else turns N {} B K sv)"

lemma turns_SubmitWrite:
  assumes t: "turns N {} (c # B) K sv"
  shows "ok_then (SubmitWrite N E c args sv) (after_command c B K)"
proof -
  have "ok_then (bindR (ScheduleFlush E (upd_session c (\<lambda>s. s\<lparr>cs_waiting := True\<rparr>)
      (sv'\<lparr>srv_writes := srv_writes sv' @ [\<lparr>qw_command = cmd, qw_conn = c, qw_enqueued_at = now\<rparr>], srv_queued_write_bytes := n\<rparr>)))
      (\<lambda>_. Ok False)) (after_command c B K)" if "turns N {} (c # B) K sv'" for sv' cmd now n
    using that
    by (intro ok_bind [OF turns_ScheduleFlush] turns_upd_session turns_push_write) (auto simp: after_command_def)
  note push = this
  have "ok_then (bindR (steady E sv) (\<lambda>now sv'. bindR (ScheduleFlush E (upd_session c (\<lambda>s. s\<lparr>cs_waiting := True\<rparr>)
      (sv'\<lparr>srv_writes := srv_writes sv' @ [\<lparr>qw_command = cmd, qw_conn = c, qw_enqueued_at = now\<rparr>],
         srv_queued_write_bytes := size_add (srv_queued_write_bytes sv') n\<rparr>)))
      (\<lambda>_. Ok False))) (after_command c B K)" for cmd n
    by (rule ok_bind [OF ok_steady [OF t]], rule push)
  moreover have "after_command c B K True (SendReply N c r sv)" "after_command c B K True (SendReply N c r (reject_overload 1 sv))" for r
    using t by (simp_all add: after_command_def reject_overload_def turns_SendReply)
  ultimately show ?thesis unfolding SubmitWrite_def Let_def by simp
qed

lemma turns_read_local: "turns N {} (c # B) K sv \<Longrightarrow> ok_then (read_local N E c k sv) (\<lambda>_. turns N {c} (c # B) K)"
  unfolding read_local_def Let_def
  by (rule ok_bind [OF ok_steady], assumption, rule ok_bind [OF ok_lift], assumption, rule ok_bind [OF ok_steady], assumption)
    (simp add: turns_SendReply)

lemma turns_ExecuteCommand:
  assumes t: "turns N {} (c # B) K sv"
  shows "ok_then (ExecuteCommand N E c cmd sv) (after_command c B K)"
proof -
  have reply: "after_command c B K True (SendReply N c r (sv\<lparr>srv_namespaces := m\<rparr>))" "after_command c B K True (SendReply N c r sv)" for r m
    using t by (simp_all add: after_command_def turns_SendReply)
  have "ok_then (bindR (call_node f (register (ReadDone c k) sv)) (\<lambda>_. Ok False)) (after_command c B K)"
    for f :: "'b node \<Rightarrow> ('b node, bool) res" and k
    using t by (intro ok_bind [OF ok_call_node] turns_register) (auto simp: after_command_def)
  moreover have "ok_then (bindR (read_local N E c k sv) (\<lambda>_. Ok True)) (after_command c B K)" for k
    by (rule ok_bind [OF turns_read_local [OF t]]) (simp add: after_command_def)
  ultimately show ?thesis
    using reply turns_SubmitWrite [OF t] unfolding ExecuteCommand_def Let_def by (cases "qc_type cmd") simp_all
qed

lemma turns_command_loop: "turns N {} B K sv \<Longrightarrow> ok_then (command_loop n N E c sv) (\<lambda>_. turns N {} B K)"
proof (induction n arbitrary: sv)
  case 0
  then show ?case by (subst command_loop.simps) (auto split: option.splits intro: turns_calm)
next
  case (Suc n)
  have loop: "ok_then (bindR (ExecuteCommand N E c cmd (start_command c cmd queue sv)) (\<lambda>complete sv.
        if complete then command_loop n N E c (finish_command N c sv) else Ok () sv)) (\<lambda>_. turns N {} B K)"
    if "live N c s sv" "\<not> cs_executing s" for s cmd queue
    using turns_start_command [OF Suc.prems that]
    by (intro ok_bind [OF turns_ExecuteCommand]) (auto simp: after_command_def intro!: Suc.IH turns_finish_command)
  show ?case
    by (subst command_loop.simps)
      (auto split: option.splits simp: Suc.prems live_def intro!: loop intro: turns_calm [OF Suc.prems])
qed

lemma turns_OnCommandComplete: "turns N {c} (c # B) K sv \<Longrightarrow> ok_then (OnCommandComplete N E c sv) (\<lambda>_. turns N {} B K)"
  unfolding OnCommandComplete_def ExecuteNextCommand_def by (intro turns_command_loop turns_finish_command)

section \<open>Callbacks and flushes keep the turns\<close>

lemma turns_write_done:
  assumes t: "turns N {} (c # B) K sv"
  shows "ok_then (write_done N E c enqueued_at ok response sv) (\<lambda>_. turns N {} B K)"
  unfolding write_done_def
proof (rule ok_bind)
  show "ok_then (if ok then observe_completed E enqueued_at sv else Ok () sv) (\<lambda>_. turns N {} (c # B) K)"
    using t by (auto simp: observe_completed_def intro: ok_bind [OF ok_steady])
  show "ok_then (if \<not> deliverable N c s then Ok () (release c s) else OnCommandComplete N E c
      (upd_session c (\<lambda>s. s\<lparr>cs_waiting := False\<rparr>) (SendReply N c response s))) (\<lambda>_. turns N {} B K)"
    if "turns N {} (c # B) K s" for s
    using that by (simp add: turns_release turns_OnCommandComplete turns_upd_session turns_SendReply)
qed

lemma turns_read_done:
  assumes t: "turns N {} (c # B) K sv"
  shows "ok_then (read_done_callback N E c key success err sv) (\<lambda>_. turns N {} B K)"
proof -
  have "ok_then (bindR (liftR m sv) (\<lambda>value sv. OnCommandComplete N E c (SendReply N c (value_reply value) sv))) (\<lambda>_. turns N {} B K)" for m
    by (rule ok_bind [OF ok_lift [of "turns N {} (c # B) K", OF t]]) (intro turns_OnCommandComplete turns_SendReply)
  with t show ?thesis
    by (auto simp: read_done_callback_def turns_release turns_OnCommandComplete turns_SendReply split: linearizable_get_action.splits)
qed

lemma turns_run_callback: "turns N {} B K sv \<Longrightarrow> ok_then (run_callback N E e sv) (\<lambda>_. turns N {} B K)"
  by (cases e) (auto split: option.splits completion.splits intro!: turns_write_done turns_read_done dest: turns_take_callback)

lemma turns_settle: "turns N {} B K sv \<Longrightarrow> ok_then (settle N E sv) (\<lambda>_. turns N {} B K)"
  by (rule settle_ok [where P = "turns N {} B K"]) (simp_all add: turns_run_callback)

lemma turns_collect_writes:
  "turns N {} (map qw_conn batch) K sv \<Longrightarrow> ok_then (collect_writes n N E batch sv) (\<lambda>ws. turns N {} (map qw_conn ws) K)"
proof (induction n arbitrary: batch sv)
  case (Suc n)
  have "ok_then (collect_writes (Suc n) N E batch sv) (\<lambda>ws. turns N {} (map qw_conn ws) K)" if w: "srv_writes sv = w # ws" for w ws
  proof -
    let ?sv = "sv\<lparr>srv_writes := ws, srv_queued_write_bytes := size_sub (srv_queued_write_bytes sv) (length (qw_command w))\<rparr>"
    have t: "turns N {} (qw_conn w # map qw_conn batch) K ?sv"
      using Suc.prems by (rule turns_move) (use Suc.prems w in \<open>simp_all add: waiting_conns_def turns_def callback_ids_ok_def\<close>)
    have s: "ok_then (bindR (steady E ?sv) (\<lambda>now sv. collect_writes n N E (batch @ [w])
        (sv\<lparr>srv_write_queue_wait := f now sv\<rparr>))) (\<lambda>ws. turns N {} (map qw_conn ws) K)" for f
    proof (rule ok_bind)
      show "ok_then (steady E ?sv) (\<lambda>_. turns N {} (map qw_conn (batch @ [w])) K)"
        using t by (intro ok_steady, elim turns_move) (use t in \<open>simp_all add: turns_def\<close>)
    qed (auto intro: Suc.IH)
    have d: "ok_then (collect_writes n N E batch ?sv) (\<lambda>ws. turns N {} (map qw_conn ws) K)" if "\<not> deliverable N (qw_conn w) ?sv"
      using turns_drop [OF t that] by (rule Suc.IH)
    have "collect_writes (Suc n) N E batch sv = Ok batch sv \<or>
        \<not> deliverable N (qw_conn w) ?sv \<and> collect_writes (Suc n) N E batch sv = collect_writes n N E batch ?sv \<or>
        (\<exists>f. collect_writes (Suc n) N E batch sv = bindR (steady E ?sv) (\<lambda>now sv. collect_writes n N E (batch @ [w])
          (sv\<lparr>srv_write_queue_wait := f now sv\<rparr>)))"
      by (auto simp: w Let_def)
    with s d Suc.prems show ?thesis by (elim disjE conjE exE) simp_all
  qed
  with Suc.prems show ?case by (cases "srv_writes sv") simp_all
qed simp

lemma turns_refuse_write:
  assumes t: "turns N {} (qw_conn w # B) K sv"
  shows "ok_then (refuse_write N E index w sv) (\<lambda>_. turns N {} B K)"
proof -
  have "ok_then (bindR (OnCommandComplete N E (qw_conn w) (SendReply N (qw_conn w) r
      (upd_session (qw_conn w) (\<lambda>s. s\<lparr>cs_waiting := False\<rparr>) sv))) (\<lambda>_. settle N E)) (\<lambda>_. turns N {} B K)" for r
    using t by (intro ok_bind [OF turns_OnCommandComplete] turns_SendReply turns_upd_session) (auto intro: turns_settle)
  with t show ?thesis by (simp add: refuse_write_def Let_def turns_release)
qed

lemma turns_refuse_writes:
  "turns N {} (map qw_conn ws) K sv \<Longrightarrow> ok_then (foldR (refuse_write N E index) ws sv) (\<lambda>_. turns N {} [] K)"
proof (induction ws arbitrary: sv)
  case (Cons w ws)
  then have "turns N {} (qw_conn w # map qw_conn ws) K sv" by simp
  then show ?case by (auto intro: ok_bind [OF turns_refuse_write] Cons.IH)
qed simp

lemma turns_propose_writes:
  assumes t: "turns N {} (map qw_conn batch) K sv"
  shows "ok_then (propose_writes N E batch sv) (\<lambda>_. turns N {} [] K)"
proof -
  define first where "first = srv_next_callback sv"
  have r: "turns N {} [] K (register_writes batch sv)" using t by (intro turns_register_writes) simp
  show ?thesis
    unfolding propose_writes_def Let_def first_def [symmetric]
  proof (rule ok_bind)
    fix index sv'
    assume c: "call_node (ProposeBatch E (proposals_of first batch)) (register_writes batch sv) = Ok index sv'" and t': "turns N {} [] K sv'"
    have "turns N {} (map qw_conn batch) K (fold drop_callback [first..<first + length batch] sv')"
    proof (rule turns_move [OF t])
      obtain m es where "sv' = (register_writes batch sv)\<lparr>srv_node := m, srv_ready := es\<rparr>"
        using c by (auto simp: call_node_def split: res.splits)
      moreover have "filter (\<lambda>k. fst k \<notin> set [first..<first + length batch]) (srv_callbacks sv @ zip [first..<first + length batch] ws) = srv_callbacks sv" for ws
      proof -
        have "\<forall>k \<in> set (srv_callbacks sv). fst k < first" using t by (auto simp: turns_def callback_ids_ok_def first_def)
        then have "filter (\<lambda>k. fst k \<notin> set [first..<first + length batch]) (srv_callbacks sv) = srv_callbacks sv"
          by (intro filter_True) auto
        moreover have "filter (\<lambda>k. fst k \<notin> set [first..<first + length batch]) (zip [first..<first + length batch] ws) = []"
          by (rule filter_False) (metis fst_conv prod.collapse set_zip_leftD)
        ultimately show ?thesis by simp
      qed
      ultimately have "fold drop_callback [first..<first + length batch] sv' = sv\<lparr>srv_next_callback := first + length batch, srv_node := m, srv_ready := es\<rparr>"
        by (simp add: drop_callbacks_eq register_writes_eq first_def)
      with t show "callback_ids_ok (fold drop_callback [first..<first + length batch] sv')"
        "count_list (waiting_conns (fold drop_callback [first..<first + length batch] sv') @ map qw_conn batch) x =
          count_list (waiting_conns sv @ map qw_conn batch) x"
        "session x (fold drop_callback [first..<first + length batch] sv') = session x sv"
        "srv_net (fold drop_callback [first..<first + length batch] sv') = srv_net sv" for x
        by (auto simp: turns_def callback_ids_ok_def first_def waiting_conns_def session_def)
    qed
    then show "ok_then (if index < 0 then foldR (refuse_write N E index) batch (fold drop_callback [first..<first + length batch]
          (if index = - 2 then reject_overload (length batch) sv' else sv')) else settle N E sv') (\<lambda>_. turns N {} [] K)"
      using t' by (auto intro!: turns_settle turns_refuse_writes simp: drop_callbacks_overload)
  qed (rule ok_call_node [OF r])
qed

lemma turns_OnFlush:
  assumes t: "turns N {} [] K sv"
  shows "ok_then (OnFlush N E token sv) (\<lambda>_. turns N {} [] K)"
proof -
  have "ok_then (FlushQueuedWrites N E sv) (\<lambda>_. turns N {} [] K)" if t: "turns N {} [] K sv" for sv :: "('b, 'a) server"
    unfolding FlushQueuedWrites_def
  proof (rule ok_bind)
    show "ok_then (collect_writes kFlushMaxEntries N E [] sv) (\<lambda>ws. turns N {} (map qw_conn ws) K)"
      using t by (intro turns_collect_writes) simp
    show "ok_then (bindR (if batch = [] then Ok () s else propose_writes N E batch s) (\<lambda>_. ScheduleFlush E)) (\<lambda>_. turns N {} [] K)"
      if "turns N {} (map qw_conn batch) K s" for batch s
      using that by (intro ok_bind [where P = "\<lambda>_. turns N {} [] K"]) (auto intro: turns_ScheduleFlush turns_propose_writes)
  qed
  with t show ?thesis by (auto simp: OnFlush_def split: prod.splits bool.splits)
qed

section \<open>Events keep the turns\<close>

lemma turns_reject_frame:
  assumes t: "turns N A B K sv"
  shows "turns N A B K (reject_frame N c s err sv)"
proof (rule turns_local [OF t])
  show calm: "calm N {c} sv (reject_frame N c s err sv)"
    by (simp add: reject_frame_def Let_def calm_trans [OF _ calm_SendReply])
  have "turn N A B K c sv" using t by (simp add: turns_def)
  moreover have "\<not> live N c s' (reject_frame N c s err sv)" for s'
    by (auto simp: live_def reject_frame_def Let_def)
  ultimately show "turn N A B K c (reject_frame N c s err sv)" by (rule turn_dead [OF _ calm _ le_refl])
qed auto

lemma turns_resume_client:
  assumes t: "turns N {} [] K sv"
  shows "ok_then (resume_client N E c s b sv) (\<lambda>_. turns N {} [] K)"
proof -
  define sv' where "sv' = (if b then upd_net (mu_stopRead N c) sv else sv)"
  have t': "turns N {} [] K sv'" unfolding sv'_def by (rule turns_calm [OF t]) simp
  then have "ok_then (bindR (ExecuteNextCommand N E c sv') (\<lambda>_. settle N E)) (\<lambda>_. turns N {} [] K)"
    unfolding ExecuteNextCommand_def by (intro ok_bind [OF turns_command_loop]) (auto intro: turns_settle)
  moreover have "turns N {} [] K (ScheduleDrain c sv')" by (rule turns_calm [OF t']) simp
  ultimately show ?thesis using t' by (simp add: resume_client_def Let_def flip: sv'_def)
qed

lemma turns_DrainClient:
  assumes t: "turns N {} [] K sv"
  shows "ok_then (DrainClient N E c sv) (\<lambda>_. turns N {} [] K)"
proof -
  have d: "turns N {} [] K (upd_session c (\<lambda>_. s\<lparr>cs_input := input, cs_queue := queue\<rparr>) (sv\<lparr>srv_input_bytes := n\<rparr>))"
    if "turns N {} [] K sv" "session c sv = Some s" for sv :: "('b, 'a) server" and s input queue n
  proof (rule turns_local [OF that(1)])
    show "calm N {c} sv (upd_session c (\<lambda>_. s\<lparr>cs_input := input, cs_queue := queue\<rparr>) (sv\<lparr>srv_input_bytes := n\<rparr>))" by simp
    have "turn N {} [] K c sv" using that(1) by (simp add: turns_def)
    with that(2) show "turn N {} [] K c (upd_session c (\<lambda>_. s\<lparr>cs_input := input, cs_queue := queue\<rparr>) (sv\<lparr>srv_input_bytes := n\<rparr>))"
      by (auto simp: turn_def live_def waiting_conns_def)
  qed auto
  show ?thesis
    unfolding DrainClient_def
    by (rule ok_bind [OF ok_steady [OF t]])
      (auto simp: Let_def split: option.splits prod.splits intro!: turns_reject_frame turns_resume_client d)
qed

lemma turns_run_task: "turns N {} [] K sv \<Longrightarrow> ok_then (run_task N E t sv) (\<lambda>_. turns N {} [] K)"
  by (cases t) (auto simp: OnDrain_def intro!: turns_OnFlush turns_DrainClient turns_upd_session)

lemma turns_OnClientMessage:
  assumes t: "turns N {} [] K sv"
  shows "ok_then (OnClientMessage N E c chunk sv) (\<lambda>_. turns N {} [] K)"
proof -
  have "turns N {} [] K (upd_net (mu_forceClose N c) sv)" by (rule turns_calm [OF t]) simp
  moreover have "turns N {} [] K (CloseClient N c (reject_overload 1 sv))" by (rule turns_calm [OF t]) (simp add: reject_overload_def)
  moreover have "ok_then (DrainClient N E c (upd_session c (\<lambda>s. s\<lparr>cs_input := input, cs_stream := cs_stream s @ chunk\<rparr>)
      (sv\<lparr>srv_input_bytes := n\<rparr>))) (\<lambda>_. turns N {} [] K)" for input n
    using t by (intro turns_DrainClient turns_upd_session) simp_all
  ultimately show ?thesis
    using t by (auto simp: OnClientMessage_def split: option.splits prod.splits bool.splits)
qed

lemma turns_OnClientConnection:
  assumes t: "turns N {} [] K sv"
  shows "c \<notin> K \<Longrightarrow> turns N {} [] (insert c K) (OnClientConnection N c True sv)"
    and "turns N {} [] K (OnClientConnection N c False sv)"
proof -
  have se: "session c' (sv\<lparr>srv_sessions := AList.update c new_session (srv_sessions sv)\<rparr>) = (if c' = c then Some new_session else session c' sv)" for c'
    by (simp add: session_def update_conv')
  have new: "\<not> cs_executing new_session" "cs_started new_session = []" "cs_replies new_session = []" by (simp_all add: new_session_def)
  have tc: "turn N {} [] K c' sv" for c' using t by (simp add: turns_def)
  show "turns N {} [] (insert c K) (OnClientConnection N c True sv)" if "c \<notin> K"
  proof -
    have "turns N {} [] (insert c K) sv" using t by (simp add: turns_def turn_def)
    then have "turns N {} [] (insert c K) (upd_net (mu_forceClose N c) (reject_overload 1 sv))"
      by (rule turns_calm) (simp add: reject_overload_def)
    moreover have "turn N {} [] (insert c K) c' (sv\<lparr>srv_sessions := AList.update c new_session (srv_sessions sv)\<rparr>)" for c'
      using tc [of c'] that new by (cases "c' = c") (simp_all add: turn_def live_def se waiting_conns_def)
    ultimately show ?thesis using t by (simp add: OnClientConnection_def turns_def callback_ids_ok_def)
  qed
  have "turn N {} [] K c' (sv\<lparr>srv_input_bytes := x, srv_output_bytes := y, srv_sessions := AList.delete c (srv_sessions sv)\<rparr>)" for c' x y
    using tc [of c'] by (auto simp: turn_def live_def session_def waiting_conns_def delete_conv)
  then have "turns N {} [] K (sv\<lparr>srv_input_bytes := x, srv_output_bytes := y, srv_sessions := AList.delete c (srv_sessions sv)\<rparr>)" for x y
    using t by (simp add: turns_def callback_ids_ok_def)
  then show "turns N {} [] K (OnClientConnection N c False sv)"
    using t by (simp add: OnClientConnection_def Let_def split: option.splits)
qed

lemma turns_metrics:
  assumes t: "turns N {} [] K sv"
  shows "turns N {} [] K (OnMetricsConnection N c b sv)" and "turns N {} [] K (OnMetricsMessage N c chunk sv)"
proof -
  have u: "turns N {} [] K (upd_net (mu_forceClose N c) sv)" by (rule turns_calm [OF t]) simp
  with t show "turns N {} [] K (OnMetricsConnection N c b sv)" by (simp add: OnMetricsConnection_def)
  have "turns N {} [] K (ReplyMetrics N c http sv)" if "turns N {} [] K sv" for http and sv :: "('b, 'a) server"
    by (rule turns_calm [OF that]) (simp add: ReplyMetrics_def)
  with t u show "turns N {} [] K (OnMetricsMessage N c chunk sv)"
    by (simp add: OnMetricsMessage_def Let_def split: option.splits)
qed

lemma turns_network:
  assumes t: "turns N {} [] K sv" and "\<And>c. c \<in> K \<Longrightarrow> mu_connected N c net \<Longrightarrow> mu_connected N c (srv_net sv)"
  shows "turns N {} [] K (sv\<lparr>srv_net := net\<rparr>)"
proof -
  have "turn N {} [] K c (sv\<lparr>srv_net := net\<rparr>)" for c
  proof -
    have "turn N {} [] K c sv" using t by (simp add: turns_def)
    with assms(2) [of c] show ?thesis by (auto simp: turn_def live_def waiting_conns_def)
  qed
  with t show ?thesis by (simp add: turns_def callback_ids_ok_def)
qed

lemma turns_step:
  assumes "server_step N E s s'" and "turns N {} [] (client_conns (fst s)) (snd s)"
  shows "turns N {} [] (client_conns (fst s')) (snd s')"
  using assms
proof (induction rule: server_step.induct)
  case (client_up L c sv)
  have "client_conns (L(c := Some ClientPort)) = insert c (client_conns L)" by auto
  with client_up turns_OnClientConnection(1) [of "client_conns L" sv c] show ?case by simp
next
  case (client_data L c chunk sv sv')
  then show ?case using turns_OnClientMessage [of "client_conns L" sv E c chunk] by simp
next
  case (written L c sv)
  then show ?case by (auto simp: OnWriteComplete_def elim: turns_calm)
next
  case (task sv t ts sv' L)
  then show ?case using turns_run_task [of "client_conns L" "sv\<lparr>srv_tasks := ts\<rparr>" E t] by simp
next
  case (metrics_up L c sv)
  have "client_conns (L(c := Some MetricsPort)) = client_conns L" using metrics_up.hyps by auto
  with metrics_up turns_metrics(1) [of "client_conns L" sv c] show ?case by simp
next
  case (node_work op sv sv' L)
  have "ok_then (bindR (call_node (run_op E op) sv) (\<lambda>_. settle N E)) (\<lambda>_. turns N {} [] (client_conns L))"
    using node_work.prems by (intro ok_bind [OF ok_call_node] turns_settle) simp_all
  with node_work show ?case by simp
next
  case (network net sv L)
  then show ?case by (auto intro!: turns_network)
qed (auto intro!: turns_OnClientConnection(2) turns_metrics)

end

section \<open>Properties\<close>

lemma turns_reachable:
  assumes "muduo_closing N" and "(server_step N E)\<^sup>*\<^sup>* (\<lambda>_. None, new_server f n net) (L, sv)"
  shows "turns N {} [] (client_conns L) sv"
proof -
  have "turns N {} [] (client_conns (fst s)) (snd s)" if "(server_step N E)\<^sup>*\<^sup>* (\<lambda>_. None, new_server f n net) s" for s
    using that
  proof (induction rule: rtranclp_induct)
    case base
    show ?case by (simp add: turns_def turn_def live_def waiting_conns_def callback_ids_ok_def session_def new_server_def)
  next
    case (step s s')
    show ?case by (rule muduo_closing.turns_step [OF assms(1) step.hyps(2) step.IH])
  qed
  from this [OF assms(2)] show ?thesis by simp
qed

text \<open>
  C20. Commands of a connection run one at a time in the order of their bytes, and each is answered before
  the next one starts.
  In every reachable state, the commands a connection has started, followed by those in its queue, are
  the frames at the front of the bytes it received, and the rest of these bytes is its input buffer.
  While the connection is up and not closing, every started command but the one in progress has its
  reply, the \<open>k\<close>-th reply was sent when exactly \<open>k\<close> commands were started, so after the start of the
  \<open>k\<close>-th command and before that of the next, and a command in progress waits in exactly one place, the write queue or the callback table.
\<close>

theorem server_replies_in_order:
  assumes "muduo_closing N" and "(server_step N E)\<^sup>*\<^sup>* (\<lambda>_. None, new_server f n net) (L, sv)" and "session c sv = Some s"
  shows "(\<exists>fs. frames (cs_stream s) (length fs) = (fs, unread (cs_input s)) \<and>
       map qc_args (cs_started s @ sq_items (cs_queue s)) = map (\<lambda>f. upper_verb (fst f)) fs) \<and>
     (\<not> cs_closing s \<and> mu_connected N c (srv_net sv) \<longrightarrow>
       length (cs_started s) = length (cs_replies s) + of_bool (cs_executing s) \<and>
       map fst (cs_replies s) = map Suc [0..<length (cs_replies s)] \<and>
       count_list (map qw_conn (srv_writes sv) @ map (\<lambda>k. cb_conn (snd k)) (srv_callbacks sv)) c = of_bool (cs_executing s))"
proof -
  have "muduo N" using assms(1) by (simp add: muduo_closing_def)
  then have "stream_ok s"
    using accounts_session [OF accounts_reachable [OF _ assms(2)] assms(3)] by (simp add: session_ok_def)
  moreover have "turn N {} [] (client_conns L) c sv" using turns_reachable [OF assms(1,2)] by (simp add: turns_def)
  ultimately show ?thesis using assms(3) by (simp add: stream_ok_def turn_def live_def waiting_conns_def)
qed

theorem server_replies_in_order_witness:
  "session ''c'' demo_server = Some demo_session \<and> cs_stream demo_session = demo_chunk \<and>
   length (cs_started demo_session) = 1 \<and> map fst (cs_replies demo_session) = [1] \<and>
   (\<exists>fs. frames demo_chunk (length fs) = (fs, ''*1'') \<and> [[''PING'']] = map (\<lambda>f. upper_verb (fst f)) fs)"
proof -
  have c: "mu_connected mem_net_ops ''c'' (srv_net demo_server)"
    by (simp add: demo_server_def mem_net_ops_def mem_net_init_def)
  have s: "cs_stream demo_session = demo_chunk" "cs_started demo_session = [demo_ping]" "sq_items (cs_queue demo_session) = []"
    "\<not> cs_closing demo_session" "\<not> cs_executing demo_session" "unread (cs_input demo_session) = ''*1''"
    "length (cs_replies demo_session) = 1"
    by (simp_all add: demo_session_def new_session_def unread_def demo_chunk_def)
  show ?thesis
    using server_replies_in_order [OF memclosing.muduo_closing_axioms demo_reachable, of "''c''" demo_session] c s by simp
qed

end
