(* ===== verification/ServerWrites.thy ===== *)
theory ServerWrites
  imports ServerOrder
begin

text \<open>
  The write queue of the server and what it hands to the node: the flush that is pending while writes
  are queued, the batch that a flush takes, and the commands in it.
\<close>

section \<open>The batch of a flush\<close>

lemma deliverable_updates [simp]:
  "deliverable N c (sv\<lparr>srv_writes := ws\<rparr>) = deliverable N c sv"
  "deliverable N c (sv\<lparr>srv_queued_write_bytes := n\<rparr>) = deliverable N c sv"
  "deliverable N c (sv\<lparr>srv_node := x\<rparr>) = deliverable N c sv"
  "deliverable N c (sv\<lparr>srv_write_queue_wait := l\<rparr>) = deliverable N c sv"
  by (simp_all add: deliverable_def split: option.splits)

lemma collect_writes_spec:
  assumes "collect_writes n N E batch sv = Ok batch' sv'" and "\<forall>w \<in> set (srv_writes sv). length (qw_command w) \<le> kMaxCommandBytes"
    and "batch_size batch \<le> kFlushMaxBytes"
  shows "\<exists>taken. srv_writes sv = taken @ srv_writes sv' \<and> batch' = batch @ filter (\<lambda>w. deliverable N (qw_conn w) sv) taken \<and>
     length taken \<le> n \<and> batch_size batch' \<le> kFlushMaxBytes \<and>
     (\<forall>w ws. srv_writes sv' = w # ws \<longrightarrow> length taken = n \<or> batch' \<noteq> [] \<and> batch_size batch' + length (qw_command w) > kFlushMaxBytes)"
  using assms
proof (induction n arbitrary: batch sv)
  case (Suc n)
  show ?case
  proof (cases "srv_writes sv")
    case Nil
    with Suc.prems show ?thesis by auto
  next
    case (Cons w ws)
    let ?sv = "sv\<lparr>srv_writes := ws, srv_queued_write_bytes := size_sub (srv_queued_write_bytes sv) (length (qw_command w))\<rparr>"
    have big: "length (qw_command w) > size_sub kFlushMaxBytes (batch_size batch) \<longleftrightarrow> batch_size batch + length (qw_command w) > kFlushMaxBytes"
      using Suc.prems(3) by auto
    show ?thesis
    proof (cases "batch \<noteq> [] \<and> length (qw_command w) > size_sub kFlushMaxBytes (batch_size batch)")
      case True
      with Suc.prems Cons big show ?thesis by (auto simp: Let_def)
    next
      case False
      then have fits: "batch_size (batch @ [w]) \<le> kFlushMaxBytes"
        using big Suc.prems(2) Cons by (auto simp: batch_size_def)
      show ?thesis
      proof (cases "deliverable N (qw_conn w) sv")
        case True
        then obtain now sv2 where c: "collect_writes n N E (batch @ [w]) sv2 = Ok batch' sv'" and sv2: "srv_writes sv2 = ws"
          "\<And>c. deliverable N c sv2 = deliverable N c sv"
          using Suc.prems(1) Cons False by (auto simp: Let_def steady_eq)
        from Suc.IH [OF c _ fits] Suc.prems(2) sv2 Cons obtain taken where
          "ws = taken @ srv_writes sv'" "batch' = batch @ w # filter (\<lambda>w. deliverable N (qw_conn w) sv) taken" "length taken \<le> n"
          "batch_size batch' \<le> kFlushMaxBytes"
          "\<forall>w ws. srv_writes sv' = w # ws \<longrightarrow> length taken = n \<or> batch' \<noteq> [] \<and> batch_size batch' + length (qw_command w) > kFlushMaxBytes"
          by auto
        with Cons True show ?thesis by (intro exI [of _ "w # taken"]) auto
      next
        case nd: False
        then have c: "collect_writes n N E batch ?sv = Ok batch' sv'"
          using Suc.prems(1) Cons False by (auto simp: Let_def)
        from Suc.IH [OF c _ Suc.prems(3)] Suc.prems(2) Cons obtain taken where
          "ws = taken @ srv_writes sv'" "batch' = batch @ filter (\<lambda>w. deliverable N (qw_conn w) sv) taken" "length taken \<le> n"
          "batch_size batch' \<le> kFlushMaxBytes"
          "\<forall>w ws. srv_writes sv' = w # ws \<longrightarrow> length taken = n \<or> batch' \<noteq> [] \<and> batch_size batch' + length (qw_command w) > kFlushMaxBytes"
          by auto
        with Cons nd show ?thesis by (intro exI [of _ "w # taken"]) auto
      qed
    qed
  qed
qed auto

lemma proposals_commands: "map pp_command (proposals_of k ws) = map qw_command ws"
  by (rule nth_equalityI) (simp_all add: proposals_of_def)

lemma batch_bytes_fits:
  "bytes + batch_size ws \<le> kMaxPendingBytes \<Longrightarrow> \<forall>w \<in> set ws. length (qw_command w) \<le> kMaxCommandBytes \<Longrightarrow>
   batch_bytes (map qw_command ws) bytes = Some (bytes + batch_size ws)"
  by (induction ws arbitrary: bytes) (auto simp: batch_size_def)

section \<open>A pending flush\<close>

text \<open>
  A pending flush has its token in a task of the loop or in an armed timer. With \<open>b\<close>, also: while
  writes are queued, a flush is pending. A flush itself breaks the second part until it ends.
\<close>

definition flush_armed :: "bool \<Rightarrow> ('db, 'net) server \<Rightarrow> bool" where
  "flush_armed b sv \<longleftrightarrow>
     (bf_pending (srv_flush_policy sv) \<noteq> ActNone \<longrightarrow>
        FlushTask (bf_generation (srv_flush_policy sv)) \<in> set (srv_tasks sv) \<or> bf_generation (srv_flush_policy sv) \<in> set (srv_timers sv)) \<and>
     (b \<and> srv_writes sv \<noteq> [] \<longrightarrow> bf_pending (srv_flush_policy sv) \<noteq> ActNone)"

lemma flush_armed_updates [simp]:
  "flush_armed b (sv\<lparr>srv_node := x\<rparr>) = flush_armed b sv" "flush_armed b (sv\<lparr>srv_ready := es\<rparr>) = flush_armed b sv"
  "flush_armed b (sv\<lparr>srv_net := net\<rparr>) = flush_armed b sv" "flush_armed b (sv\<lparr>srv_sessions := ss\<rparr>) = flush_armed b sv"
  "flush_armed b (sv\<lparr>srv_overload_rejections := w\<rparr>) = flush_armed b sv" "flush_armed b (sv\<lparr>srv_output_bytes := n\<rparr>) = flush_armed b sv"
  "flush_armed b (sv\<lparr>srv_input_bytes := n\<rparr>) = flush_armed b sv" "flush_armed b (sv\<lparr>srv_queued_write_bytes := n\<rparr>) = flush_armed b sv"
  "flush_armed b (sv\<lparr>srv_callbacks := ks\<rparr>) = flush_armed b sv" "flush_armed b (sv\<lparr>srv_next_callback := n\<rparr>) = flush_armed b sv"
  "flush_armed b (sv\<lparr>srv_namespaces := m\<rparr>) = flush_armed b sv" "flush_armed b (sv\<lparr>srv_local_read := l\<rparr>) = flush_armed b sv"
  "flush_armed b (sv\<lparr>srv_write_completed := l\<rparr>) = flush_armed b sv" "flush_armed b (sv\<lparr>srv_write_queue_wait := l\<rparr>) = flush_armed b sv"
  "flush_armed b (sv\<lparr>srv_metrics_requests := rs\<rparr>) = flush_armed b sv" "flush_armed b (sv\<lparr>srv_flush_timer := to\<rparr>) = flush_armed b sv"
  "flush_armed b (upd_session c f sv) = flush_armed b sv" "flush_armed b (upd_net g sv) = flush_armed b sv"
  by (simp_all add: flush_armed_def)

lemma flush_armed_output [simp]:
  "flush_armed b (AccountOutput N c sv) = flush_armed b sv" "flush_armed b (CloseClient N c sv) = flush_armed b sv"
  "flush_armed b (reject_overload n sv) = flush_armed b sv"
  by (simp_all add: AccountOutput_def CloseClient_def reject_overload_def Let_def split: option.splits)

lemma flush_armed_replies [simp]:
  "flush_armed b (SendReply N c r sv) = flush_armed b sv" "flush_armed b (finish_command N c sv) = flush_armed b sv"
  "flush_armed b (start_command c cmd queue sv) = flush_armed b sv" "flush_armed b (release c sv) = flush_armed b sv"
  by (simp_all add: SendReply_def finish_command_def start_command_def release_def Let_def split: option.splits)

lemma flush_armed_callbacks [simp]:
  "flush_armed b (register k sv) = flush_armed b sv" "flush_armed b (drop_callback i sv) = flush_armed b sv"
  "flush_armed b (register_writes ws sv) = flush_armed b sv" "flush_armed b (fold drop_callback is sv) = flush_armed b sv"
  "flush_armed b (reject_frame N c s err sv) = flush_armed b sv"
  by (simp_all add: register_def drop_callback_def register_writes_eq drop_callbacks_eq reject_frame_def Let_def)

lemma flush_armed_weaken: "flush_armed True sv \<Longrightarrow> flush_armed b sv"
  by (auto simp: flush_armed_def)

lemma flush_armed_less: "flush_armed b sv \<Longrightarrow> srv_writes sv = w # ws \<Longrightarrow> flush_armed b (sv\<lparr>srv_writes := ws\<rparr>)"
  by (auto simp: flush_armed_def)

lemma armed_ScheduleDrain [simp]: "flush_armed b sv \<Longrightarrow> flush_armed b (ScheduleDrain c sv)"
  by (auto simp: ScheduleDrain_def flush_armed_def split: option.splits)

lemma armed_ScheduleFlush: "flush_armed False sv \<Longrightarrow> ok_then (ScheduleFlush E sv) (\<lambda>_. flush_armed b)"
  by (auto simp: ScheduleFlush_def steady_eq Let_def Flush_Request_def no_plan_def arm_flush_def cancel_timer_def flush_armed_def split: list.splits option.splits)

lemma armed_call_node: "flush_armed b sv \<Longrightarrow> ok_then (call_node f sv) (\<lambda>_. flush_armed b)"
  by (intro ok_keeps keeps_call_node) simp_all

lemma armed_SubmitWrite: "flush_armed b sv \<Longrightarrow> ok_then (SubmitWrite N E c args sv) (\<lambda>_. flush_armed b)"
  by (auto simp: SubmitWrite_def Let_def steady_eq wp_bindR intro!: wp_mono [OF armed_ScheduleFlush [where b = b]])
    (auto simp: flush_armed_def)

lemma armed_ExecuteCommand: "flush_armed b sv \<Longrightarrow> ok_then (ExecuteCommand N E c cmd sv) (\<lambda>_. flush_armed b)"
  by (cases "qc_type cmd")
    (auto simp: ExecuteCommand_def Let_def read_local_def steady_eq wp_bindR wp_liftR split: sum.splits
      intro!: armed_SubmitWrite wp_mono [OF armed_call_node [of b]])

lemma armed_command_loop: "flush_armed b sv \<Longrightarrow> ok_then (command_loop n N E c sv) (\<lambda>_. flush_armed b)"
proof (induction n arbitrary: sv)
  case 0
  then show ?case by (subst command_loop.simps) (auto split: option.splits)
next
  case (Suc n)
  have loop: "ok_then (bindR (ExecuteCommand N E c cmd (start_command c cmd queue sv)) (\<lambda>complete sv.
        if complete then command_loop n N E c (finish_command N c sv) else Ok () sv)) (\<lambda>_. flush_armed b)" for cmd queue
    using Suc.prems by (intro ok_bind [OF armed_ExecuteCommand [of b]]) (auto intro!: Suc.IH)
  then show ?case
    by (subst command_loop.simps) (auto split: option.splits simp: Suc.prems)
qed

lemma armed_OnCommandComplete: "flush_armed b sv \<Longrightarrow> ok_then (OnCommandComplete N E c sv) (\<lambda>_. flush_armed b)"
  by (simp add: OnCommandComplete_def ExecuteNextCommand_def armed_command_loop)

lemma armed_run_callback: "flush_armed b sv \<Longrightarrow> ok_then (run_callback N E e sv) (\<lambda>_. flush_armed b)"
  by (cases e) (auto split: option.splits completion.splits linearizable_get_action.splits sum.splits
      simp: write_done_def observe_completed_def steady_eq read_done_callback_def wp_liftR wp_bindR
      intro!: armed_OnCommandComplete)

lemma armed_settle: "flush_armed b sv \<Longrightarrow> ok_then (settle N E sv) (\<lambda>_. flush_armed b)"
  by (rule settle_ok [where P = "flush_armed b"]) (simp_all add: armed_run_callback)

lemma armed_collect_writes: "flush_armed b sv \<Longrightarrow> ok_then (collect_writes n N E batch sv) (\<lambda>_. flush_armed b)"
proof (induction n arbitrary: batch sv)
  case (Suc n)
  show ?case
  proof (cases "srv_writes sv")
    case (Cons w ws)
    with flush_armed_less [OF Suc.prems Cons] Suc.prems show ?thesis by (auto simp: Let_def steady_eq intro!: Suc.IH)
  qed (use Suc.prems in simp)
qed simp

lemma armed_refuse_write: "flush_armed b sv \<Longrightarrow> ok_then (refuse_write N E index w sv) (\<lambda>_. flush_armed b)"
  by (auto simp: refuse_write_def Let_def intro!: ok_bind [OF armed_OnCommandComplete [of b]] armed_settle)

lemma armed_propose_writes: "flush_armed b sv \<Longrightarrow> ok_then (propose_writes N E batch sv) (\<lambda>_. flush_armed b)"
  unfolding propose_writes_def Let_def
  by (rule ok_bind [OF armed_call_node [of b]]) (auto intro!: armed_settle wp_foldR armed_refuse_write)

lemma armed_FlushQueuedWrites: "flush_armed False sv \<Longrightarrow> ok_then (FlushQueuedWrites N E sv) (\<lambda>_. flush_armed True)"
  unfolding FlushQueuedWrites_def
  by (rule ok_bind [OF armed_collect_writes [of False]], assumption, rule ok_bind [where P = "\<lambda>_. flush_armed False"])
    (auto intro: armed_propose_writes armed_ScheduleFlush)

lemma armed_DrainClient: "flush_armed b sv \<Longrightarrow> ok_then (DrainClient N E c sv) (\<lambda>_. flush_armed b)"
  by (auto simp: DrainClient_def steady_eq resume_client_def ExecuteNextCommand_def Let_def split: option.splits prod.splits
      intro!: ok_bind [OF armed_command_loop [of b]] armed_settle)

lemma armed_run_task:
  assumes "srv_tasks sv = t # ts" and "flush_armed True sv"
  shows "ok_then (run_task N E t (sv\<lparr>srv_tasks := ts\<rparr>)) (\<lambda>_. flush_armed True)"
proof (cases t)
  case (DrainTask c)
  with assms have "flush_armed True (sv\<lparr>srv_tasks := ts\<rparr>)" by (simp add: flush_armed_def)
  with DrainTask show ?thesis by (auto simp: OnDrain_def intro!: armed_DrainClient)
next
  case (FlushTask token)
  show ?thesis
  proof (cases "bf_pending (srv_flush_policy sv) = ActNone \<or> token \<noteq> bf_generation (srv_flush_policy sv)")
    case True
    then have "flush_armed True (sv\<lparr>srv_tasks := ts\<rparr>)" using assms FlushTask by (auto simp: flush_armed_def)
    with True FlushTask show ?thesis by (auto simp: OnFlush_def Flush_Consume_def)
  next
    case False
    have "flush_armed False (sv\<lparr>srv_tasks := ts, srv_flush_policy := (srv_flush_policy sv)\<lparr>bf_pending := ActNone\<rparr>, srv_flush_timer := None\<rparr>)"
      by (simp add: flush_armed_def)
    with False FlushTask show ?thesis by (auto simp: OnFlush_def Flush_Consume_def intro!: armed_FlushQueuedWrites)
  qed
qed

lemma armed_step:
  assumes "server_step N E s s'" and "flush_armed True (snd s)"
  shows "flush_armed True (snd s')"
  using assms
proof (induction rule: server_step.induct)
  case (client_data L c chunk sv sv')
  have "ok_then (OnClientMessage N E c chunk sv) (\<lambda>_. flush_armed True)"
    using client_data.prems by (auto simp: OnClientMessage_def split: option.splits prod.splits bool.splits intro!: armed_DrainClient)
  with client_data show ?case by simp
next
  case (task sv t ts sv' L)
  then show ?case using armed_run_task [of sv t ts N E] by simp
next
  case (timer token sv L)
  then show ?case by (auto simp: flush_armed_def in_set_remove1)
next
  case (cancelled_timer token sv L)
  then show ?case by (auto simp: flush_armed_def)
next
  case (node_work op sv sv' L)
  have "ok_then (bindR (call_node (run_op E op) sv) (\<lambda>_. settle N E)) (\<lambda>_. flush_armed True)"
    using node_work.prems by (auto intro!: ok_bind [OF armed_call_node [of True]] armed_settle)
  with node_work show ?case by simp
qed (auto simp: OnClientConnection_def OnWriteComplete_def OnMetricsConnection_def OnMetricsMessage_def ReplyMetrics_def Let_def
    split: option.splits)

lemma armed_reachable:
  assumes "(server_step N E)\<^sup>*\<^sup>* (L0, new_server f n net) (L, sv)"
  shows "flush_armed True sv"
proof -
  have "flush_armed True (snd s)" if "(server_step N E)\<^sup>*\<^sup>* (L0, new_server f n net) s" for s
    using that
  proof (induction rule: rtranclp_induct)
    case base
    show ?case by (simp add: flush_armed_def new_server_def flush_init_def)
  qed (rule armed_step)
  from this [OF assms] show ?thesis by simp
qed

section \<open>A write\<close>

text \<open>A client of a leader sends a \<open>SET\<close>.\<close>

definition write_chunk :: bytes where
  "write_chunk = SerializeCommand [''SET'', ''k'', ''v'']"

definition lone_leader :: "memdb node" where
  "lone_leader = lone_node\<lparr>nd_state := LEADER, nd_running := True\<rparr>"

definition write_command :: bytes where
  "write_command = SerializeCommand [''SET'', MakeKey (\<lambda>_. None) ''c'' ''k'', ''v'']"

lemma write_chunk_parse:
  "length write_chunk = 27"
  "TryParseOne write_chunk = \<lparr>pr_state = Complete, pr_consumed = 27, pr_args = [''SET'', ''k'', ''v''], pr_error = []\<rparr>"
proof -
  show l: "length write_chunk = 27" by (simp add: write_chunk_def SerializeCommand_def Bulk_def to_string_nat.simps)
  show "TryParseOne write_chunk = \<lparr>pr_state = Complete, pr_consumed = 27, pr_args = [''SET'', ''k'', ''v''], pr_error = []\<rparr>"
    using parse_serialized [of "[''SET'', ''k'', ''v'']" "[]"] l by (simp add: write_chunk_def)
qed

lemma write_drain: "DrainCommands (Suc (Suc n)) True 0 \<lparr>cb_bytes = write_chunk, cb_offset = 0\<rparr> \<lparr>sq_items = [], sq_queued_bytes = 0\<rparr> =
   (\<lparr>cb_bytes = [], cb_offset = 0\<rparr>, \<lparr>sq_items = [make_queued 0 [''SET'', ''k'', ''v''] 27], sq_queued_bytes = 27\<rparr>,
    drain_start\<lparr>dr_enqueued := 1, dr_consumed_bytes := 27\<rparr>)"
proof -
  have "pr_state (TryParseOne []) = NeedMore" by (simp add: resp_eval resp_need_more_def)
  moreover have "qc_bytes (make_queued 0 [''SET'', ''k'', ''v''] 27) = 27"
    by (simp add: make_queued_def Let_def upper_verb_def AccountedBytes_def)
  ultimately show ?thesis
    by (simp add: DrainCommands_def drain_start_def SessionQueue_IsFull_def write_chunk_parse
        Limits_IsFull_def CommandBuffer_Next_def Enqueue_def Let_def)
qed

lemma write_message:
  "\<exists>sv. OnClientMessage mem_net_ops (clock_env 0) ''c'' write_chunk
     (OnClientConnection mem_net_ops ''c'' True (new_server demo_flags lone_leader mem_net_init)) = Ok () sv \<and>
   srv_writes sv = [\<lparr>qw_command = write_command, qw_conn = ''c'', qw_enqueued_at = 0\<rparr>] \<and>
   deliverable mem_net_ops ''c'' sv"
proof -
  let ?sv = "OnClientConnection mem_net_ops ''c'' True (new_server demo_flags lone_leader mem_net_init)"
  let ?in = "\<lparr>cb_bytes = write_chunk, cb_offset = 0\<rparr>"
  have 1: "?sv = (new_server demo_flags lone_leader mem_net_init)\<lparr>srv_sessions := [(''c'', new_session)]\<rparr>"
    by (simp add: OnClientConnection_def new_server_def demo_flags_def)
  have l: "length write_chunk = 27" "write_chunk \<noteq> []" using write_chunk_parse(1) by auto
  have 2: "OnClientMessage mem_net_ops (clock_env 0) ''c'' write_chunk ?sv =
      DrainClient mem_net_ops (clock_env 0) ''c'' ((new_server demo_flags lone_leader mem_net_init)
        \<lparr>srv_sessions := [(''c'', new_session\<lparr>cs_input := ?in, cs_stream := write_chunk\<rparr>)], srv_input_bytes := 27\<rparr>)"
    unfolding 1
    by (simp add: OnClientMessage_def session_def CommandBuffer_Append_def UnreadBytes_def new_session_def new_server_def upd_session_def l)
  have 3: "DrainCommands kMaxCommandsPerTurn True 0 ?in \<lparr>sq_items = [], sq_queued_bytes = 0\<rparr> =
      (\<lparr>cb_bytes = [], cb_offset = 0\<rparr>, \<lparr>sq_items = [make_queued 0 [''SET'', ''k'', ''v''] 27], sq_queued_bytes = 27\<rparr>,
       drain_start\<lparr>dr_enqueued := 1, dr_consumed_bytes := 27\<rparr>)"
    using write_drain [of 126] by simp
  have q: "qc_type (make_queued 0 [''SET'', ''k'', ''v''] 27) = WRITE" "qc_args (make_queued 0 [''SET'', ''k'', ''v''] 27) = [''SET'', ''k'', ''v'']"
    by (simp_all add: make_queued_def Let_def upper_verb_def toupper_def ClassifyCommand_def wrong_arity_def)
  have w: "SerializeCommand [''SET'', MakeKey (\<lambda>_. None) ''c'' ''k'', ''v''] = write_command" "length write_command = 35"
    by (simp_all add: write_command_def MakeKey_def GetNs_def kDefaultNs_def SerializeCommand_def Bulk_def to_string_nat.simps)
  show ?thesis
    unfolding 2
    by (simp add: DrainClient_def steady_eq session_def new_session_def 3 drain_start_def upd_session_def new_server_def
       resume_client_def mem_net_ops_def mem_net_init_def Let_def ExecuteNextCommand_def queued_commands_def command_loop.simps
       PopFront_def start_command_def ExecuteCommand_def q SubmitWrite_def WriteKeyIndex_def w lone_leader_def IsLeader_def
       ScheduleFlush_def demo_flags_def Flush_Request_def flush_init_def arm_flush_def settle.simps deliverable_def CanDeliverClientReply_def)
qed

abbreviation write_conns :: "string \<Rightarrow> port option" where
  "write_conns \<equiv> (\<lambda>_. None)(''c'' := Some ClientPort)"

abbreviation demo_write :: queued_write where
  "demo_write \<equiv> \<lparr>qw_command = write_command, qw_conn = ''c'', qw_enqueued_at = 0\<rparr>"

lemma write_reachable:
  "\<exists>sv. (server_step mem_net_ops (clock_env 0))\<^sup>*\<^sup>* (\<lambda>_. None, new_server demo_flags lone_leader mem_net_init) (write_conns, sv) \<and>
     srv_writes sv = [demo_write] \<and> deliverable mem_net_ops ''c'' sv"
proof -
  let ?up = "OnClientConnection mem_net_ops ''c'' True (new_server demo_flags lone_leader mem_net_init)"
  obtain sv where sv: "OnClientMessage mem_net_ops (clock_env 0) ''c'' write_chunk ?up = Ok () sv"
    "srv_writes sv = [demo_write]" "deliverable mem_net_ops ''c'' sv" using write_message by blast
  have "server_step mem_net_ops (clock_env 0) (\<lambda>_. None, new_server demo_flags lone_leader mem_net_init) (write_conns, ?up)"
    by (rule server_step.client_up) (simp_all add: new_server_def mem_net_ops_def mem_net_init_def mem_queued_def)
  moreover have "server_step mem_net_ops (clock_env 0) (write_conns, ?up) (write_conns, sv)"
    by (rule server_step.client_data [OF _ sv(1)]) simp
  ultimately show ?thesis using sv(2,3) by (meson r_into_rtranclp rtranclp.rtrancl_into_rtrancl)
qed

section \<open>Properties\<close>

text \<open>
  C22. No queued write is forgotten. In every reachable state with writes in the queue, the loop holds a
  task, or an armed timer that is not cancelled will queue one, whose token is current, and running
  that task flushes the queue.
\<close>

theorem queued_writes_flushed:
  assumes "(server_step N E)\<^sup>*\<^sup>* (\<lambda>_. None, new_server f n net) (L, sv)" and "srv_writes sv \<noteq> []"
  shows "\<exists>token p. (FlushTask token \<in> set (srv_tasks sv) \<or> token \<in> set (srv_timers sv)) \<and>
     run_task N E (FlushTask token) sv = FlushQueuedWrites N E (sv\<lparr>srv_flush_policy := p, srv_flush_timer := None\<rparr>)"
proof -
  have "flush_armed True sv" by (rule armed_reachable [OF assms(1)])
  with assms(2) show ?thesis
    by (intro exI [of _ "bf_generation (srv_flush_policy sv)"] exI [of _ "(srv_flush_policy sv)\<lparr>bf_pending := ActNone\<rparr>"])
      (auto simp: flush_armed_def OnFlush_def Flush_Consume_def)
qed

theorem queued_writes_flushed_witness:
  "\<exists>sv token p. srv_writes sv = [demo_write] \<and> (FlushTask token \<in> set (srv_tasks sv) \<or> token \<in> set (srv_timers sv)) \<and>
     run_task mem_net_ops (clock_env 0) (FlushTask token) sv =
       FlushQueuedWrites mem_net_ops (clock_env 0) (sv\<lparr>srv_flush_policy := p, srv_flush_timer := None\<rparr>)"
proof -
  obtain sv where "(server_step mem_net_ops (clock_env 0))\<^sup>*\<^sup>* (\<lambda>_. None, new_server demo_flags lone_leader mem_net_init) (write_conns, sv)"
    "srv_writes sv = [demo_write]" using write_reachable by blast
  with queued_writes_flushed [OF this(1)] show ?thesis by auto
qed

text \<open>
  C23. A flush takes writes from the front of the queue, in order, at most 128, and at least one if there
  are any. The batch holds those whose client can still be answered; it has at most 1 MiB, stops only
  when the next write does not fit, and passes the size checks of \<open>ProposeBatch\<close>.
\<close>

theorem flush_takes_prefix:
  assumes "muduo N" and "(server_step N E)\<^sup>*\<^sup>* (\<lambda>_. None, new_server f n net) (L, sv)"
    and "collect_writes kFlushMaxEntries N E [] sv = Ok batch sv'"
  shows "\<exists>taken. srv_writes sv = taken @ srv_writes sv' \<and> batch = filter (\<lambda>w. deliverable N (qw_conn w) sv) taken \<and>
     length taken \<le> kFlushMaxEntries \<and> (srv_writes sv \<noteq> [] \<longrightarrow> taken \<noteq> []) \<and>
     (\<forall>w ws. srv_writes sv' = w # ws \<longrightarrow> length taken = kFlushMaxEntries \<or> batch_size batch + length (qw_command w) > kFlushMaxBytes) \<and>
     batch_bytes (map pp_command (proposals_of k batch)) 0 = Some (batch_size batch) \<and>
     batch_size batch \<le> kFlushMaxBytes \<and> batch_size batch \<le> kMaxBatchBytes - 128 - length batch * 64"
proof -
  have small: "\<forall>w \<in> set (srv_writes sv). length (qw_command w) \<le> kMaxCommandBytes"
    using accounts_okD(10) [OF accounts_reachable [OF assms(1,2)]] by blast
  have "batch_size [] \<le> kFlushMaxBytes" by (simp add: batch_size_def)
  from collect_writes_spec [OF assms(3) small this] obtain taken where
    taken: "srv_writes sv = taken @ srv_writes sv'" "batch = filter (\<lambda>w. deliverable N (qw_conn w) sv) taken"
      "length taken \<le> kFlushMaxEntries" "batch_size batch \<le> kFlushMaxBytes"
      "\<forall>w ws. srv_writes sv' = w # ws \<longrightarrow> length taken = kFlushMaxEntries \<or> batch \<noteq> [] \<and> batch_size batch + length (qw_command w) > kFlushMaxBytes"
    by auto
  have "taken \<noteq> []" if "srv_writes sv \<noteq> []"
    using that taken(1,2,5) by (cases "srv_writes sv'") auto
  moreover have "batch_bytes (map qw_command batch) 0 = Some (0 + batch_size batch)"
    using small taken(1,2,4) by (intro batch_bytes_fits) auto
  moreover have "length batch \<le> 128" using taken(2,3) length_filter_le [of "\<lambda>w. deliverable N (qw_conn w) sv" taken] by (metis le_trans)
  ultimately show ?thesis using taken by (intro exI [of _ taken]) (auto simp: proposals_commands)
qed

lemma collect_one:
  assumes "srv_writes sv = [w]" and "deliverable N (qw_conn w) sv"
  shows "\<exists>sv'. collect_writes (Suc n) N E [] sv = Ok [w] sv' \<and> srv_writes sv' = []"
  using assms by (cases n) (simp_all add: Let_def steady_eq)

theorem flush_takes_prefix_witness:
  "\<exists>sv sv'. collect_writes kFlushMaxEntries mem_net_ops (clock_env 0) [] sv = Ok [demo_write] sv' \<and> srv_writes sv = [demo_write] \<and>
     batch_bytes (map pp_command (proposals_of 0 [demo_write])) 0 = Some 35"
proof -
  obtain sv where sv: "(server_step mem_net_ops (clock_env 0))\<^sup>*\<^sup>* (\<lambda>_. None, new_server demo_flags lone_leader mem_net_init) (write_conns, sv)"
    "srv_writes sv = [demo_write]" "deliverable mem_net_ops ''c'' sv" using write_reachable by blast
  obtain sv' where c: "collect_writes kFlushMaxEntries mem_net_ops (clock_env 0) [] sv = Ok [demo_write] sv'"
    using collect_one [OF sv(2), of mem_net_ops 127 "clock_env 0"] sv(3) by auto
  have "batch_size [demo_write] = 35"
    by (simp add: batch_size_def write_command_def MakeKey_def GetNs_def kDefaultNs_def SerializeCommand_def Bulk_def to_string_nat.simps)
  with flush_takes_prefix [OF memnet.muduo_axioms sv(1) c, of 0] sv(2) c show ?thesis by auto
qed

text \<open>
  C24. What the server proposes is what the state machine understands. In every reachable state, each
  queued write is at most 1 MiB and decodes to a command of the state machine on a key that belongs
  to a namespace, never to the keys that the machine keeps for itself.
\<close>

theorem queued_writes_decode:
  assumes "muduo N" and "(server_step N E)\<^sup>*\<^sup>* (\<lambda>_. None, new_server f n net) (L, sv)" and "w \<in> set (srv_writes sv)"
  shows "length (qw_command w) \<le> kMaxCommandBytes \<and> (\<exists>cmd. decode_command (qw_command w) = Some cmd \<and> cmd_key_ok cmd)"
  using accounts_okD(10) [OF accounts_reachable [OF assms(1,2)]] assms(3) by (auto simp: client_command_def)

theorem queued_writes_decode_witness:
  "\<exists>cmd. decode_command write_command = Some cmd \<and> cmd_key_ok cmd"
proof -
  obtain sv where sv: "(server_step mem_net_ops (clock_env 0))\<^sup>*\<^sup>* (\<lambda>_. None, new_server demo_flags lone_leader mem_net_init) (write_conns, sv)"
    "srv_writes sv = [demo_write]" using write_reachable by blast
  with queued_writes_decode [OF memnet.muduo_axioms sv(1), of demo_write] show ?thesis by simp
qed

end
