(* ===== verification/Spec2Isabelle.thy ===== *)
theory Spec2Isabelle
  imports Resp Commands SessionQueue Namespaces Codec Policies Cluster MetricsText Executor ServerWrites
begin

text \<open>
  A verification library for Raft-KV, a key-value store in C++ that is replicated with Raft over a
  fixed set of members. The sources are under \<open>src/src/\<close>, the messages in
  \<open>src/proto/raft_messages.proto\<close>.

  \<^bold>\<open>The program.\<close> One process runs one event loop. Clients send RESP commands over TCP; the server
  (\<open>server/main.cpp\<close>) decodes and queues them per connection, answers reads from the local store or
  after a ReadIndex round, and collects writes into batches that it proposes to the Raft node
  (\<open>raft/raft_node.cc\<close>). The node keeps its log, vote and snapshot in one RocksDB database
  (\<open>raftcore/raft_log.cc\<close>), replicates through the peer manager (\<open>raft/peer_manager.cc\<close>,
  \<open>raft/raft_codec.h\<close>), and applies committed commands to the state machine
  (\<open>raft/kv_state_machine.cc\<close>) over a second database (\<open>storage/rocksdb_store.cpp\<close>), on the loop or on
  the worker thread of the executor (\<open>raft/serial_apply_executor.cc\<close>). A second port serves metrics
  (\<open>common/prometheus_text.h\<close>).

  \<^bold>\<open>How it is modelled.\<close> A C++ object is a record; a method is a function on it that returns \<open>Ok\<close> with a
  result and the new state or \<open>Throw\<close> with the exception and the state it leaves (\<open>res\<close> in
  \<open>Prelude\<close>, with \<open>bindR\<close>, \<open>catchR\<close>, \<open>foldR\<close> for sequence, \<open>try\<close> and loops). A function that changes
  nothing returns \<open>exn + 'a\<close>. \<open>std::string\<close> is a list of characters; \<open>uint32_t\<close> and \<open>uint64_t\<close> are
  words; \<open>int64_t\<close> and \<open>int\<close> are integers with the range checks of the code written out, and the
  \<open>size_t\<close> accounts of the server are naturals with explicit wrap-around (\<open>size_add\<close>, \<open>size_sub\<close>).
  Definitions have the names of the source where HOL leaves them free.

  \<^bold>\<open>Parameters.\<close> What is not in the repository is an argument of the definitions, with its documented
  behaviour as a locale that is interpreted on an implementation in memory.
  \<^item> RocksDB: the record \<open>rocksdb_ops\<close> and the locale \<open>rocksdb\<close> in \<open>Storage\<close>. Any call may fail; a failed
    write leaves the database as it was or takes effect as a whole.
  \<^item> The protobuf encoding of a log entry, with its round trip: \<open>entry_codec\<close>, locale \<open>log_storage\<close> in
    \<open>RaftLog\<close>. The encodings of the RPC messages are \<open>proto_parsers\<close>; the node handles decoded messages.
  \<^item> muduo: the record \<open>muduo_ops\<close> and the locale \<open>muduo\<close> in \<open>Transport\<close>; \<open>muduo_closing\<close> in \<open>ServerOrder\<close>
    adds that no call reopens a connection.
  \<^item> The clock, the election timeouts, and whether the transport and the executor accept what they are
    given: the environment \<open>raft_env\<close> in \<open>RaftState\<close>, arbitrary functions of the number of questions
    asked so far.

  \<^bold>\<open>Theories.\<close>
  \<^item> \<open>Prelude\<close>: results, weakest preconditions, decimal numbers, big- and little-endian integers.
  \<^item> \<open>Resp\<close>, \<open>Commands\<close>, \<open>SessionQueue\<close>, \<open>Namespaces\<close>: \<open>common/resp_parser.h\<close>,
    \<open>common/command_buffer.h\<close>, \<open>common/command_type.h\<close>, \<open>common/session_queue.h\<close>,
    \<open>namespace/namespace_manager.cc\<close>. The decoder inverts the serialiser, its verdicts are stable
    under further input, draining takes the frames at the front until its limit, a full queue or a
    frame that is incomplete or invalid, and keys of different namespaces never meet.
  \<^item> \<open>Codec\<close>, \<open>Policies\<close>, \<open>MetricsText\<close>: \<open>raft/raft_codec.h\<close>; \<open>common/batch_flush_policy.h\<close>,
    \<open>common/peer_retry_policy.h\<close>, \<open>common/metrics.h\<close>; \<open>common/prometheus_text.h\<close>. The metrics text is the
    block of help, type and sample lines of every exported field, in order and with its value.
  \<^item> \<open>Storage\<close>, \<open>KVStore\<close>, \<open>KVStateMachine\<close>: \<open>storage/storage_error.h\<close>, \<open>storage/rocksdb_store.cpp\<close>,
    \<open>raft/kv_state_machine.cc\<close>. Batches are atomic and equal to their commands in sequence; the machine
    implements an abstract one with client sessions, so a retry in the same or a later batch gets the
    first reply and no second effect; snapshots transfer the whole state.
  \<^item> \<open>RaftLog\<close>: \<open>raftcore/raft_log.cc\<close>. Every operation implements an abstract log (entries above a
    snapshot base, hard state, staged installation), and reopening after any outcome gives the log
    before or after the operation.
  \<^item> \<open>RaftState\<close>, \<open>RaftReplication\<close>, \<open>RaftNode\<close>: \<open>raft/raft_node.h\<close>, \<open>raft/raft_node.cc\<close>,
    \<open>raft/peers.h\<close> and the messages. \<open>NodeFrame\<close>, \<open>NodeInv\<close>, \<open>NodeSteps\<close>, \<open>NodeRules\<close>, \<open>NodeApply\<close>,
    \<open>NodeRoles\<close>, \<open>NodeAppend\<close>, \<open>NodeSnapshot\<close> and \<open>NodeOps\<close> carry an invariant of the node over every
    operation, \<open>Applied\<close> and \<open>Recovery\<close> the applied state and restarts. \<open>NodeTheorems\<close> states the
    results: terms, votes, commit and applied positions never go back, the committed part of the log
    never changes, commits need a majority and an entry of the own term, commands are applied in log
    order and once, and a node can be restarted from whatever a failure left, with the contents of its
    store or of the snapshot it was about to install.
  \<^item> \<open>Cluster\<close>: the members together, over a network that loses, delays, repeats and reorders
    messages, with crashes and restarts at any point. A term has at most one leader.
  \<^item> \<open>Executor\<close>: both threads of \<open>raft/serial_apply_executor.cc\<close>, one step per critical section, and
    the contract of \<open>raft/apply_executor.h\<close>.
  \<^item> \<open>Transport\<close>, \<open>PeerManager\<close>: \<open>raft/peer_manager.cc\<close>. Frames reach the handler in order and once, a
    connection carries the messages of one peer, and output buffers are bounded.
  \<^item> \<open>Server\<close>, \<open>ServerLoop\<close>, \<open>ServerStart\<close>: \<open>server/main.cpp\<close>: sessions and commands; flushes, drains and
    the callbacks of both ports; configuration, start and the step relation \<open>server_step\<close> of the event
    loop. \<open>ServerInv\<close>, \<open>ServerOrder\<close> and \<open>ServerWrites\<close> show for every reachable state that the byte
    accounts are exact and bounded, that commands of a connection run one at a time in the order of
    their bytes, each answered before the next one starts, that queued writes always have a flush
    coming from a task or a timer that is not cancelled, that a flush
    takes a batch the node will not find too large, and that every queued write decodes to a command
    of the state machine on a client key.

  \<^bold>\<open>Bounds and termination.\<close> Every function is total. Loops over a queue, a batch or a range recurse
  on it. Three loops have a bound as an argument: \<open>drain_loop\<close> takes the limit of 128 commands of the
  code, \<open>collect_writes\<close> its limit of 128 writes, and \<open>command_loop\<close> the length of the connection's
  queue, from which every turn takes a command; \<open>ExecuteNextCommand_unfold\<close> gives back the
  recursion of the code, without the bound. \<open>settle\<close>, which runs ready callbacks that may run
  commands and make further callbacks ready, ends because a callback leaves the table or a command the
  queue. The apply loop of the node recurses on the distance to the commit index.

  \<^bold>\<open>Choices.\<close> The node reports completions as events, and the server runs the callbacks when the
  operation of the node has returned; the code calls them in the middle of it. The contract of
  \<open>RaftNode\<close> says that callbacks do not re-enter it; for the same reason the loop of
  \<open>TryStartReadRound\<close>, which runs again only when a callback has queued a read, is one turn. The handler
  of \<open>dispatch_loop\<close> works on its own state, and what it sends through the peer manager is a separate
  step of \<open>peer_step\<close>. A turn of \<open>DrainCommands\<close> reads the clock once, where the code reads it for every
  command it queues. The server and the peer manager each have their own view of the network, since
  they never use the same connection. A cancelled timer may fire at any later time or never; the code
  can see it fire only when it had expired before it was cancelled. RPC payloads that wait for a retry are kept as
  messages instead of bytes. A weak pointer to a session is the name of its connection.

  \<^bold>\<open>Not modelled.\<close> \<open>common/log.h\<close> writes lines to the standard error stream and nothing reads them.
  The command line parser, glog and \<open>main\<close> itself only fill the flags and print the exception that
  ended the process. Sockets, timers and threads of muduo are the network steps of \<open>server_step\<close> and
  the parameters above; compression of RocksDB, its options and its directory locks have no effect on
  what a read returns. Memory exhaustion is not an error of the model. For the cluster, the agreement
  of logs across members is not stated: the theorems about logs are about one member and its disk.
\<close>

end
